(* ===== verification/Prelude.thy ===== *)
theory Prelude
  imports Main "HOL-Library.Word" "HOL-Library.AList"
begin

text \<open>
  Shared vocabulary of the development.

  \<^item> Python exceptions are values: \<open>py_error\<close> has one constructor per exception class
    the modelled code can raise, and a fallible function returns \<open>py_error + 'a\<close>.  A
    message carries the fixed text of the source's message; interpolated values are left out.
  \<^item> \<open>bytes\<close> are lists of 8-bit words; building one from an integer outside
    \<open>0..255\<close> raises \<open>ValueError\<close> as \<open>bytes([n])\<close> does; an index out of range raises
    \<open>IndexError\<close>; a slice never raises.
  \<^item> \<open>struct.pack/unpack\<close> of big-endian 16, 32 and 64-bit fields.
  \<^item> A Python \<open>dict\<close> is an association list in insertion order (\<open>AList.update\<close> keeps the
    position of an existing key and appends a new one, as the language does).
  \<^item> Python \<open>str\<close> values are modelled over ASCII text, as \<open>string\<close>.

  Three interfaces are locales: a byte codec with its round-trip law, a step system with an
  invariant, and a keyed store with lookup-after-update laws.  Each component that provides one
  of them interprets it on its own definitions.
\<close>

unbundle bit_operations_syntax

section \<open>Errors as values\<close>

datatype py_error =
    ValueError string
  | IndexError
  | KeyError
  | StructError
  | OverflowError
  | TypeError
  | RuntimeError string
  | Raised string string \<comment> \<open>an exception class of the module itself, by its name\<close>

type_synonym 'a res = "py_error + 'a"

named_theorems res_simps \<open>unfolding of the error plumbing\<close>

fun rbind :: "'e + 'a \<Rightarrow> ('a \<Rightarrow> 'e + 'b) \<Rightarrow> 'e + 'b" where
  "rbind (Inl e) f = Inl e"
| "rbind (Inr x) f = f x"

lemma rbind_eq_Inr [res_simps]:
  "rbind m f = Inr y \<longleftrightarrow> (\<exists>x. m = Inr x \<and> f x = Inr y)"
  by (cases m) auto

lemma rbind_assoc: "rbind (rbind m f) g = rbind m (\<lambda>x. rbind (f x) g)"
  by (cases m) auto

lemma rbind_cong:
  "m = m' \<Longrightarrow> (\<And>x. m' = Inr x \<Longrightarrow> f x = f' x) \<Longrightarrow> rbind m f = rbind m' f'"
  by (cases m') auto

fun rmap :: "('a \<Rightarrow> 'e + 'b) \<Rightarrow> 'a list \<Rightarrow> 'e + 'b list" where
  \<comment> \<open>a list comprehension whose element may raise\<close>
  "rmap f [] = Inr []"
| "rmap f (x # xs) = rbind (f x) (\<lambda>y. rbind (rmap f xs) (\<lambda>ys. Inr (y # ys)))"

lemma rmap_map: "(\<And>x. x \<in> set xs \<Longrightarrow> f x = Inr (g x)) \<Longrightarrow> rmap f xs = Inr (map g xs)"
  by (induction xs) auto

section \<open>Bytes\<close>

type_synonym byte = "8 word"
type_synonym bytes = "byte list"

definition byte_of :: "nat \<Rightarrow> byte" where
  \<comment> \<open>the low eight bits of a non-negative integer\<close>
  "byte_of n = of_nat n"

definition py_byte :: "int \<Rightarrow> byte res" where
  "py_byte n = (if 0 \<le> n \<and> n < 256 then Inr (byte_of (nat n))
                else Inl (ValueError ''bytes must be in range(0, 256)''))"

definition idx :: "'a list \<Rightarrow> nat \<Rightarrow> 'a res" where
  "idx xs i = (if i < length xs then Inr (xs ! i) else Inl IndexError)"

definition slice :: "nat \<Rightarrow> nat \<Rightarrow> 'a list \<Rightarrow> 'a list" where
  "slice i j xs = drop i (take j xs)"

definition zeros :: "nat \<Rightarrow> bytes" where
  \<comment> \<open>\<open>bytes(n)\<close>\<close>
  "zeros n = replicate n (byte_of 0)"

lemma length_zeros [simp]: "length (zeros n) = n"
  by (simp add: zeros_def)

lemma py_byte_nat [simp]:
  "n < 256 \<Longrightarrow> py_byte (int n) = Inr (byte_of n)"
  by (simp add: py_byte_def)

lemma py_byte_big [res_simps]:
  "256 \<le> n \<Longrightarrow> py_byte (int n) = Inl (ValueError ''bytes must be in range(0, 256)'')"
  by (simp add: py_byte_def)

lemma py_byte_Inr: "py_byte n = Inr b \<longleftrightarrow> 0 \<le> n \<and> n < 256 \<and> b = byte_of (nat n)"
  by (auto simp: py_byte_def)

lemma unat_byte [simp]: "unat (b :: byte) < 256"
  using unsigned_less [of b, where 'a = nat] by simp

lemma unat_byte_le [simp]: "unat (b :: byte) \<le> 255"
  using unat_byte [of b] by linarith

lemma unat_byte_of [simp]: "unat (byte_of n) = n mod 256"
  by (simp add: byte_of_def unat_of_nat)

lemma byte_of_unat [simp]: "byte_of (unat b) = b"
  by (simp add: byte_of_def)

lemma byte_eq_iff: "(a :: byte) = b \<longleftrightarrow> unat a = unat b"
  by (simp add: word_unat_eq_iff)

fun py_bytes :: "int list \<Rightarrow> bytes res" where
  \<comment> \<open>the constructor \<open>bytes([...])\<close>\<close>
  "py_bytes [] = Inr []"
| "py_bytes (n # ns) = rbind (py_byte n) (\<lambda>b. rbind (py_bytes ns) (\<lambda>bs. Inr (b # bs)))"

lemma py_bytes_nat [simp]:
  "n < 256 \<Longrightarrow> py_bytes (int n # ns) = rbind (py_bytes ns) (\<lambda>bs. Inr (byte_of n # bs))"
  by (simp add: py_byte_nat)

lemma py_bytes_Inr_length: "py_bytes ns = Inr bs \<Longrightarrow> length bs = length ns"
  by (induction ns arbitrary: bs) (auto simp: res_simps)

lemma byte_of_eq_iff: "byte_of m = byte_of n \<longleftrightarrow> m mod 256 = n mod 256"
  by (simp add: byte_eq_iff)

lemma slice_append_middle [simp]:
  "i = length xs \<Longrightarrow> j = length xs + length ys \<Longrightarrow> slice i j (xs @ ys @ zs) = ys"
  by (simp add: slice_def)

lemma length_slice: "length (slice i j xs) = min j (length xs) - i"
  by (simp add: slice_def min_def)

lemma slice_Cons_Suc [simp]: "slice (Suc i) (Suc j) (x # xs) = slice i j xs"
  by (simp add: slice_def)

lemma slice_zero [simp]: "slice 0 j xs = take j xs"
  by (simp add: slice_def)

lemma slice_append_left: "i \<le> j \<Longrightarrow> j \<le> length xs \<Longrightarrow> slice i j (xs @ ys) = slice i j xs"
  by (simp add: slice_def)

lemma slice_append_right: "length xs \<le> i \<Longrightarrow> slice i j (xs @ ys) = slice (i - length xs) (j - length xs) ys"
  by (cases "length xs \<le> j") (simp_all add: slice_def)

lemma slice_join: "i \<le> j \<Longrightarrow> j \<le> k \<Longrightarrow> slice i j xs @ slice j k xs = slice i k xs"
proof -
  assume le: "i \<le> j" "j \<le> k"
  have "take k xs = take j xs @ drop j (take k xs)"
    using le by (metis append_take_drop_id min.absorb1 take_take)
  then have "drop i (take k xs) = drop i (take j xs) @ drop (i - length (take j xs)) (drop j (take k xs))"
    by (metis drop_append)
  moreover have "drop (i - length (take j xs)) (drop j (take k xs)) = drop j (take k xs)"
    using le by (cases "j \<le> length xs") auto
  ultimately show ?thesis by (simp add: slice_def)
qed

lemma slice_3 [simp]: "slice 3 (3 + n) (a # b # c # xs) = take n xs"
  by (simp add: slice_def numeral_3_eq_3)

lemma idx_Cons_0 [simp]: "idx (x # xs) 0 = Inr x"
  by (simp add: idx_def)

lemma idx_Cons_Suc [simp]: "idx (x # xs) (Suc i) = idx xs i"
  by (simp add: idx_def)

lemma idx_append_at: "i = length xs \<Longrightarrow> idx (xs @ y # ys) i = Inr y"
  by (simp add: idx_def nth_append)

lemma idx_append_right: "length xs \<le> i \<Longrightarrow> idx (xs @ ys) i = idx ys (i - length xs)"
  by (auto simp: idx_def nth_append)

section \<open>Bit fields of integers\<close>

lemma int_and_mask: "(a :: int) AND (2 ^ k - 1) = a mod 2 ^ k"
  by (simp flip: take_bit_eq_mod mask_eq_exp_minus_1 take_bit_eq_mask)

lemma nat_and_mask: "(a :: nat) AND (2 ^ k - 1) = a mod 2 ^ k"
  by (metis mask_eq_exp_minus_1 take_bit_eq_mask take_bit_eq_mod)

named_theorems mask_simps \<open>masks as remainders\<close>

lemma int_masks [mask_simps]:
  "(a :: int) AND 1 = a mod 2" "a AND 3 = a mod 4" "a AND 7 = a mod 8" "a AND 15 = a mod 16"
  "a AND 127 = a mod 128" "a AND 255 = a mod 256" "a AND 65535 = a mod 65536"
  using int_and_mask [of a 1] int_and_mask [of a 2] int_and_mask [of a 3] int_and_mask [of a 4]
    int_and_mask [of a 7] int_and_mask [of a 8] int_and_mask [of a 16] by simp_all

lemma nat_masks [mask_simps]:
  "(a :: nat) AND 1 = a mod 2" "a AND 3 = a mod 4" "a AND 7 = a mod 8" "a AND 15 = a mod 16"
  "a AND 127 = a mod 128" "a AND 255 = a mod 256" "a AND 65535 = a mod 65536"
  using nat_and_mask [of a 1] nat_and_mask [of a 2] nat_and_mask [of a 3] nat_and_mask [of a 4]
    nat_and_mask [of a 7] nat_and_mask [of a 8] nat_and_mask [of a 16] by simp_all

lemma nat_shift_or: "(a :: nat) < 2 ^ k \<Longrightarrow> push_bit k b OR a = b * 2 ^ k + a"
proof -
  assume "a < 2 ^ k"
  then have "push_bit k b AND a = 0"
    by (auto simp: bit_eq_iff bit_simps dest: bit_imp_le_length)
       (metis bit_take_bit_iff linorder_not_less take_bit_nat_eq_self)
  then show ?thesis
    by (simp add: push_bit_eq_mult flip: disjunctive_add_eq_or)
qed

lemma int_shift_or: "0 \<le> a \<Longrightarrow> (a :: int) < 2 ^ k \<Longrightarrow> push_bit k b OR a = b * 2 ^ k + a"
proof -
  assume "0 \<le> a" "a < 2 ^ k"
  then have "push_bit k b AND a = 0"
    by (auto simp: bit_eq_iff bit_simps)
       (metis bit_take_bit_iff linorder_not_less take_bit_int_eq_self)
  then show ?thesis
    by (simp add: push_bit_eq_mult flip: disjunctive_add_eq_or)
qed

section \<open>Big-endian fields\<close>

text \<open>\<open>be_enc k n\<close> is the \<open>k\<close> low octets of \<open>n\<close>, most significant first.\<close>

fun be_enc :: "nat \<Rightarrow> nat \<Rightarrow> bytes" where
  "be_enc 0 n = []"
| "be_enc (Suc k) n = be_enc k (n div 256) @ [byte_of n]"

definition be_val :: "bytes \<Rightarrow> nat" where
  "be_val bs = foldl (\<lambda>a b. a * 256 + unat b) 0 bs"

lemma length_be_enc [simp]: "length (be_enc k n) = k"
  by (induction k arbitrary: n) auto

lemma be_val_snoc [simp]: "be_val (bs @ [b]) = be_val bs * 256 + unat b"
  by (simp add: be_val_def)

lemma be_val_Nil [simp]: "be_val [] = 0"
  by (simp add: be_val_def)

lemma be_val_single [simp]: "be_val [a] = unat a"
  by (simp add: be_val_def)

lemma be_val_two: "be_val [a, b] = unat a * 256 + unat b"
  by (simp add: be_val_def)

lemma be_enc_4:
  "be_enc 4 n = [byte_of (n div 256 div 256 div 256), byte_of (n div 256 div 256),
                 byte_of (n div 256), byte_of n]"
proof -
  have "(4 :: nat) = Suc (Suc (Suc (Suc 0)))" by simp
  then show ?thesis by (simp only: be_enc.simps append.simps)
qed

lemma be_val_be_enc: "be_val (be_enc k n) = n mod 256 ^ k"
proof (induction k arbitrary: n)
  case 0
  then show ?case by simp
next
  case (Suc k)
  have "be_val (be_enc (Suc k) n) = (n div 256) mod 256 ^ k * 256 + n mod 256"
    by (simp add: Suc)
  also have "\<dots> = n mod (256 * 256 ^ k)"
    by (simp add: mod_mult2_eq)
  finally show ?case by simp
qed

lemma be_val_bound: "be_val bs < 256 ^ length bs"
proof (induction bs rule: rev_induct)
  case Nil
  then show ?case by simp
next
  case (snoc b bs)
  have carry: "(v + 1 :: nat) \<le> X \<Longrightarrow> u < 256 \<Longrightarrow> v * 256 + u < X * 256" for v X u
    by linarith
  have "be_val bs * 256 + unat b < 256 ^ length bs * 256"
    using snoc by (intro carry) simp_all
  then show ?case by simp
qed

lemma be_enc_be_val: "length bs = k \<Longrightarrow> be_enc k (be_val bs) = bs"
proof (induction bs arbitrary: k rule: rev_induct)
  case Nil
  then show ?case by simp
next
  case (snoc b bs)
  have "(be_val bs * 256 + unat b) div 256 = be_val bs" by simp
  moreover have "byte_of (be_val bs * 256 + unat b) = b"
    by (simp add: byte_eq_iff)
  ultimately show ?case using snoc by (cases k) auto
qed

definition pack_be :: "nat \<Rightarrow> int \<Rightarrow> bytes res" where
  \<comment> \<open>\<open>struct.pack\<close> of one unsigned big-endian field of \<open>k\<close> octets\<close>
  "pack_be k n = (if 0 \<le> n \<and> n < 256 ^ k then Inr (be_enc k (nat n)) else Inl StructError)"

definition unpack_be :: "nat \<Rightarrow> bytes \<Rightarrow> nat res" where
  \<comment> \<open>\<open>struct.unpack\<close>: the buffer must have exactly the field's length\<close>
  "unpack_be k bs = (if length bs = k then Inr (be_val bs) else Inl StructError)"

abbreviation pack_H :: "int \<Rightarrow> bytes res" where "pack_H \<equiv> pack_be 2"
abbreviation pack_I :: "int \<Rightarrow> bytes res" where "pack_I \<equiv> pack_be 4"
abbreviation pack_Q :: "int \<Rightarrow> bytes res" where "pack_Q \<equiv> pack_be 8"
abbreviation unpack_H :: "bytes \<Rightarrow> nat res" where "unpack_H \<equiv> unpack_be 2"
abbreviation unpack_I :: "bytes \<Rightarrow> nat res" where "unpack_I \<equiv> unpack_be 4"
abbreviation unpack_Q :: "bytes \<Rightarrow> nat res" where "unpack_Q \<equiv> unpack_be 8"

lemma pack_be_nat: "n < 256 ^ k \<Longrightarrow> pack_be k (int n) = Inr (be_enc k n)"
proof -
  assume "n < 256 ^ k"
  then have "int n < int (256 ^ k)" by (simp only: of_nat_less_iff)
  then show ?thesis by (simp add: pack_be_def)
qed

lemma pack_be_Inr:
  "pack_be k n = Inr bs \<longleftrightarrow> 0 \<le> n \<and> n < 256 ^ k \<and> bs = be_enc k (nat n)"
  by (auto simp: pack_be_def)

lemma pack_be_length: "pack_be k n = Inr bs \<Longrightarrow> length bs = k"
  by (auto simp: pack_be_Inr)

lemma unpack_pack: "pack_be k n = Inr bs \<Longrightarrow> unpack_be k bs = Inr (nat n)"
proof -
  assume "pack_be k n = Inr bs"
  then have "0 \<le> n" "n < 256 ^ k" and bs: "bs = be_enc k (nat n)"
    by (auto simp: pack_be_Inr)
  then have "nat n < 256 ^ k" by (simp add: nat_less_iff)
  with bs show ?thesis by (simp add: unpack_be_def be_val_be_enc)
qed

definition packs :: "(nat \<times> int) list \<Rightarrow> bytes res" where
  \<comment> \<open>\<open>struct.pack\<close> of several big-endian fields, each with its width in octets\<close>
  "packs fs = rbind (rmap (\<lambda>(k, n). pack_be k n) fs) (\<lambda>bs. Inr (concat bs))"

lemma packs_Inr: "list_all (\<lambda>(k, n). 0 \<le> n \<and> n < 256 ^ k) fs \<Longrightarrow>
    packs fs = Inr (concat (map (\<lambda>(k, n). be_enc k (nat n)) fs))"
proof -
  assume "list_all (\<lambda>(k, n). 0 \<le> n \<and> n < 256 ^ k) fs"
  then have "rmap (\<lambda>(k, n). pack_be k n) fs = Inr (map (\<lambda>(k, n). be_enc k (nat n)) fs)"
    by (intro rmap_map) (auto simp: list_all_iff pack_be_def)
  then show ?thesis by (simp add: packs_def)
qed

lemma unpack_be_enc [simp]: "n < 256 ^ k \<Longrightarrow> unpack_be k (be_enc k n) = Inr n"
  by (simp add: unpack_be_def be_val_be_enc)

lemma pack_H_nat [simp]: "n < 65536 \<Longrightarrow> pack_H (int n) = Inr (be_enc 2 n)"
  by (rule pack_be_nat) simp

lemma pack_I_nat: "n < 4294967296 \<Longrightarrow> pack_I (int n) = Inr (be_enc 4 n)"
  by (rule pack_be_nat) simp

lemma be_val_enc_2 [simp]: "n < 65536 \<Longrightarrow> be_val (be_enc 2 n) = n"
  by (simp add: be_val_be_enc)

lemma take_be_enc [simp]: "take k (be_enc k n @ xs) = be_enc k n" "drop k (be_enc k n @ xs) = xs"
  by simp_all

section \<open>Python dictionaries\<close>

type_synonym ('k, 'v) dict = "('k \<times> 'v) list"

abbreviation dict_get :: "('k, 'v) dict \<Rightarrow> 'k \<Rightarrow> 'v option" where
  "dict_get \<equiv> map_of"

definition dict_set :: "'k \<Rightarrow> 'v \<Rightarrow> ('k, 'v) dict \<Rightarrow> ('k, 'v) dict" where
  "dict_set = AList.update"

definition dict_del :: "'k \<Rightarrow> ('k, 'v) dict \<Rightarrow> ('k, 'v) dict" where
  "dict_del = AList.delete"

definition dict_ok :: "('k, 'v) dict \<Rightarrow> bool" where
  "dict_ok d \<longleftrightarrow> distinct (map fst d)"

lemma dict_get_set [simp]: "dict_get (dict_set k v d) = (dict_get d)(k \<mapsto> v)"
  by (simp add: dict_set_def update_conv')

lemma dict_get_del [simp]: "dict_get (dict_del k d) = (dict_get d)(k := None)"
  by (simp add: dict_del_def delete_conv')

lemma dict_ok_set [simp, intro]: "dict_ok d \<Longrightarrow> dict_ok (dict_set k v d)"
  by (simp add: dict_ok_def dict_set_def distinct_update)

lemma dict_ok_del [simp, intro]: "dict_ok d \<Longrightarrow> dict_ok (dict_del k d)"
  by (simp add: dict_ok_def dict_del_def distinct_delete)

lemma dict_ok_Nil [simp, intro]: "dict_ok []"
  by (simp add: dict_ok_def)

lemma dict_get_in_set: "dict_ok d \<Longrightarrow> dict_get d k = Some v \<longleftrightarrow> (k, v) \<in> set d"
  by (simp add: dict_ok_def)

lemma dict_set_mem: "x \<in> set (dict_set k v d) \<Longrightarrow> x = (k, v) \<or> x \<in> set d"
  unfolding dict_set_def by (induction d) (auto split: if_splits)

lemma dict_set_mem_iff:
  "dict_ok d \<Longrightarrow> x \<in> set (dict_set k v d) \<longleftrightarrow> x = (k, v) \<or> (x \<in> set d \<and> fst x \<noteq> k)"
  unfolding dict_set_def dict_ok_def by (induction d) (auto simp: rev_image_eqI split: if_splits)

lemma dict_del_mem [simp]: "x \<in> set (dict_del k d) \<longleftrightarrow> x \<in> set d \<and> fst x \<noteq> k"
  by (auto simp: dict_del_def AList.delete_eq)

lemma dict_set_new: "dict_get d k = None \<Longrightarrow> dict_set k v d = d @ [(k, v)]"
  unfolding dict_set_def by (induction d) (auto split: if_splits)

section \<open>Strings\<close>

definition starts_with :: "string \<Rightarrow> string \<Rightarrow> bool" where
  "starts_with s p \<longleftrightarrow> take (length p) s = p"

definition ends_with :: "string \<Rightarrow> string \<Rightarrow> bool" where
  "ends_with s p \<longleftrightarrow> length p \<le> length s \<and> drop (length s - length p) s = p"

definition is_digit :: "char \<Rightarrow> bool" where
  "is_digit c \<longleftrightarrow> 48 \<le> (of_char c :: nat) \<and> (of_char c :: nat) \<le> 57"

definition digit_val :: "char \<Rightarrow> nat" where
  "digit_val c = of_char c - 48"

definition digit_char :: "nat \<Rightarrow> char" where
  "digit_char n = char_of (n + 48)"

definition str_isdigit :: "string \<Rightarrow> bool" where
  "str_isdigit s \<longleftrightarrow> s \<noteq> [] \<and> list_all is_digit s"

lemma digit_char_val [simp]: "is_digit c \<Longrightarrow> digit_char (digit_val c) = c"
  by (simp add: is_digit_def digit_val_def digit_char_def)

lemma digit_val_char [simp]: "n \<le> 9 \<Longrightarrow> digit_val (digit_char n) = n"
  by (simp add: digit_val_def digit_char_def)

lemma digit_val_le [simp]: "is_digit c \<Longrightarrow> digit_val c \<le> 9"
  by (simp only: is_digit_def digit_val_def) linarith

lemma is_digit_char [simp]: "n \<le> 9 \<Longrightarrow> is_digit (digit_char n)"
  by (simp add: is_digit_def digit_char_def)

fun split_on :: "char \<Rightarrow> string \<Rightarrow> string list" where
  \<comment> \<open>\<open>str.split(sep)\<close> for a one-character separator: always at least one part\<close>
  "split_on c [] = [[]]"
| "split_on c (x # xs) =
     (if x = c then [] # split_on c xs
      else (case split_on c xs of [] \<Rightarrow> [[x]] | p # ps \<Rightarrow> (x # p) # ps))"

lemma split_on_nonempty [simp]: "split_on c s \<noteq> []"
  by (induction s) (auto split: list.splits)

lemma split_on_no_sep: "c \<notin> set s \<Longrightarrow> split_on c s = [s]"
  by (induction s) auto

lemma split_on_append:
  "c \<notin> set s \<Longrightarrow> split_on c (s @ c # t) = s # split_on c t"
  by (induction s) auto

fun join_with :: "char \<Rightarrow> string list \<Rightarrow> string" where
  "join_with c [] = []"
| "join_with c [p] = p"
| "join_with c (p # ps) = p @ c # join_with c ps"

lemma join_split [simp]: "join_with c (split_on c s) = s"
proof (induction s)
  case Nil
  then show ?case by simp
next
  case (Cons x s)
  then show ?case
    by (cases "split_on c s"; cases "tl (split_on c s)") (auto simp: neq_Nil_conv)
qed

lemma join_append: "ps \<noteq> [] \<Longrightarrow> qs \<noteq> [] \<Longrightarrow> join_with c (ps @ qs) = join_with c ps @ c # join_with c qs"
  by (induction c ps rule: join_with.induct) (auto simp: neq_Nil_conv)

lemma split_on_inj: "split_on c s = split_on c t \<longleftrightarrow> s = t"
  by (metis join_split)

lemma split_on_sep: "split_on c (s @ c # t) = split_on c s @ split_on c t"
  by (induction s) (auto split: list.splits)

definition is_space :: "char \<Rightarrow> bool" where
  \<comment> \<open>ASCII white space as \<open>str.strip\<close> and \<open>int\<close> skip it\<close>
  "is_space c \<longleftrightarrow> (let n = (of_char c :: nat) in n = 32 \<or> 9 \<le> n \<and> n \<le> 13 \<or> 28 \<le> n \<and> n \<le> 31)"

definition py_strip :: "string \<Rightarrow> string" where
  "py_strip s = rev (dropWhile is_space (rev (dropWhile is_space s)))"

lemma dropWhile_none: "\<forall>c \<in> set p. \<not> P c \<Longrightarrow> dropWhile P p = p"
  by (cases p) auto

lemma strip_no_space: "\<forall>c \<in> set p. \<not> is_space c \<Longrightarrow> py_strip p = p"
  by (simp add: py_strip_def dropWhile_none)

fun digits_val :: "nat \<Rightarrow> string \<Rightarrow> nat option" where
  \<comment> \<open>decimal digits, single underscores allowed between two of them\<close>
  "digits_val acc [] = Some acc"
| "digits_val acc (c # cs) =
     (if is_digit c then digits_val (acc * 10 + digit_val c) cs
      else if c = CHR ''_'' then
        (case cs of d # ds \<Rightarrow> if is_digit d then digits_val (acc * 10 + digit_val d) ds else None
         | [] \<Rightarrow> None)
      else None)"

definition py_int_str :: "string \<Rightarrow> int option" where
  \<comment> \<open>\<open>int(s)\<close> of a string; \<open>None\<close> where it raises \<open>ValueError\<close>\<close>
  "py_int_str s =
     (let t = py_strip s;
          neg = (t \<noteq> [] \<and> hd t = CHR ''-'');
          u = (if t \<noteq> [] \<and> (hd t = CHR ''-'' \<or> hd t = CHR ''+'') then tl t else t)
      in if u = [] \<or> \<not> is_digit (hd u) then None
         else map_option (\<lambda>n. if neg then - int n else int n) (digits_val 0 u))"

fun dec_str :: "nat \<Rightarrow> string" where
  \<comment> \<open>\<open>str(n)\<close> of a non-negative integer\<close>
  "dec_str n = (if n < 10 then [digit_char n] else dec_str (n div 10) @ [digit_char (n mod 10)])"

declare dec_str.simps [simp del]

lemma dec_str_digits: "list_all is_digit (dec_str n)"
  by (induction n rule: dec_str.induct) (subst dec_str.simps, simp)

lemma dec_str_nonempty [simp]: "dec_str n \<noteq> []"
  by (subst dec_str.simps) simp

lemma digits_val_fold:
  "list_all is_digit s \<Longrightarrow> digits_val acc s = Some (foldl (\<lambda>a c. a * 10 + digit_val c) acc s)"
  by (induction s arbitrary: acc) auto

lemma dec_str_val: "foldl (\<lambda>a c. a * 10 + digit_val c) 0 (dec_str n) = n"
proof (induction n rule: dec_str.induct)
  case (1 n)
  show ?case
  proof (cases "n < 10")
    case True
    then show ?thesis by (subst dec_str.simps) simp
  next
    case False
    with 1 show ?thesis by (subst dec_str.simps) simp
  qed
qed

lemma digit_not_space: "is_digit c \<Longrightarrow> \<not> is_space c"
  by (auto simp: is_digit_def is_space_def Let_def)

lemma digit_not_sign: "is_digit c \<Longrightarrow> c \<noteq> CHR ''-'' \<and> c \<noteq> CHR ''+''"
  by (auto simp: is_digit_def)

lemma py_int_digits:
  assumes "list_all is_digit s" "s \<noteq> []"
  shows "py_int_str s = Some (int (foldl (\<lambda>a c. a * 10 + digit_val c) 0 s))"
proof -
  have "py_strip s = s"
    using assms(1) by (intro strip_no_space) (auto simp: list_all_iff digit_not_space)
  moreover obtain c cs where s: "s = c # cs" and c: "is_digit c"
    using assms by (cases s) auto
  ultimately show ?thesis
    using digits_val_fold [OF assms(1), of 0] digit_not_sign [OF c]
    by (simp add: py_int_str_def s c)
qed

lemma py_int_dec_str [simp]: "py_int_str (dec_str n) = Some (int n)"
  by (simp add: py_int_digits dec_str_digits dec_str_val)

section \<open>Interfaces\<close>

text \<open>
  A codec: a fallible encoder, a fallible decoder, and the values the format can carry.
\<close>

locale codec =
  fixes enc :: "'a \<Rightarrow> bytes res"
    and dec :: "bytes \<Rightarrow> 'a res"
    and ok :: "'a \<Rightarrow> bool"
  assumes enc_total: "ok x \<Longrightarrow> \<exists>bs. enc x = Inr bs"
    and dec_enc: "ok x \<Longrightarrow> enc x = Inr bs \<Longrightarrow> dec bs = Inr x"
begin

lemma roundtrip: "ok x \<Longrightarrow> rbind (enc x) dec = Inr x"
  using enc_total [of x] dec_enc [of x] by auto

lemma enc_inj: "ok x \<Longrightarrow> ok y \<Longrightarrow> enc x = enc y \<Longrightarrow> x = y"
  using enc_total [of x] dec_enc [of x] dec_enc [of y] by auto

end

text \<open>
  A deterministic machine whose operations keep an invariant; the invariant then holds after
  any sequence of operations.
\<close>

locale step_system =
  fixes step :: "'s \<Rightarrow> 'op \<Rightarrow> 's"
    and inv :: "'s \<Rightarrow> bool"
  assumes step_inv: "inv s \<Longrightarrow> inv (step s op)"
begin

lemma run_inv: "inv s \<Longrightarrow> inv (foldl step s ops)"
  by (induction ops arbitrary: s) (auto intro: step_inv)

lemma run_snoc_inv: "inv s \<Longrightarrow> inv (step (foldl step s ops) op)"
  by (intro step_inv run_inv)

end

text \<open>A keyed store: what a lookup returns after an update or a removal.\<close>

locale kv_store =
  fixes get :: "'m \<Rightarrow> 'k \<Rightarrow> 'v option"
    and put :: "'k \<Rightarrow> 'v \<Rightarrow> 'm \<Rightarrow> 'm"
    and del :: "'k \<Rightarrow> 'm \<Rightarrow> 'm"
  assumes get_put: "get (put k v m) j = (if j = k then Some v else get m j)"
    and get_del: "get (del k m) j = (if j = k then None else get m j)"
begin

lemma get_put_same: "get (put k v m) k = Some v"
  by (simp add: get_put)

lemma get_put_other: "j \<noteq> k \<Longrightarrow> get (put k v m) j = get m j"
  by (simp add: get_put)

lemma get_del_put: "get (del k (put k v m)) j = get (del k m) j"
  by (simp add: get_put get_del)

lemma get_put_put: "get (put k v (put k w m)) j = get (put k v m) j"
  by (simp add: get_put)

end

interpretation dict: kv_store dict_get dict_set dict_del
  by unfold_locales auto

end
