(* ===== verification/Sms.thy ===== *)
theory Sms
  imports Prelude
begin

text \<open>
  The SMS-over-NAS codec of \<open>tester/src/protocol/sms_codec.py\<close>: TP and RP addresses, the CP
  layer, the RP layer, the SMS-SUBMIT TPDU and the packing of 7-bit septets.  Every function of
  the module is a definition here, in the module's order, under the source's name.
\<close>

section \<open>Constants\<close>

definition CP_DATA :: nat where "CP_DATA = 1"
definition CP_ACK :: nat where "CP_ACK = 4"
definition CP_ERROR :: nat where "CP_ERROR = 16"
definition RP_DATA_MS_TO_NET :: nat where "RP_DATA_MS_TO_NET = 0"
definition RP_DATA_NET_TO_MS :: nat where "RP_DATA_NET_TO_MS = 1"
definition RP_ACK_MS_TO_NET :: nat where "RP_ACK_MS_TO_NET = 2"
definition RP_ACK_NET_TO_MS :: nat where "RP_ACK_NET_TO_MS = 3"
definition RP_ERROR_MS_TO_NET :: nat where "RP_ERROR_MS_TO_NET = 4"
definition RP_ERROR_NET_TO_MS :: nat where "RP_ERROR_NET_TO_MS = 5"
definition PD_SMS :: int where "PD_SMS = 9"

lemmas sms_consts = CP_DATA_def CP_ACK_def CP_ERROR_def RP_DATA_MS_TO_NET_def
  RP_DATA_NET_TO_MS_def RP_ACK_MS_TO_NET_def RP_ACK_NET_TO_MS_def RP_ERROR_MS_TO_NET_def
  RP_ERROR_NET_TO_MS_def PD_SMS_def

section \<open>TP-Address and RP-Address\<close>

definition py_int_digit :: "char \<Rightarrow> nat res" where
  \<comment> \<open>\<open>int(c)\<close> of a one-character string\<close>
  "py_int_digit c = (if is_digit c then Inr (digit_val c)
                     else Inl (ValueError ''invalid literal for int() with base 10''))"

fun bcd_encode :: "string \<Rightarrow> bytes res" where
  \<comment> \<open>the digit loop shared by both address encoders; a missing last digit is the fill 0xF\<close>
  "bcd_encode [] = Inr []"
| "bcd_encode [c] = rbind (py_int_digit c) (\<lambda>d1.
     py_bytes [int (push_bit 4 15 OR (d1 AND 15))])"
| "bcd_encode (c # c' # cs) = rbind (py_int_digit c) (\<lambda>d1. rbind (py_int_digit c') (\<lambda>d2.
     rbind (py_bytes [int (push_bit 4 (d2 AND 15) OR (d1 AND 15))]) (\<lambda>b.
     rbind (bcd_encode cs) (\<lambda>bs. Inr (b @ bs)))))"

definition bcd_digits :: "bytes \<Rightarrow> string" where
  "bcd_digits bcd = concat (map (\<lambda>b.
     let lo = unat b AND 15; hi = drop_bit 4 (unat b) AND 15
     in (if lo \<le> 9 then [digit_char lo] else []) @ (if hi \<le> 9 then [digit_char hi] else [])) bcd)"

definition toa_of :: "string \<Rightarrow> int" where
  "toa_of msisdn = (if starts_with msisdn ''+'' then 0x91 else 0x81)"

definition strip_plus :: "string \<Rightarrow> string" where
  \<comment> \<open>\<open>msisdn.lstrip("+")\<close>\<close>
  "strip_plus = dropWhile (\<lambda>c. c = CHR ''+'')"

definition is_international :: "byte \<Rightarrow> bool" where
  "is_international toa \<longleftrightarrow> drop_bit 4 (unat toa) AND 7 = 1"

definition encode_tp_address :: "string \<Rightarrow> bytes res" where
  "encode_tp_address msisdn =
     (let toa = toa_of msisdn; digits = strip_plus msisdn in
      rbind (bcd_encode digits) (\<lambda>bcd.
      rbind (py_bytes [int (length digits), toa]) (\<lambda>h. Inr (h @ bcd))))"

definition decode_tp_address :: "bytes \<Rightarrow> nat \<Rightarrow> (string \<times> nat) res" where
  "decode_tp_address data offset =
     rbind (idx data offset) (\<lambda>num_digits.
     rbind (idx data (offset + 1)) (\<lambda>toa.
     let bcd_bytes = (unat num_digits + 1) div 2;
         bcd = slice (offset + 2) (offset + 2 + bcd_bytes) data;
         msisdn = take (unat num_digits) (bcd_digits bcd)
     in Inr (if is_international toa then CHR ''+'' # msisdn else msisdn, 2 + bcd_bytes)))"

definition encode_rp_address :: "string \<Rightarrow> bytes res" where
  "encode_rp_address msisdn =
     (if msisdn = [] then Inr []
      else let toa = toa_of msisdn; digits = strip_plus msisdn in
        rbind (bcd_encode digits) (\<lambda>bcd.
        rbind (py_bytes [toa]) (\<lambda>h. Inr (h @ bcd))))"

definition decode_rp_address :: "bytes \<Rightarrow> string" where
  "decode_rp_address contents =
     (case contents of [] \<Rightarrow> []
      | toa # bcd \<Rightarrow> let msisdn = bcd_digits bcd
                     in if is_international toa then CHR ''+'' # msisdn else msisdn)"

section \<open>CP layer\<close>

record cp_message =
  cp_ti :: nat
  cp_msg_type :: nat
  cp_user_data :: bytes
  cp_cause :: nat

definition cp_pd_ti :: "int \<Rightarrow> int" where
  "cp_pd_ti ti = push_bit 4 (ti AND 15) OR PD_SMS"

definition encode_cp_data :: "int \<Rightarrow> bytes \<Rightarrow> bytes res" where
  "encode_cp_data ti rp_pdu =
     rbind (py_bytes [cp_pd_ti ti, int CP_DATA, int (length rp_pdu)]) (\<lambda>h. Inr (h @ rp_pdu))"

definition encode_cp_ack :: "int \<Rightarrow> bytes res" where
  "encode_cp_ack ti = py_bytes [cp_pd_ti ti, int CP_ACK]"

definition encode_cp_error :: "int \<Rightarrow> int \<Rightarrow> bytes res" where
  "encode_cp_error ti cause = py_bytes [cp_pd_ti ti, int CP_ERROR, cause AND 255]"

definition decode_cp :: "bytes \<Rightarrow> cp_message res" where
  "decode_cp data =
     (if length data < 2 then Inl (ValueError ''CP PDU too short'')
      else let pd_ti = unat (data ! 0) in
      if int (pd_ti AND 15) \<noteq> PD_SMS then Inl (ValueError ''CP: bad protocol discriminator'')
      else let msg = \<lparr>cp_ti = drop_bit 4 pd_ti AND 15, cp_msg_type = unat (data ! 1),
                      cp_user_data = [], cp_cause = 0\<rparr> in
      if cp_msg_type msg = CP_DATA then
        (if length data < 3 then Inl (ValueError ''CP-DATA: missing CP-User data IE'')
         else let ud_len = unat (data ! 2) in
           if length data < 3 + ud_len then Inl (ValueError ''CP-DATA: declared len > remaining'')
           else Inr (msg\<lparr>cp_user_data := slice 3 (3 + ud_len) data\<rparr>))
      else if cp_msg_type msg = CP_ACK then Inr msg
      else if cp_msg_type msg = CP_ERROR then
        (if length data < 3 then Inl (ValueError ''CP-ERROR: missing CP-Cause'')
         else Inr (msg\<lparr>cp_cause := unat (data ! 2)\<rparr>))
      else Inl (ValueError ''CP: unknown message type''))"

section \<open>RP layer\<close>

record rp_message =
  rp_mti :: nat
  rp_reference :: nat
  rp_oa :: string
  rp_da :: string
  rp_user_data :: bytes
  rp_cause :: nat

definition rp_address_lv :: "string \<Rightarrow> bytes res" where
  \<comment> \<open>the \<open>if smsc\<close> block of both RP-DATA encoders: length octet and address contents\<close>
  "rp_address_lv smsc =
     (if smsc \<noteq> [] then rbind (encode_rp_address smsc) (\<lambda>a.
        rbind (py_bytes [int (length a)]) (\<lambda>l. Inr (l @ a)))
      else py_bytes [0])"

definition encode_rp_data_ms_to_net :: "int \<Rightarrow> string \<Rightarrow> bytes \<Rightarrow> bytes res" where
  "encode_rp_data_ms_to_net reference smsc tpdu =
     rbind (py_bytes [int RP_DATA_MS_TO_NET, reference AND 255, 0]) (\<lambda>h.
     rbind (rp_address_lv smsc) (\<lambda>da.
     rbind (py_bytes [int (length tpdu)]) (\<lambda>l. Inr (h @ da @ l @ tpdu))))"

definition encode_rp_data_net_to_ms :: "int \<Rightarrow> string \<Rightarrow> bytes \<Rightarrow> bytes res" where
  "encode_rp_data_net_to_ms reference smsc tpdu =
     rbind (py_bytes [int RP_DATA_NET_TO_MS, reference AND 255]) (\<lambda>h.
     rbind (rp_address_lv smsc) (\<lambda>oa.
     rbind (py_bytes [0, int (length tpdu)]) (\<lambda>l. Inr (h @ oa @ l @ tpdu))))"

definition encode_rp_ack :: "int \<Rightarrow> bool \<Rightarrow> bytes res" where
  "encode_rp_ack reference net_to_ms =
     py_bytes [int (if net_to_ms then RP_ACK_NET_TO_MS else RP_ACK_MS_TO_NET), reference AND 255]"

definition encode_rp_error :: "int \<Rightarrow> int \<Rightarrow> bool \<Rightarrow> bytes res" where
  "encode_rp_error reference cause net_to_ms =
     py_bytes [int (if net_to_ms then RP_ERROR_NET_TO_MS else RP_ERROR_MS_TO_NET),
               reference AND 255, 1, cause AND 127]"

definition read_lv :: "bytes \<Rightarrow> nat \<Rightarrow> string \<Rightarrow> (bytes \<times> nat) res" where
  \<comment> \<open>one length-value field at \<open>off\<close>: its octets and the offset behind it\<close>
  "read_lv data off err =
     rbind (idx data off) (\<lambda>l.
     if off + 1 + unat l > length data then Inl (ValueError err)
     else Inr (slice (off + 1) (off + 1 + unat l) data, off + 1 + unat l))"

definition decode_rp :: "bytes \<Rightarrow> rp_message res" where
  "decode_rp data =
     (if length data < 2 then Inl (ValueError ''RP PDU too short'')
      else let msg = \<lparr>rp_mti = unat (data ! 0), rp_reference = unat (data ! 1),
                      rp_oa = [], rp_da = [], rp_user_data = [], rp_cause = 0\<rparr> in
      if rp_mti msg \<in> {RP_DATA_MS_TO_NET, RP_DATA_NET_TO_MS} then
        rbind (read_lv data 2 ''RP-DATA: RP-OA length exceeds buffer'') (\<lambda>(oa, off).
        rbind (read_lv data off ''RP-DATA: RP-DA length exceeds buffer'') (\<lambda>(da, off).
        rbind (read_lv data off ''RP-DATA: RP-UD length exceeds buffer'') (\<lambda>(ud, off).
        Inr (msg\<lparr>rp_oa := (if oa \<noteq> [] then decode_rp_address oa else []),
                 rp_da := (if da \<noteq> [] then decode_rp_address da else []),
                 rp_user_data := ud\<rparr>))))
      else if rp_mti msg \<in> {RP_ACK_MS_TO_NET, RP_ACK_NET_TO_MS} then Inr msg
      else if rp_mti msg \<in> {RP_ERROR_MS_TO_NET, RP_ERROR_NET_TO_MS} then
        (if length data < 4 then Inl (ValueError ''RP-ERROR truncated'')
         else let cause_len = unat (data ! 2) in
           if cause_len \<ge> 1 \<and> 3 + cause_len \<le> length data
           then Inr (msg\<lparr>rp_cause := unat (data ! 3) AND 127\<rparr>) else Inr msg)
      else Inl (ValueError ''RP: unknown MTI''))"

section \<open>GSM 7-bit packing\<close>

fun gsm7_pack_from :: "nat \<Rightarrow> bytes \<Rightarrow> bytes" where
  \<comment> \<open>the loop of \<open>_gsm7_pack\<close> over the remaining septets, with its variable \<open>shift\<close>\<close>
  "gsm7_pack_from shift [] = []"
| "gsm7_pack_from shift (s # rest) =
     (if shift = 7 then gsm7_pack_from 0 rest
      else byte_of ((drop_bit shift (unat s) OR
                    (case rest of [] \<Rightarrow> 0 | t # _ \<Rightarrow> push_bit (7 - shift) (unat t) AND 255))
                   AND 255)
           # gsm7_pack_from (Suc shift) rest)"

definition gsm7_pack :: "bytes \<Rightarrow> bytes" where
  "gsm7_pack septets = gsm7_pack_from 0 septets"

fun gsm7_unpack_from :: "bytes \<Rightarrow> nat \<Rightarrow> nat \<Rightarrow> bytes" where
  \<comment> \<open>the loop of \<open>_gsm7_unpack\<close>: septets still wanted, and \<open>bit_offset\<close>\<close>
  "gsm7_unpack_from packed 0 bit_offset = []"
| "gsm7_unpack_from packed (Suc n) bit_offset =
     (let byte_idx = bit_offset div 8; bit_idx = bit_offset mod 8 in
      if byte_idx \<ge> length packed then []
      else let v = (if byte_idx + 1 < length packed
                    then unat (packed ! byte_idx) OR push_bit 8 (unat (packed ! (byte_idx + 1)))
                    else unat (packed ! byte_idx))
           in byte_of (drop_bit bit_idx v AND 127) # gsm7_unpack_from packed n (bit_offset + 7))"

definition gsm7_unpack :: "bytes \<Rightarrow> nat \<Rightarrow> bytes" where
  "gsm7_unpack packed num_septets = gsm7_unpack_from packed num_septets 0"

section \<open>SMS-SUBMIT\<close>

record sms_submit =
  sub_udhi :: bool
  sub_srr :: bool
  sub_vpf :: nat
  sub_reference :: nat
  sub_da_msisdn :: string
  sub_pid :: nat
  sub_dcs :: nat
  sub_udl :: nat
  sub_udh :: bytes
  sub_ud :: bytes
  sub_encoding :: string

definition encode_ascii_replace :: "string \<Rightarrow> bytes" where
  "encode_ascii_replace text = map (\<lambda>c. if (of_char c :: nat) < 128 then byte_of (of_char c) else 63) text"

definition encode_utf16_be :: "string \<Rightarrow> bytes" where
  "encode_utf16_be text = concat (map (\<lambda>c. [0, byte_of (of_char c)]) text)"

definition submit_septets :: "string \<Rightarrow> bytes" where
  "submit_septets text = map (\<lambda>b. if unat b < 128 then b else 63) (encode_ascii_replace text)"

definition submit_payload :: "string \<Rightarrow> string \<Rightarrow> bytes \<Rightarrow> (bytes \<times> nat) res" where
  \<comment> \<open>\<open>ud_payload\<close> and \<open>tp_udl\<close> of \<open>encode_sms_submit\<close>\<close>
  "submit_payload text encoding udh =
     (if encoding = ''ucs2'' then
        let ud_bytes = encode_utf16_be text in
        if udh \<noteq> [] then
          rbind (py_bytes [int (length udh)]) (\<lambda>l.
          let ud_payload = l @ udh @ ud_bytes in Inr (ud_payload, length ud_payload))
        else Inr (ud_bytes, length ud_bytes)
      else
        let septets = submit_septets text;
            num_septets = length septets;
            packed = gsm7_pack septets in
        if udh \<noteq> [] then
          rbind (py_bytes [int (length udh)]) (\<lambda>l.
          let udh_block = l @ udh;
              udh_octets = length udh_block;
              fill_bits = (7 - (udh_octets * 8) mod 7) mod 7;
              tp_udl = num_septets + (udh_octets * 8 + fill_bits) div 7;
              pad = replicate ((fill_bits + 7) div 8) 0
          in Inr (udh_block @ pad @ packed, tp_udl))
        else Inr (packed, num_septets))"

definition encode_sms_submit :: "int \<Rightarrow> string \<Rightarrow> string \<Rightarrow> string \<Rightarrow> bytes \<Rightarrow> bytes res" where
  "encode_sms_submit mr da_msisdn text encoding udh =
     (let first = (if udh \<noteq> [] then 0x01 OR 0x40 else 0x01);
          tp_pid = 0;
          tp_dcs = (if encoding = ''ucs2'' then 8 else 0) in
      rbind (encode_tp_address da_msisdn) (\<lambda>tp_da.
      rbind (submit_payload text encoding udh) (\<lambda>(ud_payload, tp_udl).
      rbind (py_bytes [first, mr AND 255]) (\<lambda>h.
      rbind (py_bytes [tp_pid, tp_dcs, int tp_udl AND 255]) (\<lambda>m.
      Inr (h @ tp_da @ m @ ud_payload))))))"

definition submit_encoding :: "nat \<Rightarrow> string" where
  \<comment> \<open>the alphabet the data coding scheme octet selects\<close>
  "submit_encoding dcs =
     (let grp = drop_bit 4 dcs AND 15 in
      if grp AND 12 = 0 then
        (let k = drop_bit 2 dcs AND 3 in
         if k = 0 then ''gsm7'' else if k = 1 then ''8bit'' else if k = 2 then ''ucs2''
         else ''8bit'')
      else ''8bit'')"

definition decode_sms_submit :: "bytes \<Rightarrow> sms_submit res" where
  "decode_sms_submit data =
     (if length data < 7 then Inl (ValueError ''SMS-SUBMIT too short'')
      else let first = unat (data ! 0) in
      if first AND 3 \<noteq> 1 then Inl (ValueError ''SMS-SUBMIT: TP-MTI (want 1)'')
      else
        rbind (decode_tp_address data 2) (\<lambda>(da, da_bytes).
        if da_bytes = 0 then Inl (ValueError ''SMS-SUBMIT: malformed TP-DA'')
        else let off = 2 + da_bytes in
        if off + 2 > length data then Inl (ValueError ''SMS-SUBMIT: truncated at TP-PID/TP-DCS'')
        else let pid = unat (data ! off); dcs = unat (data ! (off + 1));
                 vpf = drop_bit 3 first AND 3;
                 off = (if vpf = 0 then off + 2 else if vpf = 2 then off + 3 else off + 9) in
        if off \<ge> length data then Inl (ValueError ''SMS-SUBMIT: truncated at TP-UDL'')
        else let udl = unat (data ! off);
                 body = drop (off + 1) data;
                 msg = \<lparr>sub_udhi = (first AND 64 \<noteq> 0), sub_srr = (first AND 32 \<noteq> 0),
                        sub_vpf = vpf, sub_reference = unat (data ! 1), sub_da_msisdn = da,
                        sub_pid = pid, sub_dcs = dcs, sub_udl = udl, sub_udh = [], sub_ud = body,
                        sub_encoding = submit_encoding dcs\<rparr> in
        if sub_udhi msg \<and> body \<noteq> [] then
          (let udhl = unat (body ! 0) in
           if 1 + udhl > length body
           then Inl (ValueError ''SMS-SUBMIT: TP-UDH length exceeds remainder'')
           else Inr (msg\<lparr>sub_udh := slice 1 (1 + udhl) body, sub_ud := drop (1 + udhl) body\<rparr>))
        else Inr msg))"

section \<open>Addresses: round trips\<close>

definition msisdn_ok :: "string \<Rightarrow> bool" where
  \<comment> \<open>an optional leading plus sign and at most 255 decimal digits\<close>
  "msisdn_ok m = (let ds = (case m of c # cs \<Rightarrow> if c = CHR ''+'' then cs else m | [] \<Rightarrow> [])
                  in list_all is_digit ds \<and> length ds \<le> 255)"

lemma plus_not_digit [simp]: "is_digit c \<Longrightarrow> c \<noteq> CHR ''+''"
  by (auto simp: is_digit_def)

lemma strip_plus_digits [simp]: "list_all is_digit ds \<Longrightarrow> strip_plus ds = ds"
  by (cases ds) (auto simp: strip_plus_def)

lemma strip_plus_plus [simp]: "strip_plus (CHR ''+'' # ds) = strip_plus ds"
  by (simp add: strip_plus_def)

lemma toa_plus [simp]: "toa_of (CHR ''+'' # ds) = 0x91"
  by (simp add: toa_of_def starts_with_def)

lemma toa_digits [simp]: "list_all is_digit ds \<Longrightarrow> toa_of ds = 0x81"
  by (cases ds) (auto simp: toa_of_def starts_with_def)

lemma is_international_toa [simp]: "is_international (byte_of 0x91)" "\<not> is_international (byte_of 0x81)"
  by (simp_all add: is_international_def drop_bit_eq_div mask_simps)

lemma nibble_byte:
  assumes "lo < 16" "hi < 16"
  shows "py_bytes [int (push_bit 4 (hi AND 15) OR (lo AND 15))] = Inr [byte_of (hi * 16 + lo)]"
proof -
  have "push_bit 4 (hi AND 15) OR (lo AND 15) = hi * 16 + lo"
    using assms by (simp add: mask_simps nat_shift_or)
  moreover have "hi * 16 + lo < 256" using assms by simp
  ultimately show ?thesis by (simp only: py_bytes_nat) simp
qed

lemma bcd_digits_Cons:
  "lo \<le> 9 \<Longrightarrow> hi < 16 \<Longrightarrow> bcd_digits (byte_of (hi * 16 + lo) # bs) =
     digit_char lo # (if hi \<le> 9 then [digit_char hi] else []) @ bcd_digits bs"
  by (simp add: bcd_digits_def Let_def mask_simps drop_bit_eq_div)

lemma bcd_encode_digits:
  "list_all is_digit ds \<Longrightarrow>
     \<exists>bs. bcd_encode ds = Inr bs \<and> bcd_digits bs = ds \<and> length bs = (length ds + 1) div 2"
proof (induction ds rule: bcd_encode.induct)
  case 1
  then show ?case by (simp add: bcd_digits_def)
next
  case (2 c)
  then have d: "digit_val c \<le> 9" by simp
  then have "py_bytes [int (push_bit 4 15 OR (digit_val c AND 15))] = Inr [byte_of (15 * 16 + digit_val c)]"
    using nibble_byte [of "digit_val c" 15] by (simp add: mask_simps)
  moreover have "bcd_digits [byte_of (15 * 16 + digit_val c)] = [c]"
    using bcd_digits_Cons [OF d, of 15 "[]"] 2 by (simp add: bcd_digits_def)
  ultimately show ?case using 2 by (auto simp: py_int_digit_def)
next
  case (3 c c' cs)
  then obtain bs where bs: "bcd_encode cs = Inr bs" "bcd_digits bs = cs"
    "length bs = (length cs + 1) div 2" by auto
  let ?b = "byte_of (digit_val c' * 16 + digit_val c)"
  from 3 have d: "digit_val c \<le> 9" "digit_val c' \<le> 9" by simp_all
  then have "py_bytes [int (push_bit 4 (digit_val c' AND 15) OR (digit_val c AND 15))] = Inr [?b]"
    by (intro nibble_byte) simp_all
  moreover have "bcd_digits (?b # bs) = c # c' # cs"
    using bcd_digits_Cons [OF d(1), of "digit_val c'" bs] d bs 3 by simp
  ultimately show ?case using 3 bs by (auto simp: py_int_digit_def)
qed

lemma msisdn_okE:
  assumes "msisdn_ok m"
  obtains ds intl where "list_all is_digit ds" "length ds \<le> 255"
    "m = (if intl then CHR ''+'' # ds else ds)" "strip_plus m = ds"
    "toa_of m = (if intl then 0x91 else 0x81)"
proof (cases "\<exists>ds. m = CHR ''+'' # ds")
  case True
  with assms that [of "tl m" True] show ?thesis by (auto simp: msisdn_ok_def)
next
  case False
  then have "list_all is_digit m" "length m \<le> 255"
    using assms by (auto simp: msisdn_ok_def Let_def split: list.splits if_splits)
  with that [of m False] show ?thesis by simp
qed

lemma tp_address_encode:
  assumes "msisdn_ok m"
  obtains n toa bcd where "encode_tp_address m = Inr (n # toa # bcd)" "length bcd = (unat n + 1) div 2"
    "m = (if is_international toa then CHR ''+'' # take (unat n) (bcd_digits bcd)
          else take (unat n) (bcd_digits bcd))"
proof -
  from assms obtain ds intl where ds: "list_all is_digit ds" "length ds \<le> 255"
    "m = (if intl then CHR ''+'' # ds else ds)" "strip_plus m = ds"
    "toa_of m = (if intl then 0x91 else 0x81)" by (rule msisdn_okE)
  from bcd_encode_digits [OF ds(1)] obtain bs where bs: "bcd_encode ds = Inr bs"
    "bcd_digits bs = ds" "length bs = (length ds + 1) div 2" by auto
  have "encode_tp_address m = Inr (byte_of (length ds) # (if intl then byte_of 0x91 else byte_of 0x81) # bs)"
    using ds bs by (simp add: encode_tp_address_def py_byte_def)
  with that [of "byte_of (length ds)" "if intl then byte_of 0x91 else byte_of 0x81" bs] bs ds
  show ?thesis by (cases intl) simp_all
qed

text \<open>
  an address the encoder accepts is read back from any position of any buffer: the decoder
  returns the digits with the leading plus sign restored, and the exact number of octets the
  encoder wrote, so the next field is found behind it.
\<close>

theorem tp_address_roundtrip:
  assumes "msisdn_ok m"
  shows "\<exists>bs. encode_tp_address m = Inr bs \<and>
              decode_tp_address (pre @ bs @ post) (length pre) = Inr (m, length bs)"
proof -
  from assms obtain n toa bcd where e: "encode_tp_address m = Inr (n # toa # bcd)"
    "length bcd = (unat n + 1) div 2"
    "m = (if is_international toa then CHR ''+'' # take (unat n) (bcd_digits bcd)
          else take (unat n) (bcd_digits bcd))" by (rule tp_address_encode)
  have "slice (length pre + 2) (length pre + 2 + (unat n + 1) div 2) (pre @ (n # toa # bcd) @ post) = bcd"
    using e(2) slice_append_middle [of "length pre + 2" "pre @ [n, toa]" _ bcd post] by simp
  then have "decode_tp_address (pre @ (n # toa # bcd) @ post) (length pre) = Inr (m, 2 + length bcd)"
    using e(2,3) by (simp add: decode_tp_address_def idx_def nth_append Let_def)
  with e show ?thesis by auto
qed

lemma rp_address_encode:
  assumes "msisdn_ok m" "m \<noteq> []"
  obtains bs where "encode_rp_address m = Inr bs" "decode_rp_address bs = m"
    "length bs = 1 + (length (strip_plus m) + 1) div 2"
proof -
  from assms(1) obtain ds intl where ds: "list_all is_digit ds" "length ds \<le> 255"
    "m = (if intl then CHR ''+'' # ds else ds)" "strip_plus m = ds"
    "toa_of m = (if intl then 0x91 else 0x81)" by (rule msisdn_okE)
  from bcd_encode_digits [OF ds(1)] obtain bs where bs: "bcd_encode ds = Inr bs"
    "bcd_digits bs = ds" "length bs = (length ds + 1) div 2" by auto
  let ?toa = "if intl then byte_of 0x91 else byte_of 0x81"
  have "encode_rp_address m = Inr (?toa # bs)"
    using assms(2) ds bs by (simp add: encode_rp_address_def py_byte_def)
  moreover have "decode_rp_address (?toa # bs) = m"
    using ds bs by (cases intl) (simp_all add: decode_rp_address_def)
  ultimately show ?thesis using that ds bs by simp
qed

section \<open>CP layer: round trip and rejection\<close>

lemma cp_pd_ti_bounds: "0 \<le> cp_pd_ti ti" "cp_pd_ti ti < 256"
  and cp_pd_ti_nat: "nat (cp_pd_ti ti) = nat (ti mod 16) * 16 + 9"
proof -
  have "cp_pd_ti ti = ti mod 16 * 16 + 9"
    by (simp add: cp_pd_ti_def PD_SMS_def mask_simps int_shift_or)
  moreover have "0 \<le> ti mod 16" "ti mod 16 < 16" by simp_all
  ultimately show "0 \<le> cp_pd_ti ti" "cp_pd_ti ti < 256"
    "nat (cp_pd_ti ti) = nat (ti mod 16) * 16 + 9"
    by (simp_all add: nat_add_distrib nat_mult_distrib)
qed

lemma py_byte_pd_ti [simp]: "py_byte (cp_pd_ti ti) = Inr (byte_of (nat (ti mod 16) * 16 + 9))"
  by (simp add: py_byte_def cp_pd_ti_bounds cp_pd_ti_nat)

lemma nat_mod_16 [simp]: "nat (ti mod 16) < 16"
  by (simp add: nat_less_iff)

lemma pd_ti_fields [simp]:
  "(nat (ti mod 16) * 16 + 9) mod 256 mod 16 = 9"
  "(nat (ti mod 16) * 16 + 9) mod 256 div 16 mod 16 = nat (ti mod 16)"
proof -
  have "nat (ti mod 16) * 16 + 9 < 256" using nat_mod_16 [of ti] by linarith
  then show "(nat (ti mod 16) * 16 + 9) mod 256 mod 16 = 9"
    "(nat (ti mod 16) * 16 + 9) mod 256 div 16 mod 16 = nat (ti mod 16)" by simp_all
qed

lemma encode_cp_data_eq:
  "length p \<le> 255 \<Longrightarrow> encode_cp_data ti p =
     Inr (byte_of (nat (ti mod 16) * 16 + 9) # byte_of 1 # byte_of (length p) # p)"
  by (simp add: encode_cp_data_def CP_DATA_def) (simp add: py_byte_def)

lemma decode_cp_data:
  "length p \<le> 255 \<Longrightarrow>
     decode_cp (byte_of (nat (ti mod 16) * 16 + 9) # byte_of 1 # byte_of (length p) # p) =
     Inr \<lparr>cp_ti = nat (ti mod 16), cp_msg_type = CP_DATA, cp_user_data = p, cp_cause = 0\<rparr>"
  by (simp add: decode_cp_def Let_def mask_simps drop_bit_eq_div sms_consts)

text \<open>
  a CP-DATA message parses back to the transaction identifier's low four bits and the RP
  message it carries; an RP message of more than 255 octets is refused by the encoder, because
  its length octet cannot hold the length.
\<close>

theorem cp_data_roundtrip:
  "rbind (encode_cp_data ti rp) decode_cp =
     (if length rp \<le> 255
      then Inr \<lparr>cp_ti = nat (ti mod 16), cp_msg_type = CP_DATA, cp_user_data = rp, cp_cause = 0\<rparr>
      else Inl (ValueError ''bytes must be in range(0, 256)''))"
proof (cases "length rp \<le> 255")
  case True
  then show ?thesis using decode_cp_data [of rp ti] by (simp add: encode_cp_data_eq)
next
  case False
  then have "py_byte (int (length rp)) = Inl (ValueError ''bytes must be in range(0, 256)'')"
    by (intro py_byte_big) simp
  with False show ?thesis by (simp add: encode_cp_data_def CP_DATA_def py_byte_def)
qed

section \<open>RP layer: round trip\<close>

lemma rp_address_lv_encode:
  assumes "smsc = [] \<or> msisdn_ok smsc \<and> length smsc \<le> 100"
  obtains a where "rp_address_lv smsc = Inr (byte_of (length a) # a)" "length a \<le> 255"
    "(if a \<noteq> [] then decode_rp_address a else []) = smsc"
proof (cases "smsc = []")
  case True
  have "rp_address_lv [] = Inr (byte_of (length []) # [])"
    by (simp add: rp_address_lv_def py_byte_def)
  with True that [of "[]"] show ?thesis by simp
next
  case False
  with assms have ok: "msisdn_ok smsc" and len: "length smsc \<le> 100" by auto
  from ok False obtain bs where bs: "encode_rp_address smsc = Inr bs" "decode_rp_address bs = smsc"
    "length bs = 1 + (length (strip_plus smsc) + 1) div 2" by (rule rp_address_encode)
  have "length (strip_plus smsc) \<le> 100"
    using len length_dropWhile_le [of "\<lambda>c. c = CHR ''+''" smsc] by (simp add: strip_plus_def)
  then have "length bs \<le> 255" using bs(3) by linarith
  moreover from this have "rp_address_lv smsc = Inr (byte_of (length bs) # bs)"
    using False bs(1) by (simp add: rp_address_lv_def)
  ultimately show ?thesis using that bs False by (auto simp: decode_rp_address_def)
qed

lemma read_lv_at:
  "length pre = off \<Longrightarrow> length a \<le> 255 \<Longrightarrow>
     read_lv (pre @ byte_of (length a) # a @ post) off err = Inr (a, off + 1 + length a)"
  using slice_append_middle [of "Suc off" "pre @ [byte_of (length a)]" "Suc (off + length a)" a post]
  by (simp add: read_lv_def idx_def nth_append)

lemma and_255_byte [simp]: "py_byte (n AND 255) = Inr (byte_of (nat (n mod 256)))"
  by (simp add: py_byte_def mask_simps)

lemma nat_mod_256 [simp]: "nat (n mod 256) mod 256 = nat (n mod 256)"
proof -
  have "nat (n mod 256) < 256" by (simp add: nat_less_iff)
  then show ?thesis by simp
qed

lemma decode_rp_data:
  assumes "m \<in> {RP_DATA_MS_TO_NET, RP_DATA_NET_TO_MS}"
    "length oa \<le> 255" "length da \<le> 255" "length ud \<le> 255"
  shows "decode_rp (byte_of m # r # byte_of (length oa) # oa @ byte_of (length da) # da
                    @ byte_of (length ud) # ud) =
    Inr \<lparr>rp_mti = m, rp_reference = unat r,
         rp_oa = (if oa \<noteq> [] then decode_rp_address oa else []),
         rp_da = (if da \<noteq> [] then decode_rp_address da else []), rp_user_data = ud, rp_cause = 0\<rparr>"
proof -
  let ?d = "byte_of m # r # byte_of (length oa) # oa @ byte_of (length da) # da
            @ byte_of (length ud) # ud"
  have m: "unat (?d ! 0) = m" using assms(1) by (auto simp: sms_consts)
  have 1: "read_lv ?d 2 e = Inr (oa, 3 + length oa)" for e
    using read_lv_at [of "[byte_of m, r]" 2 oa] assms by (simp add: numeral_3_eq_3)
  have 2: "read_lv ?d (3 + length oa) e = Inr (da, 4 + length oa + length da)" for e
    using read_lv_at [of "byte_of m # r # byte_of (length oa) # oa" "3 + length oa" da] assms
    by simp
  have 3: "read_lv ?d (4 + length oa + length da) e = Inr (ud, 5 + length oa + length da + length ud)" for e
    using read_lv_at [of "byte_of m # r # byte_of (length oa) # oa @ byte_of (length da) # da"
        "4 + length oa + length da" ud "[]"] assms by simp
  show ?thesis
    unfolding decode_rp_def Let_def m using assms(1) by (simp add: 1 2 3)
qed

lemma encode_rp_data_eq:
  assumes "smsc = [] \<or> msisdn_ok smsc \<and> length smsc \<le> 100" "length tpdu \<le> 255"
  obtains a where "length a \<le> 255" "(if a \<noteq> [] then decode_rp_address a else []) = smsc"
    "encode_rp_data_ms_to_net r smsc tpdu = Inr (byte_of 0 # byte_of (nat (r mod 256))
       # byte_of (length []) # [] @ byte_of (length a) # a @ byte_of (length tpdu) # tpdu)"
    "encode_rp_data_net_to_ms r smsc tpdu = Inr (byte_of 1 # byte_of (nat (r mod 256))
       # byte_of (length a) # a @ byte_of (length []) # [] @ byte_of (length tpdu) # tpdu)"
proof -
  from rp_address_lv_encode [OF assms(1)] obtain a where a:
    "rp_address_lv smsc = Inr (byte_of (length a) # a)" "length a \<le> 255"
    "(if a \<noteq> [] then decode_rp_address a else []) = smsc" by blast
  have [simp]: "py_byte 0 = Inr (byte_of 0)" "py_byte 1 = Inr (byte_of 1)"
    by (simp_all add: py_byte_def)
  show ?thesis
    using a(2,3) by (rule that)
      (use a assms(2) in \<open>simp_all add: encode_rp_data_ms_to_net_def encode_rp_data_net_to_ms_def
         RP_DATA_MS_TO_NET_def RP_DATA_NET_TO_MS_def\<close>)
qed

lemma decode_rp_of_encode:
  assumes "smsc = [] \<or> msisdn_ok smsc \<and> length smsc \<le> 100" "length tpdu \<le> 255"
  shows "rbind (encode_rp_data_ms_to_net r smsc tpdu) decode_rp =
           Inr \<lparr>rp_mti = RP_DATA_MS_TO_NET, rp_reference = nat (r mod 256), rp_oa = [],
                rp_da = smsc, rp_user_data = tpdu, rp_cause = 0\<rparr> \<and>
         rbind (encode_rp_data_net_to_ms r smsc tpdu) decode_rp =
           Inr \<lparr>rp_mti = RP_DATA_NET_TO_MS, rp_reference = nat (r mod 256), rp_oa = smsc,
                rp_da = [], rp_user_data = tpdu, rp_cause = 0\<rparr>"
proof -
  from encode_rp_data_eq [OF assms] obtain a where a: "length a \<le> 255"
    "(if a \<noteq> [] then decode_rp_address a else []) = smsc"
    "encode_rp_data_ms_to_net r smsc tpdu = Inr (byte_of 0 # byte_of (nat (r mod 256))
       # byte_of (length []) # [] @ byte_of (length a) # a @ byte_of (length tpdu) # tpdu)"
    "encode_rp_data_net_to_ms r smsc tpdu = Inr (byte_of 1 # byte_of (nat (r mod 256))
       # byte_of (length a) # a @ byte_of (length []) # [] @ byte_of (length tpdu) # tpdu)" .
  show ?thesis
    using decode_rp_data [of 0 "[]" a tpdu] decode_rp_data [of 1 a "[]" tpdu] a assms
    by (simp add: sms_consts)
qed

text \<open>
  in both directions an RP-DATA message parses back to its reference (modulo 256), to the
  service centre address on its own side (the other address empty) and to the TPDU it carries.
\<close>

theorem rp_data_roundtrip:
  assumes "smsc = [] \<or> msisdn_ok smsc \<and> length smsc \<le> 100" "length tpdu \<le> 255"
  shows "rbind (encode_rp_data_ms_to_net r smsc tpdu) decode_rp =
           Inr \<lparr>rp_mti = RP_DATA_MS_TO_NET, rp_reference = nat (r mod 256), rp_oa = [],
                rp_da = smsc, rp_user_data = tpdu, rp_cause = 0\<rparr> \<and>
         rbind (encode_rp_data_net_to_ms r smsc tpdu) decode_rp =
           Inr \<lparr>rp_mti = RP_DATA_NET_TO_MS, rp_reference = nat (r mod 256), rp_oa = smsc,
                rp_da = [], rp_user_data = tpdu, rp_cause = 0\<rparr>"
  by (rule decode_rp_of_encode [OF assms])

section \<open>Septet packing: round trip\<close>

text \<open>
  Both loops are read through the number a sequence of octets (base 256) or septets (base 128)
  stands for, least significant first: packing from shift \<open>sh\<close> writes the septets' number
  divided by \<open>2 ^ sh\<close>, and unpacking at a bit offset reads seven bits of the octets' number.
\<close>

fun num :: "nat \<Rightarrow> bytes \<Rightarrow> nat" where
  "num base [] = 0"
| "num base (b # bs) = unat b + base * num base bs"

definition septets_ok :: "bytes \<Rightarrow> bool" where
  "septets_ok ss \<longleftrightarrow> list_all (\<lambda>s. unat s < 128) ss"

lemma septets_ok_simps [simp]:
  "septets_ok []" "septets_ok (s # ss) \<longleftrightarrow> unat s < 128 \<and> septets_ok ss"
  by (simp_all add: septets_ok_def)

lemma num_div_mod:
  assumes "i < length bs"
  shows "num 256 bs div 256 ^ i mod 65536 =
           unat (bs ! i) + 256 * (if i + 1 < length bs then unat (bs ! (i + 1)) else 0)"
  using assms
proof (induction bs arbitrary: i)
  case Nil
  then show ?case by simp
next
  case (Cons b bs)
  show ?case
  proof (cases i)
    case 0
    have "unat b + 256 * num 256 bs = unat b + 256 * (num 256 bs mod 256) + 65536 * (num 256 bs div 256)"
      using mult_div_mod_eq [of 256 "num 256 bs"] by linarith
    then have "(unat b + 256 * num 256 bs) mod 65536 = (unat b + 256 * (num 256 bs mod 256)) mod 65536"
      by (metis mod_mult_self2)
    also have "\<dots> = unat b + 256 * (num 256 bs mod 256)"
      using unat_byte [of b] mod_less_divisor [of 256 "num 256 bs"] by (intro mod_less) linarith
    also have "num 256 bs mod 256 = (if bs \<noteq> [] then unat (bs ! 0) else 0)"
      by (cases bs) simp_all
    finally show ?thesis using 0 by simp
  next
    case (Suc j)
    have "num 256 (b # bs) div 256 ^ i = num 256 bs div 256 ^ j"
      using unat_byte [of b] Suc by (simp add: div_mult2_eq)
    with Suc Cons show ?thesis by simp
  qed
qed

lemma num_septet_nth:
  "septets_ok ss \<Longrightarrow> i < length ss \<Longrightarrow> num 128 ss div 128 ^ i mod 128 = unat (ss ! i)"
proof (induction ss arbitrary: i)
  case Nil
  then show ?case by simp
next
  case (Cons s ss)
  then show ?case by (cases i) (auto simp: div_mult2_eq)
qed

lemma octet_arith:
  assumes "shift < (7 :: nat)"
  shows "(s div 2 ^ shift + (t * 2 ^ (7 - shift)) mod 256) mod 256 =
         (s + 128 * (t + 128 * r)) div 2 ^ shift mod (256 :: nat)"
proof -
  obtain k where k: "7 - shift = Suc k" using assms by (cases "7 - shift") auto
  have "(128 :: nat) = 2 ^ shift * 2 ^ (7 - shift)" using assms by (simp flip: power_add)
  then have "(s + 128 * X) div 2 ^ shift = s div 2 ^ shift + 2 ^ (7 - shift) * X" for X
    by (simp only: mult.assoc div_mult_self2 power_not_zero zero_neq_numeral) simp
  then have "(s + 128 * (t + 128 * r)) div 2 ^ shift
      = s div 2 ^ shift + t * 2 ^ (7 - shift) + 256 * (2 ^ k * r)"
    by (simp only: k) (simp add: algebra_simps)
  then show ?thesis by (simp only: mod_mult_self2 mod_add_right_eq)
qed

lemma octet_or:
  assumes "shift < (7 :: nat)" "(s :: nat) < 128"
  shows "drop_bit shift s OR (push_bit (7 - shift) t AND 255)
         = s div 2 ^ shift + (t * 2 ^ (7 - shift)) mod 256"
proof -
  have pow: "(256 :: nat) = 2 ^ (shift + 1) * 2 ^ (7 - shift)"
    and s: "s < 2 ^ (7 - shift) * 2 ^ shift"
    using assms by (simp_all flip: power_add)
  have "push_bit (7 - shift) t AND 255 = push_bit (7 - shift) (t mod 2 ^ (shift + 1))"
    by (simp only: mask_simps push_bit_eq_mult pow mult_mod_left)
  moreover have "drop_bit shift s < 2 ^ (7 - shift)"
    using less_mult_imp_div_less [OF s] by (simp add: drop_bit_eq_div)
  ultimately have "drop_bit shift s OR (push_bit (7 - shift) t AND 255)
      = (push_bit (7 - shift) t AND 255) + drop_bit shift s"
    using nat_shift_or [of "drop_bit shift s" "7 - shift" "t mod 2 ^ (shift + 1)"]
    by (simp add: or.commute [of "drop_bit shift s"] push_bit_eq_mult)
  then show ?thesis by (simp only: mask_simps push_bit_eq_mult drop_bit_eq_div add.commute)
qed

lemma pack_octet:
  assumes "septets_ok (s # rest)" "shift < 7"
  shows "(drop_bit shift (unat s) OR
          (case rest of [] \<Rightarrow> 0 | t # _ \<Rightarrow> push_bit (7 - shift) (unat t) AND 255)) AND 255
         = num 128 (s # rest) div 2 ^ shift mod 256"
proof (cases rest)
  case Nil
  then show ?thesis by (simp add: mask_simps drop_bit_eq_div)
next
  case (Cons t r)
  have "(drop_bit shift (unat s) OR (push_bit (7 - shift) (unat t) AND 255)) AND 255
      = (unat s div 2 ^ shift + (unat t * 2 ^ (7 - shift)) mod 256) mod 256"
    using assms octet_or [of shift "unat s" "unat t"] by (simp add: mask_simps)
  also have "\<dots> = num 128 (s # rest) div 2 ^ shift mod 256"
    using assms(2) Cons by (simp only: octet_arith num.simps)
  finally show ?thesis using Cons by simp
qed

lemma num_div_128: "unat s < 128 \<Longrightarrow> num 128 (s # rest) div 2 ^ (7 + k) = num 128 rest div 2 ^ k"
  by (simp add: power_add div_mult2_eq)

lemma num_gsm7_pack_from:
  "septets_ok ss \<Longrightarrow> shift \<le> 7 \<Longrightarrow> num 256 (gsm7_pack_from shift ss) = num 128 ss div 2 ^ shift"
proof (induction shift ss rule: gsm7_pack_from.induct)
  case (1 shift)
  then show ?case by simp
next
  case (2 shift s rest)
  show ?case
  proof (cases "shift = 7")
    case True
    with 2 num_div_128 [of s rest 0] show ?thesis by simp
  next
    case False
    with 2 have sh: "shift < 7" and IH: "num 256 (gsm7_pack_from (Suc shift) rest) = num 128 rest div 2 ^ Suc shift"
      by simp_all
    let ?n = "num 128 (s # rest) div 2 ^ shift"
    have "num 128 rest div 2 ^ Suc shift = num 128 (s # rest) div 2 ^ (shift + 8)"
      using num_div_128 [of s rest "Suc shift"] 2(3) by (simp add: add.commute)
    also have "\<dots> = ?n div 256" by (simp only: power_add div_mult2_eq) simp
    finally have "num 128 rest div 2 ^ Suc shift = ?n div 256" .
    moreover have "num 256 (gsm7_pack_from shift (s # rest)) = ?n mod 256 + 256 * (num 128 rest div 2 ^ Suc shift)"
      using False IH by (simp only: gsm7_pack_from.simps num.simps unat_byte_of pack_octet [OF 2(3) sh]
          if_False mod_mod_trivial)
    ultimately show ?thesis by simp
  qed
qed

lemma length_gsm7_pack_from:
  "shift \<le> 7 \<Longrightarrow> length (gsm7_pack_from shift ss) = (7 * length ss + 7 - shift) div 8"
proof (induction shift ss rule: gsm7_pack_from.induct)
  case (1 shift)
  then show ?case by simp
next
  case (2 shift s rest)
  show ?case
  proof (cases "shift = 7")
    case True
    with 2 show ?thesis by simp
  next
    case False
    with 2 have "length (gsm7_pack_from shift (s # rest)) = 1 + (7 * length rest + 7 - Suc shift) div 8"
      by simp
    also have "7 * length rest + 7 - Suc shift = 7 * length rest + 6 - shift" by simp
    also have "1 + (7 * length rest + 6 - shift) div 8 = (7 * length (s # rest) + 7 - shift) div 8"
      using 2(3) False by (simp add: div_add_self1 Suc_diff_le)
    finally show ?thesis .
  qed
qed

lemma length_gsm7_pack: "length (gsm7_pack ss) = (7 * length ss + 7) div 8"
  by (simp add: gsm7_pack_def length_gsm7_pack_from)

lemma num_gsm7_pack: "septets_ok ss \<Longrightarrow> num 256 (gsm7_pack ss) = num 128 ss"
  using num_gsm7_pack_from [of ss 0] by (simp add: gsm7_pack_def)

text \<open>One step of the unpacking loop reads seven bits of the octets' number.\<close>

lemma unpack_step:
  assumes "off div 8 < length packed"
  shows "drop_bit (off mod 8)
           (if off div 8 + 1 < length packed
            then unat (packed ! (off div 8)) OR push_bit 8 (unat (packed ! (off div 8 + 1)))
            else unat (packed ! (off div 8))) AND 127
         = num 256 packed div 2 ^ off mod 128"
proof -
  let ?v = "if off div 8 + 1 < length packed
            then unat (packed ! (off div 8)) OR push_bit 8 (unat (packed ! (off div 8 + 1)))
            else unat (packed ! (off div 8))"
  let ?w = "num 256 packed div 256 ^ (off div 8)"
  have "unat (packed ! (off div 8)) OR push_bit 8 (unat (packed ! (off div 8 + 1)))
      = unat (packed ! (off div 8 + 1)) * 256 + unat (packed ! (off div 8))"
    using nat_shift_or [of "unat (packed ! (off div 8))" 8 "unat (packed ! (off div 8 + 1))"]
    by (simp add: or.commute)
  then have v: "?v = ?w mod 65536"
    using num_div_mod [OF assms] by simp
  have bits: "(w mod 65536) div 2 ^ k mod 128 = w div 2 ^ k mod 128" if "k < 8" for w k :: nat
  proof -
    have "take_bit 7 (drop_bit k (take_bit 16 w)) = take_bit 7 (drop_bit k w)"
      using that by (auto simp: bit_eq_iff bit_simps)
    then show ?thesis by (simp add: take_bit_eq_mod drop_bit_eq_div)
  qed
  have "(2 :: nat) ^ (8 * (off div 8) + off mod 8) = 256 ^ (off div 8) * 2 ^ (off mod 8)"
    by (simp only: power_add power_mult) simp
  then have "num 256 packed div 2 ^ off = ?w div 2 ^ (off mod 8)"
    by (simp flip: div_mult2_eq)
  then show ?thesis using v bits [of "off mod 8" ?w] by (simp add: mask_simps drop_bit_eq_div)
qed

lemma gsm7_unpack_from_num:
  assumes "septets_ok ss" "num 256 packed = num 128 ss" "length packed = (7 * length ss + 7) div 8"
    "k + n = length ss"
  shows "gsm7_unpack_from packed n (7 * k) = drop k ss"
  using assms(4)
proof (induction n arbitrary: k)
  case 0
  then show ?case by simp
next
  case (Suc n)
  then have k: "k < length ss" by simp
  then have in_range: "7 * k div 8 < length packed" using assms(3) by linarith
  have "num 256 packed div 2 ^ (7 * k) mod 128 = unat (ss ! k)"
    using num_septet_nth [OF assms(1) k] by (simp add: assms(2) power_mult)
  then have "gsm7_unpack_from packed (Suc n) (7 * k) = ss ! k # gsm7_unpack_from packed n (7 * Suc k)"
    using in_range unpack_step [OF in_range] by (simp add: Let_def add.commute [of 7])
  also have "\<dots> = drop k ss"
    using Suc.IH [of "Suc k"] Suc.prems k by (simp add: Cons_nth_drop_Suc)
  finally show ?case .
qed

lemma gsm7_unpack_pack: "septets_ok ss \<Longrightarrow> gsm7_unpack (gsm7_pack ss) (length ss) = ss"
  using gsm7_unpack_from_num [OF _ num_gsm7_pack, of ss 0 "length ss"]
  by (simp add: gsm7_unpack_def length_gsm7_pack)

text \<open>
  unpacking is the inverse of packing on every sequence of 7-bit septets, and the packed form
  has exactly the least number of octets that holds 7 bits per septet.
\<close>

theorem gsm7_roundtrip:
  assumes "septets_ok ss"
  shows "gsm7_unpack (gsm7_pack ss) (length ss) = ss \<and>
         length (gsm7_pack ss) = (7 * length ss + 7) div 8"
  using gsm7_unpack_pack [OF assms] length_gsm7_pack by simp

theorem gsm7_roundtrip_witness:
  "gsm7_unpack (gsm7_pack [72, 101, 108, 108, 111, 33, 63, 64, 65]) 9
     = [72, 101, 108, 108, 111, 33, 63, 64, 65]"
proof -
  have "septets_ok [72, 101, 108, 108, 111, 33, 63, 64, 65]" by simp
  from conjunct1 [OF gsm7_roundtrip [OF this]] show ?thesis by (simp add: eval_nat_numeral)
qed

section \<open>SMS-SUBMIT: round trip\<close>

lemma decode_submit_layout:
  assumes "decode_tp_address (first # r # addr @ pid # dcs # udl # body) 2 = Inr (da, length addr)"
    "2 \<le> length addr" "unat first \<in> {1, 65}"
  shows "decode_sms_submit (first # r # addr @ pid # dcs # udl # body) =
    (let msg = \<lparr>sub_udhi = (unat first = 65), sub_srr = False, sub_vpf = 0, sub_reference = unat r,
                sub_da_msisdn = da, sub_pid = unat pid, sub_dcs = unat dcs, sub_udl = unat udl,
                sub_udh = [], sub_ud = body, sub_encoding = submit_encoding (unat dcs)\<rparr> in
     if unat first = 65 \<and> body \<noteq> [] then
       if 1 + unat (body ! 0) > length body
       then Inl (ValueError ''SMS-SUBMIT: TP-UDH length exceeds remainder'')
       else Inr (msg\<lparr>sub_udh := slice 1 (1 + unat (body ! 0)) body,
                     sub_ud := drop (1 + unat (body ! 0)) body\<rparr>)
     else Inr msg)"
proof -
  have bits: "(65 :: nat) AND 3 = 1" "(1 :: nat) AND 3 = 1" "(65 :: nat) AND 64 \<noteq> 0" "(1 :: nat) AND 64 = 0"
    "(65 :: nat) AND 32 = 0" "(1 :: nat) AND 32 = 0" "drop_bit 3 (65 :: nat) AND 3 = 0"
    "drop_bit 3 (1 :: nat) AND 3 = 0"
    by (simp_all add: drop_bit_eq_div mask_simps)
  from assms(3) show ?thesis
    unfolding decode_sms_submit_def Let_def assms(1)
    using assms(2) by (elim insertE emptyE) (auto simp: nth_append bits)
qed

lemma submit_header_bytes:
  "py_bytes [if b then 1 OR 64 else 1, mr AND 255] =
     Inr [byte_of (if b then 65 else 1), byte_of (nat (mr mod 256))]"
  "py_bytes [0, if b then 8 else 0, int n AND 255] =
     Inr [byte_of 0, byte_of (if b then 8 else 0), byte_of n]"
proof -
  have "byte_of (n mod 256) = byte_of n" by (simp add: byte_of_eq_iff)
  moreover have "py_byte (int n AND 255) = Inr (byte_of (n mod 256))"
    by (simp add: nat_mod_as_int)
  ultimately show "py_bytes [0, if b then 8 else 0, int n AND 255] =
     Inr [byte_of 0, byte_of (if b then 8 else 0), byte_of n]"
    by (simp add: py_byte_def)
  show "py_bytes [if b then 1 OR 64 else 1, mr AND 255] =
     Inr [byte_of (if b then 65 else 1), byte_of (nat (mr mod 256))]"
    by (cases b) (simp_all add: py_byte_def mask_simps)
qed

lemma submit_payload_udh:
  assumes "submit_payload text encoding udh = Inr (pl, udl)" "udh \<noteq> []" "length udh \<le> 255"
  shows "\<exists>ud. pl = byte_of (length udh) # udh @ ud"
  using assms by (auto simp: submit_payload_def Let_def split: if_splits)

lemma decode_submit_of_encode:
  assumes "msisdn_ok da" "length udh \<le> 255" "submit_payload text encoding udh = Inr (pl, udl)"
  shows "rbind (encode_sms_submit mr da text encoding udh) decode_sms_submit =
    Inr \<lparr>sub_udhi = (udh \<noteq> []), sub_srr = False, sub_vpf = 0, sub_reference = nat (mr mod 256),
         sub_da_msisdn = da, sub_pid = 0, sub_dcs = (if encoding = ''ucs2'' then 8 else 0),
         sub_udl = udl mod 256, sub_udh = udh,
         sub_ud = drop (if udh = [] then 0 else 1 + length udh) pl,
         sub_encoding = (if encoding = ''ucs2'' then ''ucs2'' else ''gsm7'')\<rparr>"
proof -
  let ?dcs = "if encoding = ''ucs2'' then 8 else 0"
  let ?first = "byte_of (if udh \<noteq> [] then 65 else 1)"
  obtain addr where addr: "encode_tp_address da = Inr addr"
    "\<And>pre post. decode_tp_address (pre @ addr @ post) (length pre) = Inr (da, length addr)"
    "2 \<le> length addr"
    using assms(1) tp_address_encode [OF assms(1)] tp_address_roundtrip [OF assms(1)]
    by (metis length_Cons Suc_le_mono le0 numeral_2_eq_2 sum.inject(2))
  have enc: "submit_encoding ?dcs = (if encoding = ''ucs2'' then ''ucs2'' else ''gsm7'')"
    by (simp add: submit_encoding_def drop_bit_eq_div mask_simps)
  have e: "encode_sms_submit mr da text encoding udh = Inr (?first # byte_of (nat (mr mod 256)) # addr
      @ byte_of 0 # byte_of ?dcs # byte_of udl # pl)" (is "_ = Inr ?bs")
    unfolding encode_sms_submit_def Let_def addr(1) assms(3) rbind.simps prod.case submit_header_bytes
    by simp
  have a2: "decode_tp_address (f # r # addr @ post) 2 = Inr (da, length addr)" for f r post
    using addr(2) [of "[f, r]"] by (simp add: numeral_2_eq_2)
  show ?thesis
  proof (cases "udh = []")
    case True
    then show ?thesis unfolding e rbind.simps using addr(3) enc a2
      by (subst decode_submit_layout) (simp_all add: Let_def)
  next
    case False
    with submit_payload_udh [OF assms(3) False assms(2)] obtain ud where
      pl: "pl = byte_of (length udh) # udh @ ud" by blast
    have "slice 1 (1 + length udh) pl = udh" "drop (1 + length udh) pl = ud"
      using pl by (simp_all add: slice_def)
    then show ?thesis unfolding e rbind.simps using addr(3) enc a2 False pl assms(2)
      by (subst decode_submit_layout) (simp_all add: Let_def)
  qed
qed

text \<open>
  an SMS-SUBMIT parses back to its destination address, message reference (modulo 256),
  user data header and user data: the decoder separates the header from the data at exactly the
  octet where the encoder joined them, for both alphabets, with and without a header.
\<close>

theorem sms_submit_roundtrip:
  assumes "msisdn_ok da" "length udh \<le> 255" "submit_payload text encoding udh = Inr (pl, udl)"
  shows "rbind (encode_sms_submit mr da text encoding udh) decode_sms_submit =
    Inr \<lparr>sub_udhi = (udh \<noteq> []), sub_srr = False, sub_vpf = 0, sub_reference = nat (mr mod 256),
         sub_da_msisdn = da, sub_pid = 0, sub_dcs = (if encoding = ''ucs2'' then 8 else 0),
         sub_udl = udl mod 256, sub_udh = udh,
         sub_ud = drop (if udh = [] then 0 else 1 + length udh) pl,
         sub_encoding = (if encoding = ''ucs2'' then ''ucs2'' else ''gsm7'')\<rparr>"
  by (rule decode_submit_of_encode [OF assms])

theorem sms_submit_roundtrip_witness:
  "\<exists>pl. submit_payload ''Hi'' ''gsm7'' [0, 3, 7] = Inr (pl, 7) \<and>
     rbind (encode_sms_submit 5 ''+4670'' ''Hi'' ''gsm7'' [0, 3, 7]) decode_sms_submit =
     Inr \<lparr>sub_udhi = True, sub_srr = False, sub_vpf = 0, sub_reference = 5,
          sub_da_msisdn = ''+4670'', sub_pid = 0, sub_dcs = 0, sub_udl = 7, sub_udh = [0, 3, 7],
          sub_ud = drop (1 + length [0 :: byte, 3, 7]) pl, sub_encoding = ''gsm7''\<rparr>"
proof -
  have ok: "msisdn_ok ''+4670''" by (simp add: msisdn_ok_def is_digit_def)
  obtain pl where pl: "submit_payload ''Hi'' ''gsm7'' [0, 3, 7] = Inr (pl, 7)"
    by (simp add: submit_payload_def Let_def submit_septets_def encode_ascii_replace_def py_byte_def)
  from sms_submit_roundtrip [OF ok _ pl, of 5] pl show ?thesis by simp
qed

theorem tp_address_roundtrip_witness:
  "\<exists>bs. encode_tp_address ''+46701'' = Inr bs \<and>
        decode_tp_address ([9, 9] @ bs @ [7]) 2 = Inr (''+46701'', length bs)"
proof -
  have "msisdn_ok ''+46701''" by (simp add: msisdn_ok_def is_digit_def)
  from tp_address_roundtrip [OF this, of "[9, 9]" "[7]"] show ?thesis by (simp add: numeral_2_eq_2)
qed

theorem rp_data_roundtrip_witness:
  "rbind (encode_rp_data_ms_to_net 300 ''+467'' [1, 2, 3]) decode_rp =
     Inr \<lparr>rp_mti = RP_DATA_MS_TO_NET, rp_reference = 44, rp_oa = [],
          rp_da = ''+467'', rp_user_data = [1, 2, 3], rp_cause = 0\<rparr>"
proof -
  have "''+467'' = [] \<or> msisdn_ok ''+467'' \<and> length ''+467'' \<le> 100"
    by (simp add: msisdn_ok_def is_digit_def)
  from rp_data_roundtrip [OF this, of "[1, 2, 3]" 300] show ?thesis by simp
qed

section \<open>The whole stack\<close>

definition ascii_text :: "string \<Rightarrow> bool" where
  "ascii_text text \<longleftrightarrow> list_all (\<lambda>c. (of_char c :: nat) < 128) text"

definition encode_mo_sms :: "int \<Rightarrow> int \<Rightarrow> string \<Rightarrow> int \<Rightarrow> string \<Rightarrow> string \<Rightarrow> bytes res" where
  \<comment> \<open>the nesting the module documents: CP-DATA around RP-DATA around SMS-SUBMIT\<close>
  "encode_mo_sms ti ref smsc mr da text =
     rbind (encode_sms_submit mr da text ''gsm7'' []) (\<lambda>tpdu.
     rbind (encode_rp_data_ms_to_net ref smsc tpdu) (encode_cp_data ti))"

definition decode_mo_sms :: "bytes \<Rightarrow> (string \<times> string \<times> bytes) res" where
  "decode_mo_sms data =
     rbind (decode_cp data) (\<lambda>cp. rbind (decode_rp (cp_user_data cp)) (\<lambda>rp.
     rbind (decode_sms_submit (rp_user_data rp)) (\<lambda>sub.
     Inr (rp_da rp, sub_da_msisdn sub, gsm7_unpack (sub_ud sub) (sub_udl sub)))))"

lemma submit_septets_ascii:
  "ascii_text t \<Longrightarrow> submit_septets t = map (\<lambda>c. byte_of (of_char c)) t"
  by (induction t) (auto simp: submit_septets_def encode_ascii_replace_def ascii_text_def)

lemma septets_ok_submit: "septets_ok (submit_septets t)"
  by (induction t) (auto simp: submit_septets_def encode_ascii_replace_def)

lemma length_submit_septets [simp]: "length (submit_septets text) = length text"
  by (simp add: submit_septets_def encode_ascii_replace_def)

lemma encode_tp_address_length:
  assumes "encode_tp_address m = Inr bs" "msisdn_ok m"
  shows "length bs \<le> 3 + length m"
proof -
  from assms(2) obtain ds intl where ds: "list_all is_digit ds" "length ds \<le> 255"
    "m = (if intl then CHR ''+'' # ds else ds)" "strip_plus m = ds"
    "toa_of m = (if intl then 0x91 else 0x81)" by (rule msisdn_okE)
  from bcd_encode_digits [OF ds(1)] obtain bcd where "bcd_encode ds = Inr bcd"
    "length bcd = (length ds + 1) div 2" by auto
  with assms(1) ds(2-5) have "length bs = 2 + (length ds + 1) div 2" "length ds \<le> length m"
    by (auto simp: encode_tp_address_def res_simps dest!: py_bytes_Inr_length split: if_splits)
  then show ?thesis by linarith
qed

lemma encode_mo_submit:
  assumes "msisdn_ok da" "length da \<le> 30" "length t \<le> 160"
  obtains tpdu where "encode_sms_submit mr da t ''gsm7'' [] = Inr tpdu" "length tpdu \<le> 220"
proof -
  obtain addr where addr: "encode_tp_address da = Inr addr"
    using tp_address_encode [OF assms(1)] by metis
  with assms encode_tp_address_length [OF addr] have "length addr \<le> 33" by simp
  moreover have "length (gsm7_pack (submit_septets t)) \<le> 140"
    using assms(3) by (simp add: length_gsm7_pack)
  moreover have "encode_sms_submit mr da t ''gsm7'' [] = Inr ([byte_of 1, byte_of (nat (mr mod 256))]
      @ addr @ [byte_of 0, byte_of 0, byte_of (length t)] @ gsm7_pack (submit_septets t))"
    using submit_header_bytes(1) [of False mr] submit_header_bytes(2) [of False "length t"]
    by (simp add: encode_sms_submit_def addr submit_payload_def Let_def del: py_bytes.simps)
  ultimately show ?thesis using that by fastforce
qed

lemma encode_rp_length:
  assumes "smsc = [] \<or> msisdn_ok smsc \<and> length smsc \<le> 30" "length tpdu \<le> 220"
  shows "\<exists>rp. encode_rp_data_ms_to_net r smsc tpdu = Inr rp \<and> length rp \<le> 255"
proof -
  have "\<exists>a. rp_address_lv smsc = Inr a \<and> length a \<le> 30"
  proof (cases "smsc = []")
    case True
    then show ?thesis by (simp add: rp_address_lv_def py_byte_def)
  next
    case False
    with assms obtain bs where bs: "encode_rp_address smsc = Inr bs"
      "length bs = 1 + (length (strip_plus smsc) + 1) div 2" using rp_address_encode by metis
    moreover have "length (strip_plus smsc) \<le> 30"
      using assms(1) False length_dropWhile_le [of "\<lambda>c. c = CHR ''+''" smsc] by (simp add: strip_plus_def)
    ultimately have "length bs \<le> 20" by linarith
    with bs(1) False show ?thesis by (simp add: rp_address_lv_def)
  qed
  then obtain a where "rp_address_lv smsc = Inr a" "length a \<le> 30" by blast
  with assms(2) show ?thesis
    by (auto simp: encode_rp_data_ms_to_net_def RP_DATA_MS_TO_NET_def py_byte_def)
qed



section \<open>The user data header and the septet boundary\<close>

text \<open>
  with a user data header in the 7-bit alphabet, the data length the encoder announces places
  the first septet after the header and its fill bits, but the encoder inserts a whole zero octet
  instead of the fill bits: the packed data starts where the length says it does only when the
  header block is a multiple of seven octets.
\<close>

theorem submit_udh_alignment:
  assumes "udh \<noteq> []" "length udh \<le> 255" "encoding \<noteq> ''ucs2''"
  shows "\<exists>pad udl. submit_payload t encoding udh =
           Inr (byte_of (length udh) # udh @ pad @ gsm7_pack (submit_septets t), udl) \<and>
         (8 * (1 + length udh + length pad) = 7 * (udl - length t) \<longleftrightarrow> (1 + length udh) mod 7 = 0)"
proof -
  define n where "n = 1 + length udh"
  define fill where "fill = (7 - (n * 8) mod 7) mod 7"
  have len: "py_bytes [int (length udh)] = Inr [byte_of (length udh)]"
    using assms(2) by (simp add: py_byte_def)
  have "submit_payload t encoding udh = Inr (byte_of (length udh) # udh
      @ replicate ((fill + 7) div 8) 0 @ gsm7_pack (submit_septets t), length t + (n * 8 + fill) div 7)"
    using assms by (simp only: submit_payload_def Let_def if_False if_True len rbind.simps fill_def n_def
        length_submit_septets not_False_eq_True) simp
  moreover have "7 * ((n * 8 + fill) div 7) = n * 8 + fill \<and>
      (8 * (n + (fill + 7) div 8) = n * 8 + fill \<longleftrightarrow> n mod 7 = 0)"
  proof -
    have "n * 8 mod 7 = n mod 7" using mod_mult_right_eq [of n 8 7] by simp
    then have f: "fill = (7 - n mod 7) mod 7" by (simp add: fill_def)
    obtain q r where n: "n = 7 * q + r" "n mod 7 = r" "r < 7"
      using mult_div_mod_eq [of 7 n] by (metis mod_less_divisor zero_less_numeral)
    show ?thesis
    proof (cases "n mod 7 = 0")
      case True
      then show ?thesis using f by (simp add: mod_0_imp_dvd)
    next
      case False
      then have "fill = 7 - r" using f n(2) by simp
      then have "n * 8 + fill = 7 * (8 * q + r + 1)" "1 \<le> fill" "fill \<le> 6"
        using n False by simp_all
      moreover from this have "(fill + 7) div 8 = 1" by (intro div_nat_eqI) simp_all
      ultimately show ?thesis using False by simp
    qed
  qed
  ultimately show ?thesis unfolding n_def by fastforce
qed

theorem submit_udh_alignment_witness:
  "\<exists>pad udl. submit_payload ''A'' ''gsm7'' [0, 3, 1, 2, 1] =
     Inr (byte_of (length [0 :: byte, 3, 1, 2, 1]) # [0, 3, 1, 2, 1] @ pad
          @ gsm7_pack (submit_septets ''A''), udl) \<and>
     8 * (1 + length [0 :: byte, 3, 1, 2, 1] + length pad) \<noteq> 7 * (udl - length ''A'')"
proof -
  have "(1 + length [0 :: byte, 3, 1, 2, 1]) mod 7 \<noteq> 0" by simp
  moreover have "\<exists>pad udl. submit_payload ''A'' ''gsm7'' [0, 3, 1, 2, 1] =
     Inr (byte_of (length [0 :: byte, 3, 1, 2, 1]) # [0, 3, 1, 2, 1] @ pad
          @ gsm7_pack (submit_septets ''A''), udl) \<and>
     (8 * (1 + length [0 :: byte, 3, 1, 2, 1] + length pad) = 7 * (udl - length ''A'') \<longleftrightarrow>
      (1 + length [0 :: byte, 3, 1, 2, 1]) mod 7 = 0)"
    by (rule submit_udh_alignment) simp_all
  ultimately show ?thesis by (simp only: simp_thms)
qed

section \<open>The codecs of the module\<close>

text \<open>CP-DATA and RP-DATA are instances of the shared codec interface.\<close>

definition cp_data_enc :: "nat \<times> bytes \<Rightarrow> bytes res" where
  "cp_data_enc = (\<lambda>(ti, rp). encode_cp_data (int ti) rp)"

definition cp_data_dec :: "bytes \<Rightarrow> (nat \<times> bytes) res" where
  "cp_data_dec bs = rbind (decode_cp bs) (\<lambda>m. Inr (cp_ti m, cp_user_data m))"

lemma nat_int_mods: "nat (int n mod 16) = n mod 16" "nat (int n mod 256) = n mod 256"
  by (simp_all add: nat_mod_distrib)

interpretation cp_data: codec cp_data_enc cp_data_dec "\<lambda>(ti, rp). ti < 16 \<and> length rp \<le> 255"
proof unfold_locales
  fix x :: "nat \<times> bytes"
  assume "(\<lambda>(ti, rp). ti < 16 \<and> length rp \<le> 255) x"
  then obtain ti rp where x: "x = (ti, rp)" "ti < 16" "length rp \<le> 255" by (cases x) auto
  then show "\<exists>bs. cp_data_enc x = Inr bs" "cp_data_enc x = Inr bs \<Longrightarrow> cp_data_dec bs = Inr x" for bs
    using encode_cp_data_eq [of rp "int ti"] decode_cp_data [of rp "int ti"]
    by (auto simp: cp_data_enc_def cp_data_dec_def nat_int_mods)
qed

definition rp_data_enc :: "nat \<times> string \<times> bytes \<Rightarrow> bytes res" where
  "rp_data_enc = (\<lambda>(r, smsc, tpdu). encode_rp_data_ms_to_net (int r) smsc tpdu)"

definition rp_data_dec :: "bytes \<Rightarrow> (nat \<times> string \<times> bytes) res" where
  "rp_data_dec bs = rbind (decode_rp bs) (\<lambda>m. Inr (rp_reference m, rp_da m, rp_user_data m))"

interpretation rp_data: codec rp_data_enc rp_data_dec
  "\<lambda>(r, smsc, tpdu). r < 256 \<and> (smsc = [] \<or> msisdn_ok smsc \<and> length smsc \<le> 100) \<and> length tpdu \<le> 255"
proof unfold_locales
  fix x :: "nat \<times> string \<times> bytes"
  assume ok: "(\<lambda>(r, smsc, tpdu). r < 256 \<and> (smsc = [] \<or> msisdn_ok smsc \<and> length smsc \<le> 100)
                \<and> length tpdu \<le> 255) x"
  obtain r smsc tpdu where x: "x = (r, smsc, tpdu)" by (cases x) auto
  have "rbind (encode_rp_data_ms_to_net (int r) smsc tpdu) decode_rp =
      Inr \<lparr>rp_mti = RP_DATA_MS_TO_NET, rp_reference = r mod 256, rp_oa = [],
           rp_da = smsc, rp_user_data = tpdu, rp_cause = 0\<rparr>"
    using decode_rp_of_encode [of smsc tpdu "int r"] ok x by (simp add: nat_int_mods)
  then show "\<exists>bs. rp_data_enc x = Inr bs" "rp_data_enc x = Inr bs \<Longrightarrow> rp_data_dec bs = Inr x" for bs
    using ok x by (auto simp: rp_data_enc_def rp_data_dec_def res_simps)
qed

end
