(* ===== verification/McxFloor.thy ===== *)
theory McxFloor
  imports Prelude
begin

text \<open>
  The floor-control server of \<open>tester/src/protocol/mcx_floor.py\<close>: \<open>FloorController\<close> with its
  participants, holder and queue, and \<open>TransmissionController\<close>.

  The source shares \<open>Participant\<close> objects between \<open>participants\<close>, \<open>holder\<close> and \<open>queue\<close> and
  mutates them through each of these references, so the model has an explicit store: \<open>fc_heap\<close>
  is the list of all objects ever created, in order of creation, and a reference is a position
  in it.  Object identity and the participant's identifier are therefore distinct, as in the
  code: a participant that left and joined again is a new object under the old identifier.
\<close>

section \<open>Data\<close>

datatype call_state = IDLE | TAKEN | RELEASING

datatype floor_server_state =
  START_STOP | FLOOR_IDLE | FLOOR_TAKEN | PERMITTED | FLOOR_RELEASING

definition PRIORITY_EMERGENCY :: int where "PRIORITY_EMERGENCY = 1"
definition PRIORITY_NORMAL :: int where "PRIORITY_NORMAL = 5"
definition MAX_FLOOR_QUEUE :: nat where "MAX_FLOOR_QUEUE = 10"

record participant =
  pt_mcptt_id :: string
  pt_priority :: int
  pt_state :: floor_server_state
  pt_has_floor :: bool
  pt_requesting :: bool

definition new_participant :: "string \<Rightarrow> int \<Rightarrow> participant" where
  "new_participant mcptt_id priority =
     \<lparr>pt_mcptt_id = mcptt_id, pt_priority = priority, pt_state = START_STOP,
      pt_has_floor = False, pt_requesting = False\<rparr>"

definition can_preempt :: "int \<Rightarrow> int \<Rightarrow> bool" where
  "can_preempt req holder = (if req = PRIORITY_EMERGENCY then True else req < holder)"

type_synonym ref = nat

record floor_controller =
  fc_call_id :: string
  fc_state :: call_state
  fc_holder :: "ref option"
  fc_queue :: "ref list"
  fc_participants :: "(string, ref) dict"
  fc_heap :: "participant list"

definition new_controller :: "string \<Rightarrow> floor_controller" where
  "new_controller call_id = \<lparr>fc_call_id = call_id, fc_state = IDLE, fc_holder = None,
     fc_queue = [], fc_participants = [], fc_heap = []\<rparr>"

definition obj :: "floor_controller \<Rightarrow> ref \<Rightarrow> participant" where
  "obj fc a = fc_heap fc ! a"

definition set_obj :: "ref \<Rightarrow> (participant \<Rightarrow> participant) \<Rightarrow> floor_controller \<Rightarrow> floor_controller" where
  \<comment> \<open>assignment to fields of the object \<open>a\<close> refers to\<close>
  "set_obj a f fc = fc\<lparr>fc_heap := (fc_heap fc)[a := f (obj fc a)]\<rparr>"

abbreviation id_of :: "floor_controller \<Rightarrow> ref \<Rightarrow> string" where
  "id_of fc a \<equiv> pt_mcptt_id (obj fc a)"

definition holder_is :: "floor_controller \<Rightarrow> string \<Rightarrow> bool" where
  \<comment> \<open>\<open>self.holder is not None and self.holder.mcptt_id == mcptt_id\<close>\<close>
  "holder_is fc mcptt_id = (case fc_holder fc of None \<Rightarrow> False | Some h \<Rightarrow> id_of fc h = mcptt_id)"

section \<open>Transition mechanics\<close>

definition do_grant :: "ref \<Rightarrow> floor_controller \<Rightarrow> floor_controller" where
  "do_grant p fc =
     (set_obj p (\<lambda>x. x\<lparr>pt_has_floor := True, pt_requesting := False\<rparr>) fc)\<lparr>fc_holder := Some p\<rparr>"

definition clear_holder :: "floor_controller \<Rightarrow> floor_controller" where
  \<comment> \<open>the first lines of \<open>_do_release\<close> and \<open>_do_preempt\<close>\<close>
  "clear_holder fc =
     (case fc_holder fc of None \<Rightarrow> fc | Some h \<Rightarrow> set_obj h (\<lambda>x. x\<lparr>pt_has_floor := False\<rparr>) fc)
       \<lparr>fc_holder := None\<rparr>"

definition do_release :: "floor_controller \<Rightarrow> floor_controller" where
  "do_release fc =
     (let fc = clear_holder fc in
      case fc_queue fc of
        [] \<Rightarrow> fc\<lparr>fc_state := IDLE\<rparr>
      | nxt # rest \<Rightarrow>
          (do_grant nxt (set_obj nxt (\<lambda>x. x\<lparr>pt_requesting := False\<rparr>) (fc\<lparr>fc_queue := rest\<rparr>)))
            \<lparr>fc_state := TAKEN\<rparr>)"

definition do_preempt :: "ref \<Rightarrow> floor_controller \<Rightarrow> floor_controller" where
  "do_preempt req fc = do_grant req (clear_holder fc)"

fun bubble :: "(ref \<Rightarrow> int) \<Rightarrow> ref list \<Rightarrow> nat \<Rightarrow> ref list" where
  \<comment> \<open>the \<open>while\<close> loop of \<open>_enqueue\<close>, with its index\<close>
  "bubble pr q 0 = q"
| "bubble pr q (Suc i) =
     (if pr (q ! Suc i) < pr (q ! i) then bubble pr (q[i := q ! Suc i, Suc i := q ! i]) i else q)"

definition enqueue :: "ref \<Rightarrow> floor_controller \<Rightarrow> floor_controller" where
  "enqueue p fc =
     (let q = fc_queue fc @ [p]
      in fc\<lparr>fc_queue := bubble (\<lambda>a. pt_priority (obj fc a)) q (length q - 1)\<rparr>)"

fun position_from :: "string list \<Rightarrow> string \<Rightarrow> nat \<Rightarrow> nat" where
  "position_from [] x i = 0"
| "position_from (y # ys) x i = (if y = x then i + 1 else position_from ys x (i + 1))"

definition queue_position :: "floor_controller \<Rightarrow> ref \<Rightarrow> nat" where
  "queue_position fc p = position_from (map (id_of fc) (fc_queue fc)) (id_of fc p) 0"

definition projected_state :: "floor_controller \<Rightarrow> ref \<Rightarrow> floor_server_state" where
  "projected_state fc a =
     (case fc_state fc of
        RELEASING \<Rightarrow> FLOOR_RELEASING
      | IDLE \<Rightarrow> FLOOR_IDLE
      | TAKEN \<Rightarrow> if holder_is fc (id_of fc a) then PERMITTED else FLOOR_TAKEN)"

definition refresh_states :: "floor_controller \<Rightarrow> floor_controller" where
  "refresh_states fc =
     foldl (\<lambda>fc a. set_obj a (\<lambda>x. x\<lparr>pt_state := projected_state fc a\<rparr>) fc)
       fc (map snd (fc_participants fc))"

section \<open>The operations of the controller\<close>

datatype floor_result =
    FloorError string
  | Granted string
  | Preempted string string
  | Denied string
  | Queued nat
  | Released

definition add_participant :: "string \<Rightarrow> int \<Rightarrow> floor_controller \<Rightarrow> floor_controller" where
  "add_participant mcptt_id priority fc =
     (if dict_get (fc_participants fc) mcptt_id \<noteq> None then fc
      else refresh_states (fc\<lparr>fc_heap := fc_heap fc @ [new_participant mcptt_id priority],
             fc_participants := dict_set mcptt_id (length (fc_heap fc)) (fc_participants fc)\<rparr>))"

definition remove_participant :: "string \<Rightarrow> floor_controller \<Rightarrow> floor_controller" where
  "remove_participant mcptt_id fc =
     (if dict_get (fc_participants fc) mcptt_id = None then fc
      else
        let fc = (if holder_is fc mcptt_id then do_release fc else fc);
            fc = fc\<lparr>fc_queue := filter (\<lambda>q. id_of fc q \<noteq> mcptt_id) (fc_queue fc)\<rparr>;
            fc = fc\<lparr>fc_participants := dict_del mcptt_id (fc_participants fc)\<rparr>
        in refresh_states fc)"

definition request_floor ::
  "string \<Rightarrow> int option \<Rightarrow> floor_controller \<Rightarrow> floor_result \<times> floor_controller" where
  "request_floor mcptt_id priority fc =
     (case dict_get (fc_participants fc) mcptt_id of
        None \<Rightarrow> (FloorError ''not_participant'', fc)
      | Some p \<Rightarrow>
          let fc = (case priority of None \<Rightarrow> fc | Some n \<Rightarrow> set_obj p (\<lambda>x. x\<lparr>pt_priority := n\<rparr>) fc) in
          if fc_state fc = RELEASING then (FloorError ''bad_state'', fc)
          else if fc_state fc = IDLE then
            (Granted mcptt_id, refresh_states ((do_grant p fc)\<lparr>fc_state := TAKEN\<rparr>))
          else if holder_is fc mcptt_id then (Granted mcptt_id, fc)
          else (case fc_holder fc of
                  Some h \<Rightarrow>
                    if can_preempt (pt_priority (obj fc p)) (pt_priority (obj fc h))
                    then (Preempted mcptt_id (id_of fc h), refresh_states (do_preempt p fc))
                    else if MAX_FLOOR_QUEUE \<le> length (fc_queue fc) then (Denied ''queue_full'', fc)
                    else let fc = enqueue p (set_obj p (\<lambda>x. x\<lparr>pt_requesting := True\<rparr>) fc)
                         in (Queued (queue_position fc p), fc)
                | None \<Rightarrow>
                    if MAX_FLOOR_QUEUE \<le> length (fc_queue fc) then (Denied ''queue_full'', fc)
                    else let fc = enqueue p (set_obj p (\<lambda>x. x\<lparr>pt_requesting := True\<rparr>) fc)
                         in (Queued (queue_position fc p), fc)))"

definition release_floor :: "string \<Rightarrow> floor_controller \<Rightarrow> floor_result \<times> floor_controller" where
  "release_floor mcptt_id fc =
     (if \<not> holder_is fc mcptt_id then (FloorError ''not_holder'', fc)
      else (Released, refresh_states (do_release fc)))"

fun state_name :: "call_state \<Rightarrow> string" where
  "state_name IDLE = ''idle''"
| "state_name TAKEN = ''taken''"
| "state_name RELEASING = ''releasing''"

record floor_snapshot =
  snap_call_id :: string
  snap_state :: string
  snap_holder :: string
  snap_holder_priority :: int
  snap_queue :: "string list"
  snap_participants :: "participant list"

definition snapshot :: "floor_controller \<Rightarrow> floor_snapshot \<times> floor_controller" where
  "snapshot fc =
     (let fc = refresh_states fc in
      (\<lparr>snap_call_id = fc_call_id fc, snap_state = state_name (fc_state fc),
        snap_holder = (case fc_holder fc of None \<Rightarrow> [] | Some h \<Rightarrow> id_of fc h),
        snap_holder_priority = (case fc_holder fc of None \<Rightarrow> 0 | Some h \<Rightarrow> pt_priority (obj fc h)),
        snap_queue = map (id_of fc) (fc_queue fc),
        snap_participants = map (\<lambda>(k, a). obj fc a) (fc_participants fc)\<rparr>, fc))"

text \<open>The calls a client can make, as one step function.\<close>

datatype floor_op =
    Add string int
  | Remove string
  | Request string "int option"
  | Release string
  | Snapshot

fun floor_step :: "floor_controller \<Rightarrow> floor_op \<Rightarrow> floor_controller" where
  "floor_step fc (Add m p) = add_participant m p fc"
| "floor_step fc (Remove m) = remove_participant m fc"
| "floor_step fc (Request m p) = snd (request_floor m p fc)"
| "floor_step fc (Release m) = snd (release_floor m fc)"
| "floor_step fc Snapshot = snd (snapshot fc)"

section \<open>Transmission control\<close>

record transmission_controller =
  tc_call_id :: string
  tc_transmitter :: string
  tc_participants :: "string set"

datatype transmission_result =
    TxError string
  | TxGranted
  | TxAlready
  | TxDenied string
  | TxReleased

definition new_transmission :: "string \<Rightarrow> transmission_controller" where
  "new_transmission c = \<lparr>tc_call_id = c, tc_transmitter = [], tc_participants = {}\<rparr>"

definition tx_add_participant :: "string \<Rightarrow> transmission_controller \<Rightarrow> transmission_controller" where
  "tx_add_participant m tc = tc\<lparr>tc_participants := insert m (tc_participants tc)\<rparr>"

definition tx_remove_participant :: "string \<Rightarrow> transmission_controller \<Rightarrow> transmission_controller" where
  "tx_remove_participant m tc =
     (let tc = tc\<lparr>tc_participants := tc_participants tc - {m}\<rparr>
      in if tc_transmitter tc = m then tc\<lparr>tc_transmitter := []\<rparr> else tc)"

definition request_transmission ::
  "string \<Rightarrow> transmission_controller \<Rightarrow> transmission_result \<times> transmission_controller" where
  "request_transmission m tc =
     (if m \<notin> tc_participants tc then (TxError ''not_participant'', tc)
      else if tc_transmitter tc = [] then (TxGranted, tc\<lparr>tc_transmitter := m\<rparr>)
      else if tc_transmitter tc = m then (TxAlready, tc)
      else (TxDenied (tc_transmitter tc), tc))"

definition release_transmission ::
  "string \<Rightarrow> transmission_controller \<Rightarrow> transmission_result \<times> transmission_controller" where
  "release_transmission m tc =
     (if tc_transmitter tc \<noteq> m then (TxError ''not_transmitter'', tc)
      else (TxReleased, tc\<lparr>tc_transmitter := []\<rparr>))"

datatype tx_op = TxAdd string | TxRemove string | TxRequest string | TxRelease string

fun tx_step :: "transmission_controller \<Rightarrow> tx_op \<Rightarrow> transmission_controller" where
  "tx_step tc (TxAdd m) = tx_add_participant m tc"
| "tx_step tc (TxRemove m) = tx_remove_participant m tc"
| "tx_step tc (TxRequest m) = snd (request_transmission m tc)"
| "tx_step tc (TxRelease m) = snd (release_transmission m tc)"

section \<open>The queue discipline\<close>

text \<open>
  The loop moves the last element towards the head past every element of strictly larger
  priority value; on a queue in order this is a stable insertion.
\<close>

lemma bubble_split:
  "length ys = i \<Longrightarrow> bubble pr (ys @ p # zs) i =
     (let back = length (takeWhile (\<lambda>y. pr p < pr y) (rev ys))
      in take (i - back) ys @ p # drop (i - back) ys @ zs)"
proof (induction i arbitrary: ys zs)
  case 0
  then show ?case by simp
next
  case (Suc i)
  then obtain ys' y where ys: "ys = ys' @ [y]" "length ys' = i" by (cases ys rule: rev_cases) auto
  have swap: "(ys @ p # zs)[i := p, Suc i := y] = ys' @ p # y # zs"
    "(ys @ p # zs) ! Suc i = p" "(ys @ p # zs) ! i = y"
    using ys by (simp_all add: nth_append list_update_append)
  show ?case
  proof (cases "pr p < pr y")
    case True
    then have "bubble pr (ys @ p # zs) (Suc i) = bubble pr (ys' @ p # y # zs) i"
      by (simp only: bubble.simps swap if_True)
    with Suc.IH [OF ys(2), of "y # zs"] True ys show ?thesis by (simp add: Let_def)
  next
    case False
    with ys swap show ?thesis by (simp add: Let_def)
  qed
qed

lemma set_bubble: "length ys = i \<Longrightarrow> set (bubble pr (ys @ [p]) i) = insert p (set ys)"
  unfolding bubble_split [where zs = "[]"] Let_def append_Nil2
  by (subst (3) append_take_drop_id [symmetric, of _ "i - length (takeWhile (\<lambda>y. pr p < pr y) (rev ys))"])
     (simp only: set_append list.set, blast)

lemma length_bubble [simp]: "length (bubble pr q i) = length q"
  by (induction pr q i rule: bubble.induct) auto

lemma takeWhile_rev_sorted:
  "sorted (map pr ys) \<Longrightarrow> length ys - length (takeWhile (\<lambda>y. pr p < pr y) (rev ys))
     = length (takeWhile (\<lambda>y. pr y \<le> (pr p :: int)) ys)"
proof (induction ys rule: rev_induct)
  case Nil
  then show ?case by simp
next
  case (snoc y ys)
  show ?case
  proof (cases "pr p < pr y")
    case True
    have "length (takeWhile (\<lambda>y. pr p < pr y) (rev ys)) \<le> length ys"
      by (metis length_rev length_takeWhile_le)
    moreover have "takeWhile (\<lambda>y. pr y \<le> pr p) (ys @ [y]) = takeWhile (\<lambda>y. pr y \<le> pr p) ys"
      using True by (simp add: takeWhile_tail)
    ultimately show ?thesis using snoc True by (simp add: sorted_append)
  next
    case False
    then have "\<forall>x\<in>set (ys @ [y]). pr x \<le> pr p"
      using snoc.prems by (fastforce simp: sorted_append)
    with False show ?thesis by (simp add: takeWhile_append)
  qed
qed

lemma sorted_take_drop_While:
  assumes "sorted (map f xs)"
  shows "sorted (map f (takeWhile P xs))" "sorted (map f (dropWhile P xs))"
proof -
  have "sorted (map f (takeWhile P xs) @ map f (dropWhile P xs))"
    using assms by (simp flip: map_append)
  then show "sorted (map f (takeWhile P xs))" "sorted (map f (dropWhile P xs))"
    by (simp_all only: sorted_append)
qed

lemma sorted_insert_middle:
  assumes "sorted (map f xs)" "sorted (map f ys)" "\<forall>x\<in>set xs. f x \<le> f p" "\<forall>y\<in>set ys. f p \<le> f y"
  shows "sorted (map f (xs @ p # ys))"
proof -
  have "\<forall>x\<in>set xs. \<forall>y\<in>set ys. f x \<le> f y" using assms(3,4) order_trans by blast
  then show ?thesis using assms by (simp add: sorted_append)
qed

text \<open>
  as long as the queue is in priority order, queueing a request is the stable insertion: the
  request goes behind every request of the same or better priority and ahead of every worse one,
  and the queue stays in order.
\<close>

theorem enqueue_stable_insert:
  assumes "sorted (map (\<lambda>a. pt_priority (obj fc a)) (fc_queue fc))"
  shows "fc_queue (enqueue p fc) =
           takeWhile (\<lambda>a. pt_priority (obj fc a) \<le> pt_priority (obj fc p)) (fc_queue fc) @ p #
           dropWhile (\<lambda>a. pt_priority (obj fc a) \<le> pt_priority (obj fc p)) (fc_queue fc) \<and>
         sorted (map (\<lambda>a. pt_priority (obj fc a)) (fc_queue (enqueue p fc)))"
proof -
  let ?pr = "\<lambda>a. pt_priority (obj fc a)" and ?q = "fc_queue fc"
  let ?le = "\<lambda>a. ?pr a \<le> ?pr p"
  have eq: "fc_queue (enqueue p fc) = takeWhile ?le ?q @ p # dropWhile ?le ?q"
    using bubble_split [of ?q "length ?q" ?pr p "[]"] takeWhile_rev_sorted [OF assms, of p]
    by (simp add: enqueue_def Let_def flip: takeWhile_eq_take [of ?le] dropWhile_eq_drop [of ?le])
  have drop_gt: "?pr p < ?pr x" if "x \<in> set (dropWhile ?le ?q)" for x
  proof -
    from that have "dropWhile ?le ?q \<noteq> []" by (metis empty_iff empty_set)
    then obtain y ys where ys: "dropWhile ?le ?q = y # ys" by (meson neq_Nil_conv)
    then have "\<not> ?le y" using dropWhile_eq_Cons_conv [of ?le ?q y ys] by auto
    moreover have "sorted (map ?pr (y # ys))"
      using sorted_take_drop_While(2) [OF assms, of ?le] ys by simp
    ultimately show ?thesis using that ys by fastforce
  qed
  have "sorted (map ?pr (takeWhile ?le ?q @ p # dropWhile ?le ?q))"
  proof (rule sorted_insert_middle)
    show "\<forall>x\<in>set (takeWhile ?le ?q). ?pr x \<le> ?pr p" by (auto dest: set_takeWhileD)
    show "\<forall>x\<in>set (dropWhile ?le ?q). ?pr p \<le> ?pr x" using drop_gt by (simp add: less_imp_le)
  qed (rule sorted_take_drop_While [OF assms])+
  with eq show ?thesis by simp
qed

section \<open>Invariant\<close>

text \<open>
  The store part: participants are indexed by their own identifiers, the queue holds live
  participants only and at most ten of them, and exactly the holder's object has the floor.  The
  state part ties the controller state to the holder.
\<close>

definition store_inv :: "floor_controller \<Rightarrow> bool" where
  "store_inv fc \<longleftrightarrow>
     dict_ok (fc_participants fc) \<and>
     (\<forall>(k, a) \<in> set (fc_participants fc). a < length (fc_heap fc) \<and> id_of fc a = k) \<and>
     (\<forall>a \<in> set (fc_queue fc). dict_get (fc_participants fc) (id_of fc a) = Some a) \<and>
     length (fc_queue fc) \<le> MAX_FLOOR_QUEUE \<and>
     (\<forall>a < length (fc_heap fc). pt_has_floor (obj fc a) \<longleftrightarrow> fc_holder fc = Some a) \<and>
     (\<forall>h. fc_holder fc = Some h \<longrightarrow> h < length (fc_heap fc))"

definition state_inv :: "floor_controller \<Rightarrow> bool" where
  "state_inv fc \<longleftrightarrow> (fc_state fc = TAKEN \<longleftrightarrow> fc_holder fc \<noteq> None) \<and> fc_state fc \<noteq> RELEASING \<and>
     (fc_state fc = IDLE \<longrightarrow> fc_queue fc = [])"

definition floor_inv :: "floor_controller \<Rightarrow> bool" where
  "floor_inv fc \<longleftrightarrow> store_inv fc \<and> state_inv fc"

lemma set_obj_fields [simp]:
  "fc_call_id (set_obj a f fc) = fc_call_id fc" "fc_state (set_obj a f fc) = fc_state fc"
  "fc_holder (set_obj a f fc) = fc_holder fc" "fc_queue (set_obj a f fc) = fc_queue fc"
  "fc_participants (set_obj a f fc) = fc_participants fc"
  "length (fc_heap (set_obj a f fc)) = length (fc_heap fc)"
  by (simp_all add: set_obj_def)

lemma obj_set_obj:
  "obj (set_obj a f fc) b = (if b = a \<and> a < length (fc_heap fc) then f (obj fc a) else obj fc b)"
  by (auto simp: set_obj_def obj_def list_update_beyond)

lemma obj_update [simp]:
  "obj (fc\<lparr>fc_state := s\<rparr>) a = obj fc a" "obj (fc\<lparr>fc_holder := h\<rparr>) a = obj fc a"
  "obj (fc\<lparr>fc_queue := q\<rparr>) a = obj fc a" "obj (fc\<lparr>fc_participants := ps\<rparr>) a = obj fc a"
  by (simp_all add: obj_def)

lemma obj_alloc:
  "a < length (fc_heap fc) \<Longrightarrow> obj (fc\<lparr>fc_heap := fc_heap fc @ [x]\<rparr>) a = obj fc a"
  by (simp add: obj_def nth_append)

lemma refresh_fields [simp]:
  "fc_call_id (refresh_states fc) = fc_call_id fc" "fc_state (refresh_states fc) = fc_state fc"
  "fc_holder (refresh_states fc) = fc_holder fc" "fc_queue (refresh_states fc) = fc_queue fc"
  "fc_participants (refresh_states fc) = fc_participants fc"
  "length (fc_heap (refresh_states fc)) = length (fc_heap fc)"
  "id_of (refresh_states fc) a = id_of fc a"
  "pt_priority (obj (refresh_states fc) a) = pt_priority (obj fc a)"
  "pt_has_floor (obj (refresh_states fc) a) = pt_has_floor (obj fc a)"
  "pt_requesting (obj (refresh_states fc) a) = pt_requesting (obj fc a)"
proof -
  let ?step = "\<lambda>fc a. set_obj a (\<lambda>x. x\<lparr>pt_state := projected_state fc a\<rparr>) fc"
  have "fc_call_id (foldl ?step fc as) = fc_call_id fc \<and> fc_state (foldl ?step fc as) = fc_state fc \<and>
    fc_holder (foldl ?step fc as) = fc_holder fc \<and> fc_queue (foldl ?step fc as) = fc_queue fc \<and>
    fc_participants (foldl ?step fc as) = fc_participants fc \<and>
    length (fc_heap (foldl ?step fc as)) = length (fc_heap fc) \<and>
    id_of (foldl ?step fc as) a = id_of fc a \<and>
    pt_priority (obj (foldl ?step fc as) a) = pt_priority (obj fc a) \<and>
    pt_has_floor (obj (foldl ?step fc as) a) = pt_has_floor (obj fc a) \<and>
    pt_requesting (obj (foldl ?step fc as) a) = pt_requesting (obj fc a)" for as
    by (induction as arbitrary: fc) (simp_all add: obj_set_obj)
  then show
    "fc_call_id (refresh_states fc) = fc_call_id fc" "fc_state (refresh_states fc) = fc_state fc"
    "fc_holder (refresh_states fc) = fc_holder fc" "fc_queue (refresh_states fc) = fc_queue fc"
    "fc_participants (refresh_states fc) = fc_participants fc"
    "length (fc_heap (refresh_states fc)) = length (fc_heap fc)"
    "id_of (refresh_states fc) a = id_of fc a"
    "pt_priority (obj (refresh_states fc) a) = pt_priority (obj fc a)"
    "pt_has_floor (obj (refresh_states fc) a) = pt_has_floor (obj fc a)"
    "pt_requesting (obj (refresh_states fc) a) = pt_requesting (obj fc a)"
    by (simp_all only: refresh_states_def)
qed

lemma inv_refresh [simp]: "floor_inv (refresh_states fc) = floor_inv fc"
  by (simp add: floor_inv_def store_inv_def state_inv_def)

lemma store_inv_set_obj:
  assumes "\<And>x. pt_mcptt_id (f x) = pt_mcptt_id x" "\<And>x. pt_has_floor (f x) = pt_has_floor x"
  shows "store_inv (set_obj a f fc) = store_inv fc" "state_inv (set_obj a f fc) = state_inv fc"
proof -
  have "id_of (set_obj a f fc) b = id_of fc b" "pt_has_floor (obj (set_obj a f fc) b) = pt_has_floor (obj fc b)" for b
    by (simp_all add: obj_set_obj assms)
  then show "store_inv (set_obj a f fc) = store_inv fc" "state_inv (set_obj a f fc) = state_inv fc"
    by (simp_all add: store_inv_def state_inv_def)
qed

lemma inv_set_obj [simp]:
  "floor_inv (set_obj a (\<lambda>x. x\<lparr>pt_priority := n\<rparr>) fc) = floor_inv fc"
  "floor_inv (set_obj a (\<lambda>x. x\<lparr>pt_requesting := r\<rparr>) fc) = floor_inv fc"
  "store_inv (set_obj a (\<lambda>x. x\<lparr>pt_requesting := r\<rparr>) fc) = store_inv fc"
  by (simp_all add: floor_inv_def store_inv_set_obj)

lemma store_inv_state [simp]: "store_inv (fc\<lparr>fc_state := s\<rparr>) = store_inv fc"
  by (simp add: store_inv_def)

lemma clear_holder_fields [simp]:
  "fc_holder (clear_holder fc) = None" "fc_state (clear_holder fc) = fc_state fc"
  "fc_queue (clear_holder fc) = fc_queue fc"
  "fc_participants (clear_holder fc) = fc_participants fc"
  "length (fc_heap (clear_holder fc)) = length (fc_heap fc)"
  "id_of (clear_holder fc) a = id_of fc a"
  "pt_priority (obj (clear_holder fc) a) = pt_priority (obj fc a)"
  by (simp_all add: clear_holder_def obj_set_obj split: option.splits)

lemma store_inv_clear: "store_inv fc \<Longrightarrow> store_inv (clear_holder fc)"
  by (auto simp: store_inv_def) (auto simp: clear_holder_def obj_set_obj split: option.splits if_splits)

lemma do_grant_fields [simp]:
  "fc_holder (do_grant p fc) = Some p" "fc_state (do_grant p fc) = fc_state fc"
  "fc_queue (do_grant p fc) = fc_queue fc" "fc_participants (do_grant p fc) = fc_participants fc"
  "length (fc_heap (do_grant p fc)) = length (fc_heap fc)" "id_of (do_grant p fc) a = id_of fc a"
  "pt_priority (obj (do_grant p fc) a) = pt_priority (obj fc a)"
  by (simp_all add: do_grant_def obj_set_obj)

lemma store_inv_grant:
  "store_inv fc \<Longrightarrow> fc_holder fc = None \<Longrightarrow> p < length (fc_heap fc) \<Longrightarrow> store_inv (do_grant p fc)"
  by (auto simp: store_inv_def) (auto simp: do_grant_def obj_set_obj split: if_splits)

lemma store_inv_queue:
  "store_inv fc \<Longrightarrow> set q \<subseteq> set (fc_queue fc) \<Longrightarrow> length q \<le> length (fc_queue fc) \<Longrightarrow>
     store_inv (fc\<lparr>fc_queue := q\<rparr>)"
  unfolding store_inv_def by (fastforce)

lemma participant_ref:
  "store_inv fc \<Longrightarrow> dict_get (fc_participants fc) m = Some p \<Longrightarrow> p < length (fc_heap fc) \<and> id_of fc p = m"
  by (auto simp: store_inv_def dict_get_in_set)

lemma queue_ref:
  "store_inv fc \<Longrightarrow> a \<in> set (fc_queue fc) \<Longrightarrow>
     dict_get (fc_participants fc) (id_of fc a) = Some a \<and> a < length (fc_heap fc)"
  using participant_ref [of fc "id_of fc a" a] by (auto simp: store_inv_def)

lemma inv_release: "floor_inv fc \<Longrightarrow> floor_inv (do_release fc)"
proof -
  assume inv: "floor_inv fc"
  then have s: "store_inv (clear_holder fc)" by (simp add: floor_inv_def store_inv_clear)
  show ?thesis
  proof (cases "fc_queue fc")
    case Nil
    with s show ?thesis by (simp add: do_release_def floor_inv_def state_inv_def)
  next
    case (Cons nxt rest)
    have "store_inv ((clear_holder fc)\<lparr>fc_queue := rest\<rparr>)"
      using s Cons by (intro store_inv_queue) auto
    moreover have "nxt < length (fc_heap fc)"
      using inv Cons queue_ref [of fc nxt] by (simp add: floor_inv_def)
    ultimately have "store_inv (do_grant nxt (set_obj nxt (\<lambda>x. x\<lparr>pt_requesting := False\<rparr>)
        ((clear_holder fc)\<lparr>fc_queue := rest\<rparr>)))"
      by (intro store_inv_grant) simp_all
    with Cons show ?thesis by (simp add: do_release_def floor_inv_def state_inv_def)
  qed
qed

lemma do_release_fields [simp]:
  "fc_participants (do_release fc) = fc_participants fc"
  "id_of (do_release fc) a = id_of fc a"
  "length (fc_heap (do_release fc)) = length (fc_heap fc)"
  by (simp_all add: do_release_def Let_def obj_set_obj split: list.splits)

lemma inv_preempt:
  "floor_inv fc \<Longrightarrow> fc_state fc = TAKEN \<Longrightarrow> p < length (fc_heap fc) \<Longrightarrow> floor_inv (do_preempt p fc)"
  by (simp add: floor_inv_def do_preempt_def state_inv_def store_inv_grant store_inv_clear)

lemma enqueue_fields [simp]:
  "fc_holder (enqueue p fc) = fc_holder fc" "fc_state (enqueue p fc) = fc_state fc"
  "fc_participants (enqueue p fc) = fc_participants fc" "fc_heap (enqueue p fc) = fc_heap fc"
  "obj (enqueue p fc) a = obj fc a" "set (fc_queue (enqueue p fc)) = insert p (set (fc_queue fc))"
  "length (fc_queue (enqueue p fc)) = Suc (length (fc_queue fc))"
  by (simp_all add: enqueue_def set_bubble Let_def)

lemma inv_enqueue:
  "floor_inv fc \<Longrightarrow> fc_state fc = TAKEN \<Longrightarrow> dict_get (fc_participants fc) (id_of fc p) = Some p \<Longrightarrow>
     length (fc_queue fc) < MAX_FLOOR_QUEUE \<Longrightarrow> floor_inv (enqueue p fc)"
  by (simp add: floor_inv_def store_inv_def state_inv_def)

lemma inv_add: "floor_inv fc \<Longrightarrow> floor_inv (add_participant m n fc)"
proof (cases "dict_get (fc_participants fc) m")
  case None
  assume inv: "floor_inv fc"
  let ?l = "length (fc_heap fc)"
  let ?fc = "fc\<lparr>fc_heap := fc_heap fc @ [new_participant m n],
                fc_participants := dict_set m ?l (fc_participants fc)\<rparr>"
  have old: "a < ?l \<Longrightarrow> obj (fc\<lparr>fc_heap := fc_heap fc @ [x]\<rparr>) a = obj fc a"
    and new: "obj (fc\<lparr>fc_heap := fc_heap fc @ [x]\<rparr>) ?l = x" for a x
    by (simp_all add: obj_def nth_append)
  have s: "store_inv fc" using inv by (simp add: floor_inv_def)
  have "id_of fc a \<noteq> m" if "a \<in> set (fc_queue fc)" for a
    using queue_ref [OF s that] None by auto
  moreover have "a < Suc ?l \<longleftrightarrow> a < ?l \<or> a = ?l" for a by auto
  ultimately have "store_inv ?fc"
    using s queue_ref [OF s] new
    by (auto simp: store_inv_def old new_participant_def dest!: dict_set_mem)
  with inv have "floor_inv ?fc" by (simp add: floor_inv_def state_inv_def)
  with None show ?thesis by (simp add: add_participant_def)
qed (simp add: add_participant_def)

lemma inv_remove: "floor_inv fc \<Longrightarrow> floor_inv (remove_participant m fc)"
proof -
  assume inv: "floor_inv fc"
  define fc1 where "fc1 = (if holder_is fc m then do_release fc else fc)"
  have inv1: "floor_inv fc1" using inv by (simp add: fc1_def inv_release)
  then have "store_inv (fc1\<lparr>fc_queue := filter (\<lambda>q. id_of fc1 q \<noteq> m) (fc_queue fc1)\<rparr>)"
    by (intro store_inv_queue) (auto simp: floor_inv_def)
  then have "floor_inv (fc1\<lparr>fc_queue := filter (\<lambda>q. id_of fc1 q \<noteq> m) (fc_queue fc1),
      fc_participants := dict_del m (fc_participants fc1)\<rparr>)"
    using inv1 by (auto simp: floor_inv_def state_inv_def store_inv_def)
  with inv show ?thesis by (simp add: remove_participant_def Let_def flip: fc1_def)
qed

lemma inv_request: "floor_inv fc \<Longrightarrow> floor_inv (snd (request_floor m n fc))"
proof (cases "dict_get (fc_participants fc) m")
  case (Some p)
  assume inv0: "floor_inv fc"
  define fc1 where "fc1 = (case n of None \<Rightarrow> fc | Some k \<Rightarrow> set_obj p (\<lambda>x. x\<lparr>pt_priority := k\<rparr>) fc)"
  have inv: "floor_inv fc1" and parts: "dict_get (fc_participants fc1) m = Some p"
    using inv0 Some by (simp_all add: fc1_def split: option.splits)
  then have p: "p < length (fc_heap fc1)" "id_of fc1 p = m"
    using participant_ref by (auto simp: floor_inv_def)
  have idle: "floor_inv ((do_grant p fc1)\<lparr>fc_state := TAKEN\<rparr>)" if "fc_state fc1 = IDLE"
    using inv that p by (auto simp: floor_inv_def state_inv_def intro!: store_inv_grant)
  let ?q = "set_obj p (\<lambda>x. x\<lparr>pt_requesting := True\<rparr>) fc1"
  have "id_of ?q p = m" using p by (simp add: obj_set_obj)
  then have queued: "floor_inv (enqueue p ?q)" if "fc_state fc1 = TAKEN" "length (fc_queue fc1) < MAX_FLOOR_QUEUE"
    using inv that parts by (intro inv_enqueue) simp_all
  show ?thesis
    using inv idle queued inv_preempt [OF inv _ p(1)] Some
    by (cases "fc_state fc1")
      (auto simp: request_floor_def Let_def not_le simp flip: fc1_def split: option.splits)
qed (simp add: request_floor_def)

lemma inv_release_floor: "floor_inv fc \<Longrightarrow> floor_inv (snd (release_floor m fc))"
  by (simp add: release_floor_def inv_release)

lemma inv_new [simp]: "floor_inv (new_controller c)"
  by (simp add: floor_inv_def store_inv_def state_inv_def new_controller_def)

interpretation floor: step_system floor_step floor_inv
proof unfold_locales
  show "floor_inv s \<Longrightarrow> floor_inv (floor_step s op)" for s op
    by (cases op) (simp_all add: inv_add inv_remove inv_request inv_release_floor snapshot_def Let_def)
qed

section \<open>Properties of the controller\<close>

text \<open>
  C6: after any sequence of operations on a fresh controller the floor has at most one owner, and
  it is the recorded holder: the objects flagged as having the floor are exactly the holder, the
  state is \<open>TAKEN\<close> exactly when there is one, the releasing state is never entered, the queue
  keeps its bound and holds only live participants, and no identifier occurs twice.
\<close>

theorem floor_safety:
  "let fc = foldl floor_step (new_controller c) ops in
     {a. a < length (fc_heap fc) \<and> pt_has_floor (obj fc a)} = set_option (fc_holder fc) \<and>
     (fc_state fc = TAKEN \<longleftrightarrow> fc_holder fc \<noteq> None) \<and> fc_state fc \<noteq> RELEASING \<and>
     length (fc_queue fc) \<le> MAX_FLOOR_QUEUE \<and>
     set (fc_queue fc) \<subseteq> snd ` set (fc_participants fc) \<and>
     distinct (map fst (fc_participants fc))"
proof -
  define fc where "fc = foldl floor_step (new_controller c) ops"
  have inv: "floor_inv fc" unfolding fc_def by (rule floor.run_inv) simp
  then have s: "store_inv fc" by (simp add: floor_inv_def)
  have "set (fc_queue fc) \<subseteq> snd ` set (fc_participants fc)"
  proof
    fix a assume "a \<in> set (fc_queue fc)"
    then have "(id_of fc a, a) \<in> set (fc_participants fc)"
      using queue_ref [OF s] s by (simp add: store_inv_def dict_get_in_set)
    then show "a \<in> snd ` set (fc_participants fc)" by force
  qed
  moreover have "{a. a < length (fc_heap fc) \<and> pt_has_floor (obj fc a)} = set_option (fc_holder fc)"
    "length (fc_queue fc) \<le> MAX_FLOOR_QUEUE" "distinct (map fst (fc_participants fc))"
    using s by (auto simp: store_inv_def dict_ok_def)
  moreover have "fc_state fc = TAKEN \<longleftrightarrow> fc_holder fc \<noteq> None" "fc_state fc \<noteq> RELEASING"
    using inv by (simp_all only: floor_inv_def state_inv_def simp_thms)
  ultimately show ?thesis unfolding Let_def fc_def by blast
qed

lemma holder_is_updates [simp]:
  "holder_is (refresh_states fc) m = holder_is fc m" "holder_is (do_grant p fc) m = (id_of fc p = m)"
  "holder_is (fc\<lparr>fc_state := s\<rparr>) m = holder_is fc m"
  "holder_is (do_preempt p fc) m = (id_of fc p = m)"
  by (simp_all add: holder_is_def do_preempt_def split: option.splits)

lemma emergency_request:
  assumes inv: "floor_inv fc"
    and "dict_get (fc_participants fc) m = Some p"
    and "n = Some PRIORITY_EMERGENCY \<or> n = None \<and> pt_priority (obj fc p) = PRIORITY_EMERGENCY"
  shows "(fst (request_floor m n fc) = Granted m \<or> (\<exists>old. fst (request_floor m n fc) = Preempted m old)) \<and>
         holder_is (snd (request_floor m n fc)) m \<and> fc_state (snd (request_floor m n fc)) = TAKEN"
proof -
  define fc1 where "fc1 = (case n of None \<Rightarrow> fc | Some k \<Rightarrow> set_obj p (\<lambda>x. x\<lparr>pt_priority := k\<rparr>) fc)"
  have inv1: "floor_inv fc1" "dict_get (fc_participants fc1) m = Some p"
    using inv assms(2) by (simp_all add: fc1_def split: option.splits)
  then have p: "p < length (fc_heap fc)" "id_of fc1 p = m"
    using participant_ref [of fc m p] participant_ref [of fc1 m p] inv assms(2)
    by (auto simp: floor_inv_def)
  then have "pt_priority (obj fc1 p) = PRIORITY_EMERGENCY"
    using assms(3) by (auto simp: fc1_def obj_set_obj)
  then have pre: "can_preempt (pt_priority (obj fc1 p)) k" for k by (simp add: can_preempt_def)
  consider "fc_state fc1 = IDLE" | h where "fc_state fc1 = TAKEN" "fc_holder fc1 = Some h"
    using inv1(1) by (cases "fc_state fc1") (auto simp: floor_inv_def state_inv_def)
  then show ?thesis
  proof cases
    case 1
    with p assms(2) show ?thesis by (simp add: request_floor_def Let_def flip: fc1_def)
  next
    case 2
    with p pre assms(2) show ?thesis
      by (cases "holder_is fc1 m") (simp_all add: request_floor_def Let_def do_preempt_def flip: fc1_def)
  qed
qed

text \<open>
  C34: an emergency request always gets the floor at once, whoever holds it and however long the
  queue is: after any sequence of operations, a participant whose request carries (or whose
  stored priority is) the emergency priority is granted the floor or preempts the holder, and is
  the holder afterwards.
\<close>

theorem emergency_gets_floor:
  assumes "fc = foldl floor_step (new_controller c) ops"
    and "dict_get (fc_participants fc) m = Some p"
    and "n = Some PRIORITY_EMERGENCY \<or> n = None \<and> pt_priority (obj fc p) = PRIORITY_EMERGENCY"
  shows "(fst (request_floor m n fc) = Granted m \<or> (\<exists>old. fst (request_floor m n fc) = Preempted m old)) \<and>
         holder_is (snd (request_floor m n fc)) m \<and> fc_state (snd (request_floor m n fc)) = TAKEN"
proof -
  have "floor_inv fc" unfolding assms(1) by (rule floor.run_inv) simp
  from emergency_request [OF this assms(2,3)] show ?thesis .
qed

theorem emergency_gets_floor_witness:
  "holder_is (snd (request_floor ''b'' (Some PRIORITY_EMERGENCY)
     (foldl floor_step (new_controller ''c'') [Add ''a'' 5, Add ''b'' 5, Request ''a'' None]))) ''b''"
proof -
  let ?fc = "foldl floor_step (new_controller ''c'') [Add ''a'' 5, Add ''b'' 5, Request ''a'' None]"
  have "dict_get (fc_participants ?fc) ''b'' = Some 1" by code_simp
  from emergency_gets_floor [OF refl this, of "Some PRIORITY_EMERGENCY"] show ?thesis by simp
qed

text \<open>
  the holder's release hands the floor to the head of the queue in the same step; only with
  an empty queue does the controller go idle.  A release by anybody else changes nothing.
\<close>

theorem release_hands_over:
  "release_floor m fc =
     (if holder_is fc m then (Released, snd (release_floor m fc)) else (FloorError ''not_holder'', fc)) \<and>
   (holder_is fc m \<and> fc_queue fc = [] \<longrightarrow>
      fc_state (snd (release_floor m fc)) = IDLE \<and> fc_holder (snd (release_floor m fc)) = None) \<and>
   (holder_is fc m \<and> fc_queue fc \<noteq> [] \<longrightarrow>
      fc_state (snd (release_floor m fc)) = TAKEN \<and>
      fc_holder (snd (release_floor m fc)) = Some (hd (fc_queue fc)) \<and>
      fc_queue (snd (release_floor m fc)) = tl (fc_queue fc))"
  by (cases "fc_queue fc") (simp_all add: release_floor_def do_release_def Let_def)

theorem release_hands_over_witness:
  "let fc = foldl floor_step (new_controller ''c'') [Add ''a'' 5, Add ''b'' 5, Request ''a'' None, Request ''b'' None]
   in fc_holder (snd (release_floor ''a'' fc)) = Some (hd (fc_queue fc))"
proof -
  let ?fc = "foldl floor_step (new_controller ''c'') [Add ''a'' 5, Add ''b'' 5, Request ''a'' None, Request ''b'' None]"
  have "holder_is ?fc ''a'' \<and> fc_queue ?fc \<noteq> []" by code_simp
  with release_hands_over [of "''a''" ?fc] show ?thesis by (simp only: Let_def) blast
qed

text \<open>
  a participant that preempts while its own earlier request is still queued and then leaves
  is granted the floor again by its own departure: the controller ends up \<open>TAKEN\<close> with a holder
  that is no participant.  (\<open>remove_participant\<close> releases the floor before it clears the queue.)
\<close>

theorem removed_participant_regranted:
  "let fc = foldl floor_step (new_controller ''c'')
       [Add ''a'' 5, Add ''b'' 5, Request ''a'' None, Request ''b'' None,
        Request ''b'' (Some PRIORITY_EMERGENCY), Remove ''b'']
   in fc_state fc = TAKEN \<and> holder_is fc ''b'' \<and> dict_get (fc_participants fc) ''b'' = None"
  by code_simp

text \<open>
  a participant that leaves without a queued request of its own leaves the floor with a live
  participant or with nobody, and none of its objects stays in the queue.
\<close>

theorem remove_participant_clean:
  assumes "fc = foldl floor_step (new_controller c) ops"
    and "dict_get (fc_participants fc) m \<noteq> None"
    and "\<forall>a\<in>set (fc_queue fc). id_of fc a \<noteq> m"
    and "\<forall>h. fc_holder fc = Some h \<longrightarrow> dict_get (fc_participants fc) (id_of fc h) = Some h"
  shows "(let fc' = remove_participant m fc in
      (case fc_holder fc' of None \<Rightarrow> fc_state fc' = IDLE
       | Some h \<Rightarrow> dict_get (fc_participants fc') (id_of fc' h) = Some h \<and> fc_state fc' = TAKEN) \<and>
      m \<notin> id_of fc' ` set (fc_queue fc') \<and> dict_get (fc_participants fc') m = None)"
proof -
  have inv: "floor_inv fc" unfolding assms(1) by (rule floor.run_inv) simp
  then have q: "\<forall>a\<in>set (fc_queue fc). dict_get (fc_participants fc) (id_of fc a) = Some a"
    by (auto simp: floor_inv_def store_inv_def)
  define fc1 where "fc1 = (if holder_is fc m then do_release fc else fc)"
  have f: "fc_participants fc1 = fc_participants fc" "id_of fc1 a = id_of fc a" for a
    by (simp_all add: fc1_def)
  have inv1: "floor_inv fc1" using inv by (simp add: fc1_def inv_release)
  have "dict_get (fc_participants fc) (id_of fc h) = Some h \<and> id_of fc h \<noteq> m" if "fc_holder fc1 = Some h" for h
    using that assms(3,4) q
    by (cases "fc_queue fc") (auto simp: fc1_def do_release_def Let_def holder_is_def split: if_splits)
  then have h: "dict_get (dict_del m (fc_participants fc1)) (id_of fc1 h) = Some h" if "fc_holder fc1 = Some h" for h
    using that f by simp
  have "fc_state fc1 = (if fc_holder fc1 = None then IDLE else TAKEN)"
    using inv1 by (cases "fc_state fc1"; cases "fc_holder fc1") (simp_all add: floor_inv_def state_inv_def)
  moreover define fc2 where "fc2 = fc1\<lparr>fc_queue := filter (\<lambda>q. id_of fc1 q \<noteq> m) (fc_queue fc1),
      fc_participants := dict_del m (fc_participants fc1)\<rparr>"
  moreover have "remove_participant m fc = refresh_states fc2"
    using assms(2) by (auto simp: remove_participant_def Let_def fc2_def simp flip: fc1_def)
  moreover have "m \<notin> id_of fc2 ` set (fc_queue fc2)" by (auto simp: fc2_def)
  ultimately show ?thesis
    using h by (cases "fc_holder fc1") (simp_all add: Let_def fc2_def del: dict_get_del, simp_all)
qed

theorem remove_participant_clean_witness:
  "let fc = foldl floor_step (new_controller ''c'') [Add ''a'' 5, Add ''b'' 5, Request ''a'' None, Request ''b'' None];
       fc' = remove_participant ''a'' fc
   in (case fc_holder fc' of None \<Rightarrow> fc_state fc' = IDLE
       | Some h \<Rightarrow> dict_get (fc_participants fc') (id_of fc' h) = Some h \<and> fc_state fc' = TAKEN)"
proof -
  define fc where fc: "fc = foldl floor_step (new_controller ''c'') [Add ''a'' 5, Add ''b'' 5, Request ''a'' None, Request ''b'' None]"
  have "dict_get (fc_participants fc) ''a'' \<noteq> None" "\<forall>a\<in>set (fc_queue fc). id_of fc a \<noteq> ''a''"
    "fc_holder fc = Some 0" "dict_get (fc_participants fc) (id_of fc 0) = Some 0"
    unfolding fc by code_simp+
  with remove_participant_clean [OF fc, of "''a''"] show ?thesis
    unfolding fc [symmetric] by (simp add: Let_def)
qed

section \<open>Properties of the transmission controller\<close>

definition tx_inv :: "transmission_controller \<Rightarrow> bool" where
  "tx_inv tc \<longleftrightarrow> tc_transmitter tc = [] \<or> tc_transmitter tc \<in> tc_participants tc"

interpretation tx: step_system tx_step tx_inv
proof unfold_locales
  show "tx_inv s \<Longrightarrow> tx_inv (tx_step s op)" for s op
    by (cases op) (auto simp: tx_inv_def tx_add_participant_def tx_remove_participant_def
        request_transmission_def release_transmission_def Let_def)
qed

text \<open>
  after any sequence of operations the video transmitter is a current participant or there
  is none, and a request by another participant is denied with the transmitter's name and
  changes nothing: nobody transmits over an active transmitter.
\<close>

theorem transmission_exclusive:
  "let tc = foldl tx_step (new_transmission c) ops in
     (tc_transmitter tc = [] \<or> tc_transmitter tc \<in> tc_participants tc) \<and>
     (m \<in> tc_participants tc \<and> tc_transmitter tc \<noteq> [] \<and> tc_transmitter tc \<noteq> m \<longrightarrow>
        request_transmission m tc = (TxDenied (tc_transmitter tc), tc))"
proof -
  have "tx_inv (foldl tx_step (new_transmission c) ops)"
    by (rule tx.run_inv) (simp add: tx_inv_def new_transmission_def)
  then show ?thesis by (simp add: Let_def tx_inv_def request_transmission_def)
qed

theorem transmission_exclusive_witness:
  "request_transmission ''b'' (foldl tx_step (new_transmission ''c'') [TxAdd ''a'', TxAdd ''b'', TxRequest ''a''])
   = (TxDenied ''a'', foldl tx_step (new_transmission ''c'') [TxAdd ''a'', TxAdd ''b'', TxRequest ''a''])"
  using transmission_exclusive [of "''c''" "[TxAdd ''a'', TxAdd ''b'', TxRequest ''a'']" "''b''"]
  by (simp add: Let_def new_transmission_def tx_add_participant_def request_transmission_def)

end
