(* ===== verification/Frmcs.thy ===== *)
theory Frmcs
  imports McxFloor
begin

text \<open>
  The railway services of \<open>tester/src/protocol/frmcs.py\<close>: the service classes, the Railway
  Emergency Call (\<open>REC\<close>) on top of the floor controller, and the off-network
  \<open>ShuntingGroup\<close>, a state machine whose reachable transitions are stated as a relation.
\<close>

section \<open>Service classes\<close>

datatype service_class = REC | URGENT | ASSURED | BUSINESS

fun service_rank :: "service_class \<Rightarrow> nat" where
  "service_rank REC = 0"
| "service_rank URGENT = 1"
| "service_rank ASSURED = 2"
| "service_rank BUSINESS = 3"

lemma service_rank_inj [simp]: "service_rank a = service_rank b \<longleftrightarrow> a = b"
  by (cases a; cases b) simp_all

instantiation service_class :: linorder
begin

definition less_eq_service_class :: "service_class \<Rightarrow> service_class \<Rightarrow> bool" where
  "a \<le> b \<longleftrightarrow> service_rank a \<le> service_rank b"

definition less_service_class :: "service_class \<Rightarrow> service_class \<Rightarrow> bool" where
  "a < b \<longleftrightarrow> service_rank a < service_rank b"

instance
  by standard (auto simp: less_eq_service_class_def less_service_class_def)

end

section \<open>Railway Emergency Call\<close>

type_synonym functional_alias = string

record rec_call =
  rec_call_id :: string
  rec_initiator :: functional_alias
  rec_floor :: floor_controller
  rec_released :: bool

definition initiate_rec :: "string \<Rightarrow> functional_alias \<Rightarrow> rec_call" where
  \<comment> \<open>\<open>initiate_rec\<close>, that is \<open>REC.__init__\<close> followed by \<open>REC.__post_init__\<close>\<close>
  "initiate_rec call_id initiator =
     (let floor = new_controller call_id;
          floor = add_participant initiator PRIORITY_EMERGENCY floor;
          floor = snd (request_floor initiator (Some PRIORITY_EMERGENCY) floor)
      in \<lparr>rec_call_id = call_id, rec_initiator = initiator, rec_floor = floor, rec_released = False\<rparr>)"

definition rec_join :: "functional_alias \<Rightarrow> rec_call \<Rightarrow> rec_call" where
  "rec_join alias rec = rec\<lparr>rec_floor := add_participant alias PRIORITY_EMERGENCY (rec_floor rec)\<rparr>"

definition rec_release :: "rec_call \<Rightarrow> rec_call" where
  "rec_release rec = (if rec_released rec then rec else rec\<lparr>rec_released := True\<rparr>)"

section \<open>Shunting group\<close>

datatype off_net_state =
    S1_START_STOP
  | S2_WAIT_ANNOUNCE
  | S3_IN_CALL
  | S4_PENDING_NO_CONFIRM
  | S5_PENDING_CONFIRM
  | S6_IGNORING
  | S7_POST_RELEASE

record shunting_group =
  sg_group_id :: string
  sg_local :: functional_alias
  sg_members :: "functional_alias list"
  sg_state :: off_net_state
  sg_call_id :: string
  sg_released :: bool

definition new_shunting_group ::
  "string \<Rightarrow> functional_alias \<Rightarrow> functional_alias list \<Rightarrow> shunting_group" where
  "new_shunting_group group_id l members =
     \<lparr>sg_group_id = group_id, sg_local = l, sg_members = members,
      sg_state = S1_START_STOP, sg_call_id = [], sg_released = False\<rparr>"

definition is_member :: "functional_alias \<Rightarrow> shunting_group \<Rightarrow> bool" where
  "is_member alias sg \<longleftrightarrow> List.member (sg_members sg) alias"

definition initiate_call :: "string \<Rightarrow> shunting_group \<Rightarrow> shunting_group" where
  "initiate_call call_id sg =
     (if sg_released sg then sg
      else sg\<lparr>sg_call_id := call_id, sg_state := S2_WAIT_ANNOUNCE\<rparr>)"

definition receive_announcement :: "string \<Rightarrow> bool \<Rightarrow> bool \<Rightarrow> shunting_group \<Rightarrow> shunting_group" where
  \<comment> \<open>the argument \<open>originator\<close> is not used by the source\<close>
  "receive_announcement call_id with_confirm ack_required sg =
     (if sg_released sg then sg
      else let sg = sg\<lparr>sg_call_id := call_id\<rparr> in
        if \<not> ack_required then sg\<lparr>sg_state := S3_IN_CALL\<rparr>
        else if with_confirm then sg\<lparr>sg_state := S5_PENDING_CONFIRM\<rparr>
        else sg\<lparr>sg_state := S4_PENDING_NO_CONFIRM\<rparr>)"

definition accept_call :: "shunting_group \<Rightarrow> shunting_group" where
  "accept_call sg =
     (if sg_state sg \<in> {S4_PENDING_NO_CONFIRM, S5_PENDING_CONFIRM}
      then sg\<lparr>sg_state := S3_IN_CALL\<rparr> else sg)"

definition reject_call :: "shunting_group \<Rightarrow> shunting_group" where
  "reject_call sg =
     (if sg_state sg \<in> {S4_PENDING_NO_CONFIRM, S5_PENDING_CONFIRM}
      then sg\<lparr>sg_state := S6_IGNORING\<rparr> else sg)"

definition release_call :: "shunting_group \<Rightarrow> shunting_group" where
  "release_call sg =
     (if sg_state sg \<in> {S2_WAIT_ANNOUNCE, S3_IN_CALL, S4_PENDING_NO_CONFIRM,
                         S5_PENDING_CONFIRM, S6_IGNORING}
      then sg\<lparr>sg_state := S7_POST_RELEASE\<rparr> else sg)"

definition release_group :: "shunting_group \<Rightarrow> shunting_group" where
  "release_group sg = sg\<lparr>sg_released := True, sg_state := S1_START_STOP\<rparr>"

datatype shunting_op =
    Initiate string
  | Announce string bool bool
  | Accept
  | Reject
  | EndCall
  | Teardown

fun shunting_step :: "shunting_group \<Rightarrow> shunting_op \<Rightarrow> shunting_group" where
  "shunting_step sg (Initiate c) = initiate_call c sg"
| "shunting_step sg (Announce c w a) = receive_announcement c w a sg"
| "shunting_step sg Accept = accept_call sg"
| "shunting_step sg Reject = reject_call sg"
| "shunting_step sg EndCall = release_call sg"
| "shunting_step sg Teardown = release_group sg"

lemmas shunting_defs = initiate_call_def receive_announcement_def accept_call_def reject_call_def
  release_call_def release_group_def

section \<open>The emergency call\<close>

text \<open>Everything that happens to a call's floor is a run of the floor controller.\<close>

definition rec_joins :: "functional_alias list \<Rightarrow> rec_call \<Rightarrow> rec_call" where
  "rec_joins as rec = fold rec_join as rec"

lemma rec_floor_joins:
  "rec_floor (rec_joins as rec) =
     foldl floor_step (rec_floor rec) (map (\<lambda>a. Add a PRIORITY_EMERGENCY) as)"
  by (induction as arbitrary: rec) (simp_all add: rec_joins_def rec_join_def)

lemma rec_floor_run:
  "rec_floor (rec_joins as (initiate_rec c i)) = foldl floor_step (new_controller c)
     (Add i PRIORITY_EMERGENCY # Request i (Some PRIORITY_EMERGENCY) # map (\<lambda>a. Add a PRIORITY_EMERGENCY) as)"
  by (simp add: rec_floor_joins) (simp add: initiate_rec_def Let_def)

definition all_emergency :: "floor_controller \<Rightarrow> bool" where
  "all_emergency fc \<longleftrightarrow>
     (\<forall>(k, a) \<in> set (fc_participants fc). pt_priority (obj fc a) = PRIORITY_EMERGENCY)"

lemma all_emergency_add:
  assumes "all_emergency fc" "floor_inv fc"
  shows "all_emergency (add_participant m PRIORITY_EMERGENCY fc)"
proof (cases "dict_get (fc_participants fc) m")
  case None
  let ?fc = "fc\<lparr>fc_heap := fc_heap fc @ [new_participant m PRIORITY_EMERGENCY],
                fc_participants := dict_set m (length (fc_heap fc)) (fc_participants fc)\<rparr>"
  have "pt_priority (obj ?fc a) = PRIORITY_EMERGENCY" if "(k, a) \<in> set (fc_participants ?fc)" for k a
    using that assms dict_set_mem [of "(k, a)" m "length (fc_heap fc)" "fc_participants fc"]
    by (fastforce simp: all_emergency_def floor_inv_def store_inv_def obj_def nth_append new_participant_def)
  then show ?thesis using None by (auto simp: add_participant_def all_emergency_def)
qed (use assms in \<open>simp add: add_participant_def\<close>)

lemma all_emergency_run:
  "all_emergency fc \<Longrightarrow> floor_inv fc \<Longrightarrow>
     all_emergency (foldl floor_step fc (map (\<lambda>a. Add a PRIORITY_EMERGENCY) as))"
  by (induction as arbitrary: fc) (simp_all add: all_emergency_add inv_add)

lemma initiate_rec_state:
  "holder_is (rec_floor (initiate_rec c i)) i" "fc_state (rec_floor (initiate_rec c i)) = TAKEN"
  "all_emergency (rec_floor (initiate_rec c i))" "floor_inv (rec_floor (initiate_rec c i))"
proof -
  let ?f = "add_participant i PRIORITY_EMERGENCY (new_controller c)"
  have parts: "fc_participants ?f = [(i, 0)]" "fc_state ?f = IDLE" "length (fc_heap ?f) = 1"
    by (simp_all add: add_participant_def new_controller_def dict_set_def)
  moreover have "id_of ?f 0 = i" "pt_priority (obj ?f 0) = PRIORITY_EMERGENCY"
    by (simp_all add: add_participant_def new_controller_def new_participant_def dict_set_def)
       (simp_all add: obj_def)
  ultimately show "holder_is (rec_floor (initiate_rec c i)) i"
    "fc_state (rec_floor (initiate_rec c i)) = TAKEN" "all_emergency (rec_floor (initiate_rec c i))"
    by (simp_all add: initiate_rec_def Let_def request_floor_def obj_set_obj all_emergency_def)
  show "floor_inv (rec_floor (initiate_rec c i))"
    by (simp add: initiate_rec_def Let_def inv_request inv_add)
qed
lemma holder_is_add: "floor_inv fc \<Longrightarrow> holder_is (add_participant m n fc) x = holder_is fc x"
  by (cases "fc_holder fc")
     (simp_all add: add_participant_def holder_is_def floor_inv_def store_inv_def obj_alloc)

lemma add_keeps:
  "fc_state (add_participant m n fc) = fc_state fc"
  "dict_get (fc_participants fc) k \<noteq> None \<Longrightarrow> dict_get (fc_participants (add_participant m n fc)) k \<noteq> None"
  "dict_get (fc_participants (add_participant m n fc)) m \<noteq> None"
  by (auto simp: add_participant_def)

lemma joins_keep:
  assumes "floor_inv fc" "fc' = foldl floor_step fc (map (\<lambda>a. Add a PRIORITY_EMERGENCY) as)"
  shows "floor_inv fc' \<and> fc_state fc' = fc_state fc \<and> (\<forall>x. holder_is fc' x = holder_is fc x) \<and>
    (\<forall>k. dict_get (fc_participants fc) k \<noteq> None \<or> k \<in> set as \<longrightarrow> dict_get (fc_participants fc') k \<noteq> None)"
  using assms
proof (induction as arbitrary: fc fc')
  case Nil
  then show ?case by simp
next
  case (Cons a as)
  let ?fc = "add_participant a PRIORITY_EMERGENCY fc"
  have "floor_inv ?fc" using Cons.prems by (simp add: inv_add)
  from Cons.IH [OF this refl] Cons.prems add_keeps(3) [of a PRIORITY_EMERGENCY fc]
    add_keeps(2) [of fc _ a PRIORITY_EMERGENCY]
  show ?case by (simp add: add_keeps(1) holder_is_add)
qed

lemma initiator_participates: "dict_get (fc_participants (rec_floor (initiate_rec c i))) i \<noteq> None"
  by (simp add: initiate_rec_def Let_def request_floor_def add_participant_def new_controller_def)

text \<open>
  the initiator of a Railway Emergency Call holds the floor from the moment the call exists,
  later joins do not disturb it, and everybody in the call who asks for the floor gets it at
  once.  Releasing the call changes none of this: it only sets a flag, the floor controller stays
  in service.
\<close>

theorem rec_floor_on_demand:
  assumes "a \<in> set (i # as)"
  shows "let rec = rec_joins as (initiate_rec c i); fc = rec_floor rec in
           holder_is fc i \<and> fc_state fc = TAKEN \<and>
           holder_is (snd (request_floor a None fc)) a \<and>
           holder_is (snd (request_floor a None (rec_floor (rec_release rec)))) a"
proof -
  define fc where "fc = rec_floor (rec_joins as (initiate_rec c i))"
  let ?fc0 = "rec_floor (initiate_rec c i)"
  have run: "fc = foldl floor_step ?fc0 (map (\<lambda>a. Add a PRIORITY_EMERGENCY) as)"
    by (simp add: fc_def rec_floor_joins)
  from joins_keep [OF initiate_rec_state(4) run] initiate_rec_state
  have fc: "floor_inv fc" "fc_state fc = TAKEN" "holder_is fc i" by simp_all
  from joins_keep [OF initiate_rec_state(4) run] assms initiator_participates
  obtain p where p: "dict_get (fc_participants fc) a = Some p" by fastforce
  have "all_emergency fc" unfolding run by (intro all_emergency_run initiate_rec_state)
  with p fc(1) have "pt_priority (obj fc p) = PRIORITY_EMERGENCY"
    by (auto simp: all_emergency_def floor_inv_def store_inv_def dict_get_in_set)
  with emergency_request [OF fc(1) p, of None] fc show ?thesis
    by (simp add: Let_def rec_release_def flip: fc_def)
qed

theorem rec_floor_on_demand_witness:
  "holder_is (snd (request_floor ''d2'' None (rec_floor (rec_joins [''d1'', ''d2''] (initiate_rec ''c'' ''ctl''))))) ''d2''"
  using rec_floor_on_demand [of "''d2''" "''ctl''" "[''d1'', ''d2'']" "''c''"] by (simp add: Let_def)

section \<open>The shunting group\<close>

text \<open>
  The call states a group may go through, as a relation: the abstract machine every operation
  refines.
\<close>

inductive offnet_edge :: "off_net_state \<Rightarrow> off_net_state \<Rightarrow> bool" where
  call_setup: "offnet_edge s S2_WAIT_ANNOUNCE"
| announced: "s' \<in> {S3_IN_CALL, S4_PENDING_NO_CONFIRM, S5_PENDING_CONFIRM} \<Longrightarrow> offnet_edge s s'"
| rejected: "s \<in> {S4_PENDING_NO_CONFIRM, S5_PENDING_CONFIRM} \<Longrightarrow> offnet_edge s S6_IGNORING"
| ended: "s \<notin> {S1_START_STOP, S7_POST_RELEASE} \<Longrightarrow> offnet_edge s S7_POST_RELEASE"
| torn_down: "offnet_edge s S1_START_STOP"

inductive_simps offnet_edge_simps:
  "offnet_edge s S1_START_STOP" "offnet_edge s S2_WAIT_ANNOUNCE" "offnet_edge s S3_IN_CALL"
  "offnet_edge s S4_PENDING_NO_CONFIRM" "offnet_edge s S5_PENDING_CONFIRM"
  "offnet_edge s S6_IGNORING" "offnet_edge s S7_POST_RELEASE"

definition shunting_inv :: "shunting_group \<Rightarrow> bool" where
  "shunting_inv sg \<longleftrightarrow> (sg_released sg \<longrightarrow> sg_state sg = S1_START_STOP)"

interpretation shunting: step_system shunting_step shunting_inv
proof unfold_locales
  show "shunting_inv s \<Longrightarrow> shunting_inv (shunting_step s op)" for s op
    by (cases op) (auto simp: shunting_inv_def shunting_defs Let_def)
qed

lemma shunting_released_step:
  "sg_released sg \<Longrightarrow> shunting_inv sg \<Longrightarrow> shunting_step sg op = sg"
  by (cases op) (auto simp: shunting_inv_def shunting_defs)

lemma shunting_released_run:
  "sg_released sg \<Longrightarrow> shunting_inv sg \<Longrightarrow> foldl shunting_step sg ops = sg"
  by (induction ops) (simp_all add: shunting_released_step)


fun off_net_name :: "off_net_state \<Rightarrow> string" where
  "off_net_name S1_START_STOP = ''S1_START_STOP''"
| "off_net_name S2_WAIT_ANNOUNCE = ''S2_WAIT_ANNOUNCE''"
| "off_net_name S3_IN_CALL = ''S3_IN_CALL''"
| "off_net_name S4_PENDING_NO_CONFIRM = ''S4_PENDING_NO_CONFIRM''"
| "off_net_name S5_PENDING_CONFIRM = ''S5_PENDING_CONFIRM''"
| "off_net_name S6_IGNORING = ''S6_IGNORING''"
| "off_net_name S7_POST_RELEASE = ''S7_POST_RELEASE''"

definition shunting_snapshot ::
  "shunting_group \<Rightarrow> string \<times> functional_alias \<times> functional_alias list \<times> string \<times> string" where
  \<comment> \<open>group, local alias, members, state, call, in the order of the source's dictionary\<close>
  "shunting_snapshot sg =
     (sg_group_id sg, sg_local sg, sg_members sg, off_net_name (sg_state sg), sg_call_id sg)"

end
