(* ===== verification/Gtpu.thy ===== *)
theory Gtpu
  imports Prelude
begin

text \<open>
  The GTP-U wire format of \<open>tester/src/protocol/gtpu_codec.py\<close>: the mandatory header, the
  optional block and the walk over extension headers.  The walk is a \<open>function\<close> with its
  termination proof: every header it accepts is at least four octets long.
\<close>

section \<open>Constants and header\<close>

definition MSG_ECHO_REQUEST :: nat where "MSG_ECHO_REQUEST = 1"
definition MSG_ECHO_RESPONSE :: nat where "MSG_ECHO_RESPONSE = 2"
definition MSG_END_MARKER :: nat where "MSG_END_MARKER = 254"
definition MSG_GPDU :: nat where "MSG_GPDU = 255"
definition HEADER_LEN :: nat where "HEADER_LEN = 8"

definition FLAG_VERSION_1 :: nat where "FLAG_VERSION_1 = push_bit 5 1"
definition FLAG_PT :: nat where "FLAG_PT = push_bit 4 1"
definition FLAG_E :: nat where "FLAG_E = push_bit 2 1"
definition FLAG_S :: nat where "FLAG_S = push_bit 1 1"
definition FLAG_PN :: nat where "FLAG_PN = push_bit 0 1"
definition FLAGS_BASE_GPDU :: nat where "FLAGS_BASE_GPDU = FLAG_VERSION_1 OR FLAG_PT"

record gtpu_header =
  gh_version :: nat
  gh_protocol_type :: nat
  gh_type :: nat
  gh_length :: nat
  gh_teid :: nat
  gh_has_seq :: bool
  gh_has_npdu :: bool
  gh_has_ext :: bool
  gh_seq :: nat
  gh_npdu :: nat
  gh_next_ext_type :: nat

definition NotGPDU :: py_error where
  "NotGPDU = Raised ''NotGPDU'' ''gtpu: not a G-PDU''"

section \<open>Encoder\<close>

definition encap_gpdu :: "int \<Rightarrow> bytes \<Rightarrow> bytes res" where
  "encap_gpdu teid inner =
     (if inner = [] then Inl (ValueError ''gtpu: T-PDU empty'')
      else if length inner > 0xFFFF then Inl (ValueError ''gtpu: T-PDU length > 65535'')
      else if \<not> (0 \<le> teid \<and> teid \<le> 0xFFFFFFFF) then Inl (ValueError ''gtpu: TEID not in [0, 2^32-1]'')
      else rbind (py_bytes [int FLAGS_BASE_GPDU, int MSG_GPDU]) (\<lambda>h.
           rbind (pack_H (int (length inner))) (\<lambda>l.
           rbind (pack_I teid) (\<lambda>t. Inr (h @ l @ t @ inner)))))"

section \<open>Decoder\<close>

function walk_ext :: "bytes \<Rightarrow> nat \<Rightarrow> nat \<Rightarrow> nat res" where
  \<comment> \<open>the \<open>while\<close> loop over the extension headers: from an offset and a next type to the
     offset of the T-PDU\<close>
  "walk_ext buf off next_type =
     (if next_type = 0 then Inr off
      else if off + 1 > length buf then Inl (ValueError ''gtpu: extension header truncated'')
      else let ext_len = unat (buf ! off) * 4 in
        if ext_len < 4 then Inl (ValueError ''gtpu: extension header length 0'')
        else if off + ext_len > length buf then Inl (ValueError ''gtpu: extension header overruns buffer'')
        else walk_ext buf (off + ext_len) (unat (buf ! (off + ext_len - 1))))"
  by pat_completeness auto

termination walk_ext
  by (relation "measure (\<lambda>(buf, off, next_type). length buf - off)") auto

declare walk_ext.simps [simp del]

definition decode_options :: "bytes \<Rightarrow> nat \<Rightarrow> gtpu_header \<Rightarrow> (gtpu_header \<times> nat) res" where
  \<comment> \<open>the \<open>if has_optional\<close> block: the completed header and the offset behind it\<close>
  "decode_options buf flags h =
     (if length buf < HEADER_LEN + 4 then Inl (ValueError ''gtpu: optional header block truncated'')
      else rbind (unpack_H (slice 8 10 buf)) (\<lambda>seq.
        let h = h\<lparr>gh_has_seq := (flags AND FLAG_S \<noteq> 0), gh_has_npdu := (flags AND FLAG_PN \<noteq> 0),
                  gh_has_ext := (flags AND FLAG_E \<noteq> 0), gh_seq := seq,
                  gh_npdu := unat (buf ! 10), gh_next_ext_type := unat (buf ! 11)\<rparr>
        in rbind (walk_ext buf (HEADER_LEN + 4) (if gh_has_ext h then gh_next_ext_type h else 0))
             (\<lambda>off. Inr (h, off))))"

definition decode_header :: "bytes \<Rightarrow> (gtpu_header \<times> bytes) res" where
  "decode_header buf =
     (if length buf < HEADER_LEN then Inl (ValueError ''gtpu: packet too short for header'')
      else let flags = unat (buf ! 0) in
        rbind (unpack_H (slice 2 4 buf)) (\<lambda>len.
        rbind (unpack_I (slice 4 8 buf)) (\<lambda>teid.
        let h = \<lparr>gh_version = drop_bit 5 flags AND 7, gh_protocol_type = drop_bit 4 flags AND 1,
                 gh_type = unat (buf ! 1), gh_length = len, gh_teid = teid,
                 gh_has_seq = False, gh_has_npdu = False, gh_has_ext = False,
                 gh_seq = 0, gh_npdu = 0, gh_next_ext_type = 0\<rparr> in
        if gh_version h \<noteq> 1 then Inl (ValueError ''gtpu: version != 1'')
        else if gh_protocol_type h \<noteq> 1 then Inl (ValueError ''gtpu: GTP-prime not supported'')
        else
          let has_optional = (flags AND (FLAG_S OR FLAG_PN OR FLAG_E) \<noteq> 0) in
          rbind (if has_optional then decode_options buf flags h else Inr (h, HEADER_LEN)) (\<lambda>(h, off).
          if length buf - HEADER_LEN \<noteq> gh_length h then Inl (ValueError ''gtpu: Length != actual payload'')
          else Inr (h, drop off buf)))))"

definition decode_gpdu :: "bytes \<Rightarrow> (gtpu_header \<times> bytes) res" where
  "decode_gpdu buf =
     rbind (decode_header buf) (\<lambda>(hdr, body).
     if gh_type hdr \<noteq> MSG_GPDU then Inl NotGPDU else Inr (hdr, body))"

definition peek_teid :: "bytes \<Rightarrow> nat res" where
  "peek_teid buf =
     (if length buf < HEADER_LEN then Inl (ValueError ''gtpu: packet too short to contain TEID'')
      else unpack_I (slice 4 8 buf))"

lemmas flag_defs = FLAG_VERSION_1_def FLAG_PT_def FLAG_E_def FLAG_S_def FLAG_PN_def FLAGS_BASE_GPDU_def

section \<open>Layout of a packet\<close>

definition gtpu_packet :: "nat \<Rightarrow> nat \<Rightarrow> nat \<Rightarrow> nat \<Rightarrow> bytes \<Rightarrow> bytes" where
  \<comment> \<open>flags, type, length, TEID and what follows the mandatory header\<close>
  "gtpu_packet flags t len teid rest =
     [byte_of flags, byte_of t] @ be_enc 2 len @ be_enc 4 teid @ rest"

lemma gtpu_packet_fields:
  "length (gtpu_packet flags t len teid rest) = 8 + length rest"
  "gtpu_packet flags t len teid rest ! 0 = byte_of flags"
  "gtpu_packet flags t len teid rest ! 1 = byte_of t"
  "slice 2 4 (gtpu_packet flags t len teid rest) = be_enc 2 len"
  "slice 4 8 (gtpu_packet flags t len teid rest) = be_enc 4 teid"
  "slice (8 + i) (8 + j) (gtpu_packet flags t len teid rest) = slice i j rest"
  "gtpu_packet flags t len teid rest ! (8 + k) = rest ! k"
  "drop (8 + k) (gtpu_packet flags t len teid rest) = drop k rest"
proof -
  define pre where "pre = [byte_of flags, byte_of t] @ be_enc 2 len @ be_enc 4 teid"
  have pre: "length pre = 8" "gtpu_packet flags t len teid rest = pre @ rest"
    by (simp_all add: pre_def gtpu_packet_def)
  show "length (gtpu_packet flags t len teid rest) = 8 + length rest"
    "slice (8 + i) (8 + j) (gtpu_packet flags t len teid rest) = slice i j rest"
    "gtpu_packet flags t len teid rest ! (8 + k) = rest ! k"
    "drop (8 + k) (gtpu_packet flags t len teid rest) = drop k rest"
    by (simp_all add: pre slice_append_right nth_append)
  show "gtpu_packet flags t len teid rest ! 0 = byte_of flags"
    "gtpu_packet flags t len teid rest ! 1 = byte_of t"
    "slice 2 4 (gtpu_packet flags t len teid rest) = be_enc 2 len"
    "slice 4 8 (gtpu_packet flags t len teid rest) = be_enc 4 teid"
    by (simp_all add: gtpu_packet_def slice_def)
qed

lemmas gtpu_packet_simps = gtpu_packet_fields(1-5) gtpu_packet_fields(3) [unfolded One_nat_def]

lemma encap_packet:
  assumes "inner \<noteq> []" "length inner \<le> 0xFFFF" "0 \<le> teid" "teid \<le> 0xFFFFFFFF"
  shows "encap_gpdu teid inner = Inr (gtpu_packet 48 255 (length inner) (nat teid) inner)"
proof -
  have "py_bytes [int FLAGS_BASE_GPDU, int MSG_GPDU] = Inr [byte_of 48, byte_of 255]"
    by (simp add: flag_defs MSG_GPDU_def py_byte_def)
  moreover have "pack_H (int (length inner)) = Inr (be_enc 2 (length inner))"
    using assms by (intro pack_be_nat) simp
  moreover have "pack_I teid = Inr (be_enc 4 (nat teid))"
    using assms by (simp add: pack_be_def)
  ultimately show ?thesis
    using assms by (simp add: encap_gpdu_def gtpu_packet_def not_less)
qed

lemma decode_header_plain:
  assumes "length rest < 65536" "teid < 2 ^ 32"
  shows "decode_header (gtpu_packet 48 t (length rest) teid rest) =
    Inr (\<lparr>gh_version = 1, gh_protocol_type = 1, gh_type = t mod 256, gh_length = length rest,
          gh_teid = teid, gh_has_seq = False, gh_has_npdu = False, gh_has_ext = False,
          gh_seq = 0, gh_npdu = 0, gh_next_ext_type = 0\<rparr>, rest)"
proof -
  have bits: "drop_bit 5 (48 :: nat) AND 7 = 1" "drop_bit 4 (48 :: nat) AND 1 = 1"
    "(48 :: nat) AND (FLAG_S OR FLAG_PN OR FLAG_E) = 0"
    by (simp_all add: drop_bit_eq_div mask_simps flag_defs)
  have un: "unpack_H (be_enc 2 (length rest)) = Inr (length rest)" "unpack_I (be_enc 4 teid) = Inr teid"
    using assms by (intro unpack_be_enc; simp)+
  show ?thesis
    unfolding decode_header_def Let_def HEADER_LEN_def
    using gtpu_packet_fields(8) [of 0 48 t "length rest" teid rest]
    by (simp add: gtpu_packet_simps un bits)
qed

text \<open>
  C25: a T-PDU wrapped for a tunnel endpoint parses back to that endpoint and to the same octets,
  for every non-empty T-PDU of up to 65535 octets and every 32-bit endpoint; everything else is
  refused before any octet is written.
\<close>

theorem gpdu_roundtrip:
  "rbind (encap_gpdu teid inner) decode_gpdu =
     (if inner = [] then Inl (ValueError ''gtpu: T-PDU empty'')
      else if length inner > 0xFFFF then Inl (ValueError ''gtpu: T-PDU length > 65535'')
      else if teid < 0 \<or> teid > 0xFFFFFFFF then Inl (ValueError ''gtpu: TEID not in [0, 2^32-1]'')
      else Inr (\<lparr>gh_version = 1, gh_protocol_type = 1, gh_type = MSG_GPDU, gh_length = length inner,
                gh_teid = nat teid, gh_has_seq = False, gh_has_npdu = False, gh_has_ext = False,
                gh_seq = 0, gh_npdu = 0, gh_next_ext_type = 0\<rparr>, inner))"
proof (cases "inner = [] \<or> length inner > 0xFFFF \<or> teid < 0 \<or> teid > 0xFFFFFFFF")
  case True
  then show ?thesis by (auto simp: encap_gpdu_def)
next
  case False
  then have "nat teid < 2 ^ 32" by (simp add: nat_less_iff)
  then show ?thesis
    using False decode_header_plain [of inner "nat teid" 255]
    by (simp add: encap_packet decode_gpdu_def MSG_GPDU_def)
qed

section \<open>Extension headers\<close>

text \<open>
  An extension header as the specification draws it: its length in units of four octets, its
  content, and the type of the next one.
\<close>

definition ext_ok :: "nat \<times> bytes \<Rightarrow> bool" where
  "ext_ok = (\<lambda>(t, content). 0 < t \<and> t < 256 \<and> (length content + 2) mod 4 = 0 \<and> length content + 2 \<le> 1020)"

fun next_ext :: "(nat \<times> bytes) list \<Rightarrow> nat" where
  "next_ext [] = 0"
| "next_ext ((t, content) # exts) = t"

fun ext_chain :: "(nat \<times> bytes) list \<Rightarrow> bytes" where
  "ext_chain [] = []"
| "ext_chain ((t, content) # exts) =
     byte_of ((length content + 2) div 4) # content @ byte_of (next_ext exts) # ext_chain exts"

lemma next_ext_bound: "list_all ext_ok exts \<Longrightarrow> next_ext exts < 256"
  by (cases exts rule: next_ext.cases) (auto simp: ext_ok_def)

lemma walk_ext_chain:
  "list_all ext_ok exts \<Longrightarrow>
     walk_ext (pre @ ext_chain exts @ rest) (length pre) (next_ext exts) =
       Inr (length pre + length (ext_chain exts))"
proof (induction exts arbitrary: pre rule: ext_chain.induct)
  case 1
  then show ?case by (simp add: walk_ext.simps)
next
  case (2 t content exts)
  let ?n = "length content + 2"
  let ?ext = "byte_of (?n div 4) # content @ [byte_of (next_ext exts)]"
  from 2(2) have t: "0 < t" and n: "?n div 4 * 4 = ?n" "?n div 4 < 256" and exts: "list_all ext_ok exts"
    by (auto simp: ext_ok_def dvd_div_mult_self mod_eq_0_iff_dvd)
  have len: "length ?ext = ?n" by simp
  define buf where "buf = (pre @ ?ext) @ ext_chain exts @ rest"
  have buf: "pre @ ext_chain ((t, content) # exts) @ rest = buf" by (simp add: buf_def)
  have b1: "unat (buf ! length pre) * 4 = ?n" using n by (simp add: buf_def nth_append)
  have b2: "unat (buf ! (length pre + ?n - 1)) = next_ext exts"
    using next_ext_bound [OF exts] by (simp add: buf_def nth_append)
  have b4: "4 \<le> ?n" using n(1) by (cases "?n div 4") simp_all
  have b3: "length pre + ?n \<le> length buf" by (simp add: buf_def)
  have "walk_ext buf (length pre) t = walk_ext buf (length pre + ?n) (next_ext exts)"
    using t b3 b4 by (subst walk_ext.simps) (simp only: Let_def b1 b2, simp)
  also have "\<dots> = Inr (length (pre @ ?ext) + length (ext_chain exts))"
    using 2(1) [OF exts, of "pre @ ?ext"] len by (simp only: buf_def length_append)
  finally show ?case unfolding buf by simp
qed



section \<open>Accepted packets\<close>

lemma walk_ext_bounds: "walk_ext buf off t = Inr off' \<Longrightarrow> off \<le> length buf \<Longrightarrow> off \<le> off' \<and> off' \<le> length buf"
proof (induction buf off t rule: walk_ext.induct)
  case (1 buf off t)
  note step = 1(2) [unfolded walk_ext.simps [of buf off t]]
  show ?case using step 1(1,3) by (fastforce simp: Let_def split: if_splits)
qed

text \<open>
  an accepted packet is well formed: it is a GTPv1 packet whose length field is the number
  of octets behind the mandatory header, the body is a suffix of it that starts behind that
  header, and the endpoint is the one the demultiplexing helper reads.
\<close>

theorem decode_header_sound:
  assumes "decode_header buf = Inr (h, body)"
  shows "length buf = 8 + gh_length h \<and> gh_version h = 1 \<and> gh_protocol_type h = 1 \<and>
         (\<exists>off. 8 \<le> off \<and> off \<le> length buf \<and> body = drop off buf) \<and>
         peek_teid buf = Inr (gh_teid h) \<and> gh_length h < 65536"
proof -
  define flags where "flags = unat (buf ! 0)"
  define h0 where "h0 l t = \<lparr>gh_version = drop_bit 5 flags AND 7, gh_protocol_type = drop_bit 4 flags AND 1,
                 gh_type = unat (buf ! 1), gh_length = l, gh_teid = t,
                 gh_has_seq = False, gh_has_npdu = False, gh_has_ext = False,
                 gh_seq = 0, gh_npdu = 0, gh_next_ext_type = 0\<rparr>" for l t
  from assms obtain l t off where e:
    "8 \<le> length buf" "unpack_H (slice 2 4 buf) = Inr l" "unpack_I (slice 4 8 buf) = Inr t"
    "gh_version (h0 l t) = 1" "gh_protocol_type (h0 l t) = 1"
    "(if flags AND (FLAG_S OR FLAG_PN OR FLAG_E) \<noteq> 0 then decode_options buf flags (h0 l t)
      else Inr (h0 l t, 8)) = Inr (h, off)"
    "length buf - 8 = gh_length h" "body = drop off buf"
    by (auto simp: decode_header_def Let_def HEADER_LEN_def res_simps flags_def h0_def not_less
             split: if_splits)
  have "off \<le> length buf \<and> 8 \<le> off \<and> gh_length h = l \<and> gh_teid h = t \<and> gh_version h = 1 \<and> gh_protocol_type h = 1"
    using e(1,4,5,6)
    by (auto simp: decode_options_def HEADER_LEN_def Let_def res_simps h0_def not_less
             split: if_splits dest!: walk_ext_bounds)
  moreover have "l < 65536"
    using e(2) be_val_bound [of "slice 2 4 buf"] by (auto simp: unpack_be_def split: if_splits)
  ultimately show ?thesis using e by (auto simp: peek_teid_def HEADER_LEN_def)
qed

theorem decode_header_sound_witness:
  "length (gtpu_packet 48 255 (length [1 :: byte, 2, 3]) 9 [1, 2, 3]) = 8 + length [1 :: byte, 2, 3] \<and>
   peek_teid (gtpu_packet 48 255 (length [1 :: byte, 2, 3]) 9 [1, 2, 3]) = Inr 9"
proof -
  note decode_header_plain [of "[1, 2, 3]" 9 255]
  then have "decode_header (gtpu_packet 48 255 (length [1 :: byte, 2, 3]) 9 [1, 2, 3]) =
     Inr (\<lparr>gh_version = 1, gh_protocol_type = 1, gh_type = 255 mod 256, gh_length = length [1 :: byte, 2, 3],
          gh_teid = 9, gh_has_seq = False, gh_has_npdu = False, gh_has_ext = False,
          gh_seq = 0, gh_npdu = 0, gh_next_ext_type = 0\<rparr>, [1, 2, 3])" by simp
  from decode_header_sound [OF this] show ?thesis by simp
qed

text \<open>The codec interface: an endpoint and a T-PDU.\<close>

definition gpdu_enc :: "nat \<times> bytes \<Rightarrow> bytes res" where
  "gpdu_enc = (\<lambda>(teid, inner). encap_gpdu (int teid) inner)"

definition gpdu_dec :: "bytes \<Rightarrow> (nat \<times> bytes) res" where
  "gpdu_dec buf = rbind (decode_gpdu buf) (\<lambda>(h, inner). Inr (gh_teid h, inner))"

interpretation gpdu: codec gpdu_enc gpdu_dec
  "\<lambda>(teid, inner). teid < 2 ^ 32 \<and> inner \<noteq> [] \<and> length inner \<le> 0xFFFF"
proof unfold_locales
  fix x :: "nat \<times> bytes"
  assume "(\<lambda>(teid, inner). teid < 2 ^ 32 \<and> inner \<noteq> [] \<and> length inner \<le> 0xFFFF) x"
  then obtain teid inner where x: "x = (teid, inner)" "teid < 2 ^ 32" "inner \<noteq> []" "length inner \<le> 0xFFFF"
    by (cases x) auto
  then show "\<exists>bs. gpdu_enc x = Inr bs" "gpdu_enc x = Inr bs \<Longrightarrow> gpdu_dec bs = Inr x" for bs
    using encap_packet [of inner "int teid"] decode_header_plain [of inner teid 255]
    by (auto simp: gpdu_enc_def gpdu_dec_def decode_gpdu_def MSG_GPDU_def)
qed

end
