(* ===== verification/Esp.thy ===== *)
theory Esp
  imports Prelude
begin

text \<open>
  The ESP data plane of \<open>tester/src/protocol/esp.py\<close>: the anti-replay window, the security
  association with its two directions, and the packet builder.

  AES-CBC and HMAC-SHA-256 come from the \<open>cryptography\<close> package and the standard library's
  \<open>hmac\<close>; they are the arguments \<open>enc\<close>, \<open>dec\<close> and \<open>mac\<close>
  (key, initialisation vector, data) of the definitions that use them.  The random
  initialisation vector of \<open>encap\<close> is an argument too.
\<close>

definition ESP_HEADER_LEN :: nat where "ESP_HEADER_LEN = 8"
definition IV_LEN :: nat where "IV_LEN = 16"
definition ICV_LEN :: nat where "ICV_LEN = 16"
definition BLOCK_SIZE :: nat where "BLOCK_SIZE = 16"

lemmas esp_consts = ESP_HEADER_LEN_def IV_LEN_def ICV_LEN_def BLOCK_SIZE_def

section \<open>The anti-replay window\<close>

record replay_window =
  rw_size :: nat
  rw_last :: nat
  rw_bits :: nat

definition new_window :: "nat \<Rightarrow> replay_window" where
  "new_window sz = \<lparr>rw_size = (if sz = 0 \<or> sz > 64 then 64 else sz), rw_last = 0, rw_bits = 0\<rparr>"

definition win_check :: "replay_window \<Rightarrow> nat \<Rightarrow> bool" where
  "win_check w seq =
     (if seq = 0 then False
      else if seq > rw_last w then True
      else let diff = rw_last w - seq in
        if diff \<ge> rw_size w then False
        else rw_bits w AND push_bit diff 1 = 0)"

definition win_commit :: "nat \<Rightarrow> replay_window \<Rightarrow> replay_window" where
  "win_commit seq w =
     (if seq > rw_last w then
        let shift = seq - rw_last w;
            bits = (if shift \<ge> rw_size w then 0
                    else push_bit shift (rw_bits w) AND (push_bit (rw_size w) 1 - 1))
        in w\<lparr>rw_bits := bits OR 1, rw_last := seq\<rparr>
      else w\<lparr>rw_bits := rw_bits w OR push_bit (rw_last w - seq) 1\<rparr>)"

section \<open>The packet builder\<close>

definition pad_bytes :: "nat \<Rightarrow> bytes" where
  \<comment> \<open>the pad pattern 1, 2, 3, ...\<close>
  "pad_bytes n = map (\<lambda>i. byte_of (i + 1)) [0..<n]"

definition pad_length :: "nat \<Rightarrow> nat" where
  "pad_length n = (let rem = (n + 2) mod BLOCK_SIZE in if rem = 0 then 0 else BLOCK_SIZE - rem)"

definition build_packet ::
  "(bytes \<Rightarrow> bytes \<Rightarrow> bytes \<Rightarrow> bytes) \<Rightarrow> (bytes \<Rightarrow> bytes \<Rightarrow> bytes) \<Rightarrow>
   int \<Rightarrow> int \<Rightarrow> bytes \<Rightarrow> bytes \<Rightarrow> bytes \<Rightarrow> bytes \<Rightarrow> int \<Rightarrow> bytes res" where
  "build_packet enc mac spi seq encr_key integ_key iv inner next_hdr =
     (if inner = [] then Inl (ValueError ''esp: inner payload empty'')
      else let pad_len = pad_length (length inner) in
        if pad_len > 255 then Inl (ValueError ''esp: pad length > 255'')
        else rbind (py_bytes [int pad_len, next_hdr]) (\<lambda>trailer.
          let plaintext = inner @ pad_bytes pad_len @ trailer;
              ct = enc encr_key iv plaintext
          in rbind (pack_I spi) (\<lambda>s. rbind (pack_I seq) (\<lambda>q.
             let pkt = s @ q @ iv @ ct;
                 icv = take ICV_LEN (mac integ_key pkt)
             in Inr (pkt @ icv)))))"

section \<open>Security association\<close>

record esp_sa =
  sa_spi :: int
  sa_encr_key :: bytes
  sa_integ_key :: bytes
  sa_seq_out :: int
  sa_seq_in :: replay_window

definition new_sa :: "int \<Rightarrow> bytes \<Rightarrow> bytes \<Rightarrow> esp_sa res" where
  "new_sa spi encr_key integ_key =
     (if length encr_key \<noteq> 32 then Inl (ValueError ''esp: encr key length != 32'')
      else if length integ_key \<noteq> 32 then Inl (ValueError ''esp: integ key length != 32'')
      else Inr \<lparr>sa_spi = spi, sa_encr_key = encr_key, sa_integ_key = integ_key,
                sa_seq_out = 0, sa_seq_in = new_window 64\<rparr>)"

definition encap ::
  "(bytes \<Rightarrow> bytes \<Rightarrow> bytes \<Rightarrow> bytes) \<Rightarrow> (bytes \<Rightarrow> bytes \<Rightarrow> bytes) \<Rightarrow>
   bytes \<Rightarrow> bytes \<Rightarrow> int \<Rightarrow> esp_sa \<Rightarrow> bytes res \<times> esp_sa" where
  "encap enc mac iv inner next_hdr sa =
     (if sa_seq_out sa = 0xFFFFFFFF then (Inl (ValueError ''esp: outbound sequence number wrapped''), sa)
      else let sa = sa\<lparr>sa_seq_out := sa_seq_out sa + 1\<rparr>
        in (build_packet enc mac (sa_spi sa) (sa_seq_out sa) (sa_encr_key sa) (sa_integ_key sa) iv
              inner next_hdr, sa))"

definition encap_deterministic ::
  "(bytes \<Rightarrow> bytes \<Rightarrow> bytes \<Rightarrow> bytes) \<Rightarrow> (bytes \<Rightarrow> bytes \<Rightarrow> bytes) \<Rightarrow>
   esp_sa \<Rightarrow> bytes \<Rightarrow> int \<Rightarrow> bytes \<Rightarrow> int \<Rightarrow> bytes res" where
  "encap_deterministic enc mac sa inner next_hdr iv seq =
     (if length iv \<noteq> IV_LEN then Inl (ValueError ''esp: test IV length != 16'')
      else build_packet enc mac (sa_spi sa) seq (sa_encr_key sa) (sa_integ_key sa) iv inner next_hdr)"

definition strip_padding :: "bytes \<Rightarrow> (bytes \<times> nat) res" where
  \<comment> \<open>the trailer and pad checks of \<open>decap\<close>: the inner packet and the next header\<close>
  "strip_padding pt =
     (let n = length pt in
      if n < 2 then Inl (ValueError ''esp: plaintext shorter than PadLen+NextHdr trailer'')
      else let pad_len = unat (pt ! (n - 2)); next_hdr = unat (pt ! (n - 1)) in
      if 2 + pad_len > n then Inl (ValueError ''esp: pad len overruns plaintext'')
      else if \<exists>i \<in> set [0..<pad_len]. unat (pt ! (n - 2 - pad_len + i)) \<noteq> i + 1
           then Inl (ValueError ''esp: pad pattern violation'')
      else Inr (take (n - 2 - pad_len) pt, next_hdr))"

definition decap ::
  "(bytes \<Rightarrow> bytes \<Rightarrow> bytes \<Rightarrow> bytes) \<Rightarrow> (bytes \<Rightarrow> bytes \<Rightarrow> bytes) \<Rightarrow>
   bytes \<Rightarrow> esp_sa \<Rightarrow> (bytes \<times> nat) res \<times> esp_sa" where
  "decap dec mac pkt sa =
     (if length pkt < ESP_HEADER_LEN + IV_LEN + BLOCK_SIZE + ICV_LEN
      then (Inl (ValueError ''esp: packet too short''), sa)
      else let spi = be_val (take 4 pkt); seq = be_val (slice 4 8 pkt) in
      if int spi \<noteq> sa_spi sa then (Inl (ValueError ''esp: SPI != SA SPI''), sa)
      else if \<not> win_check (sa_seq_in sa) seq
      then (Inl (ValueError ''esp: replay/old sequence number''), sa)
      else let icv_off = length pkt - ICV_LEN;
               icv = drop icv_off pkt;
               mac_input = take icv_off pkt in
      if take ICV_LEN (mac (sa_integ_key sa) mac_input) \<noteq> icv
      then (Inl (ValueError ''esp: ICV mismatch''), sa)
      else let iv = slice ESP_HEADER_LEN (ESP_HEADER_LEN + IV_LEN) pkt;
               ct = slice (ESP_HEADER_LEN + IV_LEN) icv_off pkt in
      if length ct mod BLOCK_SIZE \<noteq> 0 then (Inl (ValueError ''esp: ciphertext not block-aligned''), sa)
      else (case strip_padding (dec (sa_encr_key sa) iv ct) of
              Inl e \<Rightarrow> (Inl e, sa)
            | Inr r \<Rightarrow> (Inr r, sa\<lparr>sa_seq_in := win_commit seq (sa_seq_in sa)\<rparr>)))"

definition peek_spi :: "bytes \<Rightarrow> nat res" where
  "peek_spi pkt =
     (if length pkt < 4 then Inl (ValueError ''esp: packet too short to contain SPI'')
      else unpack_I (take 4 pkt))"

section \<open>The window refines the set of accepted numbers\<close>

text \<open>
  The specification keeps the set of all sequence numbers accepted so far and accepts a number
  when it is positive, new, and less than a window behind the highest accepted one.
\<close>

definition recv :: "nat \<Rightarrow> replay_window \<Rightarrow> bool \<times> replay_window" where
  "recv seq w = (if win_check w seq then (True, win_commit seq w) else (False, w))"

definition spec_recv :: "nat \<Rightarrow> nat \<Rightarrow> nat set \<Rightarrow> bool \<times> nat set" where
  "spec_recv sz seq A =
     (if 0 < seq \<and> seq \<notin> A \<and> Max (insert 0 A) < seq + sz then (True, insert seq A) else (False, A))"

fun outputs :: "('i \<Rightarrow> 's \<Rightarrow> 'o \<times> 's) \<Rightarrow> 's \<Rightarrow> 'i list \<Rightarrow> 'o list" where
  "outputs f s [] = []"
| "outputs f s (i # is) = fst (f i s) # outputs f (snd (f i s)) is"

definition window_rel :: "nat set \<Rightarrow> replay_window \<Rightarrow> bool" where
  "window_rel A w \<longleftrightarrow> finite A \<and> 0 \<notin> A \<and> 0 < rw_size w \<and> rw_last w = Max (insert 0 A) \<and>
     (\<forall>s. s \<le> rw_last w \<longrightarrow> rw_last w - s < rw_size w \<longrightarrow> (bit (rw_bits w) (rw_last w - s) \<longleftrightarrow> s \<in> A))"

lemma and_single_bit: "(b :: nat) AND 2 ^ n = 0 \<longleftrightarrow> \<not> bit b n"
  by (rule and_exp_eq_0_iff_not_bit)

lemma bit_low_mask: "bit (push_bit n 1 - 1 :: nat) k \<longleftrightarrow> k < n"
proof -
  have "push_bit n 1 - 1 = (mask n :: nat)" by (simp add: push_bit_eq_mult mask_eq_exp_minus_1)
  then show ?thesis by (simp only: bit_mask_iff) simp
qed

lemma window_bit:
  "window_rel A w \<Longrightarrow> s \<le> rw_last w \<Longrightarrow> rw_last w - s < rw_size w \<Longrightarrow>
     bit (rw_bits w) (rw_last w - s) \<longleftrightarrow> s \<in> A"
  unfolding window_rel_def by blast

lemma window_le: "window_rel A w \<Longrightarrow> s \<in> A \<Longrightarrow> s \<le> rw_last w"
  by (auto simp: window_rel_def intro!: Max_ge)

lemma check_spec:
  assumes "window_rel A w"
  shows "win_check w s \<longleftrightarrow> 0 < s \<and> s \<notin> A \<and> Max (insert 0 A) < s + rw_size w"
proof -
  have last: "rw_last w = Max (insert 0 A)" "0 < rw_size w" using assms by (simp_all add: window_rel_def)
  have "s \<notin> A" if "rw_last w < s" using window_le [OF assms, of s] that by auto
  moreover have "rw_last w - s < rw_size w \<Longrightarrow> s \<le> rw_last w \<Longrightarrow> bit (rw_bits w) (rw_last w - s) \<longleftrightarrow> s \<in> A"
    using window_bit [OF assms] by simp
  ultimately show ?thesis
    by (auto simp: win_check_def Let_def and_single_bit not_less simp flip: last(1))
qed

lemma bit_commit_shift:
  assumes "rw_last w < s"
  shows "bit (rw_bits (win_commit s w)) k \<longleftrightarrow> k = 0 \<or>
    s - rw_last w < rw_size w \<and> k < rw_size w \<and> s - rw_last w \<le> k \<and> bit (rw_bits w) (k - (s - rw_last w))"
proof -
  have "rw_bits (win_commit s w) =
      (if s - rw_last w \<ge> rw_size w then 0
       else push_bit (s - rw_last w) (rw_bits w) AND (push_bit (rw_size w) 1 - 1)) OR 1"
    using assms by (simp add: win_commit_def Let_def)
  then show ?thesis
    by (cases "s - rw_last w \<ge> rw_size w")
       (auto simp only: bit_or_iff bit_and_iff bit_push_bit_iff_nat bit_low_mask bit_1_iff if_True if_False
          bit_0_eq bot_apply bot_bool_def not_le simp_thms)
qed

lemma commit_rel:
  assumes rel: "window_rel A w" and chk: "win_check w s"
  shows "window_rel (insert s A) (win_commit s w)"
proof (cases "rw_last w < s")
  case True
  have fin: "finite A" "rw_last w = Max (insert 0 A)" using rel by (simp_all add: window_rel_def)
  then have "Max (insert 0 (insert s A)) = s"
    using True by (subst insert_commute, subst Max_insert) auto
  moreover have "bit (rw_bits (win_commit s w)) (s - t) \<longleftrightarrow> t \<in> insert s A"
    if t: "t \<le> s" "s - t < rw_size w" for t
  proof (cases "t \<le> rw_last w")
    case True
    have "s - t - (s - rw_last w) = rw_last w - t" "s - rw_last w < rw_size w" "s - rw_last w \<le> s - t"
      using \<open>rw_last w < s\<close> True t by simp_all
    moreover have "bit (rw_bits w) (rw_last w - t) \<longleftrightarrow> t \<in> A"
      using t \<open>rw_last w < s\<close> by (intro window_bit [OF rel True]) linarith
    moreover have "s - t \<noteq> 0" "t \<noteq> s" using \<open>rw_last w < s\<close> True by simp_all
    ultimately show ?thesis
      using t by (simp only: bit_commit_shift [OF \<open>rw_last w < s\<close>] insert_iff simp_thms)
  next
    case False
    then have "t \<notin> A" using window_le [OF rel, of t] by auto
    moreover have "\<not> s - rw_last w \<le> s - t" "s - t = 0 \<longleftrightarrow> t = s"
      using False t \<open>rw_last w < s\<close> by auto
    ultimately show ?thesis
      by (simp only: bit_commit_shift [OF \<open>rw_last w < s\<close>] insert_iff simp_thms)
  qed
  moreover have "rw_last (win_commit s w) = s" "rw_size (win_commit s w) = rw_size w"
    using True by (simp_all add: win_commit_def Let_def)
  moreover have "0 < s" using True by simp
  ultimately show ?thesis using rel by (simp add: window_rel_def)
next
  case False
  then have s: "0 < s" "s \<le> rw_last w" "rw_last w - s < rw_size w" "s \<notin> A"
    using chk False check_spec [OF rel, of s] by (auto simp: win_check_def Let_def split: if_splits)
  have "Max (insert 0 (insert s A)) = Max (insert 0 A)"
    using rel s(2) by (subst insert_commute, subst Max_insert) (auto simp: window_rel_def max_def)
  moreover have "bit (rw_bits (win_commit s w)) (rw_last w - t) \<longleftrightarrow> t \<in> insert s A"
    if "t \<le> rw_last w" "rw_last w - t < rw_size w" for t
  proof -
    have "bit (rw_bits (win_commit s w)) (rw_last w - t) \<longleftrightarrow>
        bit (rw_bits w) (rw_last w - t) \<or> rw_last w - t = rw_last w - s"
      using False by (auto simp: win_commit_def bit_simps)
    moreover have "rw_last w - t = rw_last w - s \<longleftrightarrow> t = s" using that s by auto
    ultimately show ?thesis using window_bit [OF rel that] by (simp only: insert_iff) blast
  qed
  moreover have "rw_last (win_commit s w) = rw_last w" "rw_size (win_commit s w) = rw_size w"
    using False by (simp_all add: win_commit_def)
  ultimately show ?thesis using rel s(1) by (simp add: window_rel_def)
qed

lemma recv_refines:
  assumes "window_rel A w" "rw_size w = n"
  shows "fst (recv s w) = fst (spec_recv n s A)"
    and "window_rel (snd (spec_recv n s A)) (snd (recv s w)) \<and> rw_size (snd (recv s w)) = n"
  using assms check_spec [OF assms(1), of s] commit_rel [OF assms(1), of s]
  by (auto simp: recv_def spec_recv_def win_commit_def Let_def)

lemma outputs_refine:
  "window_rel A w \<Longrightarrow> rw_size w = n \<Longrightarrow> outputs recv w ss = outputs (spec_recv n) A ss"
proof (induction ss arbitrary: A w)
  case Nil
  then show ?case by simp
next
  case (Cons s ss)
  then show ?case using recv_refines [OF Cons.prems, of s] by simp
qed

text \<open>
  C17: the 64-bit window decides exactly as the unbounded specification: for every sequence of
  numbers, a number is accepted when and only when it is positive, was not accepted before, and
  is less than the window size behind the highest accepted one.
\<close>

theorem replay_window_refines:
  "outputs recv (new_window n) ss = outputs (spec_recv (if n = 0 \<or> n > 64 then 64 else n)) {} ss"
  by (rule outputs_refine) (auto simp: window_rel_def new_window_def)

section \<open>Packets are accepted once\<close>

fun accepted_seqs ::
  "(bytes \<Rightarrow> bytes \<Rightarrow> bytes \<Rightarrow> bytes) \<Rightarrow> (bytes \<Rightarrow> bytes \<Rightarrow> bytes) \<Rightarrow> esp_sa \<Rightarrow> bytes list \<Rightarrow> nat list" where
  \<comment> \<open>the sequence numbers of the packets that \<open>decap\<close> delivers, in order\<close>
  "accepted_seqs dec mac sa [] = []"
| "accepted_seqs dec mac sa (pkt # pkts) =
     (case decap dec mac pkt sa of
        (Inl e, sa') \<Rightarrow> accepted_seqs dec mac sa' pkts
      | (Inr r, sa') \<Rightarrow> be_val (slice 4 8 pkt) # accepted_seqs dec mac sa' pkts)"

lemma decap_cases:
  "(\<exists>e. decap dec mac pkt sa = (Inl e, sa)) \<or>
   (\<exists>r. decap dec mac pkt sa =
      (Inr r, sa\<lparr>sa_seq_in := win_commit (be_val (slice 4 8 pkt)) (sa_seq_in sa)\<rparr>) \<and>
      win_check (sa_seq_in sa) (be_val (slice 4 8 pkt)))"
  by (auto simp: decap_def Let_def split: sum.splits)

lemma accepted_distinct:
  "window_rel A (sa_seq_in sa) \<Longrightarrow>
     distinct (accepted_seqs dec mac sa pkts) \<and> set (accepted_seqs dec mac sa pkts) \<inter> A = {}"
proof (induction pkts arbitrary: sa A)
  case Nil
  then show ?case by simp
next
  case (Cons pkt pkts)
  let ?s = "be_val (slice 4 8 pkt)"
  from decap_cases [of dec mac pkt sa] show ?case
  proof (elim disjE exE conjE)
    fix e assume "decap dec mac pkt sa = (Inl e, sa)"
    then show ?thesis using Cons.IH [OF Cons.prems] by simp
  next
    fix r assume d: "decap dec mac pkt sa = (Inr r, sa\<lparr>sa_seq_in := win_commit ?s (sa_seq_in sa)\<rparr>)"
      and c: "win_check (sa_seq_in sa) ?s"
    have "?s \<notin> A" using c check_spec [OF Cons.prems] by simp
    moreover have "window_rel (insert ?s A) (sa_seq_in (sa\<lparr>sa_seq_in := win_commit ?s (sa_seq_in sa)\<rparr>))"
      using commit_rel [OF Cons.prems c] by simp
    ultimately show ?thesis using Cons.IH d by fastforce
  qed
qed

text \<open>
  C5: no packet is delivered twice: whatever octets arrive in whatever order, and whatever the
  cipher and the authentication function are, the packets a fresh security association delivers
  carry pairwise different sequence numbers, and a packet that is not delivered leaves the
  association, its window included, exactly as it was.
\<close>

theorem esp_no_replay:
  "distinct (accepted_seqs dec mac \<lparr>sa_spi = spi, sa_encr_key = ek, sa_integ_key = ik, sa_seq_out = q,
                                   sa_seq_in = new_window n\<rparr> pkts) \<and>
   (case fst (decap dec mac pkt sa) of Inl e \<Rightarrow> snd (decap dec mac pkt sa) = sa
    | Inr r \<Rightarrow> snd (decap dec mac pkt sa) =
        sa\<lparr>sa_seq_in := win_commit (be_val (slice 4 8 pkt)) (sa_seq_in sa)\<rparr>)"
proof
  let ?sa = "\<lparr>sa_spi = spi, sa_encr_key = ek, sa_integ_key = ik, sa_seq_out = q, sa_seq_in = new_window n\<rparr>"
  have "window_rel {} (sa_seq_in ?sa)" by (simp add: window_rel_def new_window_def)
  then show "distinct (accepted_seqs dec mac ?sa pkts)" by (rule accepted_distinct [THEN conjunct1])
qed (use decap_cases [of dec mac pkt sa] in auto)

section \<open>Round trip\<close>

definition crypto_ok ::
  "(bytes \<Rightarrow> bytes \<Rightarrow> bytes \<Rightarrow> bytes) \<Rightarrow> (bytes \<Rightarrow> bytes \<Rightarrow> bytes \<Rightarrow> bytes) \<Rightarrow> (bytes \<Rightarrow> bytes \<Rightarrow> bytes) \<Rightarrow> bool" where
  \<comment> \<open>block-wise decryption inverts encryption and keeps the length; the digest has 16 octets or more\<close>
  "crypto_ok enc dec mac \<longleftrightarrow>
     (\<forall>k iv pt. length pt mod 16 = 0 \<longrightarrow> dec k iv (enc k iv pt) = pt \<and> length (enc k iv pt) = length pt) \<and>
     (\<forall>k d. 16 \<le> length (mac k d))"

lemma pad_length_bounds: "pad_length n < 16" "(n + pad_length n + 2) mod 16 = 0"
proof -
  show "pad_length n < 16" by (simp add: pad_length_def BLOCK_SIZE_def Let_def)
  obtain k r where k: "n + 2 = 16 * k + r" "(n + 2) mod 16 = r" "r < 16"
    using mult_div_mod_eq [of 16 "n + 2"] by (metis mod_less_divisor zero_less_numeral)
  show "(n + pad_length n + 2) mod 16 = 0"
  proof (cases "r = 0")
    case True
    then show ?thesis using k by (simp add: pad_length_def BLOCK_SIZE_def)
  next
    case False
    then have "n + pad_length n + 2 = 16 * (k + 1)"
      using k by (simp add: pad_length_def BLOCK_SIZE_def)
    then show ?thesis by (simp only: mod_mult_self1_is_0)
  qed
qed

lemma strip_padding_pad:
  assumes "p < 256" "h < 256"
  shows "strip_padding (inner @ pad_bytes p @ [byte_of p, byte_of h]) = Inr (inner, h)"
proof -
  let ?pt = "inner @ pad_bytes p @ [byte_of p, byte_of h]"
  have len: "length (pad_bytes p) = p" by (simp add: pad_bytes_def)
  have "length ?pt = length inner + p + 2" "?pt ! (length inner + p) = byte_of p"
    "?pt ! (length inner + p + 1) = byte_of h" by (simp_all add: len nth_append)
  moreover have "?pt ! (length inner + i) = byte_of (i + 1)" if "i < p" for i
    using that by (simp add: nth_append len) (simp add: pad_bytes_def)
  ultimately show ?thesis
    using assms by (auto simp: strip_padding_def Let_def)
qed

lemma build_packet_layout:
  assumes "inner \<noteq> []" "0 \<le> h" "h < 256" "0 \<le> spi" "spi < 2 ^ 32" "0 \<le> seq" "seq < 2 ^ 32"
  shows "build_packet enc mac spi seq ek ik iv inner h =
    (let p = pad_length (length inner);
         ct = enc ek iv (inner @ pad_bytes p @ [byte_of p, byte_of (nat h)]);
         pkt = be_enc 4 (nat spi) @ be_enc 4 (nat seq) @ iv @ ct
     in Inr (pkt @ take ICV_LEN (mac ik pkt)))"
proof -
  have p: "pad_length (length inner) < 256" using pad_length_bounds(1) [of "length inner"] by simp
  then have "py_bytes [int (pad_length (length inner)), h] = Inr [byte_of (pad_length (length inner)), byte_of (nat h)]"
    using assms by (simp add: py_byte_def)
  moreover have "pack_I spi = Inr (be_enc 4 (nat spi))" "pack_I seq = Inr (be_enc 4 (nat seq))"
    using assms by (simp_all add: pack_be_def)
  ultimately show ?thesis using assms(1) p by (simp only: build_packet_def Let_def rbind.simps) simp
qed

lemma decap_layout:
  assumes "crypto_ok enc dec mac" "length iv = 16" "length pt mod 16 = 0" "pt \<noteq> []"
    "spi < 2 ^ 32" "seq < 2 ^ 32" "sa_spi sa = int spi" "win_check (sa_seq_in sa) seq"
    "pkt = be_enc 4 spi @ be_enc 4 seq @ iv @ enc (sa_encr_key sa) iv pt"
  shows "decap dec mac (pkt @ take ICV_LEN (mac (sa_integ_key sa) pkt)) sa =
    (case strip_padding pt of Inl e \<Rightarrow> (Inl e, sa)
     | Inr r \<Rightarrow> (Inr r, sa\<lparr>sa_seq_in := win_commit seq (sa_seq_in sa)\<rparr>))"
proof -
  let ?ct = "enc (sa_encr_key sa) iv pt"
  let ?icv = "take ICV_LEN (mac (sa_integ_key sa) pkt)"
  have c: "dec (sa_encr_key sa) iv ?ct = pt" "length ?ct = length pt" "length ?icv = 16"
    using assms(1,3) by (simp_all add: crypto_ok_def ICV_LEN_def)
  have "16 \<le> length pt" using assms(3,4) by (cases "length pt < 16") auto
  then have len: "length pkt = 24 + length pt" "64 - 8 \<le> length (pkt @ ?icv)"
    using assms(2,9) c by simp_all
  define whole where "whole = pkt @ ?icv"
  have f: "take 4 whole = be_enc 4 spi" "slice 4 8 whole = be_enc 4 seq" "slice 8 (8 + 16) whole = iv"
    "slice (8 + 16) (length whole - 16) whole = ?ct" "take (length whole - 16) whole = pkt"
    "drop (length whole - 16) whole = ?icv"
    using assms(2,9) c len by (simp_all add: slice_def whole_def)
  have v: "be_val (be_enc 4 spi) = spi" "be_val (be_enc 4 seq) = seq"
    using assms(5,6) by (simp_all add: be_val_be_enc)
  have short: "\<not> length whole < 8 + 16 + 16 + 16" using len(2) by (simp add: whole_def)
  have "decap dec mac whole sa = (case strip_padding pt of Inl e \<Rightarrow> (Inl e, sa)
     | Inr r \<Rightarrow> (Inr r, sa\<lparr>sa_seq_in := win_commit seq (sa_seq_in sa)\<rparr>))"
    unfolding decap_def Let_def ESP_HEADER_LEN_def IV_LEN_def BLOCK_SIZE_def
    using assms(3,7,8) c(1,2) short
    by (simp only: f v ICV_LEN_def if_False if_True simp_thms c(1,2))
  then show ?thesis by (simp only: whole_def)
qed

text \<open>
  what one side wraps the other side unwraps: for a cipher whose decryption inverts its
  encryption and any authentication function of at least 16 octets, a receiver with the sender's
  keys and index whose window admits the next number gets exactly the inner packet and next
  header, and marks that number as seen; the sender's counter has advanced by one.
\<close>

theorem esp_roundtrip:
  assumes "crypto_ok enc dec mac" "length iv = 16" "inner \<noteq> []" "0 \<le> h" "h < 256"
    "0 \<le> sa_spi tx" "sa_spi tx < 2 ^ 32" "0 \<le> sa_seq_out tx" "sa_seq_out tx < 2 ^ 32 - 1"
    "sa_spi rx = sa_spi tx" "sa_encr_key rx = sa_encr_key tx" "sa_integ_key rx = sa_integ_key tx"
    "win_check (sa_seq_in rx) (nat (sa_seq_out tx + 1))"
  shows "\<exists>pkt. encap enc mac iv inner h tx = (Inr pkt, tx\<lparr>sa_seq_out := sa_seq_out tx + 1\<rparr>) \<and>
    decap dec mac pkt rx =
      (Inr (inner, nat h), rx\<lparr>sa_seq_in := win_commit (nat (sa_seq_out tx + 1)) (sa_seq_in rx)\<rparr>)"
proof -
  let ?p = "pad_length (length inner)"
  let ?pt = "inner @ pad_bytes ?p @ [byte_of ?p, byte_of (nat h)]"
  let ?pkt = "be_enc 4 (nat (sa_spi tx)) @ be_enc 4 (nat (sa_seq_out tx + 1)) @ iv @ enc (sa_encr_key tx) iv ?pt"
  have "encap enc mac iv inner h tx = (Inr (?pkt @ take ICV_LEN (mac (sa_integ_key tx) ?pkt)),
      tx\<lparr>sa_seq_out := sa_seq_out tx + 1\<rparr>)"
    using assms by (simp add: encap_def build_packet_layout Let_def)
  moreover have "decap dec mac (?pkt @ take ICV_LEN (mac (sa_integ_key rx) ?pkt)) rx =
      (Inr (inner, nat h), rx\<lparr>sa_seq_in := win_commit (nat (sa_seq_out tx + 1)) (sa_seq_in rx)\<rparr>)"
  proof (subst decap_layout [where pt = ?pt])
    show "length ?pt mod 16 = 0"
      using pad_length_bounds(2) [of "length inner"] by (simp add: pad_bytes_def add.commute add.left_commute)
    show "nat (sa_spi tx) < 2 ^ 32" "nat (sa_seq_out tx + 1) < 2 ^ 32"
      using assms by (simp_all add: nat_less_iff)
    show "(case strip_padding ?pt of Inl e \<Rightarrow> (Inl e, rx)
        | Inr r \<Rightarrow> (Inr r, rx\<lparr>sa_seq_in := win_commit (nat (sa_seq_out tx + 1)) (sa_seq_in rx)\<rparr>)) =
      (Inr (inner, nat h), rx\<lparr>sa_seq_in := win_commit (nat (sa_seq_out tx + 1)) (sa_seq_in rx)\<rparr>)"
      using strip_padding_pad [of ?p "nat h" inner] pad_length_bounds(1) [of "length inner"] assms(4,5)
      by simp
  qed (use assms in simp_all)
  ultimately show ?thesis using assms(12) by simp
qed

theorem esp_roundtrip_witness:
  "\<exists>pkt. fst (encap (\<lambda>k iv pt. pt) (\<lambda>k d. replicate 32 0) (replicate 16 0) [1, 2, 3] 4
       \<lparr>sa_spi = 7, sa_encr_key = [], sa_integ_key = [], sa_seq_out = 0, sa_seq_in = new_window 64\<rparr>) = Inr pkt \<and>
     fst (decap (\<lambda>k iv pt. pt) (\<lambda>k d. replicate 32 0) pkt
       \<lparr>sa_spi = 7, sa_encr_key = [], sa_integ_key = [], sa_seq_out = 0, sa_seq_in = new_window 64\<rparr>) = Inr ([1, 2, 3], 4)"
proof -
  have "crypto_ok (\<lambda>k iv pt. pt) (\<lambda>k iv pt. pt) (\<lambda>k d. replicate 32 0)" by (simp add: crypto_ok_def)
  from esp_roundtrip [OF this, of "replicate 16 0" "[1, 2, 3]" 4
      "\<lparr>sa_spi = 7, sa_encr_key = [], sa_integ_key = [], sa_seq_out = 0, sa_seq_in = new_window 64\<rparr>"
      "\<lparr>sa_spi = 7, sa_encr_key = [], sa_integ_key = [], sa_seq_out = 0, sa_seq_in = new_window 64\<rparr>"]
  show ?thesis by (fastforce simp: win_check_def new_window_def)
qed

end
