(* ===== verification/TtMgmt.thy ===== *)
theory TtMgmt
  imports Prelude
begin

text \<open>
  The port management service codec of \<open>tester/src/protocol/ttmgmt.py\<close>: messages, operations,
  parameter status lists, the information elements of a COMPLETE message and the value helpers.
  Identifiers and lengths are natural numbers; \<open>struct.pack\<close> and \<open>bytes\<close> refuse those that do
  not fit their field, as in the code.
\<close>

declare rbind_cong [fundef_cong]

section \<open>Constants\<close>

definition MSG_MANAGE_PORT_COMMAND :: nat where "MSG_MANAGE_PORT_COMMAND = 1"
definition MSG_MANAGE_PORT_COMPLETE :: nat where "MSG_MANAGE_PORT_COMPLETE = 2"
definition MSG_PORT_MGMT_NOTIFY :: nat where "MSG_PORT_MGMT_NOTIFY = 3"
definition MSG_PORT_MGMT_NOTIFY_ACK :: nat where "MSG_PORT_MGMT_NOTIFY_ACK = 4"
definition MSG_PORT_MGMT_NOTIFY_COMPLETE :: nat where "MSG_PORT_MGMT_NOTIFY_COMPLETE = 5"
definition MSG_PORT_MGMT_CAPABILITY :: nat where "MSG_PORT_MGMT_CAPABILITY = 6"
definition MSG_UPNODE_MGMT_NOTIFY_ACK :: nat where "MSG_UPNODE_MGMT_NOTIFY_ACK = 4"

definition OP_GET_CAPABILITIES :: nat where "OP_GET_CAPABILITIES = 1"
definition OP_READ_PARAMETER :: nat where "OP_READ_PARAMETER = 2"
definition OP_SET_PARAMETER :: nat where "OP_SET_PARAMETER = 3"
definition OP_SUBSCRIBE_NOTIFY :: nat where "OP_SUBSCRIBE_NOTIFY = 4"
definition OP_UNSUBSCRIBE :: nat where "OP_UNSUBSCRIBE = 5"
definition OP_SELECTIVE_READ :: nat where "OP_SELECTIVE_READ = 6"
definition OP_SELECTIVE_SUBSCRIBE_NOTIFY :: nat where "OP_SELECTIVE_SUBSCRIBE_NOTIFY = 7"
definition OP_SELECTIVE_UNSUBSCRIBE :: nat where "OP_SELECTIVE_UNSUBSCRIBE = 8"
definition OP_DELETE_PARAMETER_ENTRY :: nat where "OP_DELETE_PARAMETER_ENTRY = 9"

definition CAUSE_PARAM_VALUE_UNAVAILABLE :: nat where "CAUSE_PARAM_VALUE_UNAVAILABLE = 3"
definition CAUSE_PROTOCOL_ERROR :: nat where "CAUSE_PROTOCOL_ERROR = 0x6F"

definition IEI_CAPABILITY :: nat where "IEI_CAPABILITY = 0x70"
definition IEI_STATUS :: nat where "IEI_STATUS = 0x71"
definition IEI_UPDATE_RESULT :: nat where "IEI_UPDATE_RESULT = 0x72"

lemmas msg_consts = MSG_MANAGE_PORT_COMMAND_def MSG_MANAGE_PORT_COMPLETE_def MSG_PORT_MGMT_NOTIFY_def
  MSG_PORT_MGMT_NOTIFY_ACK_def MSG_PORT_MGMT_NOTIFY_COMPLETE_def MSG_PORT_MGMT_CAPABILITY_def
  MSG_UPNODE_MGMT_NOTIFY_ACK_def

lemmas op_consts = OP_GET_CAPABILITIES_def OP_READ_PARAMETER_def OP_SET_PARAMETER_def
  OP_SUBSCRIBE_NOTIFY_def OP_UNSUBSCRIBE_def OP_SELECTIVE_READ_def
  OP_SELECTIVE_SUBSCRIBE_NOTIFY_def OP_SELECTIVE_UNSUBSCRIBE_def OP_DELETE_PARAMETER_ENTRY_def

lemmas iei_consts = IEI_CAPABILITY_def IEI_STATUS_def IEI_UPDATE_RESULT_def

definition TTMgmtError :: "string \<Rightarrow> py_error" where
  "TTMgmtError m = Raised ''TTMgmtError'' m"

abbreviation too_short :: py_error where
  "too_short \<equiv> TTMgmtError ''message too short''"

section \<open>Data\<close>

record tt_op =
  op_code :: nat
  op_param :: nat
  op_value :: bytes

record tt_message =
  tm_type :: nat
  tm_ops :: "tt_op list"
  tm_capabilities :: "nat list"
  tm_status :: "(nat \<times> bytes) list"
  tm_status_errors :: "(nat \<times> nat) list"
  tm_updates :: "(nat \<times> bytes) list"
  tm_update_errors :: "(nat \<times> nat) list"

definition new_message :: "nat \<Rightarrow> tt_message" where
  "new_message t = \<lparr>tm_type = t, tm_ops = [], tm_capabilities = [], tm_status = [],
     tm_status_errors = [], tm_updates = [], tm_update_errors = []\<rparr>"

definition op_has_value :: "nat \<Rightarrow> bool" where
  "op_has_value code \<longleftrightarrow> code \<in> {OP_SET_PARAMETER, OP_SELECTIVE_READ, OP_SELECTIVE_SUBSCRIBE_NOTIFY,
     OP_SELECTIVE_UNSUBSCRIBE, OP_DELETE_PARAMETER_ENTRY}"

section \<open>Encoder\<close>

definition lve :: "bytes \<Rightarrow> bytes res" where
  "lve body = rbind (pack_H (int (length body))) (\<lambda>l. Inr (l @ body))"

definition encode_op :: "tt_op \<Rightarrow> bytes res" where
  "encode_op op =
     rbind (py_bytes [int (op_code op)]) (\<lambda>c.
     if op_code op = OP_GET_CAPABILITIES then Inr c
     else rbind (pack_H (int (op_param op))) (\<lambda>p.
       if op_has_value (op_code op)
       then rbind (pack_H (int (length (op_value op)))) (\<lambda>l. Inr (c @ p @ l @ op_value op))
       else Inr (c @ p)))"

definition encode_ops :: "tt_op list \<Rightarrow> bytes res" where
  "encode_ops ops = rbind (rmap encode_op ops) (\<lambda>bs. Inr (concat bs))"

definition encode_caps :: "nat list \<Rightarrow> bytes res" where
  "encode_caps names = rbind (rmap (\<lambda>n. pack_H (int n)) names) (\<lambda>bs. Inr (concat bs))"

definition encode_ok :: "nat \<Rightarrow> nat \<times> bytes \<Rightarrow> bytes res" where
  "encode_ok len_octets = (\<lambda>(param, v).
     rbind (pack_H (int param)) (\<lambda>p.
     rbind (if len_octets = 2 then pack_H (int (length v)) else py_bytes [int (length v)]) (\<lambda>l.
     Inr (p @ l @ v))))"

definition encode_err :: "nat \<times> nat \<Rightarrow> bytes res" where
  "encode_err = (\<lambda>(param, cause).
     rbind (pack_H (int param)) (\<lambda>p. rbind (py_bytes [int cause]) (\<lambda>c. Inr (p @ c))))"

definition encode_status :: "(nat \<times> bytes) list \<Rightarrow> (nat \<times> nat) list \<Rightarrow> nat \<Rightarrow> bytes res" where
  "encode_status oks errs len_octets =
     rbind (py_bytes [int (length oks)]) (\<lambda>n.
     rbind (rmap (encode_ok len_octets) oks) (\<lambda>bs.
     rbind (py_bytes [int (length errs)]) (\<lambda>m.
     rbind (rmap encode_err errs) (\<lambda>cs. Inr (n @ concat bs @ m @ concat cs)))))"

definition encode_ie :: "nat \<Rightarrow> bytes res \<Rightarrow> bytes res" where
  \<comment> \<open>\<open>bytes([iei]) + _lve(body)\<close>\<close>
  "encode_ie iei body =
     rbind (py_bytes [int iei]) (\<lambda>t. rbind body (\<lambda>b. rbind (lve b) (\<lambda>l. Inr (t @ l))))"

definition encode_message :: "tt_message \<Rightarrow> bytes res" where
  "encode_message m =
     rbind (py_bytes [int (tm_type m)]) (\<lambda>out.
     if tm_type m = MSG_MANAGE_PORT_COMMAND then
       rbind (encode_ops (tm_ops m)) (\<lambda>body.
       if body = [] then Inl (TTMgmtError ''COMMAND requires at least one operation'')
       else rbind (lve body) (\<lambda>l. Inr (out @ l)))
     else if tm_type m = MSG_MANAGE_PORT_COMPLETE then
       rbind (if tm_capabilities m \<noteq> [] then encode_ie IEI_CAPABILITY (encode_caps (tm_capabilities m))
              else Inr []) (\<lambda>a.
       rbind (if tm_status m \<noteq> [] \<or> tm_status_errors m \<noteq> []
              then encode_ie IEI_STATUS (encode_status (tm_status m) (tm_status_errors m) 2)
              else Inr []) (\<lambda>b.
       rbind (if tm_updates m \<noteq> [] \<or> tm_update_errors m \<noteq> []
              then encode_ie IEI_UPDATE_RESULT (encode_status (tm_updates m) (tm_update_errors m) 1)
              else Inr []) (\<lambda>c. Inr (out @ a @ b @ c))))
     else if tm_type m = MSG_PORT_MGMT_NOTIFY then
       rbind (encode_status (tm_status m) (tm_status_errors m) 2) (\<lambda>b.
       rbind (lve b) (\<lambda>l. Inr (out @ l)))
     else if tm_type m \<in> {MSG_PORT_MGMT_NOTIFY_ACK, MSG_PORT_MGMT_NOTIFY_COMPLETE} then Inr out
     else if tm_type m = MSG_PORT_MGMT_CAPABILITY then
       rbind (encode_caps (tm_capabilities m)) (\<lambda>b. rbind (lve b) (\<lambda>l. Inr (out @ l)))
     else Inl (TTMgmtError ''unknown message type''))"

section \<open>Decoder\<close>

definition read_lve :: "bytes \<Rightarrow> (bytes \<times> bytes) res" where
  "read_lve b =
     (if length b < 2 then Inl too_short
      else let n = be_val (take 2 b) in
        if length b < 2 + n then Inl too_short
        else Inr (slice 2 (2 + n) b, drop (2 + n) b))"

definition decode_op :: "byte \<Rightarrow> bytes \<Rightarrow> (tt_op \<times> bytes) res" where
  \<comment> \<open>one pass of the loop of \<open>_decode_ops\<close>, the operation code already taken off\<close>
  "decode_op c b =
     (let code = unat c in
      if code = 0 \<or> code > OP_DELETE_PARAMETER_ENTRY then Inl (TTMgmtError ''spare operation code'')
      else if code = OP_GET_CAPABILITIES then Inr (\<lparr>op_code = code, op_param = 0, op_value = []\<rparr>, b)
      else if length b < 2 then Inl too_short
      else let param = be_val (take 2 b); b = drop 2 b in
        if \<not> op_has_value code then Inr (\<lparr>op_code = code, op_param = param, op_value = []\<rparr>, b)
        else if length b < 2 then Inl too_short
        else let n = be_val (take 2 b); b = drop 2 b in
          if length b < n then Inl too_short
          else Inr (\<lparr>op_code = code, op_param = param, op_value = take n b\<rparr>, drop n b))"

lemma decode_op_length: "decode_op c b = Inr (op, r) \<Longrightarrow> length r \<le> length b"
  by (auto simp: decode_op_def Let_def split: if_splits)

function decode_ops :: "bytes \<Rightarrow> tt_op list res" where
  "decode_ops [] = Inr []"
| "decode_ops (c # b) =
     rbind (decode_op c b) (\<lambda>(op, rest). rbind (decode_ops rest) (\<lambda>ops. Inr (op # ops)))"
  by pat_completeness auto

termination decode_ops
  by (relation "measure length") (auto dest!: decode_op_length)

fun decode_caps_from :: "bytes \<Rightarrow> nat list" where
  "decode_caps_from (a # b # rest) = be_val [a, b] # decode_caps_from rest"
| "decode_caps_from _ = []"

definition decode_caps :: "bytes \<Rightarrow> nat list res" where
  "decode_caps b =
     (if length b mod 2 \<noteq> 0 then Inl (TTMgmtError ''capability list length not a multiple of 2'')
      else Inr (decode_caps_from b))"

fun decode_oks :: "nat \<Rightarrow> nat \<Rightarrow> bytes \<Rightarrow> ((nat \<times> bytes) list \<times> bytes) res" where
  \<comment> \<open>the first loop of \<open>_decode_status\<close>\<close>
  "decode_oks len_octets 0 b = Inr ([], b)"
| "decode_oks len_octets (Suc k) b =
     (if length b < 2 + len_octets then Inl too_short
      else let param = be_val (take 2 b); b = drop 2 b;
               n = (if len_octets = 2 then be_val (take 2 b) else unat (b ! 0));
               b = (if len_octets = 2 then drop 2 b else drop 1 b) in
        if length b < n then Inl too_short
        else rbind (decode_oks len_octets k (drop n b)) (\<lambda>(oks, r). Inr ((param, take n b) # oks, r)))"

fun decode_errs :: "nat \<Rightarrow> bytes \<Rightarrow> (nat \<times> nat) list res" where
  "decode_errs 0 b = Inr []"
| "decode_errs (Suc k) b =
     (if length b < 3 then Inl too_short
      else rbind (decode_errs k (drop 3 b)) (\<lambda>errs. Inr ((be_val (take 2 b), unat (b ! 2)) # errs)))"

definition decode_status :: "bytes \<Rightarrow> nat \<Rightarrow> ((nat \<times> bytes) list \<times> (nat \<times> nat) list) res" where
  "decode_status b len_octets =
     (if length b < 1 then Inl too_short
      else rbind (decode_oks len_octets (unat (b ! 0)) (drop 1 b)) (\<lambda>(oks, b).
        if length b < 1 then Inl too_short
        else rbind (decode_errs (unat (b ! 0)) (drop 1 b)) (\<lambda>errs. Inr (oks, errs))))"

definition apply_ie :: "nat \<Rightarrow> bytes \<Rightarrow> tt_message \<Rightarrow> tt_message res" where
  \<comment> \<open>what the loop over the elements of a COMPLETE message does with one of them\<close>
  "apply_ie iei body m =
     (if iei = IEI_CAPABILITY then rbind (decode_caps body) (\<lambda>cs. Inr (m\<lparr>tm_capabilities := cs\<rparr>))
      else if iei = IEI_STATUS then
        rbind (decode_status body 2) (\<lambda>(s, e). Inr (m\<lparr>tm_status := s, tm_status_errors := e\<rparr>))
      else if iei = IEI_UPDATE_RESULT then
        rbind (decode_status body 1) (\<lambda>(s, e). Inr (m\<lparr>tm_updates := s, tm_update_errors := e\<rparr>))
      else Inr m)"

lemma read_lve_length: "read_lve b = Inr (body, r) \<Longrightarrow> length r < length b"
  by (auto simp: read_lve_def Let_def split: if_splits)

function decode_ies :: "tt_message \<Rightarrow> bytes \<Rightarrow> tt_message res" where
  "decode_ies m [] = Inr m"
| "decode_ies m (iei # r) =
     rbind (read_lve r) (\<lambda>(body, rest).
     rbind (apply_ie (unat iei) body m) (\<lambda>m'. decode_ies m' rest))"
  by pat_completeness auto

termination decode_ies
  by (relation "measure (\<lambda>(m, b). length b)") (auto dest!: read_lve_length)

definition decode_message :: "bytes \<Rightarrow> bool \<Rightarrow> tt_message res" where
  "decode_message b pms =
     (if length b < 1 then Inl too_short
      else let m = new_message (unat (b ! 0)); rest = drop 1 b;
               max_type = (if pms then MSG_PORT_MGMT_CAPABILITY else MSG_UPNODE_MGMT_NOTIFY_ACK) in
      if tm_type m = 0 \<or> tm_type m > max_type then Inl (TTMgmtError ''reserved message type'')
      else if tm_type m = MSG_MANAGE_PORT_COMMAND then
        rbind (read_lve rest) (\<lambda>(body, _). rbind (decode_ops body) (\<lambda>ops. Inr (m\<lparr>tm_ops := ops\<rparr>)))
      else if tm_type m = MSG_MANAGE_PORT_COMPLETE then decode_ies m rest
      else if tm_type m = MSG_PORT_MGMT_NOTIFY then
        rbind (read_lve rest) (\<lambda>(body, _). rbind (decode_status body 2) (\<lambda>(s, e).
        Inr (m\<lparr>tm_status := s, tm_status_errors := e\<rparr>)))
      else if tm_type m = MSG_PORT_MGMT_NOTIFY_ACK then Inr m
      else if tm_type m = MSG_PORT_MGMT_NOTIFY_COMPLETE then
        (if \<not> pms then Inl (TTMgmtError ''reserved UMS message type 0x05'') else Inr m)
      else if tm_type m = MSG_PORT_MGMT_CAPABILITY then
        (if \<not> pms then Inl (TTMgmtError ''reserved UMS message type 0x06'')
         else rbind (read_lve rest) (\<lambda>(body, _). rbind (decode_caps body) (\<lambda>cs.
              Inr (m\<lparr>tm_capabilities := cs\<rparr>))))
      else Inr m)"

definition decode_pms :: "bytes \<Rightarrow> tt_message res" where
  "decode_pms b = decode_message b True"

definition decode_ums :: "bytes \<Rightarrow> tt_message res" where
  "decode_ums b = decode_message b False"

section \<open>Value helpers\<close>

definition encode_bool :: "bool \<Rightarrow> bytes" where
  "encode_bool v = (if v then [1] else [0])"

definition encode_uint32 :: "int \<Rightarrow> bytes res" where
  "encode_uint32 v = pack_I v"

definition encode_uint64 :: "int \<Rightarrow> bytes res" where
  "encode_uint64 v = pack_Q v"

definition encode_propagation_delay :: "int \<Rightarrow> bytes res" where
  \<comment> \<open>for an integer delay: the product with 65536.0 is exact as a float until it saturates\<close>
  "encode_propagation_delay ns =
     (let scaled = ns * 65536; max_val = push_bit 63 1 - 1 in
      if scaled \<ge> max_val then pack_Q max_val
      else if scaled < 0 then pack_Q 0 else pack_Q scaled)"

definition encode_admin_base_time :: "int \<Rightarrow> int \<Rightarrow> bytes res" where
  "encode_admin_base_time seconds nanoseconds =
     rbind (py_bytes [drop_bit 40 seconds AND 255, drop_bit 32 seconds AND 255]) (\<lambda>h.
     rbind (pack_I (seconds AND 0xFFFFFFFF)) (\<lambda>s.
     rbind (pack_I nanoseconds) (\<lambda>n. Inr (h @ s @ n))))"

definition decode_admin_base_time :: "bytes \<Rightarrow> (nat \<times> nat) res" where
  "decode_admin_base_time v =
     (if length v \<noteq> 10 then Inl (TTMgmtError ''AdminBaseTime must be 10 octets'')
      else rbind (unpack_I (slice 2 6 v)) (\<lambda>s. rbind (unpack_I (slice 6 10 v)) (\<lambda>n.
        Inr ((push_bit 40 (unat (v ! 0)) OR push_bit 32 (unat (v ! 1))) OR s, n))))"

definition encode_admin_control_list :: "(nat \<times> nat) list \<Rightarrow> bytes res" where
  "encode_admin_control_list entries =
     rbind (rmap (\<lambda>(gate_states, interval).
       rbind (py_bytes [0, int gate_states]) (\<lambda>h.
       rbind (pack_I (int interval)) (\<lambda>t. Inr (h @ t)))) entries) (\<lambda>bs. Inr (concat bs))"

fun decode_entries :: "bytes \<Rightarrow> (nat \<times> nat) list" where
  "decode_entries (o1 # g # a # b # c # d # rest) = (unat g, be_val [a, b, c, d]) # decode_entries rest"
| "decode_entries _ = []"

definition decode_admin_control_list :: "bytes \<Rightarrow> (nat \<times> nat) list res" where
  "decode_admin_control_list v =
     (if length v mod 6 \<noteq> 0 then Inl (TTMgmtError ''AdminControlList length not a multiple of 6'')
      else Inr (decode_entries v))"

definition encode_nwtt_port_numbers :: "nat list \<Rightarrow> bytes res" where
  "encode_nwtt_port_numbers ports = rbind (rmap (\<lambda>p. pack_H (int p)) ports) (\<lambda>bs. Inr (concat bs))"

definition decode_nwtt_port_numbers :: "bytes \<Rightarrow> nat list res" where
  "decode_nwtt_port_numbers v =
     (if length v mod 2 \<noteq> 0 then Inl (TTMgmtError ''NW-TT port numbers length not a multiple of 2'')
      else Inr (decode_caps_from v))"

definition new_get_capabilities :: tt_message where
  "new_get_capabilities = (new_message MSG_MANAGE_PORT_COMMAND)
     \<lparr>tm_ops := [\<lparr>op_code = OP_GET_CAPABILITIES, op_param = 0, op_value = []\<rparr>]\<rparr>"

definition new_read_params :: "nat list \<Rightarrow> tt_message" where
  "new_read_params params = (new_message MSG_MANAGE_PORT_COMMAND)
     \<lparr>tm_ops := map (\<lambda>p. \<lparr>op_code = OP_READ_PARAMETER, op_param = p, op_value = []\<rparr>) params\<rparr>"

definition new_set_param :: "nat \<Rightarrow> bytes \<Rightarrow> tt_message" where
  "new_set_param param v = (new_message MSG_MANAGE_PORT_COMMAND)
     \<lparr>tm_ops := [\<lparr>op_code = OP_SET_PARAMETER, op_param = param, op_value = v\<rparr>]\<rparr>"

definition new_notify :: "(nat \<times> bytes) list \<Rightarrow> tt_message" where
  "new_notify status = (new_message MSG_PORT_MGMT_NOTIFY)\<lparr>tm_status := status\<rparr>"

section \<open>Round trips\<close>

definition op_wf :: "tt_op \<Rightarrow> bool" where
  "op_wf op \<longleftrightarrow> 1 \<le> op_code op \<and> op_code op \<le> 9 \<and> op_param op < 65536 \<and>
     length (op_value op) < 65536 \<and>
     (op_code op = OP_GET_CAPABILITIES \<longrightarrow> op_param op = 0) \<and>
     (\<not> op_has_value (op_code op) \<longrightarrow> op_value op = [])"

definition op_bytes :: "tt_op \<Rightarrow> bytes" where
  "op_bytes op = byte_of (op_code op) #
     (if op_code op = OP_GET_CAPABILITIES then []
      else be_enc 2 (op_param op) @
        (if op_has_value (op_code op) then be_enc 2 (length (op_value op)) @ op_value op else []))"

lemma op_has_value_get [simp]: "\<not> op_has_value OP_GET_CAPABILITIES"
  by (simp add: op_has_value_def op_consts)

lemma two_octets [simp]: "n < 65536 \<Longrightarrow> n div 256 mod 256 * 256 + n mod 256 = (n :: nat)"
proof -
  assume "n < 65536"
  then have "n div 256 < 256" by (simp add: less_mult_imp_div_less)
  then show ?thesis by simp
qed

lemma encode_op_wf: "op_wf op \<Longrightarrow> encode_op op = Inr (op_bytes op)"
  by (simp add: encode_op_def op_bytes_def op_wf_def)

lemma decode_op_wf:
  assumes "op_wf op"
  shows "decode_op (byte_of (op_code op)) (tl (op_bytes op) @ rest) = Inr (op, rest)"
proof -
  have c: "op_code op mod 256 = op_code op" "op_code op \<noteq> 0" "\<not> op_code op > OP_DELETE_PARAMETER_ENTRY"
    using assms by (simp_all add: op_wf_def op_consts)
  show ?thesis
    using assms c unfolding decode_op_def Let_def unat_byte_of
    by (cases op) (auto simp: op_bytes_def op_wf_def)
qed

lemma encode_ops_wf:
  "list_all op_wf ops \<Longrightarrow> encode_ops ops = Inr (concat (map op_bytes ops))"
  by (simp add: encode_ops_def rmap_map [where g = op_bytes] encode_op_wf list_all_iff)

lemma decode_ops_wf: "list_all op_wf ops \<Longrightarrow> decode_ops (concat (map op_bytes ops)) = Inr ops"
proof (induction ops)
  case Nil
  then show ?case by simp
next
  case (Cons op ops)
  have "op_bytes op = byte_of (op_code op) # tl (op_bytes op)" by (simp add: op_bytes_def)
  then have e: "concat (map op_bytes (op # ops)) =
      byte_of (op_code op) # tl (op_bytes op) @ concat (map op_bytes ops)"
    by (metis append_Cons concat.simps(2) list.simps(9))
  have "decode_op (byte_of (op_code op)) (tl (op_bytes op) @ concat (map op_bytes ops)) =
      Inr (op, concat (map op_bytes ops))"
    using Cons.prems by (intro decode_op_wf) simp
  with Cons show ?case by (simp only: e decode_ops.simps rbind.simps prod.case list.pred_inject)
qed

lemma lve_wf: "length b < 65536 \<Longrightarrow> lve b = Inr (be_enc 2 (length b) @ b)"
  by (simp add: lve_def)

lemma read_lve_wf: "length b < 65536 \<Longrightarrow> read_lve (be_enc 2 (length b) @ b @ rest) = Inr (b, rest)"
  by (simp add: read_lve_def slice_def)

lemma read_lve_wf_end: "length b < 65536 \<Longrightarrow> read_lve (be_enc 2 (length b) @ b) = Inr (b, [])"
  using read_lve_wf [of b "[]"] by simp

lemma encode_caps_wf:
  "list_all (\<lambda>n. n < 65536) cs \<Longrightarrow> encode_caps cs = Inr (concat (map (be_enc 2) cs))"
  by (simp add: encode_caps_def rmap_map [where g = "be_enc 2"] list_all_iff)

lemma length_concat_enc [simp]: "length (concat (map (be_enc k) cs)) = k * length cs"
  by (induction cs) simp_all

lemma be_enc_2: "be_enc 2 n = [byte_of (n div 256), byte_of n]"
  by (simp add: numeral_2_eq_2)

lemma decode_caps_from_enc:
  "list_all (\<lambda>n. n < 65536) cs \<Longrightarrow> decode_caps_from (concat (map (be_enc 2) cs)) = cs"
proof (induction cs)
  case (Cons c cs)
  moreover have "be_val [byte_of (c div 256), byte_of c] = c"
    using be_val_enc_2 [of c] Cons.prems by (simp only: be_enc_2 list.pred_inject)
  ultimately show ?case by (simp add: be_enc_2)
qed simp

lemma decode_caps_wf:
  "list_all (\<lambda>n. n < 65536) cs \<Longrightarrow> decode_caps (concat (map (be_enc 2) cs)) = Inr cs"
  by (simp add: decode_caps_def decode_caps_from_enc)

definition status_wf :: "nat \<Rightarrow> (nat \<times> bytes) list \<Rightarrow> (nat \<times> nat) list \<Rightarrow> bool" where
  "status_wf k oks errs \<longleftrightarrow> length oks < 256 \<and> length errs < 256 \<and>
     list_all (\<lambda>(p, v). p < 65536 \<and> length v < (if k = 2 then 65536 else 256)) oks \<and>
     list_all (\<lambda>(p, c). p < 65536 \<and> c < 256) errs"

definition ok_bytes :: "nat \<Rightarrow> nat \<times> bytes \<Rightarrow> bytes" where
  "ok_bytes k = (\<lambda>(p, v). be_enc 2 p @ (if k = 2 then be_enc 2 (length v) else [byte_of (length v)]) @ v)"

definition err_bytes :: "nat \<times> nat \<Rightarrow> bytes" where
  "err_bytes = (\<lambda>(p, c). be_enc 2 p @ [byte_of c])"

definition status_bytes :: "nat \<Rightarrow> (nat \<times> bytes) list \<Rightarrow> (nat \<times> nat) list \<Rightarrow> bytes" where
  "status_bytes k oks errs = byte_of (length oks) # concat (map (ok_bytes k) oks) @
     byte_of (length errs) # concat (map err_bytes errs)"

lemma encode_status_wf:
  assumes "status_wf k oks errs"
  shows "encode_status oks errs k = Inr (status_bytes k oks errs)"
proof -
  have ok: "(p, v) \<in> set oks \<Longrightarrow> p < 65536 \<and> length v < (if k = 2 then 65536 else 256)"
    "(p, c) \<in> set errs \<Longrightarrow> p < 65536 \<and> c < 256" for p v c
    using assms by (auto simp: status_wf_def list_all_iff)
  have "rmap (encode_ok k) oks = Inr (map (ok_bytes k) oks)"
  proof (rule rmap_map)
    fix x assume x: "x \<in> set oks"
    obtain p v where "x = (p, v)" by (cases x)
    with ok(1) [of p v] x show "encode_ok k x = Inr (ok_bytes k x)"
      by (simp add: encode_ok_def ok_bytes_def split: if_splits)
  qed
  moreover have "rmap encode_err errs = Inr (map err_bytes errs)"
  proof (rule rmap_map)
    fix x assume x: "x \<in> set errs"
    obtain p c where "x = (p, c)" by (cases x)
    with ok(2) [of p c] x show "encode_err x = Inr (err_bytes x)"
      by (simp add: encode_err_def err_bytes_def)
  qed
  ultimately show ?thesis
    using assms by (simp add: encode_status_def status_bytes_def status_wf_def)
qed

lemma decode_oks_wf:
  "k \<in> {1, 2} \<Longrightarrow> list_all (\<lambda>(p, v). p < 65536 \<and> length v < (if k = 2 then 65536 else 256)) oks \<Longrightarrow>
     decode_oks k (length oks) (concat (map (ok_bytes k) oks) @ rest) = Inr (oks, rest)"
proof (induction oks)
  case Nil
  then show ?case by simp
next
  case (Cons pv oks)
  obtain p v where pv: "pv = (p, v)" by (cases pv)
  from Cons.prems show ?case
    using Cons.IH [OF Cons.prems(1)] by (auto simp: pv ok_bytes_def Let_def)
qed

lemma decode_errs_wf:
  "list_all (\<lambda>(p, c). p < 65536 \<and> c < 256) errs \<Longrightarrow>
     decode_errs (length errs) (concat (map err_bytes errs)) = Inr errs"
proof (induction errs)
  case (Cons pc errs)
  then show ?case by (cases pc) (simp add: err_bytes_def nth_append numeral_3_eq_3 be_enc_2 be_val_two)
qed simp

lemma decode_status_wf:
  "k \<in> {1, 2} \<Longrightarrow> status_wf k oks errs \<Longrightarrow> decode_status (status_bytes k oks errs) k = Inr (oks, errs)"
  using decode_oks_wf [of k oks "byte_of (length errs) # concat (map err_bytes errs)"]
    decode_errs_wf [of errs]
  by (simp add: decode_status_def status_bytes_def status_wf_def)

definition message_wf :: "tt_message \<Rightarrow> bool" where
  \<comment> \<open>only the lists its type carries are filled, every field and every body fits its length\<close>
  "message_wf m \<longleftrightarrow>
     list_all op_wf (tm_ops m) \<and> length (concat (map op_bytes (tm_ops m))) < 65536 \<and>
     list_all (\<lambda>n. n < 65536) (tm_capabilities m) \<and> length (tm_capabilities m) < 32768 \<and>
     status_wf 2 (tm_status m) (tm_status_errors m) \<and>
     length (status_bytes 2 (tm_status m) (tm_status_errors m)) < 65536 \<and>
     status_wf 1 (tm_updates m) (tm_update_errors m) \<and>
     length (status_bytes 1 (tm_updates m) (tm_update_errors m)) < 65536 \<and>
     (m = (new_message MSG_MANAGE_PORT_COMMAND)\<lparr>tm_ops := tm_ops m\<rparr> \<and> tm_ops m \<noteq> [] \<or>
      m = (new_message MSG_MANAGE_PORT_COMPLETE)\<lparr>tm_capabilities := tm_capabilities m,
             tm_status := tm_status m, tm_status_errors := tm_status_errors m,
             tm_updates := tm_updates m, tm_update_errors := tm_update_errors m\<rparr> \<or>
      m = (new_message MSG_PORT_MGMT_NOTIFY)\<lparr>tm_status := tm_status m, tm_status_errors := tm_status_errors m\<rparr> \<or>
      m = new_message MSG_PORT_MGMT_NOTIFY_ACK \<or> m = new_message MSG_PORT_MGMT_NOTIFY_COMPLETE \<or>
      m = (new_message MSG_PORT_MGMT_CAPABILITY)\<lparr>tm_capabilities := tm_capabilities m\<rparr>)"


lemma encode_ie_wf:
  "body = Inr b \<Longrightarrow> length b < 65536 \<Longrightarrow> iei < 256 \<Longrightarrow>
     encode_ie iei body = Inr (byte_of iei # be_enc 2 (length b) @ b)"
  by (simp add: encode_ie_def lve_wf)

lemma decode_ies_ie:
  "length b < 65536 \<Longrightarrow> apply_ie iei b m = Inr m' \<Longrightarrow> iei < 256 \<Longrightarrow>
     decode_ies m (byte_of iei # be_enc 2 (length b) @ b @ rest) = decode_ies m' rest"
  by (simp add: read_lve_wf)

lemma decode_message_type:
  "t < 256 \<Longrightarrow> decode_message (byte_of t # rest) pms =
     (let m = new_message t; max_type = (if pms then MSG_PORT_MGMT_CAPABILITY else MSG_UPNODE_MGMT_NOTIFY_ACK) in
      if t = 0 \<or> t > max_type then Inl (TTMgmtError ''reserved message type'')
      else if t = MSG_MANAGE_PORT_COMMAND then
        rbind (read_lve rest) (\<lambda>(body, _). rbind (decode_ops body) (\<lambda>ops. Inr (m\<lparr>tm_ops := ops\<rparr>)))
      else if t = MSG_MANAGE_PORT_COMPLETE then decode_ies m rest
      else if t = MSG_PORT_MGMT_NOTIFY then
        rbind (read_lve rest) (\<lambda>(body, _). rbind (decode_status body 2) (\<lambda>(s, e).
        Inr (m\<lparr>tm_status := s, tm_status_errors := e\<rparr>)))
      else if t = MSG_PORT_MGMT_NOTIFY_ACK then Inr m
      else if t = MSG_PORT_MGMT_NOTIFY_COMPLETE then
        (if \<not> pms then Inl (TTMgmtError ''reserved UMS message type 0x05'') else Inr m)
      else if t = MSG_PORT_MGMT_CAPABILITY then
        (if \<not> pms then Inl (TTMgmtError ''reserved UMS message type 0x06'')
         else rbind (read_lve rest) (\<lambda>(body, _). rbind (decode_caps body) (\<lambda>cs.
              Inr (m\<lparr>tm_capabilities := cs\<rparr>))))
      else Inr m)"
  by (simp add: decode_message_def new_message_def Let_def)

lemma decode_complete:
  assumes "list_all (\<lambda>n. n < 65536) cs" "length cs < 32768"
    "status_wf 2 s se" "length (status_bytes 2 s se) < 65536"
    "status_wf 1 u ue" "length (status_bytes 1 u ue) < 65536"
  defines "m \<equiv> (new_message MSG_MANAGE_PORT_COMPLETE)\<lparr>tm_capabilities := cs, tm_status := s,
     tm_status_errors := se, tm_updates := u, tm_update_errors := ue\<rparr>"
  shows "\<exists>b. encode_message m = Inr b \<and> decode_message b pms = Inr m"
proof -
  let ?caps = "concat (map (be_enc 2) cs)"
  let ?a = "if cs \<noteq> [] then byte_of IEI_CAPABILITY # be_enc 2 (length ?caps) @ ?caps else []"
  let ?b = "if s \<noteq> [] \<or> se \<noteq> [] then byte_of IEI_STATUS # be_enc 2 (length (status_bytes 2 s se)) @ status_bytes 2 s se else []"
  let ?c = "if u \<noteq> [] \<or> ue \<noteq> [] then byte_of IEI_UPDATE_RESULT # be_enc 2 (length (status_bytes 1 u ue)) @ status_bytes 1 u ue else []"
  have caps: "length ?caps < 65536" using assms(2) by simp
  have ie: "IEI_CAPABILITY < 256" "IEI_STATUS < 256" "IEI_UPDATE_RESULT < 256"
    "IEI_CAPABILITY \<noteq> IEI_STATUS" "IEI_CAPABILITY \<noteq> IEI_UPDATE_RESULT" "IEI_STATUS \<noteq> IEI_UPDATE_RESULT"
    by (simp_all add: iei_consts)
  have enc: "encode_message m = Inr (byte_of 2 # ?a @ ?b @ ?c)"
    using encode_ie_wf [OF encode_caps_wf [OF assms(1)] caps ie(1)]
      encode_ie_wf [OF encode_status_wf [OF assms(3)] assms(4) ie(2)]
      encode_ie_wf [OF encode_status_wf [OF assms(5)] assms(6) ie(3)]
    by (simp add: encode_message_def m_def new_message_def msg_consts py_byte_def)
  let ?m0 = "new_message MSG_MANAGE_PORT_COMPLETE"
  have 1: "decode_ies ?m0 (?a @ rest) = decode_ies (?m0\<lparr>tm_capabilities := cs\<rparr>) rest" for rest
    using decode_ies_ie [OF caps, of IEI_CAPABILITY ?m0 _ rest] ie
    by (simp add: apply_ie_def decode_caps_wf [OF assms(1)]) (simp add: new_message_def)
  let ?m1 = "?m0\<lparr>tm_capabilities := cs\<rparr>"
  have 2: "decode_ies ?m1 (?b @ rest) = decode_ies (?m1\<lparr>tm_status := s, tm_status_errors := se\<rparr>) rest" for rest
    using decode_ies_ie [OF assms(4), of IEI_STATUS ?m1 _ rest] ie
    by (simp add: apply_ie_def decode_status_wf assms(3)) (simp add: new_message_def)
  let ?m2 = "?m1\<lparr>tm_status := s, tm_status_errors := se\<rparr>"
  have 3: "decode_ies ?m2 ?c = Inr m"
    using decode_ies_ie [OF assms(6), of IEI_UPDATE_RESULT ?m2 _ "[]"] ie
    by (simp add: apply_ie_def decode_status_wf assms(5) m_def del: One_nat_def)
      (simp add: new_message_def)
  have "decode_message (byte_of 2 # ?a @ ?b @ ?c) pms = decode_ies ?m0 (?a @ ?b @ ?c)"
    by (subst decode_message_type) (simp_all add: msg_consts Let_def)
  with enc 1 2 3 show ?thesis by simp
qed

lemma message_wf_codec:
  assumes "message_wf m"
  shows "\<exists>b. encode_message m = Inr b \<and> decode_pms b = Inr m"
proof -
  note wf = assms [unfolded message_wf_def]
  have 1: "\<exists>b. encode_message m = Inr b \<and> decode_message b True = Inr m"
    if m: "m = (new_message MSG_MANAGE_PORT_COMMAND)\<lparr>tm_ops := tm_ops m\<rparr>" and ne: "tm_ops m \<noteq> []"
  proof -
    let ?b = "concat (map op_bytes (tm_ops m))"
    have ops: "list_all op_wf (tm_ops m)" "length ?b < 65536" using wf by simp_all
    obtain op ops' where "tm_ops m = op # ops'" using ne by (cases "tm_ops m") auto
    then have b: "?b \<noteq> []" by (simp add: op_bytes_def)
    have ty: "tm_type m = 1" by (subst m) (simp add: new_message_def msg_consts)
    have "encode_message m = Inr (byte_of 1 # be_enc 2 (length ?b) @ ?b)"
      using encode_ops_wf [OF ops(1)] b lve_wf [OF ops(2)] ty
      by (simp add: encode_message_def msg_consts py_byte_def)
    moreover have "decode_message (byte_of 1 # be_enc 2 (length ?b) @ ?b) True = Inr m"
      using read_lve_wf_end [OF ops(2)] decode_ops_wf [OF ops(1)] m
      by (subst decode_message_type) (simp_all add: msg_consts Let_def)
    ultimately show ?thesis by blast
  qed
  have 3: "\<exists>b. encode_message m = Inr b \<and> decode_message b True = Inr m"
    if m: "m = (new_message MSG_PORT_MGMT_NOTIFY)\<lparr>tm_status := tm_status m, tm_status_errors := tm_status_errors m\<rparr>"
  proof -
    let ?b = "status_bytes 2 (tm_status m) (tm_status_errors m)"
    have s: "status_wf 2 (tm_status m) (tm_status_errors m)" "length ?b < 65536" using wf by simp_all
    have ty: "tm_type m = 3" by (subst m) (simp add: new_message_def msg_consts)
    have "encode_message m = Inr (byte_of 3 # be_enc 2 (length ?b) @ ?b)"
      using encode_status_wf [OF s(1)] lve_wf [OF s(2)] ty
      by (simp add: encode_message_def msg_consts py_byte_def)
    moreover have "decode_message (byte_of 3 # be_enc 2 (length ?b) @ ?b) True = Inr m"
      using read_lve_wf_end [OF s(2)] decode_status_wf [OF _ s(1)] m
      by (subst decode_message_type) (simp_all add: msg_consts Let_def)
    ultimately show ?thesis by blast
  qed
  have 45: "\<exists>b. encode_message m = Inr b \<and> decode_message b True = Inr m"
    if "m = new_message t" "t = MSG_PORT_MGMT_NOTIFY_ACK \<or> t = MSG_PORT_MGMT_NOTIFY_COMPLETE" for t
    using that by (auto simp: encode_message_def decode_message_def new_message_def msg_consts py_byte_def Let_def)
  have 6: "\<exists>b. encode_message m = Inr b \<and> decode_message b True = Inr m"
    if m: "m = (new_message MSG_PORT_MGMT_CAPABILITY)\<lparr>tm_capabilities := tm_capabilities m\<rparr>"
  proof -
    let ?b = "concat (map (be_enc 2) (tm_capabilities m))"
    have c: "list_all (\<lambda>n. n < 65536) (tm_capabilities m)" "length ?b < 65536" using wf by simp_all
    have ty: "tm_type m = 6" by (subst m) (simp add: new_message_def msg_consts)
    have "encode_message m = Inr (byte_of 6 # be_enc 2 (length ?b) @ ?b)"
      using encode_caps_wf [OF c(1)] lve_wf [OF c(2)] ty
      by (simp add: encode_message_def msg_consts py_byte_def)
    moreover have "decode_message (byte_of 6 # be_enc 2 (length ?b) @ ?b) True = Inr m"
      using read_lve_wf_end [OF c(2)] decode_caps_wf [OF c(1)] m
      by (subst decode_message_type) (simp_all add: msg_consts Let_def)
    ultimately show ?thesis by blast
  qed
  have 2: "\<exists>b. encode_message m = Inr b \<and> decode_message b True = Inr m"
    if m: "m = (new_message MSG_MANAGE_PORT_COMPLETE)\<lparr>tm_capabilities := tm_capabilities m,
             tm_status := tm_status m, tm_status_errors := tm_status_errors m,
             tm_updates := tm_updates m, tm_update_errors := tm_update_errors m\<rparr>"
    using decode_complete [of "tm_capabilities m" "tm_status m" "tm_status_errors m" "tm_updates m"
        "tm_update_errors m" True] wf m by (simp del: One_nat_def)
  show ?thesis unfolding decode_pms_def using wf 1 2 3 45 6 by blast
qed

interpretation pms: codec encode_message decode_pms message_wf
  using message_wf_codec by unfold_locales fastforce+

text \<open>
  C33: every port management message whose lists fit their length fields, of each of the six
  message types, is encoded and decoded back to the same message, operations and status lists in
  their order; two different messages never have the same encoding.
\<close>

theorem port_message_roundtrip:
  assumes "message_wf m"
  shows "rbind (encode_message m) decode_pms = Inr m \<and>
         (message_wf m' \<and> encode_message m = encode_message m' \<longrightarrow> m = m')"
  using pms.roundtrip [OF assms] pms.enc_inj [OF assms] by blast

theorem port_message_roundtrip_witness:
  "rbind (encode_message (new_set_param 7 [1, 2, 3])) decode_pms = Inr (new_set_param 7 [1, 2, 3])"
proof -
  have "message_wf (new_set_param 7 [1, 2, 3])"
    by (simp add: message_wf_def new_set_param_def new_message_def op_wf_def op_bytes_def op_has_value_def
        op_consts msg_consts status_wf_def status_bytes_def)
  from port_message_roundtrip [OF this] show ?thesis by blast
qed

text \<open>Value helpers.\<close>

lemma decode_entries_enc:
  "list_all (\<lambda>(g, t). g < 256 \<and> t < 4294967296) es \<Longrightarrow>
     decode_entries (concat (map (\<lambda>(g, t). [byte_of 0, byte_of g] @ be_enc 4 t) es)) = es"
proof (induction es)
  case (Cons e es)
  obtain g t where e: "e = (g, t)" by (cases e)
  have "be_enc 4 t = [byte_of (t div 256 div 256 div 256), byte_of (t div 256 div 256), byte_of (t div 256), byte_of t]"
    by (rule be_enc_4)
  moreover have "be_val (be_enc 4 t) = t" using Cons.prems e by (simp add: be_val_be_enc)
  ultimately show ?case using Cons e by simp
qed simp

text \<open>
  a gate schedule of any length survives the control list encoding, entry by entry, as long
  as every gate state fits an octet and every interval 32 bits; the encoding takes six octets an
  entry.
\<close>

theorem control_list_roundtrip:
  assumes "list_all (\<lambda>(g, t). g < 256 \<and> t < 4294967296) es"
  shows "\<exists>b. encode_admin_control_list es = Inr b \<and> length b = 6 * length es \<and>
             decode_admin_control_list b = Inr es"
proof -
  let ?f = "\<lambda>(g, t). [byte_of 0, byte_of g] @ be_enc 4 t"
  have "rmap (\<lambda>(gate_states, interval).
       rbind (py_bytes [0, int gate_states]) (\<lambda>h.
       rbind (pack_I (int interval)) (\<lambda>t. Inr (h @ t)))) es = Inr (map ?f es)"
  proof (rule rmap_map)
    fix x assume x: "x \<in> set es"
    obtain g t where gt: "x = (g, t)" by (cases x)
    then have "g < 256" "t < 4294967296" using x assms by (auto simp: list_all_iff)
    then show "(case x of (gate_states, interval) \<Rightarrow> rbind (py_bytes [0, int gate_states]) (\<lambda>h.
       rbind (pack_I (int interval)) (\<lambda>t. Inr (h @ t)))) = Inr (?f x)"
      using gt by (simp add: pack_I_nat py_byte_def)
  qed
  then have "encode_admin_control_list es = Inr (concat (map ?f es))"
    by (simp add: encode_admin_control_list_def)
  moreover have "length (concat (map ?f es)) = 6 * length es"
    by (induction es) (auto split: prod.splits)
  ultimately show ?thesis
    using decode_entries_enc [OF assms] by (auto simp: decode_admin_control_list_def)
qed

theorem control_list_roundtrip_witness:
  "\<exists>b. encode_admin_control_list [(255, 100000), (1, 500)] = Inr b \<and>
       decode_admin_control_list b = Inr [(255, 100000), (1, 500)]"
proof -
  have "list_all (\<lambda>(g, t). g < 256 \<and> t < 4294967296) [(255 :: nat, 100000 :: nat), (1, 500)]" by simp
  from control_list_roundtrip [OF this] show ?thesis by blast
qed

end
