(* ===== verification/Dstt.thy ===== *)
theory Dstt
  imports TtMgmt
begin

text \<open>
  The device-side TSN translator of \<open>tester/src/statemachine/dstt.py\<close>: the port parameter
  store, its subscriptions, the termination of port management messages and the unsolicited
  notification.  A handler returns its result and the new state, because it may change the store
  and then raise while it encodes its reply.
\<close>

section \<open>State\<close>

definition PORT_TX_PROPAGATION_DELAY :: nat where "PORT_TX_PROPAGATION_DELAY = 1"
definition PORT_GATE_ENABLED :: nat where "PORT_GATE_ENABLED = 3"
definition PORT_ADMIN_CONTROL_LIST :: nat where "PORT_ADMIN_CONTROL_LIST = 6"
definition PORT_ADMIN_CYCLE_TIME :: nat where "PORT_ADMIN_CYCLE_TIME = 7"
definition PORT_TICK_GRANULARITY :: nat where "PORT_TICK_GRANULARITY = 8"
definition PORT_PTP_INSTANCE_LIST :: nat where "PORT_PTP_INSTANCE_LIST = 0xE9"

definition SUPPORTED :: "nat list" where
  "SUPPORTED = [1, 2, 3, 4, 5, 6, 7, 8, 0xD4, PORT_PTP_INSTANCE_LIST]"

record dstt =
  ds_mac :: bytes
  ds_params :: "(nat, bytes) dict"
  ds_ptp_instance_list :: "bytes option"
  ds_subs :: "nat set"
  ds_changed :: "nat set"

definition new_dstt :: "bytes \<Rightarrow> dstt res" where
  "new_dstt mac =
     rbind (encode_propagation_delay 500) (\<lambda>delay.
     rbind (encode_uint32 1) (\<lambda>tick.
     Inr \<lparr>ds_mac = mac,
          ds_params = [(PORT_TX_PROPAGATION_DELAY, delay), (PORT_GATE_ENABLED, encode_bool False),
                       (PORT_TICK_GRANULARITY, tick)],
          ds_ptp_instance_list = None, ds_subs = {}, ds_changed = {}\<rparr>))"

definition gate_enabled :: "dstt \<Rightarrow> bool" where
  "gate_enabled d = (case dict_get (ds_params d) PORT_GATE_ENABLED of
     None \<Rightarrow> False | Some v \<Rightarrow> v \<noteq> [] \<and> v ! 0 = 1)"

definition gate_schedule :: "dstt \<Rightarrow> (nat \<times> nat) list res" where
  "gate_schedule d = (case dict_get (ds_params d) PORT_ADMIN_CONTROL_LIST of
     None \<Rightarrow> Inr [] | Some v \<Rightarrow> if v = [] then Inr [] else decode_admin_control_list v)"

definition admin_cycle_time_ns :: "dstt \<Rightarrow> nat" where
  "admin_cycle_time_ns d = (case dict_get (ds_params d) PORT_ADMIN_CYCLE_TIME of
     None \<Rightarrow> 0 | Some v \<Rightarrow> be_val v)"

definition ds_read :: "dstt \<Rightarrow> nat \<Rightarrow> bytes option" where
  "ds_read d param = (if param = PORT_PTP_INSTANCE_LIST then ds_ptp_instance_list d
                      else dict_get (ds_params d) param)"

definition ds_write :: "nat \<Rightarrow> bytes \<Rightarrow> dstt \<Rightarrow> dstt" where
  "ds_write param v d =
     (if param = PORT_PTP_INSTANCE_LIST then d\<lparr>ds_ptp_instance_list := Some v\<rparr>
      else d\<lparr>ds_params := dict_set param v (ds_params d)\<rparr>)"

section \<open>Port management messages\<close>

definition handle_op :: "tt_message \<times> dstt \<Rightarrow> tt_op \<Rightarrow> tt_message \<times> dstt" where
  \<comment> \<open>one pass of the loop over the operations: the reply under construction and the store\<close>
  "handle_op = (\<lambda>(reply, d) op.
     let c = op_code op; p = op_param op in
     if c = OP_GET_CAPABILITIES then (reply\<lparr>tm_capabilities := SUPPORTED\<rparr>, d)
     else if c \<in> {OP_READ_PARAMETER, OP_SELECTIVE_READ} then
       (case ds_read d p of
          Some v \<Rightarrow> (reply\<lparr>tm_status := tm_status reply @ [(p, v)]\<rparr>, d)
        | None \<Rightarrow> (reply\<lparr>tm_status_errors := tm_status_errors reply @ [(p, CAUSE_PARAM_VALUE_UNAVAILABLE)]\<rparr>, d))
     else if c = OP_SET_PARAMETER then
       let d = ds_write p (op_value op) d in
         (reply\<lparr>tm_updates := tm_updates reply @ [(p, op_value op)]\<rparr>,
          if p \<in> ds_subs d then d\<lparr>ds_changed := insert p (ds_changed d)\<rparr> else d)
     else if c \<in> {OP_SUBSCRIBE_NOTIFY, OP_SELECTIVE_SUBSCRIBE_NOTIFY} then
       (reply\<lparr>tm_status := tm_status reply @ [(p, case ds_read d p of Some v \<Rightarrow> v | None \<Rightarrow> [])]\<rparr>,
        d\<lparr>ds_subs := insert p (ds_subs d)\<rparr>)
     else if c \<in> {OP_UNSUBSCRIBE, OP_SELECTIVE_UNSUBSCRIBE} then
       (reply, d\<lparr>ds_subs := ds_subs d - {p}\<rparr>)
     else if c = OP_DELETE_PARAMETER_ENTRY then
       (reply\<lparr>tm_updates := tm_updates reply @ [(p, [])]\<rparr>,
        if p = PORT_PTP_INSTANCE_LIST then d\<lparr>ds_ptp_instance_list := None\<rparr>
        else d\<lparr>ds_params := dict_del p (ds_params d)\<rparr>)
     else (reply\<lparr>tm_update_errors := tm_update_errors reply @ [(p, CAUSE_PROTOCOL_ERROR)]\<rparr>, d))"

definition handle_pmic :: "bytes \<Rightarrow> dstt \<Rightarrow> bytes option res \<times> dstt" where
  "handle_pmic container d =
     (case decode_pms container of
        Inl e \<Rightarrow> (Inl e, d)
      | Inr msg \<Rightarrow>
          if tm_type msg \<noteq> MSG_MANAGE_PORT_COMMAND then (Inr None, d)
          else let (reply, d') = foldl handle_op (new_message MSG_MANAGE_PORT_COMPLETE, d) (tm_ops msg)
            in (rbind (encode_message reply) (\<lambda>b. Inr (Some b)), d'))"

definition pending_notify :: "dstt \<Rightarrow> bytes option res \<times> dstt" where
  "pending_notify d =
     (if ds_changed d = {} then (Inr None, d)
      else let status = concat (map (\<lambda>p. case ds_read d p of Some v \<Rightarrow> [(p, v)] | None \<Rightarrow> [])
                                 (sorted_list_of_set (ds_changed d)));
               d' = d\<lparr>ds_changed := {}\<rparr>
        in (if status = [] then Inr None
            else rbind (encode_message (new_notify status)) (\<lambda>b. Inr (Some b)), d'))"

definition capability_report :: "bytes res" where
  "capability_report = encode_message ((new_message MSG_PORT_MGMT_CAPABILITY)\<lparr>tm_capabilities := SUPPORTED\<rparr>)"

section \<open>Properties\<close>

lemma ds_write_fields [simp]:
  "ds_subs (ds_write p v d) = ds_subs d" "ds_changed (ds_write p v d) = ds_changed d"
  "ds_read (d\<lparr>ds_changed := c\<rparr>) = ds_read d" "ds_read (d\<lparr>ds_subs := s\<rparr>) = ds_read d"
  by (auto simp: ds_write_def ds_read_def fun_eq_iff)

text \<open>The store behind \<open>_read\<close> and \<open>_write\<close> is a keyed store, the instance list included.\<close>

definition ds_remove :: "nat \<Rightarrow> dstt \<Rightarrow> dstt" where
  \<comment> \<open>what a delete operation does to the store\<close>
  "ds_remove p d = (if p = PORT_PTP_INSTANCE_LIST then d\<lparr>ds_ptp_instance_list := None\<rparr>
                    else d\<lparr>ds_params := dict_del p (ds_params d)\<rparr>)"

interpretation port: kv_store ds_read ds_write ds_remove
  by unfold_locales (auto simp: ds_read_def ds_write_def ds_remove_def)

lemma set_param_wf:
  "p < 65536 \<Longrightarrow> length v < 65531 \<Longrightarrow> message_wf (new_set_param p v)"
  by (simp add: message_wf_def new_set_param_def new_message_def op_wf_def op_bytes_def op_has_value_def
      op_consts msg_consts status_wf_def status_bytes_def)

lemma update_reply:
  assumes "p < 65536"
  shows "encode_message ((new_message MSG_MANAGE_PORT_COMPLETE)\<lparr>tm_updates := [(p, v)]\<rparr>) =
    (if length v < 256
     then Inr (byte_of 2 # byte_of IEI_UPDATE_RESULT # be_enc 2 (length (status_bytes 1 [(p, v)] []))
               @ status_bytes 1 [(p, v)] [])
     else Inl (ValueError ''bytes must be in range(0, 256)''))"
proof (cases "length v < 256")
  case True
  then have s: "status_wf 1 [(p, v)] []" "length (status_bytes 1 [(p, v)] []) < 65536"
    using assms by (simp_all add: status_wf_def status_bytes_def ok_bytes_def)
  show ?thesis
    using True encode_ie_wf [OF encode_status_wf [OF s(1)] s(2), of IEI_UPDATE_RESULT]
    by (simp add: encode_message_def new_message_def msg_consts py_byte_def iei_consts del: One_nat_def)
next
  case False
  then have "py_byte (int (length v)) = Inl (ValueError ''bytes must be in range(0, 256)'')"
    by (intro py_byte_big) simp
  then show ?thesis
    using False assms by (simp add: encode_message_def new_message_def msg_consts iei_consts encode_ie_def
        encode_status_def encode_ok_def py_byte_def)
qed

lemma set_pmic:
  assumes "p < 65536" "length v < 65531" "encode_message (new_set_param p v) = Inr c"
  shows "handle_pmic c d =
    (if length v < 256
     then Inr (Some (byte_of 2 # byte_of IEI_UPDATE_RESULT
            # be_enc 2 (length (status_bytes 1 [(p, v)] [])) @ status_bytes 1 [(p, v)] []))
     else Inl (ValueError ''bytes must be in range(0, 256)''),
     if p \<in> ds_subs d then (ds_write p v d)\<lparr>ds_changed := insert p (ds_changed d)\<rparr> else ds_write p v d)"
proof -
  have "decode_pms c = Inr (new_set_param p v)"
    using pms.roundtrip [OF set_param_wf [OF assms(1,2)]] assms(3) by simp
  then have h: "handle_pmic c d = (rbind (encode_message ((new_message MSG_MANAGE_PORT_COMPLETE)\<lparr>tm_updates := [(p, v)]\<rparr>))
        (\<lambda>b. Inr (Some b)),
      if p \<in> ds_subs d then (ds_write p v d)\<lparr>ds_changed := insert p (ds_changed d)\<rparr> else ds_write p v d)"
    by (simp add: handle_pmic_def new_set_param_def new_message_def handle_op_def op_consts msg_consts Let_def)
  show ?thesis by (simp only: h update_reply [OF assms(1)]) simp
qed

text \<open>
  a SET command stores the value before the reply is built: afterwards the parameter reads
  back as the value sent, and every other parameter as before.  With a value of at most 255 octets
  the reply decodes to a COMPLETE message that echoes parameter and value; with a longer value,
  which the command itself can carry, the handler raises instead of replying although the store
  has changed, because the update result has a one-octet length.
\<close>

theorem dstt_set_param:
  assumes "p < 65536" "length v < 65531" "encode_message (new_set_param p v) = Inr c"
  shows "ds_read (snd (handle_pmic c d)) q = (if q = p then Some v else ds_read d q) \<and>
    (case fst (handle_pmic c d) of
       Inr r \<Rightarrow> length v \<le> 255 \<and> (\<exists>b. r = Some b \<and> decode_pms b =
            Inr ((new_message MSG_MANAGE_PORT_COMPLETE)\<lparr>tm_updates := [(p, v)]\<rparr>))
     | Inl e \<Rightarrow> length v > 255 \<and> e = ValueError ''bytes must be in range(0, 256)'')"
proof -
  have "decode_pms (byte_of 2 # byte_of IEI_UPDATE_RESULT # be_enc 2 (length (status_bytes 1 [(p, v)] []))
        @ status_bytes 1 [(p, v)] []) = Inr ((new_message MSG_MANAGE_PORT_COMPLETE)\<lparr>tm_updates := [(p, v)]\<rparr>)"
    if short: "length v < 256"
  proof -
    have s: "status_wf 1 [(p, v)] []" "length (status_bytes 1 [(p, v)] []) < 65536"
      using assms(1) short by (simp_all add: status_wf_def status_bytes_def ok_bytes_def)
    have "message_wf ((new_message MSG_MANAGE_PORT_COMPLETE)\<lparr>tm_updates := [(p, v)]\<rparr>)"
      using s by (simp add: message_wf_def new_message_def del: One_nat_def)
        (simp add: status_wf_def status_bytes_def)
    from pms.roundtrip [OF this] update_reply [OF assms(1), of v] short show ?thesis by simp
  qed
  then show ?thesis
    using port.get_put [of p v d q] port.get_put_same [of p v d] by (simp add: set_pmic [OF assms] not_less)
qed

theorem dstt_set_param_witness:
  "\<exists>c. encode_message (new_set_param 6 (replicate 300 0)) = Inr c \<and>
     ds_read (snd (handle_pmic c \<lparr>ds_mac = [], ds_params = [], ds_ptp_instance_list = None,
                                 ds_subs = {}, ds_changed = {}\<rparr>)) 6 = Some (replicate 300 0)"
proof -
  obtain c where c: "encode_message (new_set_param 6 (replicate 300 0)) = Inr c"
    using pms.enc_total [OF set_param_wf [of 6 "replicate 300 0"]] by auto
  have "(6 :: nat) < 65536" "length (replicate 300 (0 :: byte)) < 65531" by simp_all
  from dstt_set_param [OF this c, of _ 6] c show ?thesis by auto
qed

text \<open>
  a change of a subscribed parameter is notified exactly once: after a SET of a subscribed
  parameter the pending notification carries that parameter with its new value, and a second
  call right after it has nothing to send.
\<close>

theorem dstt_notify_once:
  assumes "p < 65536" "length v < 65000" "encode_message (new_set_param p v) = Inr c"
    "p \<in> ds_subs d" "ds_changed d = {}"
  shows "let d' = snd (handle_pmic c d) in
    (\<exists>b. fst (pending_notify d') = Inr (Some b) \<and> decode_pms b = Inr (new_notify [(p, v)])) \<and>
    pending_notify (snd (pending_notify d')) = (Inr None, snd (pending_notify d'))"
proof -
  define d' where "d' = snd (handle_pmic c d)"
  have v: "length v < 65531" using assms(2) by simp
  have ch: "ds_changed d' = {p}" and rd: "ds_read d' p = Some v"
    using assms(4,5) port.get_put_same [of p v d] by (simp_all add: d'_def set_pmic [OF assms(1) v assms(3)])
  have wf: "message_wf (new_notify [(p, v)])"
    using assms(1,2) by (simp add: message_wf_def new_notify_def new_message_def msg_consts status_wf_def
        status_bytes_def ok_bytes_def)
  obtain b where b: "encode_message (new_notify [(p, v)]) = Inr b" "decode_pms b = Inr (new_notify [(p, v)])"
    using message_wf_codec [OF wf] by blast
  have "pending_notify d' = (Inr (Some b), d'\<lparr>ds_changed := {}\<rparr>)"
    by (simp add: pending_notify_def ch rd b)
  then show ?thesis using b by (simp add: Let_def pending_notify_def flip: d'_def)
qed

theorem dstt_notify_once_witness:
  "\<exists>c b. fst (pending_notify (snd (handle_pmic c \<lparr>ds_mac = [], ds_params = [], ds_ptp_instance_list = None,
                                 ds_subs = {3}, ds_changed = {}\<rparr>))) = Inr (Some b) \<and>
     decode_pms b = Inr (new_notify [(3, [1])])"
proof -
  obtain c where c: "encode_message (new_set_param 3 [1]) = Inr c"
    using pms.enc_total [OF set_param_wf [of 3 "[1]"]] by auto
  from dstt_notify_once [OF _ _ c, of "\<lparr>ds_mac = [], ds_params = [], ds_ptp_instance_list = None,
      ds_subs = {3}, ds_changed = {}\<rparr>"] show ?thesis by (auto simp: Let_def)
qed

text \<open>
  an unsubscribed parameter can still be notified: a change made while the subscription was
  alive stays pending after the subscription is withdrawn.
\<close>

theorem notify_after_unsubscribe:
  "let d = \<lparr>ds_mac = [], ds_params = [(3, [0])], ds_ptp_instance_list = None, ds_subs = {}, ds_changed = {}\<rparr>;
       run = (\<lambda>d ops. snd (foldl handle_op (new_message MSG_MANAGE_PORT_COMPLETE, d) ops));
       d' = run d [\<lparr>op_code = OP_SUBSCRIBE_NOTIFY, op_param = 3, op_value = []\<rparr>,
                   \<lparr>op_code = OP_SET_PARAMETER, op_param = 3, op_value = [1]\<rparr>,
                   \<lparr>op_code = OP_UNSUBSCRIBE, op_param = 3, op_value = []\<rparr>]
   in 3 \<notin> ds_subs d' \<and> (\<exists>b. fst (pending_notify d') = Inr (Some b))"
  by (simp add: Let_def handle_op_def op_consts ds_read_def ds_write_def PORT_PTP_INSTANCE_LIST_def
      pending_notify_def new_notify_def new_message_def encode_message_def msg_consts encode_status_def
      encode_ok_def lve_def py_byte_def dict_set_def pack_be_def)

end
