(* ===== verification/Eap5g.thy ===== *)
theory Eap5g
  imports Prelude
begin

text \<open>
  The EAP-5G codec of \<open>tester/src/protocol/eap5g.py\<close>: the expanded-type prefix, the three
  response builders, the encoder of AN parameters and the parser of network messages.
\<close>

section \<open>Constants and builders\<close>

definition CODE_RESPONSE :: nat where "CODE_RESPONSE = 2"
definition TYPE_EXPANDED :: nat where "TYPE_EXPANDED = 254"
definition VENDOR_ID_3GPP :: nat where "VENDOR_ID_3GPP = 10415"
definition VENDOR_TYPE_EAP5G :: nat where "VENDOR_TYPE_EAP5G = 3"
definition MSG_ID_START :: nat where "MSG_ID_START = 1"
definition MSG_ID_NAS :: nat where "MSG_ID_NAS = 2"
definition MSG_ID_NOTIFICATION :: nat where "MSG_ID_NOTIFICATION = 3"
definition MSG_ID_STOP :: nat where "MSG_ID_STOP = 4"

lemmas eap_consts = CODE_RESPONSE_def TYPE_EXPANDED_def VENDOR_ID_3GPP_def VENDOR_TYPE_EAP5G_def
  MSG_ID_START_def MSG_ID_NAS_def MSG_ID_NOTIFICATION_def MSG_ID_STOP_def

definition fixed_prefix :: "int \<Rightarrow> int \<Rightarrow> bytes res" where
  "fixed_prefix code identifier =
     rbind (py_bytes [code, identifier, 0, 0, int TYPE_EXPANDED]) (\<lambda>a.
     rbind (py_bytes [int (drop_bit 16 VENDOR_ID_3GPP AND 255), int (drop_bit 8 VENDOR_ID_3GPP AND 255),
                      int (VENDOR_ID_3GPP AND 255)]) (\<lambda>v.
     rbind (pack_I (int VENDOR_TYPE_EAP5G)) (\<lambda>t. Inr (a @ v @ t))))"

definition patch_length :: "bytes \<Rightarrow> bytes res" where
  "patch_length buf =
     (if length buf > 0xFFFF then Inl (ValueError ''EAP packet too long'')
      else rbind (pack_H (int (length buf))) (\<lambda>l. Inr (take 2 buf @ l @ drop 4 buf)))"

definition encode_an_parameters :: "(nat \<times> bytes) list \<Rightarrow> bytes res" where
  "encode_an_parameters params =
     rbind (rmap (\<lambda>(t, v). if length v > 255 then Inl (ValueError ''AN-parameter value > 255 octets'')
                            else rbind (py_bytes [int t, int (length v)]) (\<lambda>h. Inr (h @ v))) params)
       (\<lambda>bs. Inr (concat bs))"

definition lv16 :: "bytes \<Rightarrow> bytes res" where
  \<comment> \<open>\<open>struct.pack(">H", len(b)) + b\<close>\<close>
  "lv16 b = rbind (pack_H (int (length b))) (\<lambda>l. Inr (l @ b))"

definition build_5g_nas_response :: "int \<Rightarrow> bytes \<Rightarrow> bytes \<Rightarrow> bytes option \<Rightarrow> bytes res" where
  "build_5g_nas_response identifier nas_pdu an_params ext_an_params =
     rbind (fixed_prefix (int CODE_RESPONSE) identifier) (\<lambda>p.
     rbind (py_bytes [int MSG_ID_NAS, 0]) (\<lambda>m.
     rbind (lv16 an_params) (\<lambda>a.
     rbind (lv16 nas_pdu) (\<lambda>n.
     rbind (case ext_an_params of None \<Rightarrow> Inr [] | Some e \<Rightarrow> lv16 e) (\<lambda>x.
     patch_length (p @ m @ a @ n @ x))))))"

definition build_5g_stop_response :: "int \<Rightarrow> bytes res" where
  "build_5g_stop_response identifier =
     rbind (fixed_prefix (int CODE_RESPONSE) identifier) (\<lambda>p.
     rbind (py_bytes [int MSG_ID_STOP, 0]) (\<lambda>m. patch_length (p @ m)))"

definition build_5g_notification_response :: "int \<Rightarrow> bytes \<Rightarrow> bytes res" where
  "build_5g_notification_response identifier an_params =
     rbind (fixed_prefix (int CODE_RESPONSE) identifier) (\<lambda>p.
     rbind (py_bytes [int MSG_ID_NOTIFICATION, 0]) (\<lambda>m.
     rbind (lv16 an_params) (\<lambda>a. patch_length (p @ m @ a))))"

section \<open>Parser\<close>

record eap_request =
  er_code :: nat
  er_identifier :: nat
  er_message_id :: nat
  er_nas_pdu :: bytes
  er_an_params :: bytes
  er_extensions :: bytes

definition parse_body :: "bytes \<Rightarrow> eap_request \<Rightarrow> eap_request res" where
  \<comment> \<open>the dispatch of \<open>parse\<close> on the message identifier\<close>
  "parse_body body req =
     (if er_message_id req = MSG_ID_START then
        (if length body < 1 then Inl (ValueError ''5G-Start: missing Spare'')
         else Inr (req\<lparr>er_extensions := drop 1 body\<rparr>))
      else if er_message_id req = MSG_ID_NAS then
        (if length body < 3 then Inl (ValueError ''5G-NAS request: short header'')
         else rbind (unpack_H (slice 1 3 body)) (\<lambda>nas_len.
           if 3 + nas_len > length body then Inl (ValueError ''NAS-PDU length overruns packet'')
           else Inr (req\<lparr>er_nas_pdu := slice 3 (3 + nas_len) body, er_extensions := drop (3 + nas_len) body\<rparr>)))
      else if er_message_id req = MSG_ID_NOTIFICATION then
        (if length body < 3 then Inl (ValueError ''5G-Notification request: short header'')
         else rbind (unpack_H (slice 1 3 body)) (\<lambda>an_len.
           if 3 + an_len > length body then Inl (ValueError ''AN-params length overruns packet'')
           else Inr (req\<lparr>er_an_params := slice 3 (3 + an_len) body, er_extensions := drop (3 + an_len) body\<rparr>)))
      else Inr req)"

definition parse :: "bytes \<Rightarrow> eap_request res" where
  "parse buf =
     (if length buf < 13 then Inl (ValueError ''EAP-5G packet shorter than 13 octets'')
      else rbind (unpack_H (slice 2 4 buf)) (\<lambda>declared.
      if declared \<noteq> length buf then Inl (ValueError ''EAP Length != actual'')
      else if unat (buf ! 4) \<noteq> TYPE_EXPANDED then Inl (ValueError ''EAP Type != 254'')
      else let vid = (push_bit 16 (unat (buf ! 5)) OR push_bit 8 (unat (buf ! 6))) OR unat (buf ! 7) in
      if vid \<noteq> VENDOR_ID_3GPP then Inl (ValueError ''Vendor-Id != 10415'')
      else rbind (unpack_I (slice 8 12 buf)) (\<lambda>vt.
      if vt \<noteq> VENDOR_TYPE_EAP5G then Inl (ValueError ''Vendor-Type != 3'')
      else parse_body (drop 13 buf)
        \<lparr>er_code = unat (buf ! 0), er_identifier = unat (buf ! 1), er_message_id = unat (buf ! 12),
         er_nas_pdu = [], er_an_params = [], er_extensions = []\<rparr>)))"

section \<open>Packets\<close>

definition eap_packet :: "nat \<Rightarrow> nat \<Rightarrow> nat \<Rightarrow> bytes \<Rightarrow> bytes" where
  \<comment> \<open>an EAP-5G packet as the specification draws it\<close>
  "eap_packet code identifier mid body =
     [byte_of code, byte_of identifier] @ be_enc 2 (13 + length body) @
     [byte_of 254, byte_of 0, byte_of 40, byte_of 175] @ be_enc 4 3 @ [byte_of mid] @ body"

lemma vendor_octets:
  "drop_bit 16 VENDOR_ID_3GPP AND 255 = 0" "drop_bit 8 VENDOR_ID_3GPP AND 255 = 40"
  "VENDOR_ID_3GPP AND 255 = 175"
  by (simp_all add: VENDOR_ID_3GPP_def drop_bit_eq_div mask_simps)

lemma fixed_prefix_eq:
  "0 \<le> c \<Longrightarrow> c < 256 \<Longrightarrow> 0 \<le> i \<Longrightarrow> i < 256 \<Longrightarrow> fixed_prefix c i =
     Inr ([byte_of (nat c), byte_of (nat i), byte_of 0, byte_of 0, byte_of 254, byte_of 0, byte_of 40,
           byte_of 175] @ be_enc 4 3)"
  unfolding fixed_prefix_def vendor_octets
  by (simp add: py_byte_def TYPE_EXPANDED_def VENDOR_TYPE_EAP5G_def pack_be_def)

lemma parse_packet:
  assumes "code < 256" "identifier < 256" "mid < 256" "13 + length body < 65536"
  shows "parse (eap_packet code identifier mid body) = parse_body body
    \<lparr>er_code = code, er_identifier = identifier, er_message_id = mid,
     er_nas_pdu = [], er_an_params = [], er_extensions = []\<rparr>"
proof -
  define buf where "buf = eap_packet code identifier mid body"
  have len: "length buf = 13 + length body" by (simp add: buf_def eap_packet_def)
  have f: "buf ! 0 = byte_of code" "buf ! 1 = byte_of identifier" "slice 2 4 buf = be_enc 2 (13 + length body)"
    "buf ! 4 = byte_of 254" "buf ! 5 = byte_of 0" "buf ! 6 = byte_of 40" "buf ! 7 = byte_of 175"
    "slice 8 12 buf = be_enc 4 3" "buf ! 12 = byte_of mid" "drop 13 buf = body"
    by (simp_all add: buf_def eap_packet_def slice_def nth_append)
  have un: "unpack_H (be_enc 2 (13 + length body)) = Inr (13 + length body)" "unpack_I (be_enc 4 3) = Inr 3"
    using assms(4) by (intro unpack_be_enc; simp)+
  have vid: "(push_bit 16 0 OR push_bit 8 40) OR (175 :: nat) = VENDOR_ID_3GPP"
    using nat_shift_or [of 175 8 40] by (simp add: VENDOR_ID_3GPP_def)
  have "parse buf = parse_body body
    \<lparr>er_code = code, er_identifier = identifier, er_message_id = mid,
     er_nas_pdu = [], er_an_params = [], er_extensions = []\<rparr>"
    unfolding parse_def f un rbind.simps Let_def unat_byte_of using len assms vid
    by (simp add: TYPE_EXPANDED_def VENDOR_TYPE_EAP5G_def)
  then show ?thesis by (simp only: buf_def)
qed

text \<open>The body of a message whose content has a 16-bit length behind the spare octet.\<close>

definition lv_body :: "byte \<Rightarrow> bytes \<Rightarrow> bytes \<Rightarrow> bytes" where
  "lv_body spare content ext = spare # be_enc 2 (length content) @ content @ ext"

lemma lv_body_parts:
  assumes "length content < 65536"
  shows "\<not> length (lv_body spare content ext) < 3" "unpack_H (slice 1 3 (lv_body spare content ext)) = Inr (length content)"
    "3 + length content \<le> length (lv_body spare content ext)"
    "slice 3 (3 + length content) (lv_body spare content ext) = content"
    "drop (3 + length content) (lv_body spare content ext) = ext"
proof -
  define pre where "pre = spare # be_enc 2 (length content)"
  have e: "lv_body spare content ext = pre @ content @ ext" "length pre = 3"
    by (simp_all add: pre_def lv_body_def)
  show "\<not> length (lv_body spare content ext) < 3" "3 + length content \<le> length (lv_body spare content ext)"
    "slice 3 (3 + length content) (lv_body spare content ext) = content"
    "drop (3 + length content) (lv_body spare content ext) = ext"
    using e by simp_all
  show "unpack_H (slice 1 3 (lv_body spare content ext)) = Inr (length content)"
    using assms by (simp add: lv_body_def slice_def unpack_be_def)
qed

lemma patch_length_prefix:
  "length rest \<le> 65531 \<Longrightarrow>
     patch_length (a # b # x # y # rest) = Inr (a # b # be_enc 2 (4 + length rest) @ rest)"
  using pack_H_nat [of "4 + length rest"] by (simp add: patch_length_def)

lemma build_notification_packet:
  assumes "0 \<le> i" "i < 256" "length an \<le> 65519"
  shows "build_5g_notification_response i an = Inr (eap_packet 2 (nat i) 3 (lv_body (byte_of 0) an []))"
proof -
  have "py_bytes [int MSG_ID_NOTIFICATION, 0] = Inr [byte_of 3, byte_of 0]"
    by (simp add: py_byte_def MSG_ID_NOTIFICATION_def)
  moreover have "lv16 an = Inr (be_enc 2 (length an) @ an)" using assms by (simp add: lv16_def)
  ultimately have "build_5g_notification_response i an = patch_length (byte_of 2 # byte_of (nat i) # byte_of 0 #
      byte_of 0 # [byte_of 254, byte_of 0, byte_of 40, byte_of 175] @ be_enc 4 3 @ [byte_of 3] @ lv_body (byte_of 0) an [])"
    using assms by (simp add: build_5g_notification_response_def fixed_prefix_eq CODE_RESPONSE_def lv_body_def)
  then show ?thesis
    using assms by (subst (asm) patch_length_prefix) (simp_all add: lv_body_def eap_packet_def)
qed

text \<open>
  the parser recovers what the network put into a message: from a 5G-NAS request the NAS
  PDU and what follows it, from a 5G-Notification request the AN parameters and what follows
  them, from a 5G-Start request the extensions, for every content that fits the packet.
\<close>

theorem eap_request_parsed:
  assumes "code < 256" "identifier < 256" "16 + length content + length ext < 65536"
  shows "parse (eap_packet code identifier 2 (lv_body spare content ext)) =
      Inr \<lparr>er_code = code, er_identifier = identifier, er_message_id = MSG_ID_NAS,
           er_nas_pdu = content, er_an_params = [], er_extensions = ext\<rparr> \<and>
    parse (eap_packet code identifier 3 (lv_body spare content ext)) =
      Inr \<lparr>er_code = code, er_identifier = identifier, er_message_id = MSG_ID_NOTIFICATION,
           er_nas_pdu = [], er_an_params = content, er_extensions = ext\<rparr> \<and>
    parse (eap_packet code identifier 1 (spare # ext)) =
      Inr \<lparr>er_code = code, er_identifier = identifier, er_message_id = MSG_ID_START,
           er_nas_pdu = [], er_an_params = [], er_extensions = ext\<rparr>"
proof -
  have c: "length content < 65536" using assms(3) by simp
  have l: "13 + length (lv_body spare content ext) < 65536" "13 + length (spare # ext) < 65536"
    using assms(3) by (simp_all add: lv_body_def)
  note parts = lv_body_parts [OF c, of spare ext]
  show ?thesis
    using parts by (simp add: parse_packet [OF assms(1,2) _ l(1)] parse_packet [OF assms(1,2) _ l(2)]
        parse_body_def eap_consts drop_Suc del: One_nat_def) simp
qed

theorem eap_request_parsed_witness:
  "parse (eap_packet 1 7 2 (lv_body 0 [0x7E, 0, 0x41] [9])) =
     Inr \<lparr>er_code = 1, er_identifier = 7, er_message_id = MSG_ID_NAS,
          er_nas_pdu = [0x7E, 0, 0x41], er_an_params = [], er_extensions = [9]\<rparr>"
  using eap_request_parsed [of 1 7 "[0x7E, 0, 0x41]" "[9]" 0] by simp

lemma build_nas_packet:
  assumes "0 \<le> i" "i < 256"
    "18 + length an + length nas + (case ext of None \<Rightarrow> 0 | Some e \<Rightarrow> 2 + length e) < 65536"
  shows "build_5g_nas_response i nas an ext = Inr (eap_packet 2 (nat i) 2
    (byte_of 0 # be_enc 2 (length an) @ an @ be_enc 2 (length nas) @ nas @
       (case ext of None \<Rightarrow> [] | Some e \<Rightarrow> be_enc 2 (length e) @ e)))"
proof -
  let ?x = "case ext of None \<Rightarrow> [] | Some e \<Rightarrow> be_enc 2 (length e) @ e"
  have "py_bytes [int MSG_ID_NAS, 0] = Inr [byte_of 2, byte_of 0]"
    by (simp add: py_byte_def MSG_ID_NAS_def)
  moreover have "lv16 an = Inr (be_enc 2 (length an) @ an)" "lv16 nas = Inr (be_enc 2 (length nas) @ nas)"
    using assms(3) by (simp_all add: lv16_def)
  moreover have "(case ext of None \<Rightarrow> Inr [] | Some e \<Rightarrow> lv16 e) = Inr ?x"
    using assms(3) by (simp add: lv16_def split: option.splits)
  ultimately have "build_5g_nas_response i nas an ext = patch_length (byte_of 2 # byte_of (nat i) # byte_of 0 #
      byte_of 0 # [byte_of 254, byte_of 0, byte_of 40, byte_of 175] @ be_enc 4 3 @ [byte_of 2] @
      byte_of 0 # be_enc 2 (length an) @ an @ be_enc 2 (length nas) @ nas @ ?x)"
    using assms by (simp add: build_5g_nas_response_def fixed_prefix_eq CODE_RESPONSE_def)
  moreover have "length ?x = (case ext of None \<Rightarrow> 0 | Some e \<Rightarrow> 2 + length e)"
    by (simp split: option.splits)
  ultimately show ?thesis
    using assms(3) by (subst (asm) patch_length_prefix) (simp_all add: eap_packet_def)
qed

text \<open>
  the responses the UE builds are well-formed packets: their declared length is their actual
  length, a notification response parses back to its AN parameters, and the NAS response carries
  AN parameters, NAS PDU and the optional extended parameters, each behind its own length.
\<close>

theorem eap_responses:
  assumes "0 \<le> i" "i < 256"
    "18 + length an + length nas + (case ext of None \<Rightarrow> 0 | Some e \<Rightarrow> 2 + length e) < 65536"
  shows "rbind (build_5g_notification_response i an) parse =
      Inr \<lparr>er_code = CODE_RESPONSE, er_identifier = nat i, er_message_id = MSG_ID_NOTIFICATION,
           er_nas_pdu = [], er_an_params = an, er_extensions = []\<rparr> \<and>
    (\<exists>buf. build_5g_nas_response i nas an ext = Inr buf \<and>
       unpack_H (slice 2 4 buf) = Inr (length buf) \<and>
       drop 13 buf = byte_of 0 # be_enc 2 (length an) @ an @ be_enc 2 (length nas) @ nas @
         (case ext of None \<Rightarrow> [] | Some e \<Rightarrow> be_enc 2 (length e) @ e))"
proof
  have an: "16 + length an < 65536" "length an \<le> 65519" "length an < 65536" using assms(3) by simp_all
  have l: "13 + length (lv_body (byte_of 0) an []) < 65536" using an by (simp add: lv_body_def)
  have i: "nat i < 256" using assms by simp
  show "rbind (build_5g_notification_response i an) parse =
      Inr \<lparr>er_code = CODE_RESPONSE, er_identifier = nat i, er_message_id = MSG_ID_NOTIFICATION,
           er_nas_pdu = [], er_an_params = an, er_extensions = []\<rparr>"
    using lv_body_parts [OF an(3), of "byte_of 0" "[]"]
    by (simp add: build_notification_packet [OF assms(1,2) an(2)] parse_packet [OF _ i _ l]
        parse_body_def eap_consts del: One_nat_def)
  let ?body = "byte_of 0 # be_enc 2 (length an) @ an @ be_enc 2 (length nas) @ nas @
         (case ext of None \<Rightarrow> [] | Some e \<Rightarrow> be_enc 2 (length e) @ e)"
  have x: "length (case ext of None \<Rightarrow> [] | Some e \<Rightarrow> be_enc 2 (length e) @ e) =
      (case ext of None \<Rightarrow> 0 | Some e \<Rightarrow> 2 + length e)"
    by (simp split: option.splits)
  then have "13 + length ?body < 65536" using assms(3) by simp
  then have "unpack_H (slice 2 4 (eap_packet 2 (nat i) 2 ?body)) = Inr (length (eap_packet 2 (nat i) 2 ?body))"
    "drop 13 (eap_packet 2 (nat i) 2 ?body) = ?body"
    by (simp_all add: eap_packet_def slice_def unpack_be_def)
  with build_nas_packet [OF assms] show "\<exists>buf. build_5g_nas_response i nas an ext = Inr buf \<and>
       unpack_H (slice 2 4 buf) = Inr (length buf) \<and> drop 13 buf = ?body" by blast
qed

theorem eap_responses_witness:
  "rbind (build_5g_notification_response 9 [6, 1, 0]) parse =
      Inr \<lparr>er_code = CODE_RESPONSE, er_identifier = 9, er_message_id = MSG_ID_NOTIFICATION,
           er_nas_pdu = [], er_an_params = [6, 1, 0], er_extensions = []\<rparr>"
  using eap_responses [of 9 "[6, 1, 0]" "[]" None] by simp

lemma parse_body_header:
  "parse_body body req = Inr r \<Longrightarrow> er_code r = er_code req \<and> er_identifier r = er_identifier req \<and>
     er_message_id r = er_message_id req"
  by (auto simp: parse_body_def res_simps split: if_splits)

text \<open>
  an accepted buffer is exactly an EAP-5G packet with the returned code, identifier and
  message identifier: every octet of the header is determined, none is ignored.
\<close>

theorem eap_parse_exact:
  assumes "parse buf = Inr r"
  shows "buf = eap_packet (er_code r) (er_identifier r) (er_message_id r) (drop 13 buf)"
proof -
  from assms have len: "13 \<le> length buf" by (simp add: parse_def split: if_splits)
  then have "length (take 13 buf) = Suc (Suc (Suc (Suc (Suc (Suc (Suc (Suc (Suc (Suc (Suc (Suc (Suc 0))))))))))))"
    by simp
  then obtain c i l1 l2 t v1 v2 v3 t1 t2 t3 t4 m where pre:
    "take 13 buf = [c, i, l1, l2, t, v1, v2, v3, t1, t2, t3, t4, m]"
    unfolding length_Suc_conv by auto
  then have buf: "buf = [c, i, l1, l2, t, v1, v2, v3, t1, t2, t3, t4, m] @ drop 13 buf"
    by (metis append_take_drop_id)
  define body where "body = drop 13 buf"
  have b: "buf = c # i # l1 # l2 # t # v1 # v2 # v3 # t1 # t2 # t3 # t4 # m # body"
    using buf by (simp add: body_def)
  have nths: "buf ! 0 = c" "buf ! 1 = i" "buf ! 4 = t" "buf ! 5 = v1" "buf ! 6 = v2" "buf ! 7 = v3" "buf ! 12 = m"
    "slice 2 4 buf = [l1, l2]" "slice 8 12 buf = [t1, t2, t3, t4]" "length buf = 13 + length body"
    by (simp_all add: b slice_def)
  from assms have p: "be_val [l1, l2] = 13 + length body" "unat t = 254" "be_val [t1, t2, t3, t4] = 3"
    "(push_bit 16 (unat v1) OR push_bit 8 (unat v2)) OR unat v3 = 10415"
    "er_code r = unat c" "er_identifier r = unat i" "er_message_id r = unat m"
    unfolding parse_def nths
    by (auto simp: Let_def res_simps unpack_be_def eap_consts dest!: parse_body_header split: if_splits)
  have "push_bit 8 (unat v2) OR unat v3 = unat v2 * 256 + unat v3"
    using nat_shift_or [of "unat v3" 8 "unat v2"] by simp
  moreover have "push_bit 16 (unat v1) OR (unat v2 * 256 + unat v3) = unat v1 * 65536 + (unat v2 * 256 + unat v3)"
    using nat_shift_or [of "unat v2 * 256 + unat v3" 16 "unat v1"] unat_byte [of v2] unat_byte [of v3] by simp
  ultimately have "be_val [v1, v2, v3] = 10415" using p(4) by (simp add: be_val_def or.assoc)
  then have "[v1, v2, v3] = be_enc 3 10415" using be_enc_be_val [of "[v1, v2, v3]" 3] by simp
  moreover have "be_enc 3 10415 = [byte_of 0, byte_of 40, byte_of 175]"
    by (simp add: numeral_3_eq_3 byte_of_eq_iff)
  moreover have "[l1, l2] = be_enc 2 (13 + length body)" "[t1, t2, t3, t4] = be_enc 4 3"
    using be_enc_be_val [of "[l1, l2]" 2] be_enc_be_val [of "[t1, t2, t3, t4]" 4] p(1,3) by simp_all
  moreover have "t = byte_of 254" using p(2) by (metis byte_of_unat)
  ultimately have "buf = [byte_of (unat c), byte_of (unat i)] @ be_enc 2 (13 + length body) @
     [byte_of 254, byte_of 0, byte_of 40, byte_of 175] @ be_enc 4 3 @ [byte_of (unat m)] @ body"
    unfolding b by (metis append_Cons append_Nil byte_of_unat list.inject)
  then show ?thesis by (simp only: p eap_packet_def body_def)
qed

theorem eap_parse_exact_witness:
  "eap_packet 1 7 4 [0] = eap_packet 1 7 4 (drop 13 (eap_packet 1 7 4 [0]))"
proof -
  have "parse (eap_packet 1 7 4 [0]) = Inr \<lparr>er_code = 1, er_identifier = 7, er_message_id = 4,
     er_nas_pdu = [], er_an_params = [], er_extensions = []\<rparr>"
    by (subst parse_packet) (simp_all add: parse_body_def eap_consts)
  from eap_parse_exact [OF this] show ?thesis by simp
qed

end
