(* ===== verification/Ss.thy ===== *)
theory Ss
  imports Prelude
begin

text \<open>
  The supplementary-service codec of \<open>tester/src/protocol/ss_codec.py\<close>: the service code table,
  the parser of MMI strings with its views, and the Invoke component encoder.
\<close>

section \<open>Procedures and service codes\<close>

datatype procedure = UNKNOWN | ACTIVATION | DEACTIVATION | INTERROGATION | REGISTRATION | ERASURE

definition SS_CODE_NAME :: "(string, string) dict" where
  "SS_CODE_NAME =
     [(''30'', ''CLIP''), (''31'', ''CLIR''), (''76'', ''COLP''), (''77'', ''COLR''),
      (''21'', ''CFU''), (''67'', ''CFB''), (''61'', ''CFNRy''), (''62'', ''CFNRc''),
      (''002'', ''CFAll''), (''004'', ''CFAllConditional''),
      (''43'', ''CW''),
      (''33'', ''BAOC''), (''331'', ''BAOIC''), (''332'', ''BAOICexHC''), (''35'', ''BAIC''),
      (''351'', ''BAICRoaming''), (''330'', ''BAAll''), (''333'', ''BAAllOutgoing''),
      (''353'', ''BAAllIncoming''),
      (''96'', ''ECT''), (''37'', ''CCBS''), (''300'', ''CNAP'')]"

definition CALL_FORWARDING :: "string list" where
  "CALL_FORWARDING = [''CFU'', ''CFB'', ''CFNRy'', ''CFNRc'', ''CFAll'', ''CFAllConditional'']"

definition BARRING :: "string list" where
  "BARRING = [''BAOC'', ''BAOIC'', ''BAIC'', ''BAOICexHC'', ''BAICRoaming'', ''BAAll'',
     ''BAAllOutgoing'', ''BAAllIncoming'']"

section \<open>MMI requests\<close>

record mmi_request =
  mmi_procedure :: procedure
  mmi_service_code :: string
  mmi_service_name :: string
  mmi_sia :: string
  mmi_sib :: string
  mmi_sic :: string
  mmi_raw :: string

definition no_reply_timer :: "mmi_request \<Rightarrow> int option" where
  "no_reply_timer r =
     (if mmi_sic r = [] then None
      else case py_int_str (mmi_sic r) of
        None \<Rightarrow> None
      | Some t \<Rightarrow> if \<not> (5 \<le> t \<and> t \<le> 30) then None else Some t)"

definition barring_password :: "mmi_request \<Rightarrow> string option" where
  "barring_password r =
     (if mmi_service_name r \<notin> set BARRING then None
      else if mmi_sia r = [] then None else Some (mmi_sia r))"

definition forwarded_number :: "mmi_request \<Rightarrow> string option" where
  "forwarded_number r =
     (if mmi_service_name r \<notin> set CALL_FORWARDING then None
      else if mmi_sia r = [] then None else Some (mmi_sia r))"

definition mmi_prefix :: "string \<Rightarrow> (procedure \<times> string) res" where
  \<comment> \<open>the \<open>if s.startswith\<close> chain of \<open>parse_mmi\<close>\<close>
  "mmi_prefix s =
     (if starts_with s ''*#'' then Inr (INTERROGATION, drop 2 s)
      else if starts_with s ''##'' then Inr (ERASURE, drop 2 s)
      else if starts_with s ''**'' then Inr (REGISTRATION, drop 2 s)
      else if starts_with s ''*'' then Inr (ACTIVATION, drop 1 s)
      else if starts_with s ''#'' then Inr (DEACTIVATION, drop 1 s)
      else Inl (ValueError ''MMI: bad procedure prefix''))"

definition parse_mmi :: "string \<Rightarrow> mmi_request res" where
  "parse_mmi s =
     (if s = [] then Inl (ValueError ''empty MMI string'')
      else if \<not> ends_with s ''#'' then Inl (ValueError ''MMI: missing terminating hash'')
      else rbind (mmi_prefix (butlast s)) (\<lambda>(proc, t).
        let parts = split_on (CHR ''*'') t in
        if parts = [] \<or> parts ! 0 = [] then Inl (ValueError ''MMI: missing service code'')
        else let sc = parts ! 0 in
        if \<not> str_isdigit sc then Inl (ValueError ''MMI: non-digit service code'')
        else if \<not> (2 \<le> length sc \<and> length sc \<le> 3) then Inl (ValueError ''MMI: SC length'')
        else (case dict_get SS_CODE_NAME sc of
          None \<Rightarrow> Inl (ValueError ''MMI: unknown service code'')
        | Some name \<Rightarrow>
            let req = \<lparr>mmi_procedure = proc, mmi_service_code = sc, mmi_service_name = name,
                       mmi_sia = (if length parts > 1 then parts ! 1 else []),
                       mmi_sib = (if length parts > 2 then parts ! 2 else []),
                       mmi_sic = (if length parts > 3 then parts ! 3 else []), mmi_raw = s\<rparr>
            in Inr (if proc = ACTIVATION \<and> mmi_sia req \<noteq> [] \<and> name \<in> set CALL_FORWARDING
                    then req\<lparr>mmi_procedure := REGISTRATION\<rparr> else req))))"

section \<open>Invoke component\<close>

definition COMPONENT_INVOKE :: int where "COMPONENT_INVOKE = 0xA1"

datatype ss_op =
    REGISTER_SS | ERASE_SS | ACTIVATE_SS | DEACTIVATE_SS | INTERROGATE_SS | NOTIFY_SS
  | REGISTER_PASSWORD | GET_PASSWORD | PROCESS_USSD_DATA | FORWARD_CHECK_SS_INDICATION
  | PROCESS_USSD_REQ | USSD_REQUEST | USSD_NOTIFY | BUILD_MPTY | HOLD_MPTY | RETRIEVE_MPTY
  | SPLIT_MPTY | EXPLICIT_CT | CALL_DEFLECTION

fun op_value :: "ss_op \<Rightarrow> int" where
  "op_value REGISTER_SS = 10"
| "op_value ERASE_SS = 11"
| "op_value ACTIVATE_SS = 12"
| "op_value DEACTIVATE_SS = 13"
| "op_value INTERROGATE_SS = 14"
| "op_value NOTIFY_SS = 16"
| "op_value REGISTER_PASSWORD = 17"
| "op_value GET_PASSWORD = 18"
| "op_value PROCESS_USSD_DATA = 19"
| "op_value FORWARD_CHECK_SS_INDICATION = 38"
| "op_value PROCESS_USSD_REQ = 59"
| "op_value USSD_REQUEST = 60"
| "op_value USSD_NOTIFY = 61"
| "op_value BUILD_MPTY = 30"
| "op_value HOLD_MPTY = 31"
| "op_value RETRIEVE_MPTY = 32"
| "op_value SPLIT_MPTY = 33"
| "op_value EXPLICIT_CT = 53"
| "op_value CALL_DEFLECTION = 117"

definition encode_invoke_frame :: "int \<Rightarrow> ss_op \<Rightarrow> bytes \<Rightarrow> bytes res" where
  "encode_invoke_frame invoke_id op params =
     (if \<not> (0 \<le> invoke_id \<and> invoke_id \<le> 0xFF) then Inl (ValueError ''invoke_id must fit in one byte'')
      else if \<not> (0 \<le> op_value op \<and> op_value op \<le> 0xFF) then Inl (ValueError ''op code must fit in one byte'')
      else rbind (py_bytes [2, 1, invoke_id, 2, 1, op_value op]) (\<lambda>h.
        let body = h @ params in
        if length body > 0x7F then Inl (ValueError ''body > 127 bytes; long-form length not implemented'')
        else rbind (py_bytes [COMPONENT_INVOKE, int (length body)]) (\<lambda>t. Inr (t @ body))))"

section \<open>Properties\<close>

fun prefix_of :: "procedure \<Rightarrow> string" where
  \<comment> \<open>the leading characters of each procedure, as the parser's chain documents them\<close>
  "prefix_of ACTIVATION = ''*''"
| "prefix_of DEACTIVATION = ''#''"
| "prefix_of INTERROGATION = ''*#''"
| "prefix_of REGISTRATION = ''**''"
| "prefix_of ERASURE = ''##''"
| "prefix_of UNKNOWN = []"

lemma mmi_prefix_of:
  "p \<noteq> UNKNOWN \<Longrightarrow> is_digit c \<Longrightarrow> mmi_prefix (prefix_of p @ c # cs) = Inr (p, c # cs)"
  by (cases p) (auto simp: mmi_prefix_def starts_with_def is_digit_def)

lemma service_code_digits:
  "dict_get SS_CODE_NAME sc = Some name \<Longrightarrow> str_isdigit sc \<and> 2 \<le> length sc \<and> length sc \<le> 3"
  by (auto simp: SS_CODE_NAME_def str_isdigit_def is_digit_def split: if_splits)

lemma digits_no_star: "list_all is_digit s \<Longrightarrow> CHR ''*'' \<notin> set s"
  by (induction s) (auto simp: is_digit_def)

lemma parse_mmi_parts:
  assumes "p \<noteq> UNKNOWN" "dict_get SS_CODE_NAME sc = Some name" "split_on (CHR ''*'') t = sc # rest"
    "t = sc @ u"
  shows "parse_mmi (prefix_of p @ t @ ''#'') =
    (let req = \<lparr>mmi_procedure = p, mmi_service_code = sc, mmi_service_name = name,
                mmi_sia = (case rest of a # _ \<Rightarrow> a | _ \<Rightarrow> []), mmi_sib = (case rest of _ # b # _ \<Rightarrow> b | _ \<Rightarrow> []),
                mmi_sic = (case rest of _ # _ # c # _ \<Rightarrow> c | _ \<Rightarrow> []), mmi_raw = prefix_of p @ t @ ''#''\<rparr>
     in Inr (if p = ACTIVATION \<and> mmi_sia req \<noteq> [] \<and> name \<in> set CALL_FORWARDING
             then req\<lparr>mmi_procedure := REGISTRATION\<rparr> else req))"
proof -
  from service_code_digits [OF assms(2)] have sc: "str_isdigit sc" "2 \<le> length sc" "length sc \<le> 3" by simp_all
  then obtain d ds where d: "sc = d # ds" "is_digit d" by (cases sc) (auto simp: str_isdigit_def)
  have "ends_with (prefix_of p @ t @ ''#'') ''#''" by (simp add: ends_with_def)
  moreover have "butlast (prefix_of p @ t @ ''#'') = prefix_of p @ d # (ds @ u)"
    using d assms(4) by (simp add: butlast_append)
  moreover have "d # ds @ u = t" using d assms(4) by simp
  ultimately show ?thesis
    using mmi_prefix_of [OF assms(1) d(2), of "ds @ u"] sc assms(2,3) d(1)
    by (auto simp: parse_mmi_def Let_def split: list.splits)
qed

lemma split_on_slots:
  "CHR ''*'' \<notin> set a \<Longrightarrow> CHR ''*'' \<notin> set b \<Longrightarrow> CHR ''*'' \<notin> set c \<Longrightarrow> CHR ''*'' \<notin> set d \<Longrightarrow>
     split_on (CHR ''*'') (a @ ''*'' @ b @ ''*'' @ c @ ''*'' @ d) = [a, b, c, d]"
  using split_on_append [of "CHR ''*''" a "b @ ''*'' @ c @ ''*'' @ d"]
    split_on_append [of "CHR ''*''" b "c @ ''*'' @ d"] split_on_append [of "CHR ''*''" c d]
    split_on_no_sep [of "CHR ''*''" d] by simp

text \<open>
  every MMI string of the five forms is read as dialled: for each procedure, each service
  code of the table and any supplementary information without a star, the parser returns the
  procedure, the service and the three slots in place, with the one promotion the rule asks for:
  an activation of a call forwarding service that names a number is a registration.
\<close>

theorem mmi_parsed:
  assumes "p \<noteq> UNKNOWN" "dict_get SS_CODE_NAME sc = Some name"
    "CHR ''*'' \<notin> set sia" "CHR ''*'' \<notin> set sib" "CHR ''*'' \<notin> set sic"
  shows "parse_mmi (prefix_of p @ (sc @ ''*'' @ sia @ ''*'' @ sib @ ''*'' @ sic) @ ''#'') =
      Inr \<lparr>mmi_procedure = (if p = ACTIVATION \<and> sia \<noteq> [] \<and> name \<in> set CALL_FORWARDING then REGISTRATION else p),
           mmi_service_code = sc, mmi_service_name = name, mmi_sia = sia, mmi_sib = sib, mmi_sic = sic,
           mmi_raw = prefix_of p @ (sc @ ''*'' @ sia @ ''*'' @ sib @ ''*'' @ sic) @ ''#''\<rparr> \<and>
    parse_mmi (prefix_of p @ sc @ ''#'') =
      Inr \<lparr>mmi_procedure = p, mmi_service_code = sc, mmi_service_name = name, mmi_sia = [], mmi_sib = [],
           mmi_sic = [], mmi_raw = prefix_of p @ sc @ ''#''\<rparr>"
proof -
  have sc: "CHR ''*'' \<notin> set sc"
    using service_code_digits [OF assms(2)] digits_no_star by (simp add: str_isdigit_def)
  show ?thesis
    using parse_mmi_parts [OF assms(1,2) split_on_slots [OF sc assms(3,4,5)] refl]
      parse_mmi_parts [OF assms(1,2) split_on_no_sep [OF sc], of "[]"]
    by (simp add: Let_def)
qed

theorem mmi_parsed_witness:
  "parse_mmi ''*21*555**7#'' =
     Inr \<lparr>mmi_procedure = REGISTRATION, mmi_service_code = ''21'', mmi_service_name = ''CFU'',
          mmi_sia = ''555'', mmi_sib = [], mmi_sic = ''7'', mmi_raw = ''*21*555**7#''\<rparr>"
  using mmi_parsed [of ACTIVATION "''21''" "''CFU''" "''555''" "[]" "''7''"]
  by (simp add: SS_CODE_NAME_def CALL_FORWARDING_def)

text \<open>
  whatever string is accepted, the request is consistent: the service name is the table's
  for a code of two or three digits, the raw string is kept, a request that names a forwarded
  number is never a bare activation, and no request offers both a forwarded number and a barring
  password.
\<close>

theorem mmi_accept_consistent:
  assumes "parse_mmi s = Inr r"
  shows "dict_get SS_CODE_NAME (mmi_service_code r) = Some (mmi_service_name r) \<and>
    str_isdigit (mmi_service_code r) \<and> mmi_raw r = s \<and>
    (forwarded_number r = None \<or> mmi_procedure r \<noteq> ACTIVATION) \<and>
    (forwarded_number r = None \<or> barring_password r = None) \<and>
    (case no_reply_timer r of None \<Rightarrow> True | Some t \<Rightarrow> 5 \<le> t \<and> t \<le> 30)"
proof -
  have disjoint: "set CALL_FORWARDING \<inter> set BARRING = {}"
    by (simp add: CALL_FORWARDING_def BARRING_def)
  have "dict_get SS_CODE_NAME (mmi_service_code r) = Some (mmi_service_name r) \<and>
    str_isdigit (mmi_service_code r) \<and> mmi_raw r = s \<and>
    (mmi_service_name r \<notin> set CALL_FORWARDING \<or> mmi_sia r = [] \<or> mmi_procedure r \<noteq> ACTIVATION)"
    using assms
    by (auto simp: parse_mmi_def Let_def res_simps split: if_splits option.splits)
  moreover have "forwarded_number r = None \<or> barring_password r = None"
    using disjoint by (auto simp: forwarded_number_def barring_password_def)
  ultimately show ?thesis
    by (auto simp: forwarded_number_def no_reply_timer_def split: option.splits)
qed

theorem mmi_accept_consistent_witness:
  "\<exists>r. parse_mmi ''*21*555#'' = Inr r \<and> (forwarded_number r = None \<or> mmi_procedure r \<noteq> ACTIVATION)"
proof -
  obtain r where r: "parse_mmi ''*21*555#'' = Inr r"
    by (simp add: parse_mmi_def ends_with_def mmi_prefix_def starts_with_def str_isdigit_def is_digit_def
        SS_CODE_NAME_def Let_def)
  from mmi_accept_consistent [OF r] r show ?thesis by blast
qed

text \<open>
  an Invoke component is well formed on every input: its length octet is the number of
  octets behind it in the short form, the identifier and the operation code are one-octet
  integers, and whatever does not fit is refused.
\<close>

theorem invoke_frame_layout:
  "encode_invoke_frame i op params =
     (if i < 0 \<or> 255 < i then Inl (ValueError ''invoke_id must fit in one byte'')
      else if 121 < length params
           then Inl (ValueError ''body > 127 bytes; long-form length not implemented'')
      else Inr ([byte_of 0xA1, byte_of (6 + length params), byte_of 2, byte_of 1, byte_of (nat i),
                 byte_of 2, byte_of 1, byte_of (nat (op_value op))] @ params))"
proof -
  have op: "0 \<le> op_value op" "op_value op \<le> 255" "op_value op < 256" by (cases op; simp)+
  have "py_bytes [COMPONENT_INVOKE, int (6 + length params)] = Inr [byte_of 0xA1, byte_of (6 + length params)]"
    if "length params \<le> 121"
    using that by (simp add: py_byte_def COMPONENT_INVOKE_def nat_add_distrib)
  then show ?thesis
    using op by (auto simp: encode_invoke_frame_def Let_def py_byte_def not_le not_less)
qed

end
