(* ===== verification/Security.thy ===== *)
theory Security
  imports Prelude
begin

text \<open>
  The security primitives of \<open>tester/src/protocol/security.py\<close>: rule validation, the per-key
  rate limiter, the GTP-U perimeter check and the lawful-intercept store.

  Points in time are integers (seconds); the current time, which the source takes from an
  argument or from the clock, is always an argument.  Warrants are values: the source's list of
  active targets holds the objects of the warrant dictionary, and every operation that changes
  such an object rebuilds that list before it returns.
\<close>

section \<open>Core security\<close>

definition PROTOCOLS :: "string list" where
  "PROTOCOLS = [''ngap'', ''nas'', ''gtpu'', ''sbi'', ''any'']"

definition ACTIONS :: "string list" where
  "ACTIONS = [''allow'', ''deny'', ''rate_limit'']"

definition IDS_SEVERITIES :: "string list" where
  "IDS_SEVERITIES = [''INFO'', ''WARNING'', ''ERROR'', ''CRITICAL'']"

record firewall_rule =
  fw_name :: string
  fw_protocol :: string
  fw_action :: string

definition validate_firewall_rule :: "firewall_rule \<Rightarrow> string option" where
  "validate_firewall_rule r =
     (if fw_name r = [] then Some ''name required''
      else if fw_protocol r \<notin> set PROTOCOLS then Some ''invalid protocol''
      else if fw_action r \<notin> set ACTIONS then Some ''invalid action''
      else None)"

record ids_signature =
  ids_name :: string
  ids_pattern :: string
  ids_severity :: string

definition validate_ids_signature :: "ids_signature \<Rightarrow> string option" where
  "validate_ids_signature s =
     (if ids_name s = [] \<or> ids_pattern s = [] then Some ''name and pattern required''
      else if ids_severity s \<notin> set IDS_SEVERITIES then Some ''invalid severity''
      else None)"

record security_policy =
  sp_name :: string
  sp_enabled :: bool
  sp_rate_limit_req_per_sec :: int
  sp_rate_limit_window_sec :: int
  sp_block_on_failure_count :: int

definition default_policies :: "security_policy list" where
  "default_policies = map (\<lambda>(n, r, w, b). \<lparr>sp_name = n, sp_enabled = True, sp_rate_limit_req_per_sec = r,
       sp_rate_limit_window_sec = w, sp_block_on_failure_count = b\<rparr>)
     [(''ngap_signalling'', 100, 10, 10), (''nas_auth'', 5, 60, 5),
      (''gtpu_traffic'', 10000, 1, 0), (''s1ap_signalling'', 100, 10, 10)]"

section \<open>Rate limiter\<close>

record bucket =
  bk_count :: int
  bk_reset_at :: int

type_synonym rate_limiter = "(string, bucket) dict"

definition rl_check :: "string \<Rightarrow> int \<Rightarrow> int \<Rightarrow> int \<Rightarrow> rate_limiter \<Rightarrow> bool \<times> rate_limiter" where
  "rl_check key max_per_window window_s now rl =
     (case dict_get rl key of
        None \<Rightarrow> (True, dict_set key \<lparr>bk_count = 1, bk_reset_at = now + window_s\<rparr> rl)
      | Some b \<Rightarrow>
          if now > bk_reset_at b
          then (True, dict_set key \<lparr>bk_count = 1, bk_reset_at = now + window_s\<rparr> rl)
          else let b = b\<lparr>bk_count := bk_count b + 1\<rparr>
               in (bk_count b \<le> max_per_window, dict_set key b rl))"

definition rl_reset :: "rate_limiter \<Rightarrow> rate_limiter" where
  "rl_reset rl = []"

definition check_gtpu_packet :: "int \<Rightarrow> string \<Rightarrow> string \<Rightarrow> int \<Rightarrow> bool" where
  "check_gtpu_packet teid source_ip dest_ip packet_size =
     (if teid = 0 then False else if packet_size > 9000 then False else True)"

fun rl_run :: "string \<Rightarrow> int \<Rightarrow> int \<Rightarrow> int list \<Rightarrow> rate_limiter \<Rightarrow> bool list" where
  \<comment> \<open>the verdicts on a sequence of requests of one key, with their times\<close>
  "rl_run key m w [] rl = []"
| "rl_run key m w (t # ts) rl = (let (ok, rl') = rl_check key m w t rl in ok # rl_run key m w ts rl')"

section \<open>Lawful intercept\<close>

definition SCOPES :: "string list" where "SCOPES = [''iri'', ''cc'', ''iri+cc'']"

datatype warrant_status = active | expired | revoked

record warrant =
  w_warrant_id :: string
  w_authority :: string
  w_case_reference :: string
  w_target_imsi :: string
  w_scope :: string
  w_start_time :: "int option"
  w_end_time :: "int option"
  w_status :: warrant_status

definition validate_warrant :: "warrant \<Rightarrow> string option" where
  "validate_warrant w =
     (if w_warrant_id w = [] \<or> w_authority w = [] \<or> w_case_reference w = [] \<or> w_target_imsi w = []
      then Some ''warrant_id, authority, case_reference, target_imsi all required''
      else if w_scope w \<notin> set SCOPES then Some ''invalid scope''
      else None)"

record iri_event =
  iri_warrant_id :: string
  iri_event_type :: string
  iri_target_imsi :: string
  iri_event_data :: "(string, string) dict"
  iri_timestamp :: int
  iri_delivered :: bool

datatype cc_status = cc_active | cc_stopped

record cc_session =
  cc_warrant_id :: string
  cc_target_imsi :: string
  cc_session_type :: string
  cc_pdu_session_id :: int
  cc_call_id :: string
  cc_status :: cc_status

record li_store =
  li_warrants :: "(string, warrant) dict"
  li_iri_events :: "iri_event list"
  li_cc_sessions :: "cc_session list"
  li_active_targets :: "(string, warrant list) dict"

definition new_li_store :: li_store where
  "new_li_store = \<lparr>li_warrants = [], li_iri_events = [], li_cc_sessions = [], li_active_targets = []\<rparr>"

definition in_force :: "int \<Rightarrow> warrant \<Rightarrow> bool" where
  \<comment> \<open>the three \<open>continue\<close> tests of \<open>_refresh_targets\<close>\<close>
  "in_force now w \<longleftrightarrow> w_status w = active \<and>
     \<not> (case w_start_time w of None \<Rightarrow> False | Some s \<Rightarrow> s > now) \<and>
     \<not> (case w_end_time w of None \<Rightarrow> False | Some e \<Rightarrow> e \<le> now)"

definition add_target :: "(string, warrant list) dict \<Rightarrow> warrant \<Rightarrow> (string, warrant list) dict" where
  \<comment> \<open>\<open>out.setdefault(w.target_imsi, []).append(w)\<close>\<close>
  "add_target out w = dict_set (w_target_imsi w)
     ((case dict_get out (w_target_imsi w) of None \<Rightarrow> [] | Some ws \<Rightarrow> ws) @ [w]) out"

definition refresh_targets :: "int \<Rightarrow> li_store \<Rightarrow> li_store" where
  "refresh_targets now st = st\<lparr>li_active_targets :=
     foldl (\<lambda>out w. if in_force now w then add_target out w else out) [] (map snd (li_warrants st))\<rparr>"

definition create_warrant :: "warrant \<Rightarrow> int \<Rightarrow> li_store \<Rightarrow> string option \<times> li_store" where
  "create_warrant w now st =
     (case validate_warrant w of
        Some err \<Rightarrow> (Some err, st)
      | None \<Rightarrow>
          let w = (case w_start_time w of None \<Rightarrow> w\<lparr>w_start_time := Some now\<rparr> | Some _ \<Rightarrow> w);
              w = (case w_end_time w of None \<Rightarrow> w\<lparr>w_end_time := Some (now + 30 * 86400)\<rparr> | Some _ \<Rightarrow> w)
          in (None, refresh_targets now (st\<lparr>li_warrants := dict_set (w_warrant_id w) w (li_warrants st)\<rparr>)))"

definition revoke_warrant :: "string \<Rightarrow> int \<Rightarrow> li_store \<Rightarrow> li_store" where
  "revoke_warrant wid now st =
     (case dict_get (li_warrants st) wid of
        None \<Rightarrow> st
      | Some w \<Rightarrow> refresh_targets now
          (st\<lparr>li_warrants := dict_set wid (w\<lparr>w_status := revoked\<rparr>) (li_warrants st)\<rparr>))"

definition lapsed :: "int \<Rightarrow> warrant \<Rightarrow> bool" where
  "lapsed now w \<longleftrightarrow> w_status w = active \<and> (case w_end_time w of None \<Rightarrow> False | Some e \<Rightarrow> e < now)"

definition expire_warrants :: "int \<Rightarrow> li_store \<Rightarrow> string list \<times> li_store" where
  "expire_warrants now st =
     (let expired_ids = map fst (filter (\<lambda>(k, w). lapsed now w) (li_warrants st));
          st' = st\<lparr>li_warrants := map (\<lambda>(k, w). (k, if lapsed now w then w\<lparr>w_status := expired\<rparr> else w)) (li_warrants st)\<rparr>
      in (expired_ids, if expired_ids \<noteq> [] then refresh_targets now st' else st'))"

definition warrants_for_imsi :: "string \<Rightarrow> li_store \<Rightarrow> warrant list" where
  "warrants_for_imsi imsi st = (case dict_get (li_active_targets st) imsi of None \<Rightarrow> [] | Some ws \<Rightarrow> ws)"

definition capture_iri :: "string \<Rightarrow> string \<Rightarrow> (string, string) dict \<Rightarrow> int \<Rightarrow> li_store \<Rightarrow> nat \<times> li_store" where
  "capture_iri event_type imsi event_data now st =
     (let ws = filter (\<lambda>w. w_scope w \<in> {''iri'', ''iri+cc''}) (warrants_for_imsi imsi st)
      in (length ws, st\<lparr>li_iri_events := li_iri_events st @
            map (\<lambda>w. \<lparr>iri_warrant_id = w_warrant_id w, iri_event_type = event_type, iri_target_imsi = imsi,
                      iri_event_data = event_data, iri_timestamp = now, iri_delivered = False\<rparr>) ws\<rparr>))"

definition check_and_activate_cc :: "string \<Rightarrow> int \<Rightarrow> string \<Rightarrow> string \<Rightarrow> li_store \<Rightarrow> nat \<times> li_store" where
  "check_and_activate_cc imsi pdu_session_id call_id session_type st =
     (let ws = filter (\<lambda>w. w_scope w \<in> {''cc'', ''iri+cc''}) (warrants_for_imsi imsi st)
      in (length ws, st\<lparr>li_cc_sessions := li_cc_sessions st @
            map (\<lambda>w. \<lparr>cc_warrant_id = w_warrant_id w, cc_target_imsi = imsi,
                      cc_session_type = (if session_type = [] then ''data'' else session_type),
                      cc_pdu_session_id = pdu_session_id, cc_call_id = call_id, cc_status = cc_active\<rparr>) ws\<rparr>))"

definition deactivate_cc :: "string \<Rightarrow> string \<Rightarrow> li_store \<Rightarrow> nat \<times> li_store" where
  "deactivate_cc wid imsi st =
     (let hit = (\<lambda>s. cc_warrant_id s = wid \<and> cc_target_imsi s = imsi \<and> cc_status s = cc_active)
      in (length (filter hit (li_cc_sessions st)),
          st\<lparr>li_cc_sessions := map (\<lambda>s. if hit s then s\<lparr>cc_status := cc_stopped\<rparr> else s) (li_cc_sessions st)\<rparr>))"

definition active_cc_sessions :: "string \<Rightarrow> li_store \<Rightarrow> cc_session list" where
  "active_cc_sessions imsi st =
     filter (\<lambda>s. cc_status s = cc_active \<and> (imsi = [] \<or> cc_target_imsi s = imsi)) (li_cc_sessions st)"

definition delivery_stats :: "li_store \<Rightarrow> nat \<times> nat \<times> int" where
  \<comment> \<open>total, delivered, pending\<close>
  "delivery_stats st =
     (let total = length (li_iri_events st); delivered = length (filter iri_delivered (li_iri_events st))
      in (total, delivered, int total - int delivered))"

definition mark_delivered :: "string \<Rightarrow> li_store \<Rightarrow> nat \<times> li_store" where
  "mark_delivered wid st =
     (let hit = (\<lambda>e. iri_warrant_id e = wid \<and> \<not> iri_delivered e)
      in (length (filter hit (li_iri_events st)),
          st\<lparr>li_iri_events := map (\<lambda>e. if hit e then e\<lparr>iri_delivered := True\<rparr> else e) (li_iri_events st)\<rparr>))"

definition looks_like_imsi :: "string \<Rightarrow> bool" where
  \<comment> \<open>\<open>re.match\<close> of \<open>^\d{14,15}$\<close>: the final anchor also matches before one trailing newline\<close>
  "looks_like_imsi s =
     (let d = takeWhile is_digit s; r = dropWhile is_digit s
      in (length d = 14 \<or> length d = 15) \<and> (r = [] \<or> r = [char_of (10 :: nat)]))"

datatype li_op =
    Create warrant int
  | Revoke string int
  | Expire int
  | Capture string string "(string, string) dict" int
  | ActivateCC string int string string
  | DeactivateCC string string
  | MarkDelivered string

fun li_step :: "li_store \<Rightarrow> li_op \<Rightarrow> li_store" where
  "li_step st (Create w now) = snd (create_warrant w now st)"
| "li_step st (Revoke wid now) = revoke_warrant wid now st"
| "li_step st (Expire now) = snd (expire_warrants now st)"
| "li_step st (Capture e i d now) = snd (capture_iri e i d now st)"
| "li_step st (ActivateCC i p c t) = snd (check_and_activate_cc i p c t st)"
| "li_step st (DeactivateCC w i) = snd (deactivate_cc w i st)"
| "li_step st (MarkDelivered w) = snd (mark_delivered w st)"

section \<open>Rate limiter: properties\<close>

lemma rl_run_window:
  assumes "dict_get rl key = Some b" "list_all (\<lambda>t. t \<le> bk_reset_at b) ts" "1 \<le> bk_count b"
  shows "rl_run key m w ts rl = map (\<lambda>i. bk_count b + 1 + int i \<le> m) [0..<length ts]"
  using assms
proof (induction ts arbitrary: rl b)
  case Nil
  then show ?case by simp
next
  case (Cons t ts)
  let ?b = "b\<lparr>bk_count := bk_count b + 1\<rparr>"
  have "rl_check key m w t rl = (bk_count b + 1 \<le> m, dict_set key ?b rl)"
    using Cons.prems by (simp add: rl_check_def Let_def)
  moreover have "rl_run key m w ts (dict_set key ?b rl) = map (\<lambda>i. bk_count ?b + 1 + int i \<le> m) [0..<length ts]"
    using Cons.prems by (intro Cons.IH) simp_all
  moreover have "[0..<length (t # ts)] = 0 # map Suc [0..<length ts]"
    by (simp add: map_Suc_upt upt_conv_Cons del: upt_Suc)
  ultimately show ?case by (simp add: add.assoc del: upt_Suc)
qed

lemma count_true_upt: "length (filter id (map (\<lambda>i. i < k) [0..<n])) = min k n"
proof (induction n)
  case (Suc n)
  then show ?case by (cases "n < k") auto
qed simp

text \<open>
  within one window the limiter admits exactly the first requests up to the limit, and
  always the very first one: of the requests of a new key that arrive no later than the window
  after the first, as many are admitted as the limit allows, but at least one even when the limit
  is zero.
\<close>

theorem rate_limit_window:
  assumes "dict_get rl key = None" "list_all (\<lambda>t. t \<le> t0 + w) ts"
  shows "length (filter id (rl_run key m w (t0 # ts) rl)) = max 1 (min (nat m) (1 + length ts))"
proof -
  let ?b = "\<lparr>bk_count = 1, bk_reset_at = t0 + w\<rparr>"
  have "rl_run key m w (t0 # ts) rl = True # map (\<lambda>i. 2 + int i \<le> m) [0..<length ts]"
    using assms rl_run_window [of "dict_set key ?b rl" key ?b ts m w] by (simp add: rl_check_def)
  moreover have "(\<lambda>i. 2 + int i \<le> m) = (\<lambda>i. i < nat m - 1)" by (auto simp: fun_eq_iff)
  ultimately show ?thesis using count_true_upt [of "nat m - 1" "length ts"]
    by (cases "nat m") (simp_all add: Let_def)
qed

theorem rate_limit_window_witness:
  "length (filter id (rl_run ''k'' 2 10 [0, 1, 5, 10] [])) = max 1 (min (nat 2) (1 + length [1 :: int, 5, 10]))"
  by (rule rate_limit_window) simp_all

section \<open>Lawful intercept: properties\<close>

lemma add_target_get:
  "dict_get (add_target out w) imsi =
     (if imsi = w_target_imsi w then Some ((case dict_get out imsi of None \<Rightarrow> [] | Some ws \<Rightarrow> ws) @ [w])
      else dict_get out imsi)"
  by (simp add: add_target_def)

lemma targets_fold:
  "(case dict_get (foldl (\<lambda>out w. if in_force now w then add_target out w else out) out ws) imsi of
      None \<Rightarrow> [] | Some xs \<Rightarrow> xs) =
   (case dict_get out imsi of None \<Rightarrow> [] | Some xs \<Rightarrow> xs) @
     filter (\<lambda>w. in_force now w \<and> w_target_imsi w = imsi) ws"
  by (induction ws arbitrary: out) (auto simp: add_target_get split: option.splits)

lemma warrants_refresh:
  "warrants_for_imsi imsi (refresh_targets now st) =
     filter (\<lambda>w. in_force now w \<and> w_target_imsi w = imsi) (map snd (li_warrants st))"
  using targets_fold [of now "[]" "map snd (li_warrants st)" imsi]
  by (simp add: warrants_for_imsi_def refresh_targets_def)

definition li_inv :: "li_store \<Rightarrow> bool" where
  \<comment> \<open>keys are identifiers, and every active target is a stored warrant that is active\<close>
  "li_inv st \<longleftrightarrow> dict_ok (li_warrants st) \<and>
     (\<forall>(k, w) \<in> set (li_warrants st). w_warrant_id w = k) \<and>
     (\<forall>imsi. \<forall>w \<in> set (warrants_for_imsi imsi st).
        (w_warrant_id w, w) \<in> set (li_warrants st) \<and> w_status w = active \<and> w_target_imsi w = imsi)"

lemma li_inv_refresh:
  "dict_ok (li_warrants st) \<Longrightarrow> \<forall>(k, w) \<in> set (li_warrants st). w_warrant_id w = k \<Longrightarrow>
     li_inv (refresh_targets now st)"
proof -
  assume a: "dict_ok (li_warrants st)" "\<forall>(k, w) \<in> set (li_warrants st). w_warrant_id w = k"
  have "li_warrants (refresh_targets now st) = li_warrants st" by (simp add: refresh_targets_def)
  with a show ?thesis by (auto simp: li_inv_def warrants_refresh in_force_def)
qed


lemma li_inv_queues [simp]:
  "li_inv (st\<lparr>li_iri_events := es\<rparr>) = li_inv st" "li_inv (st\<lparr>li_cc_sessions := cs\<rparr>) = li_inv st"
  by (simp_all add: li_inv_def warrants_for_imsi_def)

lemma dict_ok_map_values:
  "dict_ok (map (\<lambda>(k, v). (k, f k v)) d) = dict_ok d"
  by (simp add: dict_ok_def comp_def case_prod_beta)

lemma li_inv_create: "li_inv st \<Longrightarrow> li_inv (snd (create_warrant w now st))"
proof (cases "validate_warrant w")
  case None
  assume inv: "li_inv st"
  define w1 where "w1 = (case w_start_time w of None \<Rightarrow> w\<lparr>w_start_time := Some now\<rparr> | Some _ \<Rightarrow> w)"
  define w2 where "w2 = (case w_end_time w1 of None \<Rightarrow> w1\<lparr>w_end_time := Some (now + 30 * 86400)\<rparr> | Some _ \<Rightarrow> w1)"
  have "li_inv (refresh_targets now (st\<lparr>li_warrants := dict_set (w_warrant_id w2) w2 (li_warrants st)\<rparr>))"
    using inv by (intro li_inv_refresh) (auto simp: li_inv_def dest!: dict_set_mem)
  with None show ?thesis by (simp add: create_warrant_def Let_def flip: w1_def w2_def)
qed (simp add: create_warrant_def)

lemma li_inv_revoke: "li_inv st \<Longrightarrow> li_inv (revoke_warrant wid now st)"
proof (cases "dict_get (li_warrants st) wid")
  case (Some w)
  assume inv: "li_inv st"
  with Some have "w_warrant_id w = wid" by (auto simp: li_inv_def dict_get_in_set)
  then have "li_inv (refresh_targets now
      (st\<lparr>li_warrants := dict_set wid (w\<lparr>w_status := revoked\<rparr>) (li_warrants st)\<rparr>))"
    using inv by (intro li_inv_refresh) (auto simp: li_inv_def dest!: dict_set_mem)
  with Some show ?thesis by (simp add: revoke_warrant_def)
qed (simp add: revoke_warrant_def)

lemma li_inv_expire: "li_inv st \<Longrightarrow> li_inv (snd (expire_warrants now st))"
proof (cases "filter (\<lambda>(k, w). lapsed now w) (li_warrants st) = []")
  case True
  assume inv: "li_inv st"
  have "map (\<lambda>(k, w). (k, if lapsed now w then w\<lparr>w_status := expired\<rparr> else w)) (li_warrants st) = li_warrants st"
    using True by (intro map_idI) (auto simp: filter_empty_conv)
  then show ?thesis using inv True by (simp add: expire_warrants_def Let_def)
next
  case False
  assume inv: "li_inv st"
  let ?ws = "map (\<lambda>(k, w). (k, if lapsed now w then w\<lparr>w_status := expired\<rparr> else w)) (li_warrants st)"
  have "li_inv (refresh_targets now (st\<lparr>li_warrants := ?ws\<rparr>))"
    using inv dict_ok_map_values [of "\<lambda>k w. if lapsed now w then w\<lparr>w_status := expired\<rparr> else w" "li_warrants st"]
    by (intro li_inv_refresh) (auto simp: li_inv_def)
  with False show ?thesis by (simp add: expire_warrants_def Let_def)
qed

lemma li_inv_new [simp]: "li_inv new_li_store"
  by (simp add: li_inv_def new_li_store_def warrants_for_imsi_def)

interpretation li: step_system li_step li_inv
proof unfold_locales
  show "li_inv s \<Longrightarrow> li_inv (li_step s op)" for s op
    by (cases op) (simp_all add: li_inv_create li_inv_revoke li_inv_expire capture_iri_def
        check_and_activate_cc_def deactivate_cc_def mark_delivered_def Let_def)
qed

lemma li_inv_target:
  "li_inv st \<Longrightarrow> w \<in> set (warrants_for_imsi imsi st) \<Longrightarrow>
     dict_get (li_warrants st) (w_warrant_id w) = Some w \<and> w_status w = active \<and> w_target_imsi w = imsi"
  by (auto simp: li_inv_def dict_get_in_set)

text \<open>
  C27: interception stays inside the warrants: after any sequence of operations, capturing an
  event on a subscriber appends one undelivered record for each active target warrant of scope
  IRI on exactly that subscriber and nothing else, every such warrant is stored under its own
  identifier with status active, and the reported number is the number of new records.
\<close>

theorem capture_within_warrants:
  "let st = foldl li_step new_li_store ops;
       (n, st') = capture_iri ev imsi d now st;
       new = drop (length (li_iri_events st)) (li_iri_events st') in
     take (length (li_iri_events st)) (li_iri_events st') = li_iri_events st \<and>
     length new = n \<and>
     map iri_warrant_id new = map w_warrant_id (filter (\<lambda>w. w_scope w \<in> {''iri'', ''iri+cc''}) (warrants_for_imsi imsi st)) \<and>
     list_all (\<lambda>e. iri_target_imsi e = imsi \<and> \<not> iri_delivered e \<and>
       (case dict_get (li_warrants st) (iri_warrant_id e) of
          None \<Rightarrow> False
        | Some w \<Rightarrow> w_status w = active \<and> w_target_imsi w = imsi \<and> w_scope w \<noteq> ''cc'')) new \<and>
     li_warrants st' = li_warrants st"
proof -
  define st where "st = foldl li_step new_li_store ops"
  have inv: "li_inv st" unfolding st_def by (rule li.run_inv) simp
  show ?thesis
    using li_inv_target [OF inv]
    by (auto simp: capture_iri_def Let_def list_all_iff comp_def simp flip: st_def)
qed

text \<open>What an operation other than creating a warrant can do to a stored warrant.\<close>

definition dead :: "string \<Rightarrow> li_store \<Rightarrow> bool" where
  "dead wid st \<longleftrightarrow> (case dict_get (li_warrants st) wid of None \<Rightarrow> True | Some w \<Rightarrow> w_status w \<noteq> active)"

fun creates :: "string \<Rightarrow> li_op \<Rightarrow> bool" where
  "creates wid (Create w now) = (w_warrant_id w = wid)"
| "creates wid _ = False"

lemma dict_get_map_values: "dict_get (map (\<lambda>(k, v). (k, f v)) d) k = map_option f (dict_get d k)"
  by (induction d) auto

lemma dead_step: "dead wid st \<Longrightarrow> \<not> creates wid op \<Longrightarrow> dead wid (li_step st op)"
proof (cases op)
  case (Create w now)
  assume "dead wid st" "\<not> creates wid op"
  then show ?thesis using Create
    by (auto simp: create_warrant_def dead_def refresh_targets_def Let_def split: option.splits)
next
  case (Expire now)
  assume "dead wid st" "\<not> creates wid op"
  then show ?thesis using Expire
    by (auto simp: expire_warrants_def dead_def refresh_targets_def Let_def dict_get_map_values
        split: option.splits)
qed (auto simp: revoke_warrant_def dead_def refresh_targets_def capture_iri_def check_and_activate_cc_def
       deactivate_cc_def mark_delivered_def Let_def split: option.splits if_splits)

lemma dead_run: "dead wid st \<Longrightarrow> list_all (\<lambda>op. \<not> creates wid op) ops \<Longrightarrow> dead wid (foldl li_step st ops)"
  by (induction ops arbitrary: st) (simp_all add: dead_step)

text \<open>
  C35: a revoked warrant intercepts nothing any more: after its revocation, whatever operations
  follow short of issuing a new warrant under the same identifier, it is not among the targets of
  any subscriber, so no event or session is recorded for it.
\<close>

theorem revoked_warrant_inert:
  assumes "list_all (\<lambda>op. \<not> creates wid op) later"
  shows "wid \<notin> w_warrant_id ` set (warrants_for_imsi imsi
           (foldl li_step (revoke_warrant wid now (foldl li_step new_li_store ops)) later))"
proof -
  define st where "st = foldl li_step new_li_store ops"
  define end_st where "end_st = foldl li_step (revoke_warrant wid now st) later"
  have inv: "li_inv st" unfolding st_def by (rule li.run_inv) simp
  then have inv': "li_inv end_st" unfolding end_st_def by (intro li.run_inv li_inv_revoke)
  have "dead wid (revoke_warrant wid now st)"
    by (auto simp: dead_def revoke_warrant_def refresh_targets_def split: option.splits)
  then have "dead wid end_st" unfolding end_st_def using assms by (rule dead_run)
  then have "w_warrant_id w \<noteq> wid" if "w \<in> set (warrants_for_imsi imsi end_st)" for w
    using li_inv_target [OF inv' that] by (auto simp: dead_def)
  then show ?thesis by (auto simp: end_st_def st_def)
qed

theorem revoked_warrant_inert_witness:
  "''W1'' \<notin> w_warrant_id ` set (warrants_for_imsi ''001010000000001''
     (foldl li_step (revoke_warrant ''W1'' 5 (foldl li_step new_li_store
        [Create \<lparr>w_warrant_id = ''W1'', w_authority = ''A'', w_case_reference = ''C'',
                 w_target_imsi = ''001010000000001'', w_scope = ''iri'', w_start_time = None,
                 w_end_time = None, w_status = active\<rparr> 0])) [Expire 7]))"
  by (rule revoked_warrant_inert) simp

text \<open>
  a warrant keeps intercepting after its end time: the targets are recomputed only when a
  warrant is created, revoked or expired, so until the next of these operations an event is
  captured under a warrant that is no longer in force.
\<close>

theorem capture_after_end_time:
  "let st = foldl li_step new_li_store
        [Create \<lparr>w_warrant_id = ''W1'', w_authority = ''A'', w_case_reference = ''C'',
                 w_target_imsi = ''001'', w_scope = ''iri'', w_start_time = Some 0,
                 w_end_time = Some 100, w_status = active\<rparr> 0]
   in fst (capture_iri ''attach'' ''001'' [] 500 st) = 1 \<and>
      \<not> in_force 500 (the (dict_get (li_warrants st) ''W1''))"
  by (simp add: create_warrant_def validate_warrant_def SCOPES_def new_li_store_def refresh_targets_def
      add_target_def dict_set_def in_force_def capture_iri_def warrants_for_imsi_def Let_def)

text \<open>
  the identity check accepts a string of 14 or 15 digits followed by a newline.
\<close>

theorem looks_like_imsi_newline:
  "looks_like_imsi (''00101000000001'' @ [char_of (10 :: nat)])"
  by (simp add: looks_like_imsi_def Let_def is_digit_def)

end
