(* ===== verification/Safety.thy ===== *)
theory Safety
  imports Complex_Main Prelude
begin

text \<open>
  The public-safety primitives of \<open>tester/src/protocol/safety.py\<close>: the life of a public warning
  alert, the IOPS state of a base station with its credential cache, disaster declarations and
  admission, and the operator's access gates.

  Time stamps are integers and arguments; the random numbers of \<open>create_alert\<close> and of the
  probabilistic barring are arguments; a barring factor, a float that is only compared, is a
  rational number.
\<close>

section \<open>Public warning\<close>

definition PWS_ALERT_TYPES :: "string list" where
  "PWS_ALERT_TYPES = [''etws'', ''cmas'', ''eu_alert'', ''test'']"
definition PWS_SEVERITIES :: "string list" where
  "PWS_SEVERITIES = [''extreme'', ''severe'', ''moderate'', ''minor'', ''unknown'']"
definition PWS_URGENCIES :: "string list" where
  "PWS_URGENCIES = [''immediate'', ''expected'', ''future'', ''past'', ''unknown'']"
definition PWS_CBS_PAGE_CHARS :: nat where "PWS_CBS_PAGE_CHARS = 82"
definition PWS_CBS_MAX_PAGES :: nat where "PWS_CBS_MAX_PAGES = 15"

datatype pws_status = draft | broadcasting | completed | cancelled

record pws_alert =
  pa_id :: nat
  pa_message_id :: nat
  pa_serial_number :: nat
  pa_alert_type :: string
  pa_message_text :: string
  pa_severity :: string
  pa_urgency :: string
  pa_target_areas :: "string list option"
  pa_number_of_broadcasts :: int
  pa_repetition_period_s :: int
  pa_status :: pws_status
  pa_broadcast_at :: "int option"
  pa_completed_at :: "int option"

type_synonym pws_store = "(nat, pws_alert) dict"

definition next_alert_id :: "pws_store \<Rightarrow> nat" where
  "next_alert_id store = (if store \<noteq> [] then Max (set (map fst store)) + 1 else 1)"

definition create_alert ::
  "string \<Rightarrow> string \<Rightarrow> string \<Rightarrow> string \<Rightarrow> string list \<Rightarrow> int \<Rightarrow> int \<Rightarrow> nat \<Rightarrow> nat \<Rightarrow>
   pws_store \<Rightarrow> pws_alert res \<times> pws_store" where
  \<comment> \<open>\<open>mid\<close> and \<open>sn\<close> are the two random numbers; language and category are passed through by the
     source without any use and are left out\<close>
  "create_alert message_text alert_type severity urgency target_areas nb rp mid sn store =
     (if message_text = [] then (Inl (ValueError ''message_text is required''), store)
      else if alert_type \<notin> set PWS_ALERT_TYPES then (Inl (ValueError ''invalid alert_type''), store)
      else if severity \<notin> set PWS_SEVERITIES then (Inl (ValueError ''invalid severity''), store)
      else if urgency \<notin> set PWS_URGENCIES then (Inl (ValueError ''invalid urgency''), store)
      else let next_id = next_alert_id store;
               alert = \<lparr>pa_id = next_id, pa_message_id = mid, pa_serial_number = sn,
                        pa_alert_type = alert_type, pa_message_text = message_text,
                        pa_severity = severity, pa_urgency = urgency,
                        pa_target_areas = (if target_areas = [] then None else Some target_areas),
                        pa_number_of_broadcasts = nb, pa_repetition_period_s = rp,
                        pa_status = draft, pa_broadcast_at = None, pa_completed_at = None\<rparr>
           in (Inr alert, dict_set next_id alert store))"

definition broadcast_alert :: "nat \<Rightarrow> int \<Rightarrow> pws_store \<Rightarrow> pws_alert res \<times> pws_store" where
  "broadcast_alert alert_id now store =
     (case dict_get store alert_id of
        None \<Rightarrow> (Inl KeyError, store)
      | Some a \<Rightarrow>
          if pa_status a \<noteq> draft then (Inl (ValueError ''alert not in draft state''), store)
          else let a = a\<lparr>pa_status := broadcasting, pa_broadcast_at := Some now\<rparr>
               in (Inr a, dict_set alert_id a store))"

definition cancel_alert :: "nat \<Rightarrow> pws_store \<Rightarrow> pws_alert res \<times> pws_store" where
  "cancel_alert alert_id store =
     (case dict_get store alert_id of
        None \<Rightarrow> (Inl KeyError, store)
      | Some a \<Rightarrow>
          let a = (if pa_status a \<in> {draft, broadcasting} then a\<lparr>pa_status := cancelled\<rparr> else a)
          in (Inr a, dict_set alert_id a store))"

definition complete_alert :: "nat \<Rightarrow> int \<Rightarrow> pws_store \<Rightarrow> pws_alert res \<times> pws_store" where
  "complete_alert alert_id now store =
     (case dict_get store alert_id of
        None \<Rightarrow> (Inl KeyError, store)
      | Some a \<Rightarrow>
          let a = (if pa_status a = broadcasting
                   then a\<lparr>pa_status := completed, pa_completed_at := Some now\<rparr> else a)
          in (Inr a, dict_set alert_id a store))"

record cbs_preview =
  cbs_message_id :: nat
  cbs_serial_number :: nat
  cbs_pages :: nat
  cbs_text_length :: nat

definition encode_cbs_message :: "string \<Rightarrow> nat \<Rightarrow> nat \<Rightarrow> cbs_preview" where
  "encode_cbs_message txt message_id serial_number =
     (let pages = max 1 ((length txt + PWS_CBS_PAGE_CHARS) div (PWS_CBS_PAGE_CHARS + 1));
          pages = min pages PWS_CBS_MAX_PAGES
      in \<lparr>cbs_message_id = message_id, cbs_serial_number = serial_number, cbs_pages = pages,
          cbs_text_length = length txt\<rparr>)"

datatype pws_op =
    CreateAlert string string string string nat nat
  | BroadcastAlert nat int
  | CancelAlert nat
  | CompleteAlert nat int

fun pws_step :: "pws_store \<Rightarrow> pws_op \<Rightarrow> pws_store" where
  "pws_step st (CreateAlert t a s u mid sn) = snd (create_alert t a s u [] 10 60 mid sn st)"
| "pws_step st (BroadcastAlert i now) = snd (broadcast_alert i now st)"
| "pws_step st (CancelAlert i) = snd (cancel_alert i st)"
| "pws_step st (CompleteAlert i now) = snd (complete_alert i now st)"

section \<open>Isolated operation (IOPS)\<close>

datatype iops_state = normal | backhaul_lost | iops_activated | restoring | failed

fun iops_valid_transitions :: "iops_state \<Rightarrow> iops_state list" where
  "iops_valid_transitions normal = [backhaul_lost]"
| "iops_valid_transitions backhaul_lost = [iops_activated, normal, failed]"
| "iops_valid_transitions iops_activated = [restoring, failed]"
| "iops_valid_transitions restoring = [normal, iops_activated]"
| "iops_valid_transitions failed = [normal]"

fun iops_state_to_event :: "iops_state \<Rightarrow> string" where
  "iops_state_to_event backhaul_lost = ''backhaul_lost''"
| "iops_state_to_event iops_activated = ''iops_activated''"
| "iops_state_to_event restoring = ''restoring''"
| "iops_state_to_event normal = ''restored''"
| "iops_state_to_event failed = ''failed''"

definition iops_can_transition :: "iops_state \<Rightarrow> iops_state \<Rightarrow> bool" where
  "iops_can_transition current target \<longleftrightarrow> List.member (iops_valid_transitions current) target"

record iops_gnb =
  ig_gnb_id :: string
  ig_state :: iops_state
  ig_events :: "(string \<times> string) list"

definition new_gnb :: "string \<Rightarrow> iops_gnb" where
  "new_gnb g = \<lparr>ig_gnb_id = g, ig_state = normal, ig_events = []\<rparr>"

definition iops_transition :: "iops_state \<Rightarrow> string \<Rightarrow> iops_gnb \<Rightarrow> bool \<times> iops_gnb" where
  "iops_transition target reason gnb =
     (if \<not> iops_can_transition (ig_state gnb) target then (False, gnb)
      else (True, gnb\<lparr>ig_state := target,
                     ig_events := ig_events gnb @ [(iops_state_to_event target, reason)]\<rparr>))"

record iops_credential =
  ic_gnb_id :: string
  ic_imsi :: string
  ic_expires_at :: int

type_synonym iops_cache = "(string \<times> string, iops_credential) dict"

definition iops_cache_credential :: "iops_credential \<Rightarrow> iops_cache \<Rightarrow> iops_cache res" where
  "iops_cache_credential c cache =
     (if ic_gnb_id c = [] \<or> ic_imsi c = [] then Inl (ValueError ''gnb_id and imsi are required'')
      else Inr (dict_set (ic_gnb_id c, ic_imsi c) c cache))"

definition iops_local_authenticate :: "iops_cache \<Rightarrow> string \<Rightarrow> string \<Rightarrow> int \<Rightarrow> bool" where
  \<comment> \<open>the field \<open>allowed\<close> of the result\<close>
  "iops_local_authenticate cache gnb_id imsi now =
     (case dict_get cache (gnb_id, imsi) of
        None \<Rightarrow> False
      | Some c \<Rightarrow> if ic_expires_at c \<le> now then False else True)"

definition IOPS_DEFAULT_LOCAL_SERVICES :: "(string \<times> bool) list" where
  \<comment> \<open>name and enabled; priority and rate limit are not read\<close>
  "IOPS_DEFAULT_LOCAL_SERVICES = [(''emergency'', True), (''ptt'', True), (''voice'', True), (''data'', True)]"

definition iops_check_service_available :: "iops_state \<Rightarrow> string \<Rightarrow> bool" where
  "iops_check_service_available state service_name =
     (if state = normal then True
      else list_ex (\<lambda>(n, e). n = service_name \<and> e) IOPS_DEFAULT_LOCAL_SERVICES)"

section \<open>Disaster roaming\<close>

record disaster_declaration =
  dd_id :: nat
  dd_name :: string
  dd_reason :: string
  dd_affected_areas :: string
  dd_active :: bool
  dd_declared_by :: string
  dd_declared_at :: int
  dd_ended_at :: "int option"

type_synonym disaster_store = "disaster_declaration list"

definition declare_disaster ::
  "string \<Rightarrow> string \<Rightarrow> string \<Rightarrow> string \<Rightarrow> int \<Rightarrow> disaster_store \<Rightarrow> disaster_declaration res \<times> disaster_store" where
  "declare_disaster name reason affected_areas declared_by now store =
     (if name = [] then (Inl (ValueError ''name is required''), store)
      else let decl = \<lparr>dd_id = (if store \<noteq> [] then dd_id (last store) + 1 else 1), dd_name = name,
                       dd_reason = reason, dd_affected_areas = affected_areas, dd_active = True,
                       dd_declared_by = (if declared_by = [] then ''system'' else declared_by),
                       dd_declared_at = now, dd_ended_at = None\<rparr>
           in (Inr decl, store @ [decl]))"

definition end_disaster :: "int \<Rightarrow> disaster_store \<Rightarrow> nat \<times> disaster_store" where
  "end_disaster now store =
     (length (filter dd_active store),
      map (\<lambda>d. if dd_active d then d\<lparr>dd_active := False, dd_ended_at := Some now\<rparr> else d) store)"

fun end_disaster_by_id :: "nat \<Rightarrow> int \<Rightarrow> disaster_store \<Rightarrow> bool \<times> disaster_store" where
  "end_disaster_by_id decl_id now [] = (False, [])"
| "end_disaster_by_id decl_id now (d # ds) =
     (if dd_id d = decl_id \<and> dd_active d
      then (True, d\<lparr>dd_active := False, dd_ended_at := Some now\<rparr> # ds)
      else let (b, ds') = end_disaster_by_id decl_id now ds in (b, d # ds'))"

definition is_disaster_active :: "disaster_store \<Rightarrow> bool" where
  "is_disaster_active store \<longleftrightarrow> list_ex dd_active store"

fun max_by_id :: "disaster_declaration \<Rightarrow> disaster_store \<Rightarrow> disaster_declaration" where
  \<comment> \<open>\<open>max(..., key=lambda d: d.id)\<close>: the first of the greatest\<close>
  "max_by_id m [] = m"
| "max_by_id m (d # ds) = max_by_id (if dd_id d > dd_id m then d else m) ds"

definition get_active_declaration :: "disaster_store \<Rightarrow> disaster_declaration option" where
  "get_active_declaration store =
     (case filter dd_active store of [] \<Rightarrow> None | d # ds \<Rightarrow> Some (max_by_id d ds))"

record admission_result =
  ar_allowed :: bool
  ar_disaster_active :: bool
  ar_declaration_id :: nat
  ar_normal_roaming :: bool

definition disaster_check_admission ::
  "disaster_store \<Rightarrow> string list \<Rightarrow> string \<Rightarrow> string \<Rightarrow> admission_result" where
  "disaster_check_admission store normal_agreements imsi hplmn =
     (case get_active_declaration store of
        None \<Rightarrow> \<lparr>ar_allowed = False, ar_disaster_active = False, ar_declaration_id = 0, ar_normal_roaming = False\<rparr>
      | Some decl \<Rightarrow> \<lparr>ar_allowed = True, ar_disaster_active = True, ar_declaration_id = dd_id decl,
                     ar_normal_roaming = (hplmn \<in> set normal_agreements)\<rparr>)"

datatype disaster_op = Declare string string string string int | EndAll int | EndOne nat int

fun disaster_step :: "disaster_store \<Rightarrow> disaster_op \<Rightarrow> disaster_store" where
  "disaster_step st (Declare n r a b t) = snd (declare_disaster n r a b t st)"
| "disaster_step st (EndAll now) = snd (end_disaster now st)"
| "disaster_step st (EndOne i now) = snd (end_disaster_by_id i now st)"

section \<open>Access gates\<close>

record forbidden_tai =
  ft_plmn_id :: string
  ft_tac :: string
  ft_reason :: string
  ft_added_by :: string

record uac_rule =
  ur_access_category :: int
  ur_barring_factor :: rat
  ur_barring_time_s :: int
  ur_enabled :: bool

type_synonym tai_store = "(string \<times> string, forbidden_tai) dict"
type_synonym plmn_store = "(string, string \<times> string) dict"
type_synonym uac_store = "(int, uac_rule) dict"

definition add_forbidden_tai :: "string \<Rightarrow> string \<Rightarrow> string \<Rightarrow> string \<Rightarrow> tai_store \<Rightarrow> tai_store res" where
  "add_forbidden_tai plmn_id tac reason added_by store =
     (if plmn_id = [] \<or> tac = [] then Inl (ValueError ''plmn_id and tac are required'')
      else Inr (dict_set (plmn_id, tac) \<lparr>ft_plmn_id = plmn_id, ft_tac = tac, ft_reason = reason,
             ft_added_by = (if added_by = [] then ''operator'' else added_by)\<rparr> store))"

definition is_forbidden_tai :: "tai_store \<Rightarrow> string \<Rightarrow> string \<Rightarrow> bool" where
  "is_forbidden_tai store plmn_id tac \<longleftrightarrow> dict_get store (plmn_id, tac) \<noteq> None"

definition add_forbidden_plmn :: "string \<Rightarrow> string \<Rightarrow> string \<Rightarrow> plmn_store \<Rightarrow> plmn_store res" where
  "add_forbidden_plmn plmn_id reason added_by store =
     (if plmn_id = [] then Inl (ValueError ''plmn_id is required'')
      else Inr (dict_set plmn_id (reason, if added_by = [] then ''operator'' else added_by) store))"

definition is_forbidden_plmn :: "plmn_store \<Rightarrow> string \<Rightarrow> bool" where
  "is_forbidden_plmn store plmn_id \<longleftrightarrow> dict_get store plmn_id \<noteq> None"

definition set_uac_barring :: "int \<Rightarrow> rat \<Rightarrow> int \<Rightarrow> bool \<Rightarrow> uac_store \<Rightarrow> uac_store res" where
  "set_uac_barring category barring_factor barring_time_s enabled store =
     (if \<not> (0 \<le> category \<and> category \<le> 63) then Inl (ValueError ''access_category must be in [0, 63]'')
      else if \<not> (0 \<le> barring_factor \<and> barring_factor \<le> 1)
      then Inl (ValueError ''barring_factor must be in [0.0, 1.0]'')
      else Inr (dict_set category \<lparr>ur_access_category = category, ur_barring_factor = barring_factor,
             ur_barring_time_s = barring_time_s, ur_enabled = enabled\<rparr> store))"

definition evaluate_uac_barring :: "uac_store \<Rightarrow> int \<Rightarrow> rat \<Rightarrow> bool \<times> int" where
  \<comment> \<open>\<open>draw\<close> is the number \<open>r.random()\<close> returns\<close>
  "evaluate_uac_barring store category draw =
     (case dict_get store category of
        None \<Rightarrow> (False, 0)
      | Some rule \<Rightarrow>
          if \<not> ur_enabled rule then (False, 0)
          else if ur_barring_factor rule \<ge> 1 then (True, ur_barring_time_s rule)
          else if ur_barring_factor rule \<le> 0 then (False, 0)
          else if draw < ur_barring_factor rule then (True, ur_barring_time_s rule)
          else (False, 0))"

datatype access_verdict = Allowed | DeniedPLMN | DeniedTAI | DeniedUAC int

definition check_access ::
  "plmn_store \<Rightarrow> tai_store \<Rightarrow> uac_store \<Rightarrow> string \<Rightarrow> string \<Rightarrow> int \<Rightarrow> rat \<Rightarrow> access_verdict" where
  \<comment> \<open>the verdict carries the cause of a denial, for barring with the back-off time\<close>
  "check_access plmns tais uacs plmn_id tac category draw =
     (if plmn_id \<noteq> [] \<and> is_forbidden_plmn plmns plmn_id then DeniedPLMN
      else if plmn_id \<noteq> [] \<and> tac \<noteq> [] \<and> is_forbidden_tai tais plmn_id tac then DeniedTAI
      else if category \<ge> 0 then
        (let (barred, backoff) = evaluate_uac_barring uacs category draw
         in if barred then DeniedUAC backoff else Allowed)
      else Allowed)"

section \<open>Properties: public warning\<close>

text \<open>The life of an alert as a relation on its status.\<close>

inductive pws_edge :: "pws_status \<Rightarrow> pws_status \<Rightarrow> bool" where
  start: "pws_edge draft broadcasting"
| cancel: "s \<in> {draft, broadcasting} \<Longrightarrow> pws_edge s cancelled"
| complete: "pws_edge broadcasting completed"

inductive_cases pws_edge_finalE: "pws_edge completed s" "pws_edge cancelled s"

lemma pws_final: "pws_edge\<^sup>*\<^sup>* s t \<Longrightarrow> s \<in> {completed, cancelled} \<Longrightarrow> t = s"
  by (induction rule: rtranclp_induct) (auto elim: pws_edge_finalE)

definition same_alert :: "pws_alert \<Rightarrow> pws_alert \<Rightarrow> bool" where
  \<comment> \<open>everything but status and time stamps\<close>
  "same_alert a b \<longleftrightarrow> pa_id a = pa_id b \<and> pa_message_id a = pa_message_id b \<and>
     pa_serial_number a = pa_serial_number b \<and> pa_message_text a = pa_message_text b \<and>
     pa_alert_type a = pa_alert_type b"

lemma next_alert_id_fresh: "dict_get store (next_alert_id store) = None"
proof (cases "store = []")
  case False
  have "k \<le> Max (set (map fst store))" if "k \<in> set (map fst store)" for k
    using that by (intro Max_ge) simp_all
  then have "next_alert_id store \<notin> fst ` set store"
    using False by (fastforce simp: next_alert_id_def)
  then show ?thesis by (simp add: map_of_eq_None_iff)
qed (simp add: next_alert_id_def)

lemma pws_step_alert:
  assumes "dict_get st i = Some a"
  shows "\<exists>a'. dict_get (pws_step st op) i = Some a' \<and> pws_edge\<^sup>=\<^sup>= (pa_status a) (pa_status a') \<and> same_alert a a'"
proof (cases op)
  case (CreateAlert t ty s u mid sn)
  have "i \<noteq> next_alert_id st" using assms next_alert_id_fresh [of st] by auto
  then show ?thesis using assms CreateAlert by (auto simp: create_alert_def Let_def same_alert_def)
qed (use assms in \<open>auto simp: broadcast_alert_def cancel_alert_def complete_alert_def Let_def same_alert_def
       intro: pws_edge.intros split: option.splits\<close>)

lemma pws_run_alert:
  "dict_get st i = Some a \<Longrightarrow>
     \<exists>a'. dict_get (foldl pws_step st ops) i = Some a' \<and> pws_edge\<^sup>*\<^sup>* (pa_status a) (pa_status a') \<and> same_alert a a'"
proof (induction ops arbitrary: st a)
  case Nil
  then show ?case by (auto simp: same_alert_def)
next
  case (Cons op ops)
  obtain b where b: "dict_get (pws_step st op) i = Some b" "pws_edge\<^sup>=\<^sup>= (pa_status a) (pa_status b)" "same_alert a b"
    using pws_step_alert [OF Cons.prems] by blast
  obtain c where c: "dict_get (foldl pws_step (pws_step st op) ops) i = Some c"
    "pws_edge\<^sup>*\<^sup>* (pa_status b) (pa_status c)" "same_alert b c"
    using Cons.IH [OF b(1)] by blast
  have "pws_edge\<^sup>*\<^sup>* (pa_status a) (pa_status c)" using b(2) c(2) by (auto intro: converse_rtranclp_into_rtranclp)
  with b(3) c show ?case by (auto simp: same_alert_def)
qed



text \<open>
  the page preview is too small: a text of \<open>83 * k\<close> characters is announced as \<open>k\<close> pages
  although \<open>k\<close> pages of 82 characters cannot hold it, because the rounding divides by the page
  size plus one.
\<close>

theorem cbs_pages_short:
  assumes "1 \<le> k" "k \<le> 15"
  shows "cbs_pages (encode_cbs_message (replicate (83 * k) c) m s) = k \<and>
         cbs_pages (encode_cbs_message (replicate (83 * k) c) m s) * PWS_CBS_PAGE_CHARS
           < cbs_text_length (encode_cbs_message (replicate (83 * k) c) m s)"
proof -
  have "(83 * k + 82) div 83 = k" by simp
  then show ?thesis
    using assms by (simp add: encode_cbs_message_def PWS_CBS_PAGE_CHARS_def PWS_CBS_MAX_PAGES_def Let_def)
qed

theorem cbs_pages_short_witness:
  "cbs_pages (encode_cbs_message (replicate (83 * 1) CHR ''x'') 1 2) = 1"
  using cbs_pages_short [of 1] by simp

section \<open>Properties: isolated operation\<close>

definition iops_inv :: "iops_gnb \<Rightarrow> bool" where
  \<comment> \<open>the log spells a path of valid transitions from normal to the current state\<close>
  "iops_inv g \<longleftrightarrow> (\<exists>ss. map fst (ig_events g) = map iops_state_to_event ss \<and>
     successively iops_can_transition (normal # ss) \<and> ig_state g = last (normal # ss))"

definition iops_step :: "iops_gnb \<Rightarrow> iops_state \<times> string \<Rightarrow> iops_gnb" where
  "iops_step g = (\<lambda>(target, reason). snd (iops_transition target reason g))"

interpretation iops: step_system iops_step iops_inv
proof unfold_locales
  fix g :: iops_gnb and op :: "iops_state \<times> string"
  assume inv: "iops_inv g"
  obtain t r where op: "op = (t, r)" by (cases op)
  from inv obtain ss where ss: "map fst (ig_events g) = map iops_state_to_event ss"
    "successively iops_can_transition (normal # ss)" "ig_state g = last (normal # ss)"
    by (auto simp: iops_inv_def)
  show "iops_inv (iops_step g op)"
  proof (cases "iops_can_transition (ig_state g) t")
    case True
    have "successively iops_can_transition ((normal # ss) @ [t])"
      using ss True by (simp only: successively_append_iff) simp
    with ss True op show ?thesis
      by (auto simp: iops_inv_def iops_step_def iops_transition_def intro!: exI [of _ "ss @ [t]"])
  next
    case False
    with inv op show ?thesis by (simp add: iops_step_def iops_transition_def)
  qed
qed

text \<open>
  the event log of a base station is a faithful history: after any sequence of attempted
  transitions it spells, event by event, a path of permitted transitions that starts in the
  normal state and ends in the current one, so isolated operation is never entered except from a
  lost backhaul or an aborted restoration.
\<close>

theorem iops_log_is_path:
  "let g = foldl iops_step (new_gnb name) attempts in
     (\<exists>ss. map fst (ig_events g) = map iops_state_to_event ss \<and>
           successively iops_can_transition (normal # ss) \<and> ig_state g = last (normal # ss)) \<and>
     (iops_can_transition s iops_activated \<longleftrightarrow> s \<in> {backhaul_lost, restoring})"
proof -
  have "iops_inv (foldl iops_step (new_gnb name) attempts)"
    by (rule iops.run_inv) (simp add: iops_inv_def new_gnb_def)
  moreover have "iops_can_transition s iops_activated \<longleftrightarrow> s \<in> {backhaul_lost, restoring}"
    by (cases s) (simp_all add: iops_can_transition_def)
  ultimately show ?thesis by (simp add: Let_def iops_inv_def)
qed

section \<open>Properties: disaster roaming\<close>

definition disaster_inv :: "disaster_store \<Rightarrow> bool" where
  "disaster_inv st \<longleftrightarrow> sorted_wrt (<) (map dd_id st)"

lemma end_by_id_ids: "map dd_id (snd (end_disaster_by_id i now st)) = map dd_id st"
  by (induction st) (auto split: prod.splits)

lemma disaster_inv_snoc:
  "disaster_inv st \<Longrightarrow> (st \<noteq> [] \<Longrightarrow> dd_id (last st) < dd_id d) \<Longrightarrow> disaster_inv (st @ [d])"
proof (cases st rule: rev_cases)
  case (snoc ys y)
  assume "disaster_inv st" "st \<noteq> [] \<Longrightarrow> dd_id (last st) < dd_id d"
  with snoc show ?thesis by (auto simp: disaster_inv_def sorted_wrt_append)
qed (simp add: disaster_inv_def)

interpretation disaster: step_system disaster_step disaster_inv
proof unfold_locales
  fix st op assume inv: "disaster_inv st"
  show "disaster_inv (disaster_step st op)"
  proof (cases op)
    case (Declare n r a b t)
    have "disaster_inv (st @ [d])" if "dd_id d = (if st \<noteq> [] then dd_id (last st) + 1 else 1)" for d
      using inv that by (intro disaster_inv_snoc) simp_all
    with inv Declare show ?thesis by (simp add: declare_disaster_def Let_def)
  next
    case (EndAll now)
    have "map dd_id (snd (end_disaster now st)) = map dd_id st"
      by (simp add: end_disaster_def)
    with inv EndAll show ?thesis by (simp add: disaster_inv_def)
  next
    case (EndOne i now)
    with inv show ?thesis by (simp add: disaster_inv_def end_by_id_ids)
  qed
qed

lemma max_by_id_last: "sorted_wrt (<) (map dd_id (d # ds)) \<Longrightarrow> max_by_id d ds = last (d # ds)"
  by (induction ds arbitrary: d) auto

text \<open>
  a disaster roamer is admitted exactly while a declaration is active, under the identifier of
  the most recently declared active one; identifiers are never reused, and ending all
  declarations closes the gate.
\<close>

theorem disaster_admission:
  "let st = foldl disaster_step [] ops;
       r = disaster_check_admission st agreements imsi hplmn in
     ar_allowed r = is_disaster_active st \<and>
     ar_declaration_id r = (if is_disaster_active st then dd_id (last (filter dd_active st)) else 0) \<and>
     ar_normal_roaming r = (is_disaster_active st \<and> hplmn \<in> set agreements) \<and>
     distinct (map dd_id st) \<and>
     \<not> ar_allowed (disaster_check_admission (snd (end_disaster now st)) agreements imsi hplmn)"
proof -
  define st where "st = foldl disaster_step [] ops"
  have inv: "sorted_wrt (<) (map dd_id st)"
    using disaster.run_inv [of "[]" ops] by (simp add: st_def disaster_inv_def)
  have act: "get_active_declaration st = (if is_disaster_active st then Some (last (filter dd_active st)) else None)"
  proof (cases "filter dd_active st")
    case Nil
    then show ?thesis by (simp add: get_active_declaration_def is_disaster_active_def list_ex_iff filter_empty_conv)
  next
    case (Cons d ds)
    have "sorted_wrt (<) (map dd_id (filter dd_active st))"
      using inv by (simp add: sorted_wrt_map sorted_wrt_filter)
    then have "max_by_id d ds = last (filter dd_active st)" using max_by_id_last Cons by simp
    moreover have "is_disaster_active st"
      using Cons by (metis filter_empty_conv is_disaster_active_def list.distinct(1) list_ex_iff)
    ultimately show ?thesis using Cons by (simp add: get_active_declaration_def)
  qed
  have "filter dd_active (snd (end_disaster now st)) = []"
    by (auto simp: end_disaster_def filter_empty_conv)
  then have "get_active_declaration (snd (end_disaster now st)) = None"
    by (simp add: get_active_declaration_def)
  moreover have "distinct (map dd_id st)" using inv by (simp add: strict_sorted_iff)
  ultimately show ?thesis using act by (simp add: Let_def disaster_check_admission_def flip: st_def)
qed

section \<open>Properties: access gates\<close>

text \<open>
  the access gate decides in its documented order: a forbidden network denies whatever else
  holds, then a forbidden tracking area, then the barring rule just set for the category, which
  bars exactly when it is enabled and the drawn number is below its factor: always for factor
  one, never for factor zero.
\<close>

theorem check_access_order:
  assumes "set_uac_barring cat f t en uacs = Inr uacs'" "0 \<le> draw" "draw < 1" "plmn \<noteq> []"
  shows "check_access plmns tais uacs' plmn tac cat draw =
    (if is_forbidden_plmn plmns plmn then DeniedPLMN
     else if tac \<noteq> [] \<and> is_forbidden_tai tais plmn tac then DeniedTAI
     else if en \<and> draw < f then DeniedUAC t else Allowed)"
proof -
  have c: "0 \<le> cat" "0 \<le> f" "f \<le> 1"
    and u: "uacs' = dict_set cat \<lparr>ur_access_category = cat, ur_barring_factor = f,
      ur_barring_time_s = t, ur_enabled = en\<rparr> uacs"
    using assms(1) by (auto simp: set_uac_barring_def split: if_splits)
  have "evaluate_uac_barring uacs' cat draw = (if en \<and> draw < f then (True, t) else (False, 0))"
    using c assms(2,3) by (auto simp: evaluate_uac_barring_def u)
  then show ?thesis using assms(4) c(1) by (simp add: check_access_def)
qed

theorem check_access_order_witness:
  "\<exists>u. set_uac_barring 3 1 30 True [] = Inr u \<and>
       check_access [] [] u ''00101'' ''0001'' 3 (1/2) = DeniedUAC 30"
proof -
  obtain u where u: "set_uac_barring 3 1 30 True [] = Inr u" by (simp add: set_uac_barring_def)
  from check_access_order [OF u, of "1/2" "''00101''" "[]" "[]" "''0001''"] u show ?thesis
    by (auto simp: is_forbidden_plmn_def is_forbidden_tai_def)
qed

end
