(* ===== verification/AccessMobility.thy ===== *)
theory AccessMobility
  imports Complex_Main Prelude "HOL-Library.Char_ord" "HOL-Library.List_Lexorder"
begin

text \<open>
  Access and mobility primitives (\<open>protocol/access_mobility.py\<close>): network sharing agreements
  and their admission gate, the N26 handover log, the MME-side cache of mapped contexts, roaming
  agreements and home network detection, the admission gate for WLAN access, and the satellite
  operator surface (backhaul links, store-and-forward queues, inter-satellite links).

  Stores are the lists and dictionaries the functions are handed and mutate; each operation
  returns its result with the store after it.  Times are integers and the clock is an argument;
  bandwidths are rationals.
\<close>

section \<open>Network sharing\<close>

datatype ran_status = active | inactive | pending

record ran_agreement =
  ra_id :: nat
  ra_name :: string
  ra_type :: string
  ra_plmns :: string
  ra_capacity_split :: "(string, string) dict"
  ra_priority_rules :: "(string, string) dict"
  ra_status :: ran_status

record ran_gnb_map =
  gm_agreement :: nat
  gm_gnb :: string
  gm_capacity :: int

record ran_result =
  rr_allowed :: bool
  rr_reason :: string
  rr_agreement :: nat
  rr_name :: string
  rr_type :: string
  rr_capacity :: int

definition RAN_SHARING_TYPES :: "string list" where
  "RAN_SHARING_TYPES = [''MORAN'', ''MOCN'']"

definition create_ran_agreement ::
  "ran_agreement list \<Rightarrow> string \<Rightarrow> string \<Rightarrow> string \<Rightarrow> (string, string) dict
     \<Rightarrow> (string, string) dict \<Rightarrow> (ran_agreement \<times> ran_agreement list) res" where
  "create_ran_agreement store name ty plmns split rules =
     (if name = [] then Inl (ValueError ''agreement name is required'')
      else if ty \<notin> set RAN_SHARING_TYPES then Inl (ValueError ''sharing_type must be MORAN or MOCN'')
      else if plmns = [] then Inl (ValueError ''participating_plmns is required'')
      else
        let next_id = (if store \<noteq> [] then ra_id (last store) + 1 else 1);
            agr = \<lparr>ra_id = next_id, ra_name = name, ra_type = ty, ra_plmns = plmns,
                   ra_capacity_split = split, ra_priority_rules = rules, ra_status = pending\<rparr>
        in Inr (agr, store @ [agr]))"

fun activate_ran_agreement ::
  "ran_agreement list \<Rightarrow> nat \<Rightarrow> ran_agreement option \<times> ran_agreement list" where
  "activate_ran_agreement [] i = (None, [])"
| "activate_ran_agreement (a # as) i =
     (if ra_id a = i then (let b = a\<lparr>ra_status := active\<rparr> in (Some b, b # as))
      else (let (r, bs) = activate_ran_agreement as i in (r, a # bs)))"

fun set_gnb_capacity ::
  "ran_gnb_map list \<Rightarrow> nat \<Rightarrow> string \<Rightarrow> int \<Rightarrow> ran_gnb_map \<times> ran_gnb_map list" where
  \<comment> \<open>the loop over the existing rows and the append after it\<close>
  "set_gnb_capacity [] i g c =
     (let m = \<lparr>gm_agreement = i, gm_gnb = g, gm_capacity = c\<rparr> in (m, [m]))"
| "set_gnb_capacity (m # ms) i g c =
     (if gm_agreement m = i \<and> gm_gnb m = g then (let m' = m\<lparr>gm_capacity := c\<rparr> in (m', m' # ms))
      else (let (r, ms') = set_gnb_capacity ms i g c in (r, m # ms')))"

definition upsert_ran_gnb_map ::
  "ran_gnb_map list \<Rightarrow> nat \<Rightarrow> string \<Rightarrow> int \<Rightarrow> (ran_gnb_map \<times> ran_gnb_map list) res" where
  "upsert_ran_gnb_map gs i g c =
     (if \<not> (0 \<le> c \<and> c \<le> 100) then Inl (ValueError ''capacity_pct must be in [0, 100]'')
      else Inr (set_gnb_capacity gs i g c))"

definition plmn_sep :: "char \<Rightarrow> bool" where
  "plmn_sep c \<longleftrightarrow> c \<in> set [CHR '';'', CHR '' '', CHR 0x09]"

definition plmn_in_list :: "string \<Rightarrow> string \<Rightarrow> bool" where
  "plmn_in_list p plmns =
     (if p = [] then False
      else let s = map (\<lambda>c. if plmn_sep c then CHR '','' else c) plmns
           in p \<in> set (map py_strip (filter (\<lambda>q. py_strip q \<noteq> []) (split_on CHR '','' s))))"

fun gnb_row :: "ran_gnb_map list \<Rightarrow> nat \<Rightarrow> string \<Rightarrow> ran_gnb_map option" where
  \<comment> \<open>the inner loop: the first row of the agreement for the gNB\<close>
  "gnb_row [] i g = None"
| "gnb_row (m # ms) i g =
     (if gm_agreement m = i \<and> gm_gnb m = g then Some m else gnb_row ms i g)"

fun ran_check_access ::
  "ran_agreement list \<Rightarrow> ran_gnb_map list \<Rightarrow> string \<Rightarrow> string \<Rightarrow> ran_result" where
  "ran_check_access [] gs p g =
     \<lparr>rr_allowed = False, rr_reason = ''no matching active agreement'', rr_agreement = 0,
      rr_name = '''', rr_type = '''', rr_capacity = 0\<rparr>"
| "ran_check_access (a # as) gs p g =
     (if ra_status a \<noteq> active then ran_check_access as gs p g
      else if \<not> plmn_in_list p (ra_plmns a) then ran_check_access as gs p g
      else case gnb_row gs (ra_id a) g of
        Some m \<Rightarrow> \<lparr>rr_allowed = True, rr_reason = ''matched per-gNB allocation'',
                   rr_agreement = ra_id a, rr_name = ra_name a, rr_type = ra_type a,
                   rr_capacity = gm_capacity m\<rparr>
      | None \<Rightarrow>
          if ra_type a = ''MOCN'' then
            \<lparr>rr_allowed = True, rr_reason = ''MOCN agreement (no per-gNB cap)'',
             rr_agreement = ra_id a, rr_name = ra_name a, rr_type = ''MOCN'', rr_capacity = 0\<rparr>
          else ran_check_access as gs p g)"

section \<open>N26 handover log\<close>

datatype n26_status = initiated | completed | failed

record n26_row =
  hr_id :: nat
  hr_imsi :: string
  hr_source :: string
  hr_target :: string
  hr_status :: n26_status

definition N26_RATS :: "string list" where "N26_RATS = [''4G'', ''5G'']"

fun n26_status_of :: "string \<Rightarrow> n26_status option" where
  "n26_status_of s =
     (if s = ''initiated'' then Some initiated
      else if s = ''completed'' then Some completed
      else if s = ''failed'' then Some failed else None)"

definition n26_log_handover ::
  "n26_row list \<Rightarrow> string \<Rightarrow> string \<Rightarrow> string \<Rightarrow> string \<Rightarrow> (n26_row \<times> n26_row list) res" where
  "n26_log_handover store imsi src tgt st =
     (if imsi = [] then Inl (ValueError ''imsi is required'')
      else if src \<notin> set N26_RATS \<or> tgt \<notin> set N26_RATS
      then Inl (ValueError ''source / target RAT must be 4G or 5G'')
      else case n26_status_of st of
        None \<Rightarrow> Inl (ValueError ''status must be initiated|completed|failed'')
      | Some s \<Rightarrow>
          let next_id = (if store \<noteq> [] then hr_id (last store) + 1 else 1);
              row = \<lparr>hr_id = next_id, hr_imsi = imsi, hr_source = src, hr_target = tgt,
                     hr_status = s\<rparr>
          in Inr (row, store @ [row]))"

fun n26_mark_completed :: "n26_row list \<Rightarrow> nat \<Rightarrow> bool \<times> n26_row list" where
  "n26_mark_completed [] i = (False, [])"
| "n26_mark_completed (r # rs) i =
     (if hr_id r = i \<and> hr_status r = initiated then (True, r\<lparr>hr_status := completed\<rparr> # rs)
      else (let (b, rs') = n26_mark_completed rs i in (b, r # rs')))"

fun n26_mark_failed :: "n26_row list \<Rightarrow> nat \<Rightarrow> bool \<times> n26_row list" where
  "n26_mark_failed [] i = (False, [])"
| "n26_mark_failed (r # rs) i =
     (if hr_id r = i \<and> hr_status r = initiated then (True, r\<lparr>hr_status := failed\<rparr> # rs)
      else (let (b, rs') = n26_mark_failed rs i in (b, r # rs')))"

section \<open>Mapped-context cache\<close>

definition N26_TTL_S :: int where "N26_TTL_S = 120"

record ('b, 'u) n26_context =
  nc_imsi :: string
  nc_kasme :: bytes
  nc_bearers :: "'b list"
  nc_ue_info :: 'u
  nc_timestamp :: int
  nc_used :: bool

type_synonym ('b, 'u) n26_cache = "(string, ('b, 'u) n26_context) dict"

definition n26_receive_context ::
  "int \<Rightarrow> string \<Rightarrow> bytes \<Rightarrow> 'b list \<Rightarrow> 'u \<Rightarrow> ('b, 'u) n26_cache \<Rightarrow> ('b, 'u) n26_cache" where
  "n26_receive_context clock imsi kasme bearers info cache =
     dict_set imsi \<lparr>nc_imsi = imsi, nc_kasme = kasme, nc_bearers = bearers, nc_ue_info = info,
                    nc_timestamp = clock, nc_used = False\<rparr> cache"

definition n26_now :: "int option \<Rightarrow> int \<Rightarrow> int" where
  \<comment> \<open>\<open>now or time.time()\<close>: a time of zero counts as not given\<close>
  "n26_now now clock = (case now of None \<Rightarrow> clock | Some t \<Rightarrow> if t = 0 then clock else t)"

definition n26_get_context ::
  "int option \<Rightarrow> int \<Rightarrow> string \<Rightarrow> ('b, 'u) n26_cache
     \<Rightarrow> ('b, 'u) n26_context option \<times> ('b, 'u) n26_cache" where
  "n26_get_context now clock imsi cache =
     (let t = n26_now now clock in
      case dict_get cache imsi of
        None \<Rightarrow> (None, cache)
      | Some ctx \<Rightarrow>
          if t - nc_timestamp ctx \<ge> N26_TTL_S then (None, dict_del imsi cache)
          else if nc_used ctx then (None, cache)
          else (Some ctx, cache))"

definition n26_consume_context ::
  "string \<Rightarrow> ('b, 'u) n26_cache \<Rightarrow> ('b, 'u) n26_context option \<times> ('b, 'u) n26_cache" where
  "n26_consume_context imsi cache = (dict_get cache imsi, dict_del imsi cache)"

section \<open>Roaming\<close>

definition ROAMING_DIRECTIONS :: "string list" where
  "ROAMING_DIRECTIONS = [''inbound'', ''outbound'', ''both'']"

definition ROAMING_MODES :: "string list" where "ROAMING_MODES = [''hr'', ''lbo'', ''both'']"

record roaming_agreement =
  ro_plmn :: string
  ro_name :: string
  ro_direction :: string
  ro_mode :: string
  ro_max_ues :: int
  ro_enabled :: bool

record detect_result =
  dr_roaming :: bool
  dr_home :: string
  dr_agreement :: "roaming_agreement option"
  dr_mode :: string

type_synonym roaming_store = "(string, roaming_agreement) dict"

definition upsert_roaming_agreement ::
  "roaming_store \<Rightarrow> string \<Rightarrow> string \<Rightarrow> string \<Rightarrow> string \<Rightarrow> int \<Rightarrow> bool
     \<Rightarrow> (roaming_agreement \<times> roaming_store) res" where
  "upsert_roaming_agreement store plmn name dir mode maxu en =
     (if dir \<notin> set ROAMING_DIRECTIONS then Inl (ValueError ''direction must be one of'')
      else if mode \<notin> set ROAMING_MODES then Inl (ValueError ''roaming_mode must be one of'')
      else let a = \<lparr>ro_plmn = plmn, ro_name = name, ro_direction = dir, ro_mode = mode,
                    ro_max_ues = maxu, ro_enabled = en\<rparr>
           in Inr (a, dict_set plmn a store))"

definition is_roaming_allowed :: "roaming_store \<Rightarrow> string \<Rightarrow> roaming_agreement option" where
  "is_roaming_allowed store home =
     (case dict_get store home of
        None \<Rightarrow> None
      | Some a \<Rightarrow>
          if \<not> ro_enabled a then None
          else if ro_direction a \<notin> set [''inbound'', ''both''] then None
          else Some a)"

definition plmn_of :: "string \<Rightarrow> nat \<Rightarrow> string" where
  \<comment> \<open>the network id of an IMSI for a given length of the network code\<close>
  "plmn_of imsi n = slice 0 3 imsi @ ''-'' @ slice 3 (3 + n) imsi"

fun detect_loop :: "roaming_store \<Rightarrow> string \<Rightarrow> nat list \<Rightarrow> detect_result" where
  "detect_loop store imsi [] =
     \<lparr>dr_roaming = True, dr_home = plmn_of imsi 2, dr_agreement = None, dr_mode = ''''\<rparr>"
| "detect_loop store imsi (n # ns) =
     (if length imsi < 3 + n then detect_loop store imsi ns
      else case dict_get store (plmn_of imsi n) of
        None \<Rightarrow> detect_loop store imsi ns
      | Some a \<Rightarrow>
          if ro_enabled a then
            (case is_roaming_allowed store (plmn_of imsi n) of
               None \<Rightarrow> \<lparr>dr_roaming = True, dr_home = plmn_of imsi n, dr_agreement = None,
                        dr_mode = ''''\<rparr>
             | Some al \<Rightarrow> \<lparr>dr_roaming = True, dr_home = plmn_of imsi n,
                           dr_agreement = Some al, dr_mode = ro_mode al\<rparr>)
          else detect_loop store imsi ns)"

definition detect_roaming :: "roaming_store \<Rightarrow> string \<Rightarrow> detect_result option" where
  "detect_roaming store imsi =
     (if length imsi < 5 then None else Some (detect_loop store imsi [3, 2]))"

section \<open>WLAN access\<close>

definition WIFI_ACCESS_TYPES :: "string list" where
  "WIFI_ACCESS_TYPES = [''untrusted'', ''trusted'', ''wireline'']"

definition WIFI_OFFLOAD_PREFS :: "string list" where
  "WIFI_OFFLOAD_PREFS = [''5g_first'', ''wlan_first'', ''5g_only'', ''wlan_only'', ''atsss'']"

record wifi_policy =
  wp_dnn :: string
  wp_access :: string
  wp_pref :: string
  wp_enabled :: bool

record wifi_ue =
  wu_imsi :: string
  wu_access :: string
  wu_n3iwf :: string
  wu_inner_ip :: string
  wu_outer_ip :: string

record wifi_result =
  wr_allowed :: bool
  wr_reason :: string
  wr_access :: string
  wr_pref :: string

type_synonym wifi_store = "(string, wifi_policy) dict"
type_synonym wifi_table = "(string \<times> string, wifi_ue) dict"

definition set_wifi_policy ::
  "wifi_store \<Rightarrow> string \<Rightarrow> string \<Rightarrow> string \<Rightarrow> bool \<Rightarrow> (wifi_policy \<times> wifi_store) res" where
  "set_wifi_policy store dnn acc pref en =
     (if dnn = [] then Inl (ValueError ''dnn is required'')
      else if acc \<notin> set WIFI_ACCESS_TYPES then Inl (ValueError ''invalid access_type'')
      else if pref \<notin> set WIFI_OFFLOAD_PREFS then Inl (ValueError ''invalid offload_pref'')
      else let p = \<lparr>wp_dnn = dnn, wp_access = acc, wp_pref = pref, wp_enabled = en\<rparr>
           in Inr (p, dict_set dnn p store))"

definition attach_wifi_ue ::
  "wifi_table \<Rightarrow> string \<Rightarrow> string \<Rightarrow> string \<Rightarrow> string \<Rightarrow> string \<Rightarrow> (wifi_ue \<times> wifi_table) res" where
  "attach_wifi_ue tbl imsi acc n3iwf inner outer =
     (if imsi = [] then Inl (ValueError ''imsi is required'')
      else if acc \<notin> set WIFI_ACCESS_TYPES then Inl (ValueError ''invalid access_type'')
      else let ue = \<lparr>wu_imsi = imsi, wu_access = acc, wu_n3iwf = n3iwf, wu_inner_ip = inner,
                     wu_outer_ip = outer\<rparr>
           in Inr (ue, dict_set (imsi, acc) ue tbl))"

definition detach_wifi_ue :: "wifi_table \<Rightarrow> string \<Rightarrow> string \<Rightarrow> bool \<times> wifi_table" where
  "detach_wifi_ue tbl imsi acc =
     (dict_get tbl (imsi, acc) \<noteq> None, dict_del (imsi, acc) tbl)"

definition check_wifi_offload ::
  "wifi_store \<Rightarrow> string \<Rightarrow> string \<Rightarrow> string \<Rightarrow> wifi_result" where
  "check_wifi_offload store imsi dnn acc =
     (if acc \<notin> set WIFI_ACCESS_TYPES then
        \<lparr>wr_allowed = False, wr_reason = ''invalid access_type'', wr_access = '''', wr_pref = ''''\<rparr>
      else case dict_get store dnn of
        None \<Rightarrow>
          if acc \<noteq> ''untrusted'' then
            \<lparr>wr_allowed = False,
             wr_reason = ''no policy for DNN; default refuses non-untrusted access'',
             wr_access = ''untrusted'', wr_pref = ''5g_first''\<rparr>
          else
            \<lparr>wr_allowed = True,
             wr_reason = ''default policy (no DNN row): untrusted N3IWF, 5g_first'',
             wr_access = ''untrusted'', wr_pref = ''5g_first''\<rparr>
      | Some pol \<Rightarrow>
          if \<not> wp_enabled pol then
            \<lparr>wr_allowed = False, wr_reason = ''policy is disabled'', wr_access = '''', wr_pref = ''''\<rparr>
          else if wp_pref pol = ''5g_only'' then
            \<lparr>wr_allowed = False, wr_reason = ''DNN policy is 5g_only; WLAN access not permitted'',
             wr_access = '''', wr_pref = wp_pref pol\<rparr>
          else if wp_pref pol = ''wlan_only'' \<and> wp_access pol \<noteq> acc then
            \<lparr>wr_allowed = False,
             wr_reason = ''DNN policy is wlan_only and access_type does not match'',
             wr_access = '''', wr_pref = wp_pref pol\<rparr>
          else
            \<lparr>wr_allowed = True, wr_reason = ''admitted under DNN policy'',
             wr_access = wp_access pol, wr_pref = wp_pref pol\<rparr>)"

section \<open>Satellite backhaul, store-and-forward, inter-satellite links\<close>

record ntn_backhaul =
  bh_gnb :: string
  bh_sat :: string
  bh_capacity :: rat
  bh_current :: rat
  bh_active :: bool

type_synonym backhaul_store = "(string, ntn_backhaul) dict"

definition ntn_provision_backhaul ::
  "backhaul_store \<Rightarrow> string \<Rightarrow> string \<Rightarrow> rat \<Rightarrow> (ntn_backhaul \<times> backhaul_store) res" where
  "ntn_provision_backhaul store gnb sat cap =
     (if gnb = [] \<or> sat = [] then Inl (ValueError ''gnb_id and satellite_id are required'')
      else if cap \<le> 0 then Inl (ValueError ''capacity_mbps must be > 0'')
      else let l = \<lparr>bh_gnb = gnb, bh_sat = sat, bh_capacity = cap, bh_current = 0,
                    bh_active = True\<rparr>
           in Inr (l, dict_set gnb l store))"

definition ntn_update_backhaul_usage ::
  "backhaul_store \<Rightarrow> string \<Rightarrow> rat \<Rightarrow> bool \<times> backhaul_store" where
  "ntn_update_backhaul_usage store gnb mbps =
     (case dict_get store gnb of
        None \<Rightarrow> (False, store)
      | Some l \<Rightarrow> (True, dict_set gnb (l\<lparr>bh_current := max 0 mbps\<rparr>) store))"

record ntn_stats =
  st_total_links :: nat
  st_active_links :: nat
  st_total_capacity :: rat
  st_total_usage :: rat
  st_utilization :: rat

definition ntn_backhaul_stats :: "backhaul_store \<Rightarrow> ntn_stats" where
  "ntn_backhaul_stats store =
     (let ls = map snd store;
          cap = sum_list (map bh_capacity ls);
          cur = sum_list (map bh_current ls)
      in \<lparr>st_total_links = length store, st_active_links = length (filter bh_active ls),
          st_total_capacity = cap, st_total_usage = cur,
          st_utilization = (if cap > 0 then cur / cap * 100 else 0)\<rparr>)"

record ntn_saf_queue =
  sq_imsi :: string
  sq_bytes :: int

type_synonym saf_store = "(string, ntn_saf_queue) dict"

definition ntn_saf_enqueue :: "saf_store \<Rightarrow> string \<Rightarrow> int \<Rightarrow> saf_store res" where
  "ntn_saf_enqueue store imsi n =
     (if imsi = [] then Inl (ValueError ''imsi is required'')
      else let n' = max 0 n;
               q = (case dict_get store imsi of None \<Rightarrow> \<lparr>sq_imsi = imsi, sq_bytes = 0\<rparr> | Some q \<Rightarrow> q)
           in Inr (dict_set imsi (q\<lparr>sq_bytes := sq_bytes q + n'\<rparr>) store))"

definition ntn_saf_drain :: "saf_store \<Rightarrow> string \<Rightarrow> int \<Rightarrow> saf_store res" where
  "ntn_saf_drain store imsi n =
     (if imsi = [] then Inl (ValueError ''imsi is required'')
      else case dict_get store imsi of
        None \<Rightarrow> Inr store
      | Some q \<Rightarrow> Inr (dict_set imsi (q\<lparr>sq_bytes := max 0 (sq_bytes q - max 0 n)\<rparr>) store))"

record ntn_isl =
  il_src :: string
  il_dst :: string
  il_bandwidth :: rat
  il_active :: bool

type_synonym isl_store = "(string \<times> string, ntn_isl) dict"

definition ntn_add_isl ::
  "isl_store \<Rightarrow> string \<Rightarrow> string \<Rightarrow> rat \<Rightarrow> (ntn_isl \<times> isl_store) res" where
  "ntn_add_isl store src dst bw =
     (if src = [] \<or> dst = [] then Inl (ValueError ''src and dst are required'')
      else if src = dst then Inl (ValueError ''self-loop links are not allowed'')
      else if bw \<le> 0 then Inl (ValueError ''bandwidth_mbps must be > 0'')
      else let l = \<lparr>il_src = src, il_dst = dst, il_bandwidth = bw, il_active = True\<rparr>
           in Inr (l, dict_set (src, dst) l store))"

definition ntn_isl_neighbours :: "isl_store \<Rightarrow> string \<Rightarrow> string list" where
  "ntn_isl_neighbours store src =
     sort (map (\<lambda>(k, l). il_dst l) (filter (\<lambda>(k, l). fst k = src \<and> il_active l) store))"

section \<open>Network sharing: the admission gate\<close>

definition ran_admits :: "ran_gnb_map list \<Rightarrow> string \<Rightarrow> string \<Rightarrow> ran_agreement \<Rightarrow> bool" where
  \<comment> \<open>the agreements under which a subscriber of the network may use the gNB\<close>
  "ran_admits gs p g a \<longleftrightarrow>
     ra_status a = active \<and> plmn_in_list p (ra_plmns a) \<and>
     (ra_type a = ''MOCN'' \<or> (\<exists>m \<in> set gs. gm_agreement m = ra_id a \<and> gm_gnb m = g))"

lemma gnb_row_None:
  "gnb_row gs i g = None \<longleftrightarrow> (\<forall>m \<in> set gs. \<not> (gm_agreement m = i \<and> gm_gnb m = g))"
  by (induction gs) auto

lemma gnb_row_Some:
  "gnb_row gs i g = Some m \<Longrightarrow> m \<in> set gs \<and> gm_agreement m = i \<and> gm_gnb m = g"
  by (induction gs) (auto split: if_splits)

lemma ran_check_Cons:
  "ran_check_access (a # as) gs p g =
     (if ran_admits gs p g a then
        \<lparr>rr_allowed = True,
         rr_reason = (if gnb_row gs (ra_id a) g = None then ''MOCN agreement (no per-gNB cap)''
                      else ''matched per-gNB allocation''),
         rr_agreement = ra_id a, rr_name = ra_name a, rr_type = ra_type a,
         rr_capacity = (case gnb_row gs (ra_id a) g of None \<Rightarrow> 0 | Some m \<Rightarrow> gm_capacity m)\<rparr>
      else ran_check_access as gs p g)"
proof (cases "gnb_row gs (ra_id a) g")
  case None
  then have "\<forall>m \<in> set gs. \<not> (gm_agreement m = ra_id a \<and> gm_gnb m = g)"
    by (simp add: gnb_row_None)
  with None show ?thesis by (auto simp: ran_admits_def)
next
  case (Some m)
  with gnb_row_Some [OF Some] show ?thesis by (auto simp: ran_admits_def)
qed

lemma ran_check_first:
  "rr_allowed (ran_check_access as gs p g) \<Longrightarrow>
   \<exists>pre a post. as = pre @ a # post \<and> ran_admits gs p g a \<and> (\<forall>b \<in> set pre. \<not> ran_admits gs p g b)
     \<and> rr_agreement (ran_check_access as gs p g) = ra_id a"
proof (induction as)
  case Nil
  then show ?case by simp
next
  case (Cons a as)
  show ?case
  proof (cases "ran_admits gs p g a")
    case True
    then have "rr_agreement (ran_check_access (a # as) gs p g) = ra_id a"
      by (simp only: ran_check_Cons if_True) simp
    with True show ?thesis by (intro exI [of _ "[]"]) auto
  next
    case False
    then have eq: "ran_check_access (a # as) gs p g = ran_check_access as gs p g"
      by (simp only: ran_check_Cons if_False)
    from Cons.IH Cons.prems obtain pre b post where
      "as = pre @ b # post" "ran_admits gs p g b" "\<forall>c \<in> set pre. \<not> ran_admits gs p g c"
      "rr_agreement (ran_check_access as gs p g) = ra_id b"
      unfolding eq by auto
    with False show ?thesis unfolding eq by (intro exI [of _ "a # pre"]) auto
  qed
qed

lemma ran_check_allowed:
  "rr_allowed (ran_check_access as gs p g) \<longleftrightarrow> (\<exists>a \<in> set as. ran_admits gs p g a)"
  by (induction as) (simp_all add: ran_check_Cons del: ran_check_access.simps(2))

lemma ran_check_find:
  "ran_check_access as gs p g =
     (case find (ran_admits gs p g) as of
        None \<Rightarrow> ran_check_access [] gs p g
      | Some a \<Rightarrow>
          \<lparr>rr_allowed = True,
           rr_reason = (if gnb_row gs (ra_id a) g = None then ''MOCN agreement (no per-gNB cap)''
                        else ''matched per-gNB allocation''),
           rr_agreement = ra_id a, rr_name = ra_name a, rr_type = ra_type a,
           rr_capacity = (case gnb_row gs (ra_id a) g of None \<Rightarrow> 0 | Some m \<Rightarrow> gm_capacity m)\<rparr>)"
  by (induction as) (simp_all add: ran_check_Cons del: ran_check_access.simps(2))

text \<open>
  The admission gate decides by the first active agreement that lists the subscriber's
  network and is either a MOCN agreement or has a row for the gNB: it admits exactly when one
  exists, and the verdict names that agreement and the capacity of its row (zero when the MOCN
  agreement has none).\<close>

theorem ran_gate_first_match:
  "case find (ran_admits gs p g) as of
     None \<Rightarrow> \<not> rr_allowed (ran_check_access as gs p g)
   | Some a \<Rightarrow> rr_allowed (ran_check_access as gs p g)
       \<and> rr_agreement (ran_check_access as gs p g) = ra_id a
       \<and> rr_type (ran_check_access as gs p g) = ra_type a
       \<and> rr_capacity (ran_check_access as gs p g) =
           (case gnb_row gs (ra_id a) g of None \<Rightarrow> 0 | Some m \<Rightarrow> gm_capacity m)"
  by (subst (1 2 3 4 5) ran_check_find) (auto split: option.split)

definition plmn_text :: "string \<Rightarrow> bool" where
  "plmn_text p \<longleftrightarrow> p \<noteq> [] \<and> (\<forall>c \<in> set p. \<not> is_space c \<and> c \<noteq> CHR '','' \<and> c \<noteq> CHR '';'')"

lemma plmn_sep_cases: "plmn_sep c \<longleftrightarrow> c = CHR '';'' \<or> c = CHR '' '' \<or> c = CHR 0x09"
  by (simp add: plmn_sep_def)

lemma spaces: "is_space CHR '' ''" "is_space CHR 0x09"
  by (simp_all add: is_space_def)

lemma plmn_text_sep: "plmn_text p \<Longrightarrow> c \<in> set p \<Longrightarrow> \<not> plmn_sep c"
  using spaces by (metis plmn_sep_cases plmn_text_def)

lemma plmn_text_map:
  "plmn_text p \<Longrightarrow> map (\<lambda>c. if plmn_sep c then CHR '','' else c) p = p"
  by (rule map_idI) (simp add: plmn_text_sep)

lemma split_joined:
  "list_all plmn_text ps \<Longrightarrow> ps \<noteq> [] \<Longrightarrow> c = CHR '','' \<or> plmn_sep c \<Longrightarrow>
   split_on CHR '','' (map (\<lambda>c. if plmn_sep c then CHR '','' else c) (join_with c ps)) = ps"
proof (induction c ps rule: join_with.induct)
  case (1 c)
  then show ?case by simp
next
  case (2 c p)
  then have "CHR '','' \<notin> set p" by (auto simp: plmn_text_def)
  with 2 show ?case by (simp add: plmn_text_map split_on_no_sep)
next
  case (3 c p q qs)
  then have "CHR '','' \<notin> set p" by (auto simp: plmn_text_def)
  with 3 show ?case by (auto simp: plmn_text_map split_on_append)
qed

lemma plmn_in_joined:
  assumes "list_all plmn_text ps" and "c = CHR '','' \<or> plmn_sep c"
  shows "plmn_in_list p (join_with c ps) \<longleftrightarrow> p \<in> set ps"
proof (cases "ps = []")
  case True
  then show ?thesis by (simp add: plmn_in_list_def py_strip_def)
next
  case False
  have strip: "py_strip q = q" "q \<noteq> []" if "q \<in> set ps" for q
    using that assms(1) by (auto simp: plmn_text_def list_all_iff intro: strip_no_space)
  then have filt: "filter (\<lambda>q. py_strip q \<noteq> []) ps = ps" by (auto intro: filter_True)
  have strips: "map py_strip ps = ps" using strip by (auto intro: map_idI)
  show ?thesis
    using strip(2) [of p]
    unfolding plmn_in_list_def Let_def split_joined [OF assms(1) False assms(2)] filt strips
    by auto
qed

text \<open>
  A list of network ids written with any of the accepted separators (comma, semicolon,
  space, tab) contains exactly the ids it was written from: no id matches by prefix, substring or
  across a separator.\<close>

theorem plmn_list_exact:
  assumes "list_all plmn_text ps" and "c \<in> {CHR '','', CHR '';'', CHR '' '', CHR 0x09}"
  shows "plmn_in_list p (join_with c ps) \<longleftrightarrow> p \<in> set ps"
  using assms(2) by (intro plmn_in_joined [OF assms(1)]) (auto simp: plmn_sep_def)

theorem plmn_list_exact_witness:
  "plmn_in_list ''00102'' (join_with CHR '';'' [''00101'', ''00102'']) \<and>
   \<not> plmn_in_list ''0010'' (join_with CHR '';'' [''00101'', ''00102''])"
proof -
  have ok: "list_all plmn_text [''00101'', ''00102'']"
    by (simp add: plmn_text_def is_space_def)
  have "CHR '';'' \<in> {CHR '','', CHR '';'', CHR '' '', CHR 0x09}" by simp
  from plmn_list_exact [OF ok this, of "''00102''"] plmn_list_exact [OF ok this, of "''0010''"]
  show ?thesis by simp
qed

section \<open>N26 handover log: rows settle once\<close>

datatype n26_op = LogRow string string string string | Complete nat | Fail nat

fun n26_step :: "n26_row list \<Rightarrow> n26_op \<Rightarrow> n26_row list" where
  "n26_step rows (LogRow imsi src tgt st) =
     (case n26_log_handover rows imsi src tgt st of Inl e \<Rightarrow> rows | Inr (r, rows') \<Rightarrow> rows')"
| "n26_step rows (Complete i) = snd (n26_mark_completed rows i)"
| "n26_step rows (Fail i) = snd (n26_mark_failed rows i)"

definition n26_inv :: "n26_row list \<Rightarrow> bool" where
  "n26_inv rows \<longleftrightarrow> map hr_id rows = [1..<Suc (length rows)]"

lemma n26_inv_Nil [simp]: "n26_inv []"
  by (simp add: n26_inv_def)

lemma n26_inv_append:
  "n26_inv rows \<Longrightarrow> hr_id r = (if rows \<noteq> [] then hr_id (last rows) + 1 else 1) \<Longrightarrow> n26_inv (rows @ [r])"
proof (cases rows rule: rev_cases)
  case (snoc ys y)
  moreover assume "n26_inv rows" "hr_id r = (if rows \<noteq> [] then hr_id (last rows) + 1 else 1)"
  ultimately show ?thesis by (simp add: n26_inv_def)
qed (simp add: n26_inv_def)

definition settle :: "n26_status \<Rightarrow> nat \<Rightarrow> n26_row \<Rightarrow> n26_row" where
  "settle st i r = (if hr_id r = i \<and> hr_status r = initiated then r\<lparr>hr_status := st\<rparr> else r)"

lemma settle_id [simp]: "hr_id (settle st i r) = hr_id r"
  by (simp add: settle_def)

lemma settle_settled [simp]: "hr_status r \<noteq> initiated \<Longrightarrow> settle st i r = r"
  by (simp add: settle_def)

lemma settle_other: "i \<notin> hr_id ` set rows \<Longrightarrow> map (settle st i) rows = rows"
  by (rule map_idI) (auto simp: settle_def)

lemma mark_completed_map:
  "distinct (map hr_id rows) \<Longrightarrow>
   n26_mark_completed rows i =
     (\<exists>r \<in> set rows. hr_id r = i \<and> hr_status r = initiated, map (settle completed i) rows)"
  by (induction rows) (auto simp: settle_def settle_other rev_image_eqI Let_def split: prod.splits)

lemma mark_failed_map:
  "distinct (map hr_id rows) \<Longrightarrow>
   n26_mark_failed rows i =
     (\<exists>r \<in> set rows. hr_id r = i \<and> hr_status r = initiated, map (settle failed i) rows)"
  by (induction rows) (auto simp: settle_def settle_other rev_image_eqI Let_def split: prod.splits)

lemma n26_inv_distinct: "n26_inv rows \<Longrightarrow> distinct (map hr_id rows)"
  by (simp add: n26_inv_def)

lemma n26_inv_settle: "n26_inv rows \<Longrightarrow> n26_inv (map (settle st i) rows)"
  by (simp add: n26_inv_def comp_def)

lemma n26_log_Inr:
  "n26_log_handover rows imsi src tgt st = Inr (r, rows') \<Longrightarrow>
   rows' = rows @ [r] \<and> hr_id r = (if rows \<noteq> [] then hr_id (last rows) + 1 else 1)"
  by (auto simp: n26_log_handover_def Let_def simp del: n26_status_of.simps
      split: if_splits option.splits)

lemma n26_step_inv: "n26_inv rows \<Longrightarrow> n26_inv (n26_step rows op)"
proof (cases op)
  case (LogRow imsi src tgt st)
  moreover assume "n26_inv rows"
  ultimately show ?thesis
    by (cases "n26_log_handover rows imsi src tgt st") (auto dest!: n26_log_Inr intro: n26_inv_append)
qed (simp_all add: mark_completed_map mark_failed_map n26_inv_distinct n26_inv_settle)

interpretation n26: step_system n26_step n26_inv
  by unfold_locales (rule n26_step_inv)

lemma n26_step_keeps:
  assumes "n26_inv rows" "r \<in> set rows" "hr_status r \<noteq> initiated"
  shows "r \<in> set (n26_step rows op)"
proof (cases op)
  case (LogRow imsi src tgt st)
  with assms show ?thesis
    by (cases "n26_log_handover rows imsi src tgt st") (auto dest!: n26_log_Inr)
next
  case (Complete i)
  from assms have "r = settle completed i r" by simp
  with assms Complete show ?thesis
    by (simp add: mark_completed_map n26_inv_distinct rev_image_eqI)
next
  case (Fail i)
  from assms have "r = settle failed i r" by simp
  with assms Fail show ?thesis
    by (simp add: mark_failed_map n26_inv_distinct rev_image_eqI)
qed

lemma n26_run_keeps:
  "n26_inv rows \<Longrightarrow> r \<in> set rows \<Longrightarrow> hr_status r \<noteq> initiated \<Longrightarrow> r \<in> set (foldl n26_step rows ops)"
  by (induction ops arbitrary: rows) (auto intro: n26_step_keeps n26_step_inv)

text \<open>
  Rows of the handover log are numbered from one in the order they were written, and a
  row that is completed or failed never changes again, whatever is logged or marked later.\<close>

theorem n26_settled_once:
  assumes "r \<in> set (foldl n26_step [] ops)" and "hr_status r \<noteq> initiated"
  shows "r \<in> set (foldl n26_step [] (ops @ ops')) \<and>
         map hr_id (foldl n26_step [] (ops @ ops'))
           = [1..<Suc (length (foldl n26_step [] (ops @ ops')))]"
proof -
  have "n26_inv (foldl n26_step [] (ops @ ops'))" by (rule n26.run_inv) simp
  moreover have "r \<in> set (foldl n26_step [] (ops @ ops'))"
    using assms by (simp add: n26_run_keeps n26.run_inv)
  ultimately show ?thesis by (simp add: n26_inv_def)
qed

theorem n26_settled_once_witness:
  "\<lparr>hr_id = 1, hr_imsi = ''001'', hr_source = ''5G'', hr_target = ''4G'', hr_status = failed\<rparr>
     \<in> set (foldl n26_step [] ([LogRow ''001'' ''5G'' ''4G'' ''initiated'', Fail 1] @ [Complete 1]))"
proof -
  have run: "foldl n26_step [] [LogRow ''001'' ''5G'' ''4G'' ''initiated'', Fail 1] =
    [\<lparr>hr_id = 1, hr_imsi = ''001'', hr_source = ''5G'', hr_target = ''4G'', hr_status = failed\<rparr>]"
    by (simp add: n26_log_handover_def N26_RATS_def Let_def)
  then show ?thesis
    by (intro n26_settled_once [THEN conjunct1]) (simp_all only: run list.set insert_iff n26_row.simps n26_status.distinct, simp_all)
qed

section \<open>Mapped contexts are fresh and used at most once\<close>

datatype ('b, 'u) cache_op =
    Receive int string bytes "'b list" 'u
  | Get "int option" int string
  | Consume string

fun cache_step :: "('b, 'u) n26_cache \<Rightarrow> ('b, 'u) cache_op \<Rightarrow> ('b, 'u) n26_cache" where
  "cache_step c (Receive clock imsi k bs u) = n26_receive_context clock imsi k bs u c"
| "cache_step c (Get now clock imsi) = snd (n26_get_context now clock imsi c)"
| "cache_step c (Consume imsi) = snd (n26_consume_context imsi c)"

fun touches :: "string \<Rightarrow> ('b, 'u) cache_op \<Rightarrow> bool" where
  "touches i (Receive clock imsi k bs u) \<longleftrightarrow> imsi = i"
| "touches i (Get now clock imsi) \<longleftrightarrow> False"
| "touches i (Consume imsi) \<longleftrightarrow> imsi = i"

definition pushed :: "('b, 'u) cache_op list \<Rightarrow> string \<Rightarrow> ('b, 'u) n26_context \<Rightarrow> bool" where
  \<comment> \<open>the context is the last one received for the subscriber and was not consumed since\<close>
  "pushed ops i ctx \<longleftrightarrow>
     (\<exists>pre clock k bs u post. ops = pre @ Receive clock i k bs u # post \<and>
        \<not> list_ex (touches i) post \<and>
        ctx = \<lparr>nc_imsi = i, nc_kasme = k, nc_bearers = bs, nc_ue_info = u,
               nc_timestamp = clock, nc_used = False\<rparr>)"

lemma pushed_snoc_other: "pushed ops i ctx \<Longrightarrow> \<not> touches i op \<Longrightarrow> pushed (ops @ [op]) i ctx"
proof -
  assume "pushed ops i ctx" and "\<not> touches i op"
  then obtain pre clock k bs u post where
    "ops = pre @ Receive clock i k bs u # post" "\<not> list_ex (touches i) post"
    "ctx = \<lparr>nc_imsi = i, nc_kasme = k, nc_bearers = bs, nc_ue_info = u,
            nc_timestamp = clock, nc_used = False\<rparr>"
    unfolding pushed_def by blast
  with \<open>\<not> touches i op\<close> show ?thesis
    unfolding pushed_def
    by (intro exI [of _ pre] exI [of _ clock] exI [of _ k] exI [of _ bs] exI [of _ u]
        exI [of _ "post @ [op]"]) simp
qed

lemma pushed_snoc_receive:
  "pushed (ops @ [Receive clock i k bs u]) i
     \<lparr>nc_imsi = i, nc_kasme = k, nc_bearers = bs, nc_ue_info = u,
      nc_timestamp = clock, nc_used = False\<rparr>"
  unfolding pushed_def by (intro exI [of _ ops] exI) auto

lemma get_context_lookup:
  "dict_get (snd (n26_get_context now clock j c)) i = Some ctx \<Longrightarrow> dict_get c i = Some ctx"
  by (auto simp: n26_get_context_def Let_def split: option.splits if_splits)

lemma cache_pushed: "dict_get (foldl cache_step [] ops) i = Some ctx \<Longrightarrow> pushed ops i ctx"
proof (induction ops rule: rev_induct)
  case Nil
  then show ?case by simp
next
  case (snoc op ops)
  then have get: "dict_get (cache_step (foldl cache_step [] ops) op) i = Some ctx" by simp
  show ?case
  proof (cases op)
    case (Receive clock j k bs u)
    show ?thesis
    proof (cases "i = j")
      case True
      with Receive get show ?thesis
        by (auto simp: n26_receive_context_def pushed_snoc_receive)
    next
      case False
      with Receive get snoc.IH show ?thesis
        by (intro pushed_snoc_other) (auto simp: n26_receive_context_def)
    qed
  next
    case (Get now clock j)
    with get snoc.IH show ?thesis
      by (intro pushed_snoc_other) (auto dest: get_context_lookup)
  next
    case (Consume j)
    with get snoc.IH show ?thesis
      by (intro pushed_snoc_other) (auto simp: n26_consume_context_def split: if_splits)
  qed
qed

text \<open>
  C39: Whatever was received, read and consumed before, a lookup answers only with the last
  context received for that subscriber, not consumed since and less than 120 seconds old; a
  lookup after the consumption answers with nothing until another context is received.\<close>

theorem n26_context_fresh_once:
  assumes "fst (n26_get_context now clock i (foldl cache_step [] ops)) = Some ctx"
  shows "pushed ops i ctx \<and> n26_now now clock - nc_timestamp ctx < 120 \<and>
         fst (n26_get_context now' clock' i
               (snd (n26_consume_context i (foldl cache_step [] ops)))) = None"
proof -
  have "dict_get (foldl cache_step [] ops) i = Some ctx"
    and "n26_now now clock - nc_timestamp ctx < 120"
    using assms by (auto simp: n26_get_context_def Let_def N26_TTL_S_def split: option.splits if_splits)
  then show ?thesis
    by (simp add: cache_pushed n26_consume_context_def n26_get_context_def)
qed

theorem n26_context_fresh_once_witness:
  "pushed [Receive 100 ''001'' [byte_of 7] [5 :: nat] ()] ''001''
     \<lparr>nc_imsi = ''001'', nc_kasme = [byte_of 7], nc_bearers = [5 :: nat], nc_ue_info = (),
      nc_timestamp = 100, nc_used = False\<rparr>"
proof -
  have "fst (n26_get_context (Some 219) 0 ''001''
          (foldl cache_step [] [Receive 100 ''001'' [byte_of 7] [5 :: nat] ()])) =
        Some \<lparr>nc_imsi = ''001'', nc_kasme = [byte_of 7], nc_bearers = [5 :: nat],
              nc_ue_info = (), nc_timestamp = 100, nc_used = False\<rparr>"
    by (simp add: n26_get_context_def n26_receive_context_def n26_now_def N26_TTL_S_def)
  from n26_context_fresh_once [OF this] show ?thesis by (rule conjunct1)
qed

section \<open>Roaming\<close>

definition inbound_ok :: "roaming_agreement \<Rightarrow> bool" where
  "inbound_ok a \<longleftrightarrow> ro_enabled a \<and> (ro_direction a = ''inbound'' \<or> ro_direction a = ''both'')"

lemma roaming_allowed_iff:
  "is_roaming_allowed store h = Some a \<longleftrightarrow> dict_get store h = Some a \<and> inbound_ok a"
  by (auto simp: is_roaming_allowed_def inbound_ok_def split: option.splits)

definition has_partner :: "roaming_store \<Rightarrow> string \<Rightarrow> nat \<Rightarrow> bool" where
  "has_partner store imsi n \<longleftrightarrow>
     3 + n \<le> length imsi \<and> (\<exists>a. dict_get store (plmn_of imsi n) = Some a \<and> ro_enabled a)"

lemma detect_loop_home:
  "dr_home (detect_loop store imsi ns) =
     plmn_of imsi (case find (has_partner store imsi) ns of None \<Rightarrow> 2 | Some n \<Rightarrow> n)"
  by (induction ns) (auto simp: has_partner_def split: option.splits)

lemma detect_loop_agreement:
  "dr_agreement (detect_loop store imsi ns) = Some a \<Longrightarrow>
   \<exists>n. find (has_partner store imsi) ns = Some n \<and> dict_get store (plmn_of imsi n) = Some a
       \<and> inbound_ok a \<and> dr_mode (detect_loop store imsi ns) = ro_mode a"
  by (induction ns)
    (auto simp: has_partner_def is_roaming_allowed_def inbound_ok_def not_le
      split: option.splits if_splits)

text \<open>
  The home network of a subscriber is read with a three-digit network code where an
  enabled agreement exists for it, and with two digits otherwise; when the answer carries an
  agreement it is the stored one for that home network, enabled and covering inbound traffic,
  and the roaming mode is its mode.\<close>

theorem roaming_detected:
  assumes "detect_roaming store imsi = Some r"
  shows "5 \<le> length imsi \<and> dr_roaming r \<and>
         dr_home r = plmn_of imsi (if has_partner store imsi 3 then 3 else 2) \<and>
         (case dr_agreement r of None \<Rightarrow> True
          | Some a \<Rightarrow> dict_get store (dr_home r) = Some a \<and> inbound_ok a \<and> dr_mode r = ro_mode a)"
proof -
  have r: "r = detect_loop store imsi [3, 2]" and len: "5 \<le> length imsi"
    using assms by (auto simp: detect_roaming_def split: if_splits)
  have roam: "dr_roaming (detect_loop store imsi ns)" for ns
    by (induction ns) (auto split: option.splits)
  have home: "dr_home r = plmn_of imsi (if has_partner store imsi 3 then 3 else 2)"
    by (simp add: r detect_loop_home del: detect_loop.simps)
  have "dict_get store (dr_home r) = Some a \<and> inbound_ok a \<and> dr_mode r = ro_mode a"
    if "dr_agreement r = Some a" for a
    using detect_loop_agreement [of store imsi "[3, 2]" a] that
    by (auto simp: r detect_loop_home simp del: detect_loop.simps split: if_splits)
  then show ?thesis
    using len home roam [of "[3, 2]"] by (simp add: r split: option.split del: detect_loop.simps)
qed

theorem roaming_detected_witness:
  "dr_home (the (detect_roaming
     [(''310-260'', \<lparr>ro_plmn = ''310-260'', ro_name = [], ro_direction = ''both'', ro_mode = ''lbo'',
                    ro_max_ues = 0, ro_enabled = True\<rparr>)] ''310260123'')) = ''310-260''"
proof -
  have "\<exists>r. detect_roaming
     [(''310-260'', \<lparr>ro_plmn = ''310-260'', ro_name = [], ro_direction = ''both'', ro_mode = ''lbo'',
                    ro_max_ues = 0, ro_enabled = True\<rparr>)] ''310260123'' = Some r"
    by (simp add: detect_roaming_def del: detect_loop.simps)
  then obtain r where r: "detect_roaming
     [(''310-260'', \<lparr>ro_plmn = ''310-260'', ro_name = [], ro_direction = ''both'', ro_mode = ''lbo'',
                    ro_max_ues = 0, ro_enabled = True\<rparr>)] ''310260123'' = Some r" ..
  from roaming_detected [OF r] show ?thesis
    by (simp add: r has_partner_def plmn_of_def slice_def)
qed

section \<open>WLAN access\<close>

text \<open>
  WLAN access is granted exactly for a known access type when the network has no policy
  and the access is untrusted, or when its policy is enabled, does not insist on 5G, and - if it
  insists on WLAN - names that access type.\<close>

theorem wifi_admission:
  "wr_allowed (check_wifi_offload store imsi dnn acc) \<longleftrightarrow>
     acc \<in> {''untrusted'', ''trusted'', ''wireline''} \<and>
     (case dict_get store dnn of
        None \<Rightarrow> acc = ''untrusted''
      | Some p \<Rightarrow> wp_enabled p \<and> wp_pref p \<noteq> ''5g_only'' \<and>
                  (wp_pref p \<noteq> ''wlan_only'' \<or> wp_access p = acc))"
  by (auto simp: check_wifi_offload_def WIFI_ACCESS_TYPES_def split: option.split)

lemma attach_then_detach:
  assumes "attach_wifi_ue tbl imsi acc n3 ip1 ip2 = Inr (ue, tbl')"
  shows "fst (detach_wifi_ue tbl' imsi acc) \<and>
         dict_get (snd (detach_wifi_ue tbl' imsi acc)) (imsi, acc) = None"
  using assms by (auto simp: attach_wifi_ue_def detach_wifi_ue_def Let_def split: if_splits)

section \<open>Store and forward\<close>

datatype saf_op = Enqueue string int | Drain string int

fun saf_step :: "saf_store \<Rightarrow> saf_op \<Rightarrow> saf_store" where
  "saf_step st (Enqueue i n) = (case ntn_saf_enqueue st i n of Inl e \<Rightarrow> st | Inr st' \<Rightarrow> st')"
| "saf_step st (Drain i n) = (case ntn_saf_drain st i n of Inl e \<Rightarrow> st | Inr st' \<Rightarrow> st')"

definition queued :: "saf_store \<Rightarrow> string \<Rightarrow> int" where
  "queued st i = (case dict_get st i of None \<Rightarrow> 0 | Some q \<Rightarrow> sq_bytes q)"

fun saf_in :: "string \<Rightarrow> saf_op \<Rightarrow> int" where
  "saf_in i (Enqueue j n) = (if i = j \<and> j \<noteq> [] then max 0 n else 0)"
| "saf_in i (Drain j n) = 0"

fun saf_out :: "string \<Rightarrow> saf_op \<Rightarrow> int" where
  "saf_out i (Enqueue j n) = 0"
| "saf_out i (Drain j n) = (if i = j \<and> j \<noteq> [] then max 0 n else 0)"

lemma queued_step:
  "0 \<le> queued st i \<Longrightarrow> queued (saf_step st op) i = max 0 (queued st i + saf_in i op - saf_out i op)"
  by (cases op) (auto simp: queued_def ntn_saf_enqueue_def ntn_saf_drain_def Let_def
      split: option.splits if_splits)

text \<open>
  After any sequence of enqueues and drains a subscriber's queue holds at least what was
  put in less what was asked out, at most what was put in, and never a negative count.\<close>

theorem saf_bounds:
  "let st = foldl saf_step [] ops; put = sum_list (map (saf_in i) ops)
   in 0 \<le> queued st i \<and> queued st i \<le> put \<and>
      put - sum_list (map (saf_out i) ops) \<le> queued st i"
proof (induction ops rule: rev_induct)
  case Nil
  then show ?case by (simp add: queued_def)
next
  case (snoc op ops)
  have "0 \<le> saf_in i op" "0 \<le> saf_out i op" by (cases op; simp)+
  with snoc queued_step [of "foldl saf_step [] ops" i op]
  show ?case by (simp add: Let_def max_def split: if_splits)
qed

section \<open>Inter-satellite links\<close>

definition isl_inv :: "isl_store \<Rightarrow> bool" where
  "isl_inv st \<longleftrightarrow> dict_ok st \<and>
     (\<forall>((s, d), l) \<in> set st. il_src l = s \<and> il_dst l = d \<and> s \<noteq> d \<and> 0 < il_bandwidth l \<and> il_active l)"

fun isl_step :: "isl_store \<Rightarrow> string \<times> string \<times> rat \<Rightarrow> isl_store" where
  "isl_step st (s, d, bw) = (case ntn_add_isl st s d bw of Inl e \<Rightarrow> st | Inr (l, st') \<Rightarrow> st')"

lemma isl_step_inv: "isl_inv st \<Longrightarrow> isl_inv (isl_step st op)"
  by (cases op) (auto simp: isl_inv_def ntn_add_isl_def Let_def dest!: dict_set_mem split: prod.splits)

interpretation isl: step_system isl_step isl_inv
  by unfold_locales (rule isl_step_inv)

lemma isl_keys: "dict_get (foldl isl_step st adds) (s, d) \<noteq> None \<longleftrightarrow>
    dict_get st (s, d) \<noteq> None \<or> (s \<noteq> [] \<and> d \<noteq> [] \<and> s \<noteq> d \<and> (\<exists>bw > 0. (s, d, bw) \<in> set adds))"
proof (induction adds arbitrary: st)
  case Nil
  then show ?case by simp
next
  case (Cons a adds)
  obtain x y bw where a: "a = (x, y, bw)" by (cases a) auto
  have "dict_get (isl_step st a) (s, d) \<noteq> None \<longleftrightarrow>
    dict_get st (s, d) \<noteq> None \<or> (x = s \<and> y = d \<and> s \<noteq> [] \<and> d \<noteq> [] \<and> s \<noteq> d \<and> 0 < bw)"
    by (auto simp: a ntn_add_isl_def Let_def)
  then show ?case unfolding foldl.simps Cons.IH a by auto
qed

lemma isl_neighbour_list:
  assumes "isl_inv st"
  shows "distinct (ntn_isl_neighbours st s) \<and>
         (\<forall>d. d \<in> set (ntn_isl_neighbours st s) \<longleftrightarrow> dict_get st (s, d) \<noteq> None)"
proof -
  let ?out = "filter (\<lambda>(k, l). fst k = s \<and> il_active l) st"
  have dst: "il_dst l = snd k" if "(k, l) \<in> set st" for k l
    using assms that by (cases k) (auto simp: isl_inv_def)
  then have eq: "map (\<lambda>(k, l). il_dst l) ?out = map snd (map fst ?out)" by auto
  have "distinct (map fst ?out)"
    using assms by (auto simp: isl_inv_def dict_ok_def intro: distinct_map_filter)
  moreover have "inj_on snd (set (map fst ?out))" by (auto simp: inj_on_def)
  ultimately have "distinct (map (\<lambda>(k, l). il_dst l) ?out)"
    unfolding eq by (simp only: distinct_map)
  moreover have "d \<in> set (map (\<lambda>(k, l). il_dst l) ?out) \<longleftrightarrow> dict_get st (s, d) \<noteq> None" for d
  proof -
    have "d \<in> set (map (\<lambda>(k, l). il_dst l) ?out) \<longleftrightarrow> (\<exists>l. ((s, d), l) \<in> set st \<and> il_active l)"
      unfolding eq by (auto simp: image_iff)
    also have "\<dots> \<longleftrightarrow> (\<exists>l. ((s, d), l) \<in> set st)"
      using assms by (auto simp: isl_inv_def)
    also have "\<dots> \<longleftrightarrow> dict_get st (s, d) \<noteq> None"
      using assms by (simp add: isl_inv_def flip: dict_get_in_set)
    finally show ?thesis .
  qed
  ultimately show ?thesis by (simp add: ntn_isl_neighbours_def)
qed

text \<open>
  The neighbours of a satellite come sorted, without repetition and never include the
  satellite itself, and are exactly the ends of the links that were added from it with both ends
  named and a positive bandwidth.\<close>

theorem isl_neighbours:
  "let ns = ntn_isl_neighbours (foldl isl_step [] adds) s
   in sorted ns \<and> distinct ns \<and>
      set ns = {d. s \<noteq> [] \<and> d \<noteq> [] \<and> d \<noteq> s \<and> (\<exists>bw. 0 < bw \<and> (s, d, bw) \<in> set adds)}"
proof -
  have "isl_inv (foldl isl_step [] adds)" by (rule isl.run_inv) (simp add: isl_inv_def)
  note nb = isl_neighbour_list [OF this, of s]
  have "d \<in> set (ntn_isl_neighbours (foldl isl_step [] adds) s) \<longleftrightarrow>
    s \<noteq> [] \<and> d \<noteq> [] \<and> d \<noteq> s \<and> (\<exists>bw. 0 < bw \<and> (s, d, bw) \<in> set adds)" for d
    using nb isl_keys [of "[]" adds s d] by auto
  moreover have "sorted (ntn_isl_neighbours st s)" for st
    by (simp add: ntn_isl_neighbours_def)
  ultimately show ?thesis using nb by (auto simp: Let_def)
qed

end
