(* ===== verification/Dpi.thy ===== *)
theory Dpi
  imports Prelude "HOL-Library.Char_ord" "HOL-Library.List_Lexorder" "HOL-Library.Option_ord"
    "HOL-Library.Product_Lexorder" "HOL-Library.Sublist"
begin

text \<open>
  Application detection (\<open>protocol/dpi.py\<close>): the classifiers (server name globs, domain suffixes,
  port ranges) and the store of applications, detection rules, pinned DNS answers and the
  detection log with its hourly coalescing and usage totals.

  \<open>fnmatch\<close> is modelled as the token matcher its documentation describes (\<open>*\<close>, \<open>?\<close>, character
  sets with ranges and negation); sets with a reversed range followed by \<open>!\<close>, which the library
  turns into something undocumented, are the one form left out.  Of \<open>detect_by_ip\<close> only the
  pinned-answer path is modelled; the network walk needs the library's address parser.
  Times are seconds and arguments.  Stored records are values: the caller's own reference to an
  application or rule object it has handed over is not modelled.
\<close>

section \<open>Classifiers\<close>

definition lower_char :: "char \<Rightarrow> char" where
  "lower_char c = (let n = (of_char c :: nat) in
     if 65 \<le> n \<and> n \<le> 90 then char_of (n + 32) else c)"

definition str_lower :: "string \<Rightarrow> string" where
  "str_lower = map lower_char"

datatype set_item = One char | Span char char

datatype glob_tok = Star | AnyChar | Lit char | CharSet bool "set_item list"

fun set_items :: "string \<Rightarrow> set_item list" where
  "set_items (a # b # c # cs) =
     (if b = CHR ''-'' then Span a c # set_items cs else One a # set_items (b # c # cs))"
| "set_items [a, b] = [One a, One b]"
| "set_items [a] = [One a]"
| "set_items [] = []"

fun close_at :: "string \<Rightarrow> nat \<Rightarrow> nat option" where
  \<comment> \<open>the index of the first closing bracket, counted from \<open>n\<close>\<close>
  "close_at [] n = None"
| "close_at (c # cs) n = (if c = CHR '']'' then Some n else close_at cs (Suc n))"

definition set_end :: "string \<Rightarrow> nat option" where
  \<comment> \<open>the end of a set: a bracket right behind the opening one (or its negation) is a member\<close>
  "set_end cs =
     (let j = (if cs \<noteq> [] \<and> hd cs = CHR ''!'' then 1 else 0);
          k = (if j < length cs \<and> cs ! j = CHR '']'' then j + 1 else j)
      in close_at (drop k cs) k)"

function glob_toks :: "string \<Rightarrow> glob_tok list" where
  "glob_toks [] = []"
| "glob_toks (c # cs) =
     (if c = CHR ''*'' then Star # glob_toks cs
      else if c = CHR ''?'' then AnyChar # glob_toks cs
      else if c = CHR ''['' then
        (case set_end cs of
           None \<Rightarrow> Lit c # glob_toks cs
         | Some j \<Rightarrow>
             let body = take j cs; neg = (body \<noteq> [] \<and> hd body = CHR ''!'')
             in CharSet neg (set_items (if neg then tl body else body)) # glob_toks (drop (Suc j) cs))
      else Lit c # glob_toks cs)"
  by pat_completeness auto
termination by (relation "measure length") auto

fun in_item :: "char \<Rightarrow> set_item \<Rightarrow> bool" where
  "in_item c (One a) \<longleftrightarrow> c = a"
| "in_item c (Span a b) \<longleftrightarrow> (of_char a :: nat) \<le> of_char c \<and> (of_char c :: nat) \<le> of_char b"

function glob_match :: "glob_tok list \<Rightarrow> string \<Rightarrow> bool" where
  "glob_match [] s \<longleftrightarrow> s = []"
| "glob_match (Star # ts) s \<longleftrightarrow>
     glob_match ts s \<or> (case s of [] \<Rightarrow> False | c # cs \<Rightarrow> glob_match (Star # ts) cs)"
| "glob_match (AnyChar # ts) s \<longleftrightarrow> (case s of [] \<Rightarrow> False | c # cs \<Rightarrow> glob_match ts cs)"
| "glob_match (Lit d # ts) s \<longleftrightarrow> (case s of [] \<Rightarrow> False | c # cs \<Rightarrow> c = d \<and> glob_match ts cs)"
| "glob_match (CharSet neg items # ts) s \<longleftrightarrow>
     (case s of [] \<Rightarrow> False
      | c # cs \<Rightarrow> (list_ex (in_item c) items \<noteq> neg) \<and> glob_match ts cs)"
  by pat_completeness auto
termination by (relation "measure (\<lambda>(ts, s). length ts + length s)") auto

definition match_sni :: "string \<Rightarrow> string \<Rightarrow> bool" where
  "match_sni sni pattern = glob_match (glob_toks (str_lower pattern)) (str_lower sni)"

definition rstrip_dots :: "string \<Rightarrow> string" where
  "rstrip_dots s = rev (dropWhile (\<lambda>c. c = CHR ''.'') (rev s))"

definition match_dns :: "string \<Rightarrow> string \<Rightarrow> bool" where
  "match_dns domain pattern =
     (let dom = rstrip_dots (str_lower domain); pat = str_lower pattern
      in dom = pat \<or> ends_with dom (CHR ''.'' # pat))"

fun split_once :: "char \<Rightarrow> string \<Rightarrow> string \<times> string option" where
  \<comment> \<open>\<open>str.split(sep, 1)\<close>\<close>
  "split_once c [] = ([], None)"
| "split_once c (x # xs) =
     (if x = c then ([], Some xs) else (let (a, b) = split_once c xs in (x # a, b)))"

definition parse_port_range :: "string \<Rightarrow> (int \<times> int) option" where
  "parse_port_range s0 =
     (let s = py_strip s0 in
      if s = [] then None
      else let (p, q) = split_once CHR ''-'' s in
        case py_int_str p of None \<Rightarrow> None
        | Some lo \<Rightarrow>
            if lo < 0 \<or> lo > 65535 then None
            else case q of None \<Rightarrow> Some (lo, lo)
              | Some q' \<Rightarrow>
                  (case py_int_str q' of None \<Rightarrow> None
                   | Some hi \<Rightarrow> if hi < lo \<or> hi > 65535 then None else Some (lo, hi)))"

section \<open>The store\<close>

definition DETECTION_TYPES :: "string list" where
  "DETECTION_TYPES = [''sni'', ''dns'', ''ip_range'', ''host'', ''port_range'']"

record application =
  ap_id :: string
  ap_name :: string
  ap_category :: string
  ap_qos :: string
  ap_charging :: string
  ap_priority :: int
  ap_enabled :: bool

definition validate_application :: "application \<Rightarrow> string option" where
  "validate_application a =
     (if ap_id a = [] \<or> ap_name a = [] then Some ''app_id and app_name required'' else None)"

record pfd_rule =
  pr_app :: string
  pr_type :: string
  pr_pattern :: string
  pr_id :: nat

definition validate_pfd_rule :: "pfd_rule \<Rightarrow> string option" where
  "validate_pfd_rule r =
     (if pr_app r = [] then Some ''app_id required''
      else if pr_type r \<notin> set DETECTION_TYPES then Some ''invalid detection_type''
      else if pr_pattern r = [] then Some ''pattern required'' else None)"

record dns_entry =
  dn_domain :: string
  dn_ip :: string
  dn_app :: string
  dn_cached_at :: "int option"
  dn_ttl :: int

record log_entry =
  le_imsi :: string
  le_app :: string
  le_session :: int
  le_ul :: int
  le_dl :: int
  le_first :: "int option"
  le_last :: "int option"
  le_id :: nat

record dpi_store =
  dp_apps :: "(string, application) dict"
  dp_rules :: "pfd_rule list"
  dp_next_rule :: nat
  dp_dns :: "(string \<times> string, dns_entry) dict"
  dp_log :: "log_entry list"
  dp_next_log :: nat

definition new_dpi :: dpi_store where
  "new_dpi = \<lparr>dp_apps = [], dp_rules = [], dp_next_rule = 1, dp_dns = [], dp_log = [],
              dp_next_log = 1\<rparr>"

definition upsert_app :: "application \<Rightarrow> dpi_store \<Rightarrow> string option \<times> dpi_store" where
  "upsert_app a st =
     (case validate_application a of Some err \<Rightarrow> (Some err, st)
      | None \<Rightarrow>
          (None, st\<lparr>dp_apps := dict_set (ap_id a)
             (case dict_get (dp_apps st) (ap_id a) of
                None \<Rightarrow> a
              | Some e \<Rightarrow> e\<lparr>ap_name := ap_name a, ap_category := ap_category a, ap_qos := ap_qos a,
                            ap_charging := ap_charging a, ap_priority := ap_priority a\<rparr>)
             (dp_apps st)\<rparr>))"

definition delete_app :: "string \<Rightarrow> dpi_store \<Rightarrow> dpi_store" where
  "delete_app i st =
     st\<lparr>dp_apps := dict_del i (dp_apps st), dp_rules := filter (\<lambda>r. pr_app r \<noteq> i) (dp_rules st)\<rparr>"

definition list_apps :: "dpi_store \<Rightarrow> application list" where
  "list_apps st = sort_key (\<lambda>a. (ap_priority a, ap_id a)) (map snd (dp_apps st))"

definition set_enabled :: "string \<Rightarrow> bool \<Rightarrow> dpi_store \<Rightarrow> bool \<times> dpi_store" where
  "set_enabled i en st =
     (case dict_get (dp_apps st) i of None \<Rightarrow> (False, st)
      | Some a \<Rightarrow> (True, st\<lparr>dp_apps := dict_set i (a\<lparr>ap_enabled := en\<rparr>) (dp_apps st)\<rparr>))"

definition add_pfd_rule :: "pfd_rule \<Rightarrow> dpi_store \<Rightarrow> string option \<times> dpi_store" where
  "add_pfd_rule r st =
     (case validate_pfd_rule r of Some err \<Rightarrow> (Some err, st)
      | None \<Rightarrow> (None, st\<lparr>dp_next_rule := dp_next_rule st + 1,
                         dp_rules := dp_rules st @ [r\<lparr>pr_id := dp_next_rule st\<rparr>]\<rparr>))"

definition delete_pfd_rule :: "nat \<Rightarrow> dpi_store \<Rightarrow> bool \<times> dpi_store" where
  "delete_pfd_rule i st =
     (let rs = filter (\<lambda>r. pr_id r \<noteq> i) (dp_rules st)
      in (length rs < length (dp_rules st), st\<lparr>dp_rules := rs\<rparr>))"

definition get_pfd_rules :: "string \<Rightarrow> dpi_store \<Rightarrow> pfd_rule list" where
  "get_pfd_rules i st =
     (if i \<noteq> [] then filter (\<lambda>r. pr_app r = i) (dp_rules st) else dp_rules st)"

fun first_app :: "(pfd_rule \<Rightarrow> bool) \<Rightarrow> pfd_rule list \<Rightarrow> string option" where
  \<comment> \<open>the loops of the detectors: the application of the first rule that matches\<close>
  "first_app P [] = None"
| "first_app P (r # rs) = (if P r then Some (pr_app r) else first_app P rs)"

definition detect_by_sni :: "string \<Rightarrow> dpi_store \<Rightarrow> string" where
  "detect_by_sni sni st =
     (if sni = [] then []
      else case first_app (\<lambda>r. pr_type r = ''sni'' \<and> match_sni sni (pr_pattern r)) (dp_rules st) of
        Some a \<Rightarrow> a | None \<Rightarrow> [])"

definition detect_by_dns :: "string \<Rightarrow> dpi_store \<Rightarrow> string" where
  "detect_by_dns domain st =
     (if domain = [] then []
      else case first_app (\<lambda>r. pr_type r = ''dns'' \<and> match_dns domain (pr_pattern r)) (dp_rules st) of
        Some a \<Rightarrow> a
      | None \<Rightarrow>
          (case first_app (\<lambda>r. pr_type r = ''sni'' \<and>
                   match_sni (rstrip_dots (str_lower domain)) (pr_pattern r)) (dp_rules st) of
             Some a \<Rightarrow> a | None \<Rightarrow> []))"

definition port_rule :: "int \<Rightarrow> pfd_rule \<Rightarrow> bool" where
  "port_rule port r \<longleftrightarrow> pr_type r = ''port_range'' \<and>
     (case parse_port_range (pr_pattern r) of None \<Rightarrow> False | Some (lo, hi) \<Rightarrow> lo \<le> port \<and> port \<le> hi)"

definition detect_by_port :: "int \<Rightarrow> dpi_store \<Rightarrow> string" where
  "detect_by_port port st =
     (if port \<le> 0 \<or> port > 65535 then []
      else case first_app (port_rule port) (dp_rules st) of Some a \<Rightarrow> a | None \<Rightarrow> [])"

fun pinned_app :: "string \<Rightarrow> dns_entry list \<Rightarrow> string option" where
  \<comment> \<open>the pinned-answer path of \<open>detect_by_ip\<close>\<close>
  "pinned_app ip [] = None"
| "pinned_app ip (e # es) =
     (if dn_ip e = ip \<and> dn_app e \<noteq> [] then Some (dn_app e) else pinned_app ip es)"

definition cache_dns :: "string \<Rightarrow> string list \<Rightarrow> int \<Rightarrow> int \<Rightarrow> dpi_store \<Rightarrow> dpi_store" where
  "cache_dns domain ips ttl now st =
     (let app = detect_by_dns domain st in
      st\<lparr>dp_dns := foldl (\<lambda>c ip. dict_set (domain, ip)
            \<lparr>dn_domain = domain, dn_ip = ip, dn_app = app, dn_cached_at = Some now, dn_ttl = ttl\<rparr> c)
          (dp_dns st) ips\<rparr>)"

definition dns_cache_stats :: "dpi_store \<Rightarrow> nat \<times> nat" where
  "dns_cache_stats st =
     (length (dp_dns st), length (filter (\<lambda>(k, e). dn_app e \<noteq> []) (dp_dns st)))"

definition purge_expired_dns :: "int \<Rightarrow> dpi_store \<Rightarrow> int \<times> dpi_store" where
  "purge_expired_dns now st =
     (let c = filter (\<lambda>(k, e). (case dn_cached_at e of None \<Rightarrow> now | Some t \<Rightarrow> t) + dn_ttl e \<ge> now)
                (dp_dns st)
      in (int (length (dp_dns st)) - int (length c), st\<lparr>dp_dns := c\<rparr>))"

definition DEDUP_WINDOW :: int where "DEDUP_WINDOW = 3600"

fun coalesce :: "string \<Rightarrow> string \<Rightarrow> int \<Rightarrow> int \<Rightarrow> int \<Rightarrow> log_entry list \<Rightarrow> log_entry list option" where
  \<comment> \<open>the loop over the log, newest first: the first recent entry of the pair absorbs the bytes\<close>
  "coalesce imsi app ul dl now [] = None"
| "coalesce imsi app ul dl now (e # es) =
     (if le_imsi e = imsi \<and> le_app e = app \<and>
         (case le_last e of None \<Rightarrow> now | Some t \<Rightarrow> t) > now - DEDUP_WINDOW
      then Some (e\<lparr>le_ul := le_ul e + ul, le_dl := le_dl e + dl, le_last := Some now\<rparr> # es)
      else map_option (\<lambda>es'. e # es') (coalesce imsi app ul dl now es))"

definition log_detection ::
  "string \<Rightarrow> string \<Rightarrow> int \<Rightarrow> int \<Rightarrow> int \<Rightarrow> int \<Rightarrow> dpi_store \<Rightarrow> dpi_store" where
  "log_detection imsi app session ul0 dl0 now st =
     (if imsi = [] \<or> app = [] then st
      else let ul = max ul0 0; dl = max dl0 0 in
        case coalesce imsi app ul dl now (rev (dp_log st)) of
          Some es \<Rightarrow> st\<lparr>dp_log := rev es\<rparr>
        | None \<Rightarrow>
            st\<lparr>dp_log := dp_log st @
                 [\<lparr>le_imsi = imsi, le_app = app, le_session = session, le_ul = ul, le_dl = dl,
                   le_first = Some now, le_last = Some now, le_id = dp_next_log st\<rparr>],
               dp_next_log := dp_next_log st + 1\<rparr>)"

definition sort_desc :: "('a \<Rightarrow> 'k :: linorder) \<Rightarrow> 'a list \<Rightarrow> 'a list" where
  \<comment> \<open>\<open>sorted(..., reverse=True)\<close>: descending, equal elements in their original order\<close>
  "sort_desc f xs = rev (sort_key f (rev xs))"

definition get_detection_log :: "string \<Rightarrow> string \<Rightarrow> nat \<Rightarrow> dpi_store \<Rightarrow> log_entry list" where
  "get_detection_log imsi app limit st =
     (let es = dp_log st;
          es = (if imsi \<noteq> [] then filter (\<lambda>e. le_imsi e = imsi) es else es);
          es = (if app \<noteq> [] then filter (\<lambda>e. le_app e = app) es else es)
      in take limit (sort_desc (\<lambda>e. (le_last e, le_id e)) es))"

record usage =
  us_app :: string
  us_users :: "string list" \<comment> \<open>the set of subscribers, without repetition\<close>
  us_dl :: int
  us_ul :: int

definition add_usage :: "(string, usage) dict \<Rightarrow> log_entry \<Rightarrow> (string, usage) dict" where
  "add_usage agg e =
     (let row = (case dict_get agg (le_app e) of Some r \<Rightarrow> r
                 | None \<Rightarrow> \<lparr>us_app = le_app e, us_users = [], us_dl = 0, us_ul = 0\<rparr>)
      in dict_set (le_app e)
           (row\<lparr>us_users := List.insert (le_imsi e) (us_users row), us_dl := us_dl row + le_dl e,
                us_ul := us_ul row + le_ul e\<rparr>) agg)"

definition app_usage_summary :: "dpi_store \<Rightarrow> (string \<times> nat \<times> int \<times> int) list" where
  \<comment> \<open>application, number of users, total downlink, total uplink\<close>
  "app_usage_summary st =
     sort_desc (\<lambda>(a, n, dl, ul). dl)
       (map (\<lambda>(k, r). (us_app r, length (us_users r), us_dl r, us_ul r))
         (foldl add_usage [] (dp_log st)))"

section \<open>Domain suffixes end at label boundaries\<close>

text \<open>
  C40: The domain classifier compares whole labels: a domain (its trailing dots and its case
  aside) matches a pattern exactly when the labels of the pattern are the last labels of the
  domain, so no name that merely ends in the same letters matches.\<close>

theorem dns_matches_labels:
  "match_dns d p \<longleftrightarrow>
     suffix (split_on CHR ''.'' (str_lower p)) (split_on CHR ''.'' (rstrip_dots (str_lower d)))"
proof -
  let ?dom = "rstrip_dots (str_lower d)" and ?pat = "str_lower p"
  have ends: "ends_with s t \<longleftrightarrow> (\<exists>x. s = x @ t)" for s t :: string
    by (auto simp: ends_with_def) (metis append_take_drop_id)
  show ?thesis
  proof
    assume "match_dns d p"
    then consider "?dom = ?pat" | x where "?dom = x @ CHR ''.'' # ?pat"
      by (auto simp: match_dns_def Let_def ends)
    then show "suffix (split_on CHR ''.'' ?pat) (split_on CHR ''.'' ?dom)"
      by cases (auto simp: split_on_sep suffix_def)
  next
    assume "suffix (split_on CHR ''.'' ?pat) (split_on CHR ''.'' ?dom)"
    then obtain pre where pre: "split_on CHR ''.'' ?dom = pre @ split_on CHR ''.'' ?pat"
      by (auto simp: suffix_def)
    show "match_dns d p"
    proof (cases "pre = []")
      case True
      with pre show ?thesis by (simp add: match_dns_def split_on_inj)
    next
      case False
      have "?dom = join_with CHR ''.'' (pre @ split_on CHR ''.'' ?pat)"
        by (metis join_split pre)
      also have "\<dots> = join_with CHR ''.'' pre @ CHR ''.'' # ?pat"
        using False by (simp add: join_append)
      finally show ?thesis by (auto simp: match_dns_def Let_def ends)
    qed
  qed
qed

section \<open>Server name globs\<close>

definition plain :: "string \<Rightarrow> bool" where
  "plain p \<longleftrightarrow> list_all (\<lambda>c. c \<noteq> CHR ''*'' \<and> c \<noteq> CHR ''?'' \<and> c \<noteq> CHR ''['') p"

lemma lower_char_special:
  "lower_char c = CHR ''*'' \<longleftrightarrow> c = CHR ''*''"
  "lower_char c = CHR ''?'' \<longleftrightarrow> c = CHR ''?''"
  "lower_char c = CHR ''['' \<longleftrightarrow> c = CHR ''[''"
proof -
  have code: "(of_char (char_of (of_char c + 32 :: nat)) :: nat) = of_char c + 32"
    if "(of_char c :: nat) \<le> 90" for c
    using that by (simp add: of_char_mod_256)
  have eq: "char_of (of_char c + 32 :: nat) = d \<longleftrightarrow> of_char c + 32 = (of_char d :: nat)"
    if "(of_char c :: nat) \<le> 90" for c d
    using code [OF that] by (metis char_of_char)
  show "lower_char c = CHR ''*'' \<longleftrightarrow> c = CHR ''*''" "lower_char c = CHR ''?'' \<longleftrightarrow> c = CHR ''?''"
    "lower_char c = CHR ''['' \<longleftrightarrow> c = CHR ''[''"
    by (auto simp: lower_char_def Let_def eq)
qed

lemma plain_lower: "plain p \<Longrightarrow> plain (str_lower p)"
  by (simp add: plain_def str_lower_def list.pred_map comp_def lower_char_special)

lemma glob_toks_plain: "plain p \<Longrightarrow> glob_toks p = map Lit p"
  by (induction p) (auto simp: plain_def)

lemma glob_match_lits: "glob_match (map Lit p) s \<longleftrightarrow> s = p"
  by (induction p arbitrary: s) (auto split: list.splits)

lemma glob_match_star: "glob_match (Star # ts) s \<longleftrightarrow> (\<exists>x y. s = x @ y \<and> glob_match ts y)"
proof (induction s)
  case Nil
  then show ?case by simp
next
  case (Cons c s)
  have "glob_match (Star # ts) (c # s) \<longleftrightarrow> glob_match ts (c # s) \<or> glob_match (Star # ts) s" by simp
  also have "\<dots> \<longleftrightarrow> (\<exists>x y. c # s = x @ y \<and> glob_match ts y)"
    unfolding Cons.IH by (metis Cons_eq_append_conv append_Cons append_Nil)
  finally show ?case .
qed

text \<open>
  A server name pattern without wildcards matches exactly its own name, whatever the
  case; one that starts with a star matches exactly the names that end in the rest of it, so
  \<open>*.example.com\<close> matches every host below the domain and never the bare domain.\<close>

theorem sni_wildcard:
  assumes "plain p"
  shows "(match_sni s p \<longleftrightarrow> str_lower s = str_lower p) \<and>
         (match_sni s (CHR ''*'' # p) \<longleftrightarrow> suffix (str_lower p) (str_lower s))"
proof -
  note toks = glob_toks_plain [OF plain_lower [OF assms]]
  have "str_lower (CHR ''*'' # p) = CHR ''*'' # str_lower p"
    by (simp add: str_lower_def lower_char_special)
  then have "glob_toks (str_lower (CHR ''*'' # p)) = Star # map Lit (str_lower p)"
    by (simp add: toks)
  then show ?thesis
    unfolding match_sni_def toks by (simp only: glob_match_star glob_match_lits) (auto simp: suffix_def)
qed

theorem sni_wildcard_witness:
  "match_sni ''WWW.example.com'' ''*.example.com'' \<and> \<not> match_sni ''example.com'' ''*.example.com''"
proof -
  have "plain ''.example.com''" by (simp add: plain_def)
  note wild = sni_wildcard [OF this, THEN conjunct2]
  have "suffix (str_lower ''.example.com'') (str_lower ''WWW.example.com'')"
    by (simp add: str_lower_def lower_char_def Let_def suffix_def)
  moreover have "\<not> suffix (str_lower ''.example.com'') (str_lower ''example.com'')"
    by (auto simp: str_lower_def dest: suffix_length_le)
  ultimately show ?thesis by (simp only: wild not_False_eq_True simp_thms)
qed

section \<open>Port ranges\<close>

lemma split_once_none: "c \<notin> set s \<Longrightarrow> split_once c s = (s, None)"
  by (induction s) auto

lemma split_once_at: "c \<notin> set s \<Longrightarrow> split_once c (s @ c # t) = (s, Some t)"
  by (induction s) auto

lemma dec_str_no_dash: "CHR ''-'' \<notin> set (dec_str n)"
  using dec_str_digits [of n] digit_not_sign by (auto simp: list_all_iff)

lemma dec_str_strip: "list_all (\<lambda>c. is_digit c \<or> c = CHR ''-'') s \<Longrightarrow> py_strip s = s"
proof (rule strip_no_space)
  assume "list_all (\<lambda>c. is_digit c \<or> c = CHR ''-'') s"
  moreover have "\<not> is_space CHR ''-''" by (simp add: is_space_def)
  ultimately show "\<forall>c \<in> set s. \<not> is_space c" by (auto simp: list_all_iff digit_not_space)
qed

lemma parse_port_range_sound:
  "parse_port_range s = Some (lo, hi) \<Longrightarrow> 0 \<le> lo \<and> lo \<le> hi \<and> hi \<le> 65535"
  by (auto simp: parse_port_range_def Let_def split: prod.splits option.splits if_splits)

text \<open>
  A port range written in decimal is read back, as a pair or as a single port, and the
  rule that carries it claims exactly the ports between its bounds.\<close>

theorem port_range_roundtrip:
  assumes "lo \<le> hi" and "hi \<le> 65535"
  shows "parse_port_range (dec_str lo @ CHR ''-'' # dec_str hi) = Some (int lo, int hi) \<and>
         parse_port_range (dec_str lo) = Some (int lo, int lo) \<and>
         (pr_type r = ''port_range'' \<and> pr_pattern r = dec_str lo @ CHR ''-'' # dec_str hi \<longrightarrow>
            port_rule p r = (int lo \<le> p \<and> p \<le> int hi))"
proof -
  have "list_all is_digit (dec_str n)" for n by (rule dec_str_digits)
  then have "py_strip (dec_str lo @ CHR ''-'' # dec_str hi) = dec_str lo @ CHR ''-'' # dec_str hi"
    and "py_strip (dec_str lo) = dec_str lo"
    by (auto intro!: dec_str_strip simp: list_all_iff)
  then have
    "parse_port_range (dec_str lo @ CHR ''-'' # dec_str hi) = Some (int lo, int hi)"
    "parse_port_range (dec_str lo) = Some (int lo, int lo)"
    using assms by (simp_all add: parse_port_range_def split_once_at split_once_none dec_str_no_dash)
  then show ?thesis by (simp add: port_rule_def)
qed

theorem port_range_roundtrip_witness:
  "parse_port_range (dec_str 8000 @ CHR ''-'' # dec_str 8080) = Some (8000, 8080)"
  using port_range_roundtrip [of 8000 8080] by simp

lemma first_app_find: "first_app P rs = map_option pr_app (find P rs)"
  by (induction rs) auto

lemma detect_by_port_sound:
  "detect_by_port port st = a \<Longrightarrow> a \<noteq> [] \<Longrightarrow>
   \<exists>r \<in> set (dp_rules st). pr_app r = a \<and> port_rule port r"
  by (auto simp: detect_by_port_def first_app_find find_Some_iff split: if_splits option.splits)

section \<open>The detection log loses no bytes\<close>

record detection =
  de_imsi :: string
  de_app :: string
  de_session :: int
  de_ul :: int
  de_dl :: int
  de_at :: int

definition log_step :: "dpi_store \<Rightarrow> detection \<Rightarrow> dpi_store" where
  "log_step st d = log_detection (de_imsi d) (de_app d) (de_session d) (de_ul d) (de_dl d) (de_at d) st"

definition counted :: "detection \<Rightarrow> bool" where
  "counted d \<longleftrightarrow> de_imsi d \<noteq> [] \<and> de_app d \<noteq> []"

definition log_view :: "(log_entry \<Rightarrow> int) \<Rightarrow> string \<Rightarrow> log_entry list \<Rightarrow> int" where
  \<comment> \<open>the bytes the log holds for an application\<close>
  "log_view f a es = sum_list (map f (filter (\<lambda>e. le_app e = a) es))"

definition event_view :: "(detection \<Rightarrow> int) \<Rightarrow> string \<Rightarrow> detection list \<Rightarrow> int" where
  "event_view f a ds = sum_list (map (\<lambda>d. max (f d) 0) (filter (\<lambda>d. counted d \<and> de_app d = a) ds))"

lemma log_view_simps [simp]:
  "log_view f a [] = 0"
  "log_view f a (e # es) = (if le_app e = a then f e else 0) + log_view f a es"
  "log_view f a (es @ es') = log_view f a es + log_view f a es'"
  by (simp_all add: log_view_def)

lemma log_view_rev [simp]: "log_view f a (rev es) = log_view f a es"
  by (induction es) simp_all

lemma log_view_absent: "a \<notin> le_app ` set es \<Longrightarrow> log_view f a es = 0"
  by (induction es) auto

lemma coalesce_ConsE:
  assumes "coalesce i a ul dl now (e # es) = Some es'"
  obtains (absorbed) "le_imsi e = i" "le_app e = a"
      "es' = e\<lparr>le_ul := le_ul e + ul, le_dl := le_dl e + dl, le_last := Some now\<rparr> # es"
    | (later) es2 where "coalesce i a ul dl now es = Some es2" "es' = e # es2"
  using assms by (simp split: if_splits) blast+

lemma coalesce_pairs:
  "coalesce i a ul dl now es = Some es' \<Longrightarrow>
   map (\<lambda>e. (le_imsi e, le_app e)) es' = map (\<lambda>e. (le_imsi e, le_app e)) es \<and>
   (i, a) \<in> set (map (\<lambda>e. (le_imsi e, le_app e)) es)"
proof (induction es arbitrary: es')
  case (Cons e es)
  from Cons.prems show ?case by (cases rule: coalesce_ConsE) (use Cons.IH in \<open>auto simp: list.set_map\<close>)
qed simp

lemma coalesce_view:
  "coalesce i a ul dl now es = Some es' \<Longrightarrow>
   log_view le_ul b es' = log_view le_ul b es + (if b = a then ul else 0) \<and>
   log_view le_dl b es' = log_view le_dl b es + (if b = a then dl else 0)"
proof (induction es arbitrary: es')
  case (Cons e es)
  from Cons.prems show ?case by (cases rule: coalesce_ConsE) (auto simp: Cons.IH)
qed simp

definition pairs :: "log_entry list \<Rightarrow> (string \<times> string) set" where
  "pairs es = (\<lambda>e. (le_imsi e, le_app e)) ` set es"

lemma pairs_set: "pairs es = set (map (\<lambda>e. (le_imsi e, le_app e)) es)"
  by (simp add: pairs_def)

lemma log_step_uncounted: "\<not> counted d \<Longrightarrow> log_step st d = st"
  by (auto simp: log_step_def log_detection_def counted_def)

lemma log_step_counted:
  "counted d \<Longrightarrow> dp_log (log_step st d) =
     (case coalesce (de_imsi d) (de_app d) (max (de_ul d) 0) (max (de_dl d) 0) (de_at d) (rev (dp_log st)) of
        Some es \<Rightarrow> rev es
      | None \<Rightarrow> dp_log st @
          [\<lparr>le_imsi = de_imsi d, le_app = de_app d, le_session = de_session d, le_ul = max (de_ul d) 0,
            le_dl = max (de_dl d) 0, le_first = Some (de_at d), le_last = Some (de_at d),
            le_id = dp_next_log st\<rparr>])"
  by (simp add: log_step_def log_detection_def counted_def split: option.split)

lemma log_step_view:
  "log_view le_ul b (dp_log (log_step st d)) =
     log_view le_ul b (dp_log st) + (if counted d \<and> de_app d = b then max (de_ul d) 0 else 0) \<and>
   log_view le_dl b (dp_log (log_step st d)) =
     log_view le_dl b (dp_log st) + (if counted d \<and> de_app d = b then max (de_dl d) 0 else 0) \<and>
   pairs (dp_log (log_step st d)) =
     pairs (dp_log st) \<union> (if counted d then {(de_imsi d, de_app d)} else {})"
proof (cases "counted d")
  case False
  then show ?thesis by (simp add: log_step_uncounted)
next
  case True
  show ?thesis
  proof (cases "coalesce (de_imsi d) (de_app d) (max (de_ul d) 0) (max (de_dl d) 0) (de_at d) (rev (dp_log st))")
    case None
    with True show ?thesis by (simp add: log_step_counted pairs_def)
  next
    case (Some es)
    have
      "\<And>b. log_view le_ul b es = log_view le_ul b (dp_log st) + (if b = de_app d then max (de_ul d) 0 else 0)"
      "\<And>b. log_view le_dl b es = log_view le_dl b (dp_log st) + (if b = de_app d then max (de_dl d) 0 else 0)"
      "pairs es = pairs (dp_log st)" "(de_imsi d, de_app d) \<in> pairs (dp_log st)"
      using coalesce_view [OF Some] pairs_set [of es] pairs_set [of "rev (dp_log st)"] coalesce_pairs [OF Some]
      by (simp_all only: log_view_rev) (simp_all add: pairs_set)
    moreover have "pairs (rev es) = pairs es" by (simp add: pairs_def)
    ultimately show ?thesis using True Some by (auto simp: log_step_counted)
  qed
qed

lemma log_run_view:
  "log_view le_ul b (dp_log (foldl log_step st ds)) = log_view le_ul b (dp_log st) + event_view de_ul b ds"
  "log_view le_dl b (dp_log (foldl log_step st ds)) = log_view le_dl b (dp_log st) + event_view de_dl b ds"
  "pairs (dp_log (foldl log_step st ds)) =
     pairs (dp_log st) \<union> {(de_imsi d, de_app d) | d. d \<in> set ds \<and> counted d}"
  by (induction ds arbitrary: st) (auto simp: log_step_view event_view_def)

lemma add_usage_get:
  "dict_get (add_usage agg e) a =
     (if a = le_app e
      then Some (case dict_get agg a of
             None \<Rightarrow> \<lparr>us_app = a, us_users = [le_imsi e], us_dl = le_dl e, us_ul = le_ul e\<rparr>
           | Some r \<Rightarrow> r\<lparr>us_users := List.insert (le_imsi e) (us_users r), us_dl := us_dl r + le_dl e,
                         us_ul := us_ul r + le_ul e\<rparr>)
      else dict_get agg a)"
  by (auto simp: add_usage_def Let_def split: option.split)

lemma add_usage_run_none:
  "dict_get (foldl add_usage [] es) a = None \<longleftrightarrow> a \<notin> snd ` pairs es"
proof (induction es rule: rev_induct)
  case (snoc e es)
  then show ?case by (auto simp: add_usage_get pairs_def image_image)
qed (simp add: pairs_def)

lemma add_usage_run_some:
  "dict_get (foldl add_usage [] es) a = Some r \<Longrightarrow>
   us_app r = a \<and> distinct (us_users r) \<and> set (us_users r) = {i. (i, a) \<in> pairs es} \<and>
   us_dl r = log_view le_dl a es \<and> us_ul r = log_view le_ul a es"
proof (induction es arbitrary: r rule: rev_induct)
  case Nil
  then show ?case by simp
next
  case (snoc e es)
  have pairs: "pairs (es @ [e]) = insert (le_imsi e, le_app e) (pairs es)"
    by (auto simp: pairs_def)
  show ?case
  proof (cases "a = le_app e")
    case False
    with snoc show ?thesis by (auto simp: add_usage_get pairs)
  next
    case True
    show ?thesis
    proof (cases "dict_get (foldl add_usage [] es) a")
      case None
      then have "a \<notin> snd ` pairs es" by (simp add: add_usage_run_none)
      then have "log_view f a es = 0" "{i. (i, a) \<in> pairs es} = {}" for f
        by (auto simp: pairs_def image_image rev_image_eqI intro: log_view_absent)
      with None True snoc.prems show ?thesis by (auto simp: add_usage_get pairs)
    next
      case (Some r0)
      from snoc.IH [OF Some] Some True snoc.prems show ?thesis
        by (auto simp: add_usage_get pairs)
    qed
  qed
qed

lemma add_usage_ok: "dict_ok agg \<Longrightarrow> dict_ok (foldl add_usage agg es)"
  by (induction es arbitrary: agg) (auto simp: add_usage_def Let_def)

lemma set_sort_desc [simp]: "set (sort_desc f xs) = set xs"
  by (simp add: sort_desc_def)

lemma sorted_sort_desc: "sorted_wrt (\<lambda>x y. f y \<le> f x) (sort_desc f xs)"
  by (simp add: sort_desc_def sorted_wrt_rev) (metis sorted_map sorted_sort_key)

lemma usage_rows:
  "set (app_usage_summary st) =
     {(a, card {i. (i, a) \<in> pairs (dp_log st)}, log_view le_dl a (dp_log st), log_view le_ul a (dp_log st))
      | a. a \<in> snd ` pairs (dp_log st)}"
    (is "_ = ?rows")
proof -
  let ?agg = "foldl add_usage [] (dp_log st)"
  have ok: "dict_ok ?agg" by (rule add_usage_ok) simp
  have row: "(us_app r, length (us_users r), us_dl r, us_ul r) =
      (a, card {i. (i, a) \<in> pairs (dp_log st)}, log_view le_dl a (dp_log st), log_view le_ul a (dp_log st))"
    if "dict_get ?agg a = Some r" for a r
    using add_usage_run_some [OF that] by (metis distinct_card)
  have "set (app_usage_summary st) =
      {(us_app r, length (us_users r), us_dl r, us_ul r) | a r. dict_get ?agg a = Some r}"
    using ok by (auto simp: app_usage_summary_def dict_get_in_set)
  also have "\<dots> = ?rows"
  proof (intro set_eqI iffI)
    fix x assume "x \<in> {(us_app r, length (us_users r), us_dl r, us_ul r) | a r. dict_get ?agg a = Some r}"
    then obtain a r where x: "x = (us_app r, length (us_users r), us_dl r, us_ul r)" and
      get: "dict_get ?agg a = Some r" by blast
    then have "a \<in> snd ` pairs (dp_log st)" by (metis add_usage_run_none option.distinct(1))
    with row [OF get] x show "x \<in> ?rows" by blast
  next
    fix x assume "x \<in> ?rows"
    then obtain a where x: "x = (a, card {i. (i, a) \<in> pairs (dp_log st)}, log_view le_dl a (dp_log st),
      log_view le_ul a (dp_log st))" and "a \<in> snd ` pairs (dp_log st)" by blast
    then obtain r where "dict_get ?agg a = Some r"
      using add_usage_run_none [of "dp_log st" a] by fastforce
    with row [of a r] x show
      "x \<in> {(us_app r, length (us_users r), us_dl r, us_ul r) | a r. dict_get ?agg a = Some r}"
      by (auto intro!: exI)
  qed
  finally show ?thesis .
qed

text \<open>
  The usage summary accounts for every detection: whatever sequence of detections was
  logged, and whichever of them the hourly window coalesced, each application that was seen has
  exactly one row content - the number of its distinct subscribers and the exact sums of the
  (non-negative) uplink and downlink bytes - and the rows come by descending downlink volume.\<close>

theorem usage_summary_exact:
  "set (app_usage_summary (foldl log_step new_dpi ds)) =
     {(a, card {de_imsi d | d. d \<in> set ds \<and> counted d \<and> de_app d = a},
       event_view de_dl a ds, event_view de_ul a ds)
      | a. \<exists>d \<in> set ds. counted d \<and> de_app d = a} \<and>
   sorted_wrt (\<lambda>(_, _, dl, _) (_, _, dl', _). dl' \<le> dl)
     (app_usage_summary (foldl log_step new_dpi ds))"
proof -
  let ?st = "foldl log_step new_dpi ds"
  have fresh: "pairs (dp_log new_dpi) = {}" "log_view f a (dp_log new_dpi) = 0" for f a
    by (simp_all add: new_dpi_def pairs_def)
  have pairs: "pairs (dp_log ?st) = {(de_imsi d, de_app d) | d. d \<in> set ds \<and> counted d}"
    by (simp add: log_run_view fresh)
  have users: "{i. (i, a) \<in> pairs (dp_log ?st)} = {de_imsi d | d. d \<in> set ds \<and> counted d \<and> de_app d = a}" for a
    unfolding pairs by auto
  have apps: "a \<in> snd ` pairs (dp_log ?st) \<longleftrightarrow> (\<exists>d \<in> set ds. counted d \<and> de_app d = a)" for a
    unfolding pairs by force
  have views: "log_view le_ul a (dp_log ?st) = event_view de_ul a ds"
    "log_view le_dl a (dp_log ?st) = event_view de_dl a ds" for a
    by (simp_all add: log_run_view fresh)
  have "sorted_wrt (\<lambda>(_, _, dl, _) (_, _, dl', _). dl' \<le> dl) (app_usage_summary ?st)"
    using sorted_sort_desc [of "\<lambda>(a :: string, n :: nat, dl :: int, ul :: int). dl"]
    unfolding app_usage_summary_def by (simp add: case_prod_unfold)
  then show ?thesis unfolding usage_rows users apps views by blast
qed

section \<open>Applications and rules\<close>

datatype dpi_op =
    Upsert application
  | DeleteApp string
  | Enable string bool
  | AddRule pfd_rule
  | DeleteRule nat
  | CacheDns string "string list" int int
  | PurgeDns int
  | Log detection

fun dpi_step :: "dpi_store \<Rightarrow> dpi_op \<Rightarrow> dpi_store" where
  "dpi_step st (Upsert a) = snd (upsert_app a st)"
| "dpi_step st (DeleteApp i) = delete_app i st"
| "dpi_step st (Enable i b) = snd (set_enabled i b st)"
| "dpi_step st (AddRule r) = snd (add_pfd_rule r st)"
| "dpi_step st (DeleteRule i) = snd (delete_pfd_rule i st)"
| "dpi_step st (CacheDns d ips ttl now) = cache_dns d ips ttl now st"
| "dpi_step st (PurgeDns now) = snd (purge_expired_dns now st)"
| "dpi_step st (Log d) = log_step st d"

definition dpi_inv :: "dpi_store \<Rightarrow> bool" where
  "dpi_inv st \<longleftrightarrow> dict_ok (dp_apps st) \<and> sorted_wrt (<) (map pr_id (dp_rules st)) \<and>
     (\<forall>r \<in> set (dp_rules st). pr_id r < dp_next_rule st \<and> validate_pfd_rule r = None)"

lemma sorted_wrt_filter_map: "sorted_wrt (<) (map f xs) \<Longrightarrow> sorted_wrt (<) (map f (filter P xs))"
  by (simp add: sorted_wrt_map sorted_wrt_filter)

lemma log_step_frame:
  "dp_apps (log_step st d) = dp_apps st" "dp_rules (log_step st d) = dp_rules st"
  "dp_next_rule (log_step st d) = dp_next_rule st" "dp_dns (log_step st d) = dp_dns st"
  by (simp_all add: log_step_def log_detection_def Let_def split: option.split)

lemma validate_pfd_rule_id [simp]: "validate_pfd_rule (r\<lparr>pr_id := i\<rparr>) = validate_pfd_rule r"
  by (simp add: validate_pfd_rule_def)

lemma dpi_step_inv: "dpi_inv st \<Longrightarrow> dpi_inv (dpi_step st op)"
proof (cases op)
  case (AddRule r)
  assume inv: "dpi_inv st"
  show ?thesis
  proof (cases "validate_pfd_rule r")
    case None
    with AddRule inv show ?thesis
      by (auto simp: dpi_inv_def add_pfd_rule_def sorted_wrt_append)
  qed (use AddRule inv in \<open>simp add: add_pfd_rule_def\<close>)
qed (auto simp: dpi_inv_def upsert_app_def delete_app_def set_enabled_def delete_pfd_rule_def cache_dns_def
    purge_expired_dns_def log_step_frame Let_def sorted_wrt_filter_map split: option.split)

interpretation dpi: step_system dpi_step dpi_inv
  by unfold_locales (rule dpi_step_inv)

lemma filter_out_key:
  "distinct (map f xs) \<Longrightarrow>
   length (filter (\<lambda>x. f x \<noteq> i) xs) + (if i \<in> f ` set xs then 1 else 0) = length xs"
proof (induction xs)
  case (Cons x xs)
  then show ?case by (cases "f x = i") (simp_all split: if_splits)
qed simp

text \<open>
  Detection rules keep distinct identifiers through any sequence of operations, so deleting
  by identifier reports success exactly when the rule is there and then removes that rule alone.\<close>

theorem rule_delete_exact:
  "let st = foldl dpi_step new_dpi ops; (ok, st') = delete_pfd_rule i st in
     distinct (map pr_id (dp_rules st)) \<and>
     ok = (i \<in> pr_id ` set (dp_rules st)) \<and>
     length (dp_rules st') = length (dp_rules st) - (if ok then 1 else 0) \<and>
     set (dp_rules st') = {r \<in> set (dp_rules st). pr_id r \<noteq> i}"
proof -
  define st where "st = foldl dpi_step new_dpi ops"
  have "dpi_inv st" unfolding st_def by (rule dpi.run_inv) (simp add: dpi_inv_def new_dpi_def)
  then have dist: "distinct (map pr_id (dp_rules st))"
    unfolding dpi_inv_def using strict_sorted_iff by blast
  have len: "length (filter (\<lambda>r. pr_id r \<noteq> i) (dp_rules st)) +
      (if i \<in> pr_id ` set (dp_rules st) then 1 else 0) = length (dp_rules st)"
    using filter_out_key [OF dist] .
  then have "length (filter (\<lambda>r. pr_id r \<noteq> i) (dp_rules st)) < length (dp_rules st) \<longleftrightarrow>
      i \<in> pr_id ` set (dp_rules st)"
    by (auto split: if_splits)
  then show ?thesis
    unfolding st_def [symmetric] using dist len by (auto simp: delete_pfd_rule_def Let_def)
qed

lemma first_app_filter:
  "first_app P (filter (\<lambda>r. pr_app r \<noteq> i) rs) \<noteq> Some i"
  by (induction rs) auto

text \<open>
  Deleting an application withdraws it from detection: neither the server name, the domain
  nor the port detector answers with it afterwards. Answers already pinned to addresses are not
  withdrawn: the pinned path still classifies an address to the deleted application.\<close>

theorem delete_app_withdraws:
  assumes "i \<noteq> []"
  shows "detect_by_sni s (delete_app i st) \<noteq> i \<and> detect_by_dns d (delete_app i st) \<noteq> i \<and>
         detect_by_port p (delete_app i st) \<noteq> i \<and>
         dict_get (dp_apps (delete_app i st)) i = None \<and>
         pinned_app ip (map snd (dp_dns (delete_app i st))) = pinned_app ip (map snd (dp_dns st))"
  using assms first_app_filter
  by (auto simp: detect_by_sni_def detect_by_dns_def detect_by_port_def delete_app_def split: option.splits)

definition netflix :: dpi_store where
  "netflix = cache_dns ''nflx.com'' [''10.0.0.1''] 300 0
     (snd (add_pfd_rule \<lparr>pr_app = ''netflix'', pr_type = ''dns'', pr_pattern = ''nflx.com'', pr_id = 0\<rparr> new_dpi))"

theorem delete_app_withdraws_witness:
  "detect_by_dns ''nflx.com'' (delete_app ''netflix'' netflix) \<noteq> ''netflix'' \<and>
   pinned_app ''10.0.0.1'' (map snd (dp_dns (delete_app ''netflix'' netflix))) = Some ''netflix''"
proof -
  have "match_dns ''nflx.com'' ''nflx.com''"
    by (simp add: match_dns_def rstrip_dots_def str_lower_def lower_char_def Let_def)
  then have "pinned_app ''10.0.0.1'' (map snd (dp_dns netflix)) = Some ''netflix''"
    by (simp add: netflix_def cache_dns_def add_pfd_rule_def validate_pfd_rule_def DETECTION_TYPES_def
        new_dpi_def detect_by_dns_def dict_set_def)
  then show ?thesis
    using delete_app_withdraws [of "''netflix''" _ netflix "''nflx.com''" _ "''10.0.0.1''"] by simp
qed

text \<open>
  An update of an application never switches it on or off and never moves it: the
  operator's flag survives, the other fields are the new ones, and the other applications keep
  their records.\<close>

theorem upsert_keeps_flag:
  assumes "ap_id a \<noteq> []" and "ap_name a \<noteq> []"
  shows "fst (upsert_app a st) = None \<and>
         dict_get (dp_apps (snd (upsert_app a st))) j =
           (if j \<noteq> ap_id a then dict_get (dp_apps st) j
            else Some (case dict_get (dp_apps st) j of None \<Rightarrow> a
                 | Some e \<Rightarrow> a\<lparr>ap_id := ap_id e, ap_enabled := ap_enabled e\<rparr>))"
  using assms
  by (auto simp: upsert_app_def validate_application_def split: option.split)

theorem upsert_keeps_flag_witness:
  "dict_get (dp_apps (snd (upsert_app \<lparr>ap_id = ''a'', ap_name = ''n'', ap_category = [], ap_qos = [],
      ap_charging = [], ap_priority = 1, ap_enabled = True\<rparr> new_dpi))) ''b'' = None"
  using upsert_keeps_flag [of "\<lparr>ap_id = ''a'', ap_name = ''n'', ap_category = [], ap_qos = [],
      ap_charging = [], ap_priority = 1, ap_enabled = True\<rparr>" new_dpi "''b''"]
  by (simp add: new_dpi_def)

end
