(* ===== verification/SaCrypto.thy ===== *)
theory SaCrypto
  imports Prelude
begin

text \<open>
  The 3GPP cryptographic toolkit (\<open>libs/sa_crypto\<close>): Milenage, the key derivation functions, the
  CMAC mode, the AES based ciphering and integrity algorithms and the SUCI concealment scheme.

  The primitives the package itself imports are parameters: \<open>aes\<close> is the block cipher
  (\<open>aes key block\<close>), \<open>ctr\<close> the counter mode cipher (\<open>ctr key iv data\<close>), \<open>hmac\<close> is HMAC-SHA-256,
  and the elliptic curve operations of \<open>ec.py\<close> are the three functions of its interface.
\<close>

section \<open>Helpers\<close>

definition cm_error :: "string \<Rightarrow> py_error" where
  "cm_error s = Raised ''CMException'' s"

definition xor_buf :: "bytes \<Rightarrow> bytes \<Rightarrow> bytes" where
  "xor_buf a b = map2 (\<lambda>x y. x XOR y) a b"

lemma length_xor_buf [simp]: "length (xor_buf a b) = min (length a) (length b)"
  by (simp add: xor_buf_def)

lemma xor_buf_commute: "xor_buf a b = xor_buf b a"
proof (induction a arbitrary: b)
  case Nil
  then show ?case by (simp add: xor_buf_def)
next
  case (Cons x a)
  then show ?case by (cases b) (simp_all add: xor_buf_def xor.commute)
qed

lemma xor_buf_cancel: "length a \<le> length b \<Longrightarrow> xor_buf (xor_buf a b) b = a"
proof (induction a arbitrary: b)
  case Nil
  then show ?case by (simp add: xor_buf_def)
next
  case (Cons x a)
  then show ?case by (cases b) (simp_all add: xor_buf_def xor.assoc)
qed

section \<open>Milenage\<close>

definition rot16 :: "bytes \<Rightarrow> nat \<Rightarrow> bytes res" where
  "rot16 b r =
     (let ro = drop_bit 3 r; rb = r mod 8; br = drop ro b @ take ro b in
      if rb \<noteq> 0 then
        (if length br \<noteq> 16 then Inl StructError
         else let b0 = be_val (take 8 br); b1 = be_val (drop 8 br); m = 2 ^ 64 - 1 in
           Inr (be_enc 8 ((push_bit rb b0 AND m) OR drop_bit (64 - rb) b1) @
                be_enc 8 ((push_bit rb b1 AND m) OR drop_bit (64 - rb) b0)))
      else Inr br)"

definition mil_c1 :: bytes where "mil_c1 = zeros 16"
definition mil_c2 :: bytes where "mil_c2 = zeros 15 @ [byte_of 1]"
definition mil_c3 :: bytes where "mil_c3 = zeros 15 @ [byte_of 2]"
definition mil_c4 :: bytes where "mil_c4 = zeros 15 @ [byte_of 4]"
definition mil_c5 :: bytes where "mil_c5 = zeros 15 @ [byte_of 8]"
definition mil_r1 :: nat where "mil_r1 = 0x40"
definition mil_r2 :: nat where "mil_r2 = 0x00"
definition mil_r3 :: nat where "mil_r3 = 0x20"
definition mil_r4 :: nat where "mil_r4 = 0x40"
definition mil_r5 :: nat where "mil_r5 = 0x60"

record milenage =
  mil_OP :: "bytes option"
  mil_OPc :: "bytes option"

definition new_milenage :: "bytes option \<Rightarrow> milenage" where
  "new_milenage p = \<lparr>mil_OP = p, mil_OPc = None\<rparr>"

definition set_opc :: "bytes \<Rightarrow> milenage \<Rightarrow> milenage" where
  "set_opc c m = m\<lparr>mil_OPc := Some c\<rparr>"

definition unset_opc :: "milenage \<Rightarrow> milenage" where
  "unset_opc m = m\<lparr>mil_OPc := None\<rparr>"

definition make_OPc :: "(bytes \<Rightarrow> bytes \<Rightarrow> bytes) \<Rightarrow> bytes \<Rightarrow> bytes \<Rightarrow> bytes" where
  "make_OPc aes k p = xor_buf (aes k p) p"

definition get_opc ::
  "(bytes \<Rightarrow> bytes \<Rightarrow> bytes) \<Rightarrow> milenage \<Rightarrow> bytes \<Rightarrow> bytes option \<Rightarrow> bytes res" where
  "get_opc aes m k p =
     (case mil_OPc m of
        Some c \<Rightarrow> Inr c
      | None \<Rightarrow> (case (case p of Some q \<Rightarrow> Some q | None \<Rightarrow> mil_OP m) of
                  Some q \<Rightarrow> Inr (make_OPc aes k q)
                | None \<Rightarrow> Inl TypeError))"

definition f1_out ::
  "(bytes \<Rightarrow> bytes \<Rightarrow> bytes) \<Rightarrow> milenage \<Rightarrow> bytes \<Rightarrow> bytes \<Rightarrow> bytes \<Rightarrow> bytes \<Rightarrow> bytes option
     \<Rightarrow> bytes option res" where
  \<comment> \<open>the common body of \<open>f1\<close> and \<open>f1star\<close>: the block \<open>OUT1\<close>\<close>
  "f1_out aes m k rnd sqn amf p =
     (if length k \<noteq> 16 \<or> length rnd \<noteq> 16 \<or> length sqn \<noteq> 6 \<or> length amf \<noteq> 2 then Inr None
      else rbind (get_opc aes m k p) (\<lambda>opc.
        let inp = sqn @ amf @ sqn @ amf; tmp = aes k (xor_buf rnd opc) in
        rbind (rot16 (xor_buf inp opc) mil_r1) (\<lambda>rt.
        Inr (Some (xor_buf (aes k (xor_buf (xor_buf rt mil_c1) tmp)) opc)))))"

definition f1 where
  "f1 aes m k rnd sqn amf p =
     rbind (f1_out aes m k rnd sqn amf p) (\<lambda>r. Inr (map_option (slice 0 8) r))"

definition f1star where
  "f1star aes m k rnd sqn amf p =
     rbind (f1_out aes m k rnd sqn amf p) (\<lambda>r. Inr (map_option (slice 8 16) r))"

definition mil_out ::
  "(bytes \<Rightarrow> bytes \<Rightarrow> bytes) \<Rightarrow> bytes \<Rightarrow> bytes \<Rightarrow> bytes \<Rightarrow> nat \<Rightarrow> bytes \<Rightarrow> bytes res" where
  \<comment> \<open>the line shared by \<open>OUT2\<close> to \<open>OUT5\<close>\<close>
  "mil_out aes k opc tmp r c =
     rbind (rot16 tmp r) (\<lambda>rt. Inr (xor_buf opc (aes k (xor_buf rt c))))"

definition f2345 ::
  "(bytes \<Rightarrow> bytes \<Rightarrow> bytes) \<Rightarrow> milenage \<Rightarrow> bytes \<Rightarrow> bytes \<Rightarrow> bytes option
     \<Rightarrow> (bytes \<times> bytes \<times> bytes \<times> bytes) option res" where
  "f2345 aes m k rnd p =
     (if length k \<noteq> 16 \<or> length rnd \<noteq> 16 then Inr None
      else rbind (get_opc aes m k p) (\<lambda>opc.
        let tmp = xor_buf (aes k (xor_buf opc rnd)) opc in
        rbind (mil_out aes k opc tmp mil_r2 mil_c2) (\<lambda>out2.
        rbind (mil_out aes k opc tmp mil_r3 mil_c3) (\<lambda>out3.
        rbind (mil_out aes k opc tmp mil_r4 mil_c4) (\<lambda>out4.
        Inr (Some (slice 8 16 out2, out3, out4, slice 0 6 out2)))))))"

definition f5star ::
  "(bytes \<Rightarrow> bytes \<Rightarrow> bytes) \<Rightarrow> milenage \<Rightarrow> bytes \<Rightarrow> bytes \<Rightarrow> bytes option \<Rightarrow> bytes option res" where
  "f5star aes m k rnd p =
     (if length k \<noteq> 16 \<or> length rnd \<noteq> 16 then Inr None
      else rbind (get_opc aes m k p) (\<lambda>opc.
        let tmp = xor_buf (aes k (xor_buf opc rnd)) opc in
        rbind (mil_out aes k opc tmp mil_r5 mil_c5) (\<lambda>out5. Inr (Some (slice 0 6 out5)))))"

section \<open>Key derivation\<close>

text \<open>Each function checks its arguments, builds the derivation string and calls \<open>KDF\<close>.\<close>

type_synonym mac_fun = "bytes \<Rightarrow> bytes \<Rightarrow> bytes"

definition kdf_str :: "nat \<Rightarrow> bytes res list \<Rightarrow> bytes res" where
  \<comment> \<open>the function code and the pieces concatenated behind it\<close>
  "kdf_str fc ps = rbind (rmap (\<lambda>p. p) ps) (\<lambda>bs. Inr (byte_of fc # concat bs))"

abbreviation len16 :: "bytes \<Rightarrow> bytes res" where
  "len16 b \<equiv> packs [(2, int (length b))]"

definition guarded :: "bool \<Rightarrow> string \<Rightarrow> mac_fun \<Rightarrow> bytes \<Rightarrow> bytes res \<Rightarrow> bytes res" where
  \<comment> \<open>the shape of every derivation: reject bad arguments, else \<open>KDF(K, S)\<close>\<close>
  "guarded ok name hmac k s =
     (if \<not> ok then Inl (cm_error (name @ '': invalid args'')) else rbind s (\<lambda>s. Inr (hmac k s)))"

definition conv_102_C2 :: "bytes \<Rightarrow> bytes res" where
  "conv_102_C2 xres =
     (if \<not> (4 \<le> length xres \<and> length xres \<le> 16) then Inl (cm_error ''conv_C2: invalid args'')
      else let x = (if length xres < 16 then xres @ zeros (16 - length xres) else xres) in
        Inr (xor_buf (xor_buf (xor_buf (slice 0 4 x) (slice 4 8 x)) (slice 8 12 x)) (slice 12 16 x)))"

definition conv_102_C3 :: "bytes \<Rightarrow> bytes \<Rightarrow> bytes res" where
  "conv_102_C3 ck ik =
     (if length ck \<noteq> 16 \<or> length ik \<noteq> 16 then Inl (cm_error ''conv_C3: invalid args'')
      else Inr (xor_buf (xor_buf (xor_buf (take 8 ck) (drop 8 ck)) (take 8 ik)) (drop 8 ik)))"

definition conv_102_C4 :: "bytes \<Rightarrow> bytes res" where
  "conv_102_C4 kc =
     (if length kc \<noteq> 8 then Inl (cm_error ''conv_C4: invalid args'') else Inr (kc @ kc))"

definition conv_102_C5 :: "bytes \<Rightarrow> bytes res" where
  "conv_102_C5 kc =
     (if length kc \<noteq> 8 then Inl (cm_error ''conv_C5: invalid args'')
      else let x = xor_buf (take 4 kc) (drop 4 kc) in Inr (x @ kc @ x))"

definition conv_401_A2 :: "mac_fun \<Rightarrow> bytes \<Rightarrow> bytes \<Rightarrow> bytes \<Rightarrow> bytes \<Rightarrow> bytes res" where
  "conv_401_A2 hmac ck ik sn_id sqn_x_ak =
     guarded (length ck = 16 \<and> length ik = 16 \<and> length sn_id = 3 \<and> length sqn_x_ak = 6)
       ''conv_401_A2'' hmac (ck @ ik)
       (kdf_str 0x10 [Inr sn_id, packs [(2, 3)], Inr sqn_x_ak, packs [(2, 6)]])"

definition conv_401_A3 :: "mac_fun \<Rightarrow> bytes \<Rightarrow> int \<Rightarrow> bytes res" where
  "conv_401_A3 hmac kasme cnt =
     guarded (length kasme = 32 \<and> 0 \<le> cnt \<and> cnt < 16777216) ''conv_401_A3'' hmac kasme
       (kdf_str 0x11 [packs [(4, cnt), (2, 4)]])"

definition conv_401_A4 :: "mac_fun \<Rightarrow> bytes \<Rightarrow> bytes \<Rightarrow> bytes res" where
  "conv_401_A4 hmac kasme sync =
     guarded (length kasme = 32 \<and> length sync = 32) ''conv_401_A4'' hmac kasme
       (kdf_str 0x12 [Inr sync, packs [(2, 32)]])"

definition conv_401_A7 :: "mac_fun \<Rightarrow> bytes \<Rightarrow> int \<Rightarrow> int \<Rightarrow> bytes res" where
  "conv_401_A7 hmac key alg_dist alg_id =
     guarded (length key = 32 \<and> 0 \<le> alg_dist \<and> alg_dist < 256 \<and> 0 \<le> alg_id \<and> alg_id < 256)
       ''conv_401_A7'' hmac key
       (kdf_str 0x15 [packs [(1, alg_dist), (2, 1), (1, alg_id), (2, 1)]])"

definition conv_501_A2 :: "mac_fun \<Rightarrow> bytes \<Rightarrow> bytes \<Rightarrow> bytes \<Rightarrow> bytes \<Rightarrow> bytes res" where
  "conv_501_A2 hmac ck ik sn_name sqn_x_ak =
     guarded (length ck = 16 \<and> length ik = 16 \<and> 32 \<le> length sn_name \<and> length sn_name \<le> 255
              \<and> length sqn_x_ak = 6) ''conv_501_A2'' hmac (ck @ ik)
       (kdf_str 0x6a [Inr sn_name, len16 sn_name, Inr sqn_x_ak, packs [(2, 6)]])"

definition conv_501_A3 :: "mac_fun \<Rightarrow> bytes \<Rightarrow> bytes \<Rightarrow> bytes \<Rightarrow> bytes \<Rightarrow> (bytes \<times> bytes) res" where
  "conv_501_A3 hmac ck ik an_id sqn_x_ak =
     rbind (guarded (length ck = 16 \<and> length ik = 16 \<and> 6 \<le> length an_id \<and> length an_id \<le> 255
              \<and> length sqn_x_ak = 6) ''conv_501_A3'' hmac (ck @ ik)
       (kdf_str 0x20 [Inr an_id, len16 an_id, Inr sqn_x_ak, packs [(2, 6)]]))
     (\<lambda>buf. Inr (take 16 buf, drop 16 buf))"

definition conv_501_A4 :: "mac_fun \<Rightarrow> bytes \<Rightarrow> bytes \<Rightarrow> bytes \<Rightarrow> bytes \<Rightarrow> bytes \<Rightarrow> bytes res" where
  "conv_501_A4 hmac ck ik sn_name rnd rs =
     rbind (guarded (length ck = 16 \<and> length ik = 16 \<and> 32 \<le> length sn_name \<and> length sn_name \<le> 255
              \<and> length rnd = 16 \<and> 4 \<le> length rs \<and> length rs \<le> 16) ''conv_501_A4'' hmac (ck @ ik)
       (kdf_str 0x6b [Inr sn_name, len16 sn_name, Inr rnd, packs [(2, 16)], Inr rs, len16 rs]))
     (\<lambda>d. Inr (drop 16 d))"

definition conv_501_A5 :: "(bytes \<Rightarrow> bytes) \<Rightarrow> bytes \<Rightarrow> bytes \<Rightarrow> bytes res" where
  "conv_501_A5 sha256 rnd res_star =
     (if length rnd \<noteq> 16 \<or> length res_star \<noteq> 16 then Inl (cm_error ''conv_501_A5: invalid args'')
      else Inr (drop 16 (sha256 (rnd @ res_star))))"

definition conv_501_A6 :: "mac_fun \<Rightarrow> bytes \<Rightarrow> bytes \<Rightarrow> bytes res" where
  "conv_501_A6 hmac kausf sn_name =
     guarded (length kausf = 32 \<and> 32 \<le> length sn_name \<and> length sn_name \<le> 255) ''conv_501_A6'' hmac kausf
       (kdf_str 0x6c [Inr sn_name, len16 sn_name])"

definition conv_501_A7 :: "mac_fun \<Rightarrow> bytes \<Rightarrow> bytes \<Rightarrow> bytes \<Rightarrow> bytes res" where
  "conv_501_A7 hmac kseaf subs_id abba =
     guarded (length kseaf = 32 \<and> 12 \<le> length subs_id \<and> length subs_id \<le> 255 \<and> length abba = 2)
       ''conv_501_A7'' hmac kseaf
       (kdf_str 0x6d [Inr subs_id, len16 subs_id, Inr abba, packs [(2, 2)]])"

definition conv_501_A8 :: "mac_fun \<Rightarrow> bytes \<Rightarrow> int \<Rightarrow> int \<Rightarrow> bytes res" where
  "conv_501_A8 hmac k alg_type alg_id =
     guarded (length k = 32 \<and> 0 \<le> alg_type \<and> alg_type \<le> 6 \<and> 0 \<le> alg_id \<and> alg_id \<le> 15)
       ''conv_501_A8'' hmac k
       (kdf_str 0x69 [packs [(1, alg_type), (2, 1), (1, alg_id), (2, 1)]])"

definition conv_501_A9 :: "mac_fun \<Rightarrow> bytes \<Rightarrow> int \<Rightarrow> int \<Rightarrow> bytes res" where
  "conv_501_A9 hmac kamf cnt dist =
     guarded (length kamf = 32 \<and> 0 \<le> cnt \<and> cnt \<le> 4294967295 \<and> 1 \<le> dist \<and> dist \<le> 2)
       ''conv_501_A9'' hmac kamf
       (kdf_str 0x6e [packs [(4, cnt), (2, 4), (1, dist), (2, 1)]])"

definition conv_501_A10 :: "mac_fun \<Rightarrow> bytes \<Rightarrow> bytes \<Rightarrow> bytes res" where
  "conv_501_A10 hmac kamf sync =
     guarded (length kamf = 32 \<and> length sync = 32) ''conv_501_A10'' hmac kamf
       (kdf_str 0x6f [Inr sync, packs [(2, 32)]])"

definition conv_501_A11 :: "mac_fun \<Rightarrow> bytes \<Rightarrow> int \<Rightarrow> int \<Rightarrow> bytes res" where
  "conv_501_A11 hmac k pci arfcn =
     guarded (length k = 32 \<and> 0 \<le> pci \<and> pci \<le> 65535 \<and> 0 \<le> arfcn \<and> arfcn \<le> 16777216)
       ''conv_501_A11'' hmac k
       (kdf_str 0x70 [packs [(2, pci), (2, 2)], rbind (packs [(4, arfcn), (2, 3)]) (\<lambda>b. Inr (drop 1 b))])"

definition conv_501_A12 :: "mac_fun \<Rightarrow> bytes \<Rightarrow> int \<Rightarrow> int \<Rightarrow> bytes res" where
  "conv_501_A12 hmac k pci earfcn =
     guarded (length k = 32 \<and> 0 \<le> pci \<and> pci \<le> 65535 \<and> 0 \<le> earfcn \<and> earfcn \<le> 16777216)
       ''conv_501_A12'' hmac k
       (kdf_str 0x71 [packs [(2, pci), (2, 2)], rbind (packs [(4, earfcn), (2, 3)]) (\<lambda>b. Inr (drop 1 b))])"

definition conv_501_A13 :: "mac_fun \<Rightarrow> bytes \<Rightarrow> int \<Rightarrow> int \<Rightarrow> bytes res" where
  "conv_501_A13 hmac kamf dir cnt =
     guarded (length kamf = 32 \<and> dir = 1 \<and> 0 \<le> cnt \<and> cnt \<le> 4294967295) ''conv_501_A13'' hmac kamf
       (kdf_str 0x72 [packs [(1, dir), (2, 1), (4, cnt), (2, 4)]])"

definition conv_501_A141 :: "mac_fun \<Rightarrow> bytes \<Rightarrow> int \<Rightarrow> bytes res" where
  "conv_501_A141 hmac kamf cnt =
     guarded (length kamf = 32 \<and> 0 \<le> cnt \<and> cnt \<le> 4294967295) ''conv_501_A141'' hmac kamf
       (kdf_str 0x73 [packs [(4, cnt), (2, 4)]])"

definition conv_501_A142 :: "mac_fun \<Rightarrow> bytes \<Rightarrow> int \<Rightarrow> bytes res" where
  "conv_501_A142 hmac kamf cnt =
     guarded (length kamf = 32 \<and> 0 \<le> cnt \<and> cnt \<le> 4294967295) ''conv_501_A142'' hmac kamf
       (kdf_str 0x74 [packs [(4, cnt), (2, 4)]])"

definition conv_501_A151 :: "mac_fun \<Rightarrow> bytes \<Rightarrow> int \<Rightarrow> bytes res" where
  "conv_501_A151 hmac kasme cnt =
     guarded (length kasme = 32 \<and> 0 \<le> cnt \<and> cnt \<le> 4294967295) ''conv_501_A151'' hmac kasme
       (kdf_str 0x75 [packs [(4, cnt), (2, 4)]])"

definition conv_501_A152 :: "mac_fun \<Rightarrow> bytes \<Rightarrow> bytes \<Rightarrow> bytes res" where
  "conv_501_A152 hmac kasme nh =
     guarded (length kasme = 32 \<and> length nh = 32) ''conv_501_A152'' hmac kasme
       (kdf_str 0x76 [Inr nh, packs [(2, 32)]])"

definition conv_501_A16 :: "mac_fun \<Rightarrow> bytes \<Rightarrow> int \<Rightarrow> bytes res" where
  "conv_501_A16 hmac k sn_cnt =
     guarded (length k = 32 \<and> 0 \<le> sn_cnt \<and> sn_cnt \<le> 65535) ''conv_501_A16'' hmac k
       (kdf_str 0x79 [packs [(2, sn_cnt), (2, 2)]])"

definition conv_501_A17 :: "mac_fun \<Rightarrow> bytes \<Rightarrow> bytes \<Rightarrow> int \<Rightarrow> bytes option \<Rightarrow> bytes res" where
  "conv_501_A17 hmac kausf sor_hdr sor_cnt pref_plmn =
     guarded (length kausf = 32 \<and> length sor_hdr \<le> 65535 \<and> 0 \<le> sor_cnt \<and> sor_cnt \<le> 65535)
       ''conv_501_A17'' hmac kausf
       (kdf_str 0x77 ([Inr sor_hdr, len16 sor_hdr, packs [(2, sor_cnt), (2, 2)]] @
          (case pref_plmn of None \<Rightarrow> [] | Some p \<Rightarrow> [Inr p, len16 p])))"

definition conv_501_A18 :: "mac_fun \<Rightarrow> bytes \<Rightarrow> int \<Rightarrow> int \<Rightarrow> bytes res" where
  "conv_501_A18 hmac kausf sor_ack sor_cnt =
     guarded (length kausf = 32 \<and> sor_ack = 1 \<and> 0 \<le> sor_cnt \<and> sor_cnt \<le> 65535) ''conv_501_A18'' hmac kausf
       (kdf_str 0x78 [packs [(1, sor_ack), (2, 2), (2, sor_cnt), (2, 2)]])"

definition conv_501_A19 :: "mac_fun \<Rightarrow> bytes \<Rightarrow> bytes \<Rightarrow> int \<Rightarrow> bytes res" where
  "conv_501_A19 hmac kausf upu_data upu_cnt =
     guarded (length kausf = 32 \<and> length upu_data \<le> 65535 \<and> 0 \<le> upu_cnt \<and> upu_cnt \<le> 65535)
       ''conv_501_A19'' hmac kausf
       (kdf_str 0x7b [Inr upu_data, packs [(2, 2), (2, upu_cnt), (2, 2)]])"

definition conv_501_A20 :: "mac_fun \<Rightarrow> bytes \<Rightarrow> int \<Rightarrow> int \<Rightarrow> bytes res" where
  "conv_501_A20 hmac kausf upu_ack upu_cnt =
     guarded (length kausf = 32 \<and> upu_ack = 1 \<and> 0 \<le> upu_cnt \<and> upu_cnt \<le> 65535) ''conv_501_A20'' hmac kausf
       (kdf_str 0x7c [packs [(1, upu_ack), (2, 2), (2, upu_cnt), (2, 2)]])"

definition conv_501_A21 :: "mac_fun \<Rightarrow> bytes \<Rightarrow> int \<Rightarrow> bytes res" where
  "conv_501_A21 hmac kamf cnt =
     guarded (length kamf = 32 \<and> 0 \<le> cnt \<and> cnt \<le> 4294967295) ''conv_501_A21'' hmac kamf
       (kdf_str 0x7d [packs [(4, cnt), (2, 4)]])"

definition conv_501_A22 :: "mac_fun \<Rightarrow> bytes \<Rightarrow> int \<Rightarrow> bytes res" where
  "conv_501_A22 hmac ktngf dist =
     guarded (length ktngf = 32 \<and> 1 \<le> dist \<and> dist \<le> 2) ''conv_501_A22'' hmac ktngf
       (packs [(1, dist), (2, 1)])"

definition conv_501_A23 :: "mac_fun \<Rightarrow> bytes \<Rightarrow> bytes \<Rightarrow> bytes \<Rightarrow> bytes res" where
  "conv_501_A23 hmac kgnb cu du =
     guarded (length kgnb = 32 \<and> length cu \<le> 32 \<and> length du \<le> 32) ''conv_501_A23'' hmac kgnb
       (kdf_str 0x83 [Inr cu, len16 cu, Inr du, len16 du])"

section \<open>CMAC\<close>

definition MAX_UINT64 :: nat where "MAX_UINT64 = 2 ^ 64"
definition MAX_UINT32 :: nat where "MAX_UINT32 = 2 ^ 32"

record cmac_obj =
  cm_enc :: "bytes \<Rightarrow> bytes"
  cm_k1 :: bytes
  cm_k2 :: bytes
  cm_tlen :: nat

definition pack_block :: "nat \<Rightarrow> bytes" where
  \<comment> \<open>\<open>pack('>QQ', n >> 64, n % 2**64)\<close> for \<open>n < 2**128\<close>\<close>
  "pack_block n = be_enc 8 (drop_bit 64 n) @ be_enc 8 (n mod MAX_UINT64)"

definition keyschedule :: "(bytes \<Rightarrow> bytes) \<Rightarrow> (bytes \<times> bytes) res" where
  "keyschedule enc =
     (let l = enc (zeros 16) in
      if length l \<noteq> 16 then Inl StructError
      else let lh = be_val (take 8 l); ll = be_val (drop 8 l);
               m = 0xffffffffffffffffffffffffffffffff :: nat;
               k1 = push_bit 1 (push_bit 64 lh + ll) AND m;
               k1 = (if lh AND 0x8000000000000000 \<noteq> 0 then k1 XOR 0x87 else k1);
               k2 = push_bit 1 k1 AND m;
               k2 = (if k1 AND 0x80000000000000000000000000000000 \<noteq> 0 then k2 XOR 0x87 else k2)
        in Inr (pack_block k1, pack_block k2))"

definition new_cmac :: "(bytes \<Rightarrow> bytes) \<Rightarrow> nat option \<Rightarrow> cmac_obj res" where
  \<comment> \<open>over a block cipher of 16-octet blocks\<close>
  "new_cmac enc tlen =
     rbind (keyschedule enc) (\<lambda>(k1, k2).
       case tlen of
         None \<Rightarrow> Inr \<lparr>cm_enc = enc, cm_k1 = k1, cm_k2 = k2, cm_tlen = 128\<rparr>
       | Some t \<Rightarrow>
           if \<not> (0 < t \<and> t \<le> 128) then Inl (cm_error ''invalid Tlen'')
           else Inr \<lparr>cm_enc = enc, cm_k1 = k1, cm_k2 = k2, cm_tlen = t\<rparr>)"

fun blocks_from :: "nat \<Rightarrow> nat \<Rightarrow> bytes \<Rightarrow> bytes list" where
  \<comment> \<open>\<open>[data[i:i+16] for i in range(0, len(data), 16)]\<close>, the number of blocks made explicit\<close>
  "blocks_from i 0 d = []"
| "blocks_from i (Suc n) d = slice i (i + 16) d # blocks_from (i + 16) n d"

definition blocks16 :: "bytes \<Rightarrow> bytes list" where
  "blocks16 d = blocks_from 0 ((length d + 15) div 16) d"

definition trim_bits :: "byte \<Rightarrow> nat \<Rightarrow> byte" where
  \<comment> \<open>\<open>b & (0x100 - (1 << lastbits))\<close>\<close>
  "trim_bits b lastbits = b AND byte_of (256 - 2 ^ lastbits)"

definition cut_bits :: "bytes \<Rightarrow> nat option \<Rightarrow> (bytes \<times> nat \<times> nat) res" where
  \<comment> \<open>the first part of \<open>cmac\<close>: the data cut to its bit length, that length, and the unused bits\<close>
  "cut_bits d data_len =
     (case data_len of
        None \<Rightarrow> Inr (d, 8 * length d, 0)
      | Some n \<Rightarrow>
          if \<not> (0 < n \<and> n \<le> 8 * length d) then Inl (cm_error ''invalid args'')
          else if n < 8 * length d then
            let olen = drop_bit 3 n; lastbits = (8 - n mod 8) mod 8 in
            Inr (if lastbits \<noteq> 0 then take olen d @ [trim_bits (d ! olen) lastbits] else take olen d,
                 n, lastbits)
          else Inr (d, n, 0))"

definition last_block :: "cmac_obj \<Rightarrow> bytes \<Rightarrow> nat \<Rightarrow> nat \<Rightarrow> bytes" where
  \<comment> \<open>the last block masked with a subkey\<close>
  "last_block c mn data_len lastbits =
     (let mnlen = data_len mod 128 in
      if mnlen \<noteq> 0 then
        let mn = (if lastbits \<noteq> 0
                  then butlast mn @ [byte_of (unat (last mn) + 2 ^ (lastbits - 1))]
                  else mn @ [byte_of 0x80]);
            mn = mn @ zeros (16 - 1 - drop_bit 3 mnlen)
        in xor_buf mn (cm_k2 c)
      else xor_buf mn (cm_k1 c))"

definition cmac :: "cmac_obj \<Rightarrow> bytes \<Rightarrow> nat option \<Rightarrow> bytes res" where
  "cmac c data_in data_len =
     rbind (cut_bits data_in data_len) (\<lambda>(d, n, lastbits).
       let m = blocks16 d;
           ms = (if m \<noteq> [] then butlast m @ [last_block c (last m) n lastbits]
                 else [xor_buf (byte_of 0x80 # zeros 15) (cm_k2 c)]);
           v = foldl (\<lambda>v mi. cm_enc c (xor_buf v mi)) (zeros 16) ms
       in if cm_tlen c = 128 then Inr v
          else let olen = drop_bit 3 (cm_tlen c); t = take olen v in
            if cm_tlen c mod 8 \<noteq> 0
            then rbind (idx v olen) (\<lambda>b. Inr (t @ [trim_bits b ((8 - cm_tlen c mod 8) mod 8)]))
            else Inr t)"

section \<open>Ciphering and integrity\<close>

definition cut_octets :: "bytes \<Rightarrow> nat \<Rightarrow> bytes" where
  "cut_octets d bitlen =
     (let lastbits = (8 - bitlen mod 8) mod 8;
          blen = (if lastbits \<noteq> 0 then drop_bit 3 bitlen + 1 else drop_bit 3 bitlen)
      in if blen < length d then take blen d else d)"

definition EEA2 ::
  "(bytes \<Rightarrow> bytes \<Rightarrow> bytes \<Rightarrow> bytes) \<Rightarrow> bytes \<Rightarrow> int \<Rightarrow> int \<Rightarrow> int \<Rightarrow> bytes \<Rightarrow> nat option \<Rightarrow> bytes res" where
  "EEA2 ctr key count bearer dir data_in bitlen =
     (if \<not> (0 \<le> count \<and> count < int MAX_UINT32 \<and> 0 \<le> bearer \<and> bearer \<le> 32)
      then Inl (cm_error ''EEA2: invalid args'')
      else let (lastbits, data_in) = (case bitlen of
                 None \<Rightarrow> (0, data_in)
               | Some n \<Rightarrow> ((8 - n mod 8) mod 8, cut_octets data_in n)) in
        rbind (packs [(4, count), (4, push_bit 27 bearer + push_bit 26 dir)]) (\<lambda>nonce.
        let enc = ctr key (nonce @ be_enc 8 0) data_in in
        if lastbits \<noteq> 0 then
          (if enc = [] then Inl IndexError else Inr (butlast enc @ [trim_bits (last enc) lastbits]))
        else Inr enc))"

definition EIA2 ::
  "(bytes \<Rightarrow> bytes \<Rightarrow> bytes) \<Rightarrow> bytes \<Rightarrow> int \<Rightarrow> int \<Rightarrow> int \<Rightarrow> bytes \<Rightarrow> nat option \<Rightarrow> bytes res" where
  "EIA2 aes key count bearer dir data_in bitlen =
     (if \<not> (0 \<le> count \<and> count < int MAX_UINT32 \<and> 0 \<le> bearer \<and> bearer \<le> 32)
      then Inl (cm_error ''EIA2: invalid args'')
      else let (n, data_in) = (case bitlen of
                 None \<Rightarrow> (8 * length data_in, data_in) | Some n \<Rightarrow> (n, cut_octets data_in n)) in
        rbind (packs [(4, count), (4, push_bit 27 bearer + push_bit 26 dir)]) (\<lambda>h.
        rbind (new_cmac (aes key) (Some 32)) (\<lambda>c. cmac c (h @ data_in) (Some (64 + n)))))"

section \<open>SUCI concealment\<close>

text \<open>A curve is the interface of \<open>X25519\<close> and \<open>ECDH_SECP256R1\<close>: the public key of a private key
  and the exchange with a received public key; \<open>x963 info shared\<close> is the \<open>KDF\<close> of \<open>ec.py\<close>.\<close>

record 'k curve =
  ec_pub :: "'k \<Rightarrow> bytes"
  ec_shared :: "'k \<Rightarrow> bytes \<Rightarrow> bytes"

record 'k ecies_ue =
  eu_key :: 'k
  eu_EK :: bytes
  eu_SK :: bytes

definition aes_ctr ::
  "(bytes \<Rightarrow> bytes \<Rightarrow> bytes \<Rightarrow> bytes) \<Rightarrow> bytes \<Rightarrow> bytes \<Rightarrow> nat \<Rightarrow> bytes \<Rightarrow> bytes" where
  \<comment> \<open>\<open>AES_CTR(key, nonce, cnt).encrypt(data)\<close>, which is also \<open>decrypt\<close>\<close>
  "aes_ctr ctr key nonce cnt d = ctr key (nonce @ be_enc 8 cnt) d"

definition ecies_generate ::
  "'k curve \<Rightarrow> (bytes \<Rightarrow> bytes \<Rightarrow> bytes) \<Rightarrow> 'k option \<Rightarrow> bytes \<Rightarrow> 'k ecies_ue \<Rightarrow> 'k ecies_ue" where
  \<comment> \<open>\<open>generate_sharedkey\<close>; \<open>Some k\<close> is the key pair drawn when \<open>fresh\<close>\<close>
  "ecies_generate ec x963 fresh hn_pub ue =
     (let k = (case fresh of None \<Rightarrow> eu_key ue | Some k \<Rightarrow> k); ek = ec_pub ec k
      in ue\<lparr>eu_key := k, eu_EK := ek, eu_SK := x963 ek (ec_shared ec k hn_pub)\<rparr>)"

definition ecies_protect ::
  "(bytes \<Rightarrow> bytes \<Rightarrow> bytes \<Rightarrow> bytes) \<Rightarrow> mac_fun \<Rightarrow> bytes \<Rightarrow> 'k ecies_ue \<Rightarrow> (bytes \<times> bytes \<times> bytes) res" where
  "ecies_protect ctr hmac plaintext ue =
     (let sk = eu_SK ue in
      rbind (unpack_Q (slice 24 32 sk)) (\<lambda>cnt.
      let ciphertext = aes_ctr ctr (slice 0 16 sk) (slice 16 24 sk) cnt plaintext;
          mac = hmac (slice 32 64 sk) ciphertext
      in Inr (eu_EK ue, ciphertext, take 8 mac)))"

definition ecies_unprotect ::
  "'k curve \<Rightarrow> (bytes \<Rightarrow> bytes \<Rightarrow> bytes) \<Rightarrow> (bytes \<Rightarrow> bytes \<Rightarrow> bytes \<Rightarrow> bytes) \<Rightarrow> mac_fun
     \<Rightarrow> 'k \<Rightarrow> bytes \<Rightarrow> bytes \<Rightarrow> bytes \<Rightarrow> bytes option res" where
  "ecies_unprotect ec x963 ctr hmac hn_priv ue_pub ciphertext mac =
     (let sk = x963 ue_pub (ec_shared ec hn_priv ue_pub) in
      rbind (unpack_Q (slice 24 32 sk)) (\<lambda>cnt.
      if take 8 (hmac (slice 32 64 sk) ciphertext) \<noteq> mac then Inr None
      else Inr (Some (aes_ctr ctr (slice 0 16 sk) (slice 16 24 sk) cnt ciphertext))))"

section \<open>Milenage rotation\<close>

lemma be_val_append: "be_val (xs @ ys) = be_val xs * 256 ^ length ys + be_val ys"
proof (induction ys rule: rev_induct)
  case Nil
  then show ?case by simp
next
  case (snoc y ys)
  have "be_val (xs @ ys @ [y]) = be_val (xs @ ys) * 256 + unat y"
    by (simp flip: append_assoc)
  with snoc show ?case by (simp add: algebra_simps)
qed

lemma mod_parts: "(y :: nat) < m \<Longrightarrow> (x * m + y) mod m = y"
  by simp

lemma div_parts: "(y :: nat) < m \<Longrightarrow> (x * m + y) div m = x"
  by (simp add: div_add1_eq)

definition rotl :: "nat \<Rightarrow> nat \<Rightarrow> nat \<Rightarrow> nat" where
  \<comment> \<open>the left rotation of an \<open>n\<close>-bit value\<close>
  "rotl n r v = (v * 2 ^ r) mod 2 ^ n + v div 2 ^ (n - r)"

lemma rotl_split:
  \<comment> \<open>rotating moves the upper \<open>r\<close> bits below the lower \<open>n - r\<close>\<close>
  assumes "r \<le> n" "d0 < 2 ^ (n - r)" "d1 < 2 ^ r"
  shows "rotl n r (d1 * 2 ^ (n - r) + d0) = d0 * 2 ^ r + d1"
proof -
  have pow: "(2 :: nat) ^ (n - r) * 2 ^ r = 2 ^ n"
    using assms(1) by (simp flip: power_add)
  have "(d1 * 2 ^ (n - r) + d0) * 2 ^ r = d1 * (2 ^ (n - r) * 2 ^ r) + d0 * 2 ^ r"
    by (simp add: algebra_simps)
  also have "\<dots> = d1 * 2 ^ n + d0 * 2 ^ r" by (simp only: pow)
  finally have "(d1 * 2 ^ (n - r) + d0) * 2 ^ r mod 2 ^ n = d0 * 2 ^ r mod 2 ^ n" by simp
  moreover have "d0 * 2 ^ r < 2 ^ n"
    using assms(2) mult_strict_right_mono [of d0 "2 ^ (n - r)" "2 ^ r"] pow by simp
  moreover have "(d1 * 2 ^ (n - r) + d0) div 2 ^ (n - r) = d1"
    using assms(2) by (rule div_parts)
  ultimately show ?thesis by (simp add: rotl_def)
qed

lemma rotl_rotl:
  assumes "v < 2 ^ n" "a + b \<le> n"
  shows "rotl n b (rotl n a v) = rotl n (a + b) v"
proof -
  define c where "c = n - (a + b)"
  have n: "n = a + b + c" using assms(2) by (simp add: c_def)
  define d0 where "d0 = v mod 2 ^ c"
  define m where "m = v div 2 ^ c mod 2 ^ b"
  define t where "t = v div 2 ^ c div 2 ^ b"
  have v: "v = (t * 2 ^ b + m) * 2 ^ c + d0"
    by (simp only: t_def m_def d0_def div_mult_mod_eq)
  have d0: "d0 < 2 ^ c" and m: "m < 2 ^ b" by (simp_all add: d0_def m_def)
  have "v div 2 ^ (c + b) < 2 ^ a"
  proof -
    have "2 ^ n = (2 :: nat) ^ a * 2 ^ (c + b)" by (simp add: n power_add)
    with assms(1) show ?thesis by (simp add: less_mult_imp_div_less)
  qed
  then have t: "t < 2 ^ a" by (simp add: t_def power_add flip: div_mult2_eq)
  have low: "m * 2 ^ c + d0 < 2 ^ (b + c)"
  proof -
    have "m * 2 ^ c + d0 < m * 2 ^ c + 2 ^ c" using d0 by simp
    also have "\<dots> \<le> 2 ^ b * 2 ^ c" using m mult_le_mono1 [of "Suc m" "2 ^ b" "2 ^ c"] by simp
    finally show ?thesis by (simp add: power_add)
  qed
  have "rotl n a v = rotl n a (t * 2 ^ (n - a) + (m * 2 ^ c + d0))"
    by (simp add: v n power_add algebra_simps)
  also have "\<dots> = (m * 2 ^ c + d0) * 2 ^ a + t"
    using t low by (intro rotl_split) (simp_all add: n)
  also have "\<dots> = m * 2 ^ (n - b) + (d0 * 2 ^ a + t)"
    by (simp add: n power_add algebra_simps)
  finally have one: "rotl n a v = m * 2 ^ (n - b) + (d0 * 2 ^ a + t)" .
  have "d0 * 2 ^ a + t < 2 ^ (n - b)"
  proof -
    have "d0 * 2 ^ a + t < d0 * 2 ^ a + 2 ^ a" using t by simp
    also have "\<dots> \<le> 2 ^ c * 2 ^ a" using d0 mult_le_mono1 [of "Suc d0" "2 ^ c" "2 ^ a"] by simp
    finally show ?thesis by (simp add: n flip: power_add) (simp add: add.commute)
  qed
  then have "rotl n b (rotl n a v) = (d0 * 2 ^ a + t) * 2 ^ b + m"
    unfolding one using m by (intro rotl_split) (simp_all add: n)
  moreover have "rotl n (a + b) v = d0 * 2 ^ (a + b) + (t * 2 ^ b + m)"
  proof -
    have "t * 2 ^ b + m < 2 ^ (a + b)"
    proof -
      have "t * 2 ^ b + m < t * 2 ^ b + 2 ^ b" using m by simp
      also have "\<dots> \<le> 2 ^ a * 2 ^ b" using t mult_le_mono1 [of "Suc t" "2 ^ a" "2 ^ b"] by simp
      finally show ?thesis by (simp add: power_add)
    qed
    moreover have "v = (t * 2 ^ b + m) * 2 ^ (n - (a + b)) + d0" by (simp add: v n)
    ultimately show ?thesis using d0 rotl_split [of "a + b" n d0 "t * 2 ^ b + m"] by (simp add: n)
  qed
  ultimately show ?thesis by (simp add: power_add algebra_simps)
qed

lemma rotl_octets:
  assumes "length b = 16" "ro \<le> 16"
  shows "be_val (drop ro b @ take ro b) = rotl 128 (8 * ro) (be_val b)"
proof -
  have pow: "(256 :: nat) ^ k = 2 ^ (8 * k)" for k
    by (simp add: power_mult)
  have len: "length (take ro b) = ro" "length (drop ro b) = 16 - ro" using assms by simp_all
  have "be_val b = be_val (take ro b) * 256 ^ (16 - ro) + be_val (drop ro b)"
    using be_val_append [of "take ro b" "drop ro b"] len by simp
  moreover have "be_val (take ro b) < 2 ^ (8 * ro)" "be_val (drop ro b) < 2 ^ (8 * (16 - ro))"
    using be_val_bound [of "take ro b"] be_val_bound [of "drop ro b"] unfolding len pow by simp_all
  moreover have "8 * (16 - ro) = 128 - 8 * ro" by simp
  ultimately have "rotl 128 (8 * ro) (be_val b) = be_val (drop ro b) * 2 ^ (8 * ro) + be_val (take ro b)"
    using assms(2) rotl_split [of "8 * ro" 128 "be_val (drop ro b)" "be_val (take ro b)"] by (simp add: pow)
  then show ?thesis by (simp only: be_val_append len pow)
qed

lemma half_shift:
  fixes x y :: nat
  assumes "k \<le> 64" "y < 2 ^ 64" "x < 2 ^ 64"
  shows "(push_bit k x AND (2 ^ 64 - 1)) OR drop_bit (64 - k) y
           = (x mod 2 ^ (64 - k)) * 2 ^ k + y div 2 ^ (64 - k)"
proof -
  have pow: "(2 :: nat) ^ 64 = 2 ^ (64 - k) * 2 ^ k"
    using assms(1) by (simp flip: power_add)
  have "push_bit k x AND (2 ^ 64 - 1) = x * 2 ^ k mod (2 ^ (64 - k) * 2 ^ k)"
    unfolding pow [symmetric] by (simp only: push_bit_eq_mult nat_and_mask)
  then have high: "push_bit k x AND (2 ^ 64 - 1) = push_bit k (x mod 2 ^ (64 - k))"
    by (simp only: mult_mod_left push_bit_eq_mult)
  have "y div 2 ^ (64 - k) < 2 ^ k"
    using assms(2) unfolding pow by (simp add: less_mult_imp_div_less mult.commute)
  then have "push_bit k (x mod 2 ^ (64 - k)) OR y div 2 ^ (64 - k) =
      (x mod 2 ^ (64 - k)) * 2 ^ k + y div 2 ^ (64 - k)"
    by (rule nat_shift_or)
  then show ?thesis by (simp only: high drop_bit_eq_div)
qed

lemma rotl_halves:
  fixes b0 b1 :: nat
  assumes "b0 < 2 ^ 64" "b1 < 2 ^ 64" "k \<le> 64"
  shows "((b0 mod 2 ^ (64 - k)) * 2 ^ k + b1 div 2 ^ (64 - k)) * 2 ^ 64
         + ((b1 mod 2 ^ (64 - k)) * 2 ^ k + b0 div 2 ^ (64 - k)) = rotl 128 k (b0 * 2 ^ 64 + b1)"
proof -
  define x0 y0 x1 y1 where parts: "x0 = b0 div 2 ^ (64 - k)" "y0 = b0 mod 2 ^ (64 - k)"
    "x1 = b1 div 2 ^ (64 - k)" "y1 = b1 mod 2 ^ (64 - k)"
  have b: "b0 = x0 * 2 ^ (64 - k) + y0" "b1 = x1 * 2 ^ (64 - k) + y1"
    by (simp_all only: parts div_mult_mod_eq)
  have "(2 :: nat) ^ 64 = 2 ^ (64 - k) * 2 ^ k" using assms(3) by (simp flip: power_add)
  moreover have "128 - k = (64 - k) + 64" using assms(3) by simp
  then have "(2 :: nat) ^ (128 - k) = 2 ^ (64 - k) * 2 ^ 64" by (simp only: power_add)
  ultimately have pow: "(2 :: nat) ^ 64 = 2 ^ (64 - k) * 2 ^ k"
    "(2 :: nat) ^ (128 - k) = 2 ^ (64 - k) * 2 ^ 64" .
  have "x0 < 2 ^ k"
    using assms(1) unfolding parts pow(1) by (simp add: less_mult_imp_div_less mult.commute)
  moreover have "y0 * 2 ^ 64 + b1 < 2 ^ (128 - k)"
  proof -
    have "y0 < 2 ^ (64 - k)" by (simp add: parts)
    then have "Suc y0 * 2 ^ 64 \<le> 2 ^ (64 - k) * 2 ^ 64" by (intro mult_le_mono1) simp
    moreover have "y0 * 2 ^ 64 + b1 < Suc y0 * 2 ^ 64" using assms(2) by simp
    ultimately show ?thesis unfolding pow(2) by (rule less_le_trans [rotated])
  qed
  moreover have "b0 * 2 ^ 64 + b1 = x0 * 2 ^ (128 - k) + (y0 * 2 ^ 64 + b1)"
    unfolding pow(2) by (subst b(1)) (simp add: algebra_simps)
  ultimately have "rotl 128 k (b0 * 2 ^ 64 + b1) = (y0 * 2 ^ 64 + b1) * 2 ^ k + x0"
    using assms(3) rotl_split [of k 128 "y0 * 2 ^ 64 + b1" x0] by (simp add: add.assoc)
  also have "b1 * 2 ^ k = x1 * 2 ^ 64 + y1 * 2 ^ k"
    by (subst b(2), subst pow(1)) (simp add: algebra_simps)
  then have "(y0 * 2 ^ 64 + b1) * 2 ^ k + x0 = (y0 * 2 ^ k + x1) * 2 ^ 64 + (y1 * 2 ^ k + x0)"
    by (simp only: distrib_right) simp
  finally show ?thesis by (simp only: parts)
qed

text \<open>
  The rotation of Milenage is the left rotation of the 128-bit block: for every block of 16
  octets and every distance below 128 it yields 16 octets whose value is the rotated value.\<close>

theorem rot16_rotates:
  assumes "length b = 16" and "r < 128"
  shows "\<exists>c. rot16 b r = Inr c \<and> length c = 16 \<and> be_val c = rotl 128 r (be_val b)"
proof -
  define ro rb where parts: "ro = r div 8" "rb = r mod 8"
  have r: "r = 8 * ro + rb" and "ro < 16" and rb: "rb < 8" using assms(2) by (simp_all add: parts)
  define br where "br = drop ro b @ take ro b"
  have len: "length br = 16" using assms(1) by (simp add: br_def)
  have val: "be_val br = rotl 128 (8 * ro) (be_val b)"
    unfolding br_def using assms(1) \<open>ro < 16\<close> by (intro rotl_octets) simp_all
  have "be_val b < 2 ^ 128" using be_val_bound [of b] assms(1) by simp
  then have whole: "rotl 128 rb (be_val br) = rotl 128 r (be_val b)"
    unfolding val r using assms(2) r by (intro rotl_rotl) simp_all
  show ?thesis
  proof (cases "rb = 0")
    case True
    then have "rot16 b r = Inr br" by (simp add: rot16_def br_def parts Let_def drop_bit_eq_div)
    moreover have "rotl 128 0 v = v mod 2 ^ 128 + v div 2 ^ 128" for v by (simp add: rotl_def)
    moreover have "be_val br < 2 ^ 128" using be_val_bound [of br] len by simp
    ultimately show ?thesis using len whole True by (auto simp: rotl_def)
  next
    case False
    define b0 b1 where halves: "b0 = be_val (take 8 br)" "b1 = be_val (drop 8 br)"
    have b: "b0 < 2 ^ 64" "b1 < 2 ^ 64"
      using be_val_bound [of "take 8 br"] be_val_bound [of "drop 8 br"] len by (simp_all add: halves)
    define h0 h1 where "h0 = (b0 mod 2 ^ (64 - rb)) * 2 ^ rb + b1 div 2 ^ (64 - rb)"
      "h1 = (b1 mod 2 ^ (64 - rb)) * 2 ^ rb + b0 div 2 ^ (64 - rb)"
    note h = this
    have "rot16 b r = Inr (be_enc 8 h0 @ be_enc 8 h1)"
      using False len b rb assms(1) \<open>ro < 16\<close> half_shift [of rb b1 b0] half_shift [of rb b0 b1]
      by (simp add: rot16_def br_def [symmetric] Let_def drop_bit_eq_div flip: parts halves)
         (simp add: h drop_bit_eq_div)
    moreover have "h0 < 2 ^ 64" "h1 < 2 ^ 64"
    proof -
      have bound: "(x mod 2 ^ (64 - rb)) * 2 ^ rb + y div 2 ^ (64 - rb) < (2 :: nat) ^ 64"
        if "y < 2 ^ 64" for x y :: nat
      proof -
        have pow: "(2 :: nat) ^ 64 = 2 ^ (64 - rb) * 2 ^ rb" using rb by (simp flip: power_add)
        have "y div 2 ^ (64 - rb) < 2 ^ rb"
          using that unfolding pow by (simp add: less_mult_imp_div_less mult.commute)
        moreover have "Suc (x mod 2 ^ (64 - rb)) * 2 ^ rb \<le> 2 ^ (64 - rb) * 2 ^ rb"
          by (intro mult_le_mono1) (simp add: Suc_le_eq)
        ultimately show ?thesis unfolding pow by simp
      qed
      show "h0 < 2 ^ 64" "h1 < 2 ^ 64" unfolding h by (rule bound [OF b(2)], rule bound [OF b(1)])
    qed
    moreover have "h0 * 2 ^ 64 + h1 = rotl 128 rb (be_val br)"
    proof -
      have "be_val br = b0 * 2 ^ 64 + b1"
        using be_val_append [of "take 8 br" "drop 8 br"] len by (simp add: halves)
      then show ?thesis unfolding h using b rb by (simp only:) (rule rotl_halves, simp_all)
    qed
    ultimately show ?thesis unfolding whole by (simp add: be_val_append be_val_be_enc)
  qed
qed

theorem rot16_rotates_witness:
  "\<exists>c. rot16 (be_enc 16 1) 127 = Inr c \<and> length c = 16 \<and> be_val c = rotl 128 127 1"
  using rot16_rotates [of "be_enc 16 1" 127] by (simp add: be_val_be_enc)

section \<open>Key separation\<close>

text \<open>The derivation string of TS 33.220: the function code, then every parameter followed by its
  length in two octets.\<close>

definition kdf_input :: "nat \<Rightarrow> bytes list \<Rightarrow> bytes" where
  "kdf_input fc ps = byte_of fc # concat (map (\<lambda>p. p @ be_enc 2 (length p)) ps)"

lemma rmap_id_Inr: "rmap (\<lambda>p. p) (map Inr xs) = Inr xs"
  by (induction xs) auto

lemma kdf_str_Inr:
  "kdf_str fc (map Inr bs) = Inr (byte_of fc # concat bs)"
  by (simp add: kdf_str_def rmap_id_Inr)

lemma kdf_pieces_inj:
  assumes "length ps = length qs" "list_all (\<lambda>p. length p < 65536) ps" "list_all (\<lambda>p. length p < 65536) qs"
    "concat (map (\<lambda>p. p @ be_enc 2 (length p)) ps) = concat (map (\<lambda>p. p @ be_enc 2 (length p)) qs)"
  shows "ps = qs"
  using assms
proof (induction ps arbitrary: qs rule: rev_induct)
  case Nil
  then show ?case by simp
next
  case (snoc p ps)
  then obtain q qs' where qs: "qs = qs' @ [q]" by (cases qs rule: rev_cases) auto
  let ?c = "\<lambda>ps. concat (map (\<lambda>p. p @ be_enc 2 (length p)) ps)"
  have eq: "(?c ps @ p) @ be_enc 2 (length p) = (?c qs' @ q) @ be_enc 2 (length q)"
    using snoc.prems(4) by (simp add: qs)
  then have one: "?c ps @ p = ?c qs' @ q" and "be_enc 2 (length p) = be_enc 2 (length q)"
    by (auto simp del: append_assoc)
  then have "be_val (be_enc 2 (length p)) = be_val (be_enc 2 (length q))" by simp
  then have "length p = length q" using snoc.prems(2,3) by (simp add: qs be_val_be_enc)
  with one have "?c ps = ?c qs'" "p = q" by auto
  with snoc show ?case by (simp add: qs)
qed

lemma kdf_input_inj:
  assumes "kdf_input fc ps = kdf_input fc' qs" "fc < 256" "fc' < 256" "length ps = length qs"
    "list_all (\<lambda>p. length p < 65536) ps" "list_all (\<lambda>p. length p < 65536) qs"
  shows "fc = fc' \<and> ps = qs"
  using assms kdf_pieces_inj [of ps qs] by (auto simp: kdf_input_def byte_of_eq_iff)

named_theorems conv_defs \<open>the derivation functions\<close>

lemmas [conv_defs] = conv_401_A2_def conv_401_A3_def conv_401_A4_def conv_401_A7_def conv_501_A2_def
  conv_501_A3_def conv_501_A4_def conv_501_A6_def conv_501_A7_def conv_501_A8_def conv_501_A9_def
  conv_501_A10_def conv_501_A13_def conv_501_A141_def conv_501_A142_def conv_501_A151_def
  conv_501_A152_def conv_501_A16_def conv_501_A17_def conv_501_A18_def conv_501_A20_def
  conv_501_A21_def conv_501_A23_def

lemma byte_pack: "0 \<le> n \<Longrightarrow> n < 256 \<Longrightarrow> pack_be 1 n = Inr (be_enc 1 (nat n))"
  by (simp add: pack_be_def)

lemma nas_key_string:
  assumes "length k = 32" "0 \<le> t" "t \<le> 6" "0 \<le> a" "a \<le> 15"
  shows "conv_501_A8 hmac k t a = Inr (hmac k (kdf_input 0x69 [be_enc 1 (nat t), be_enc 1 (nat a)]))"
proof -
  have "packs [(1, t), (2, 1), (1, a), (2, 1)] =
      Inr (be_enc 1 (nat t) @ be_enc 2 1 @ be_enc 1 (nat a) @ be_enc 2 1)"
    using assms by (subst packs_Inr) simp_all
  with assms show ?thesis
    by (simp add: conv_501_A8_def guarded_def kdf_str_def kdf_input_def)
qed

lemma gnb_key_string:
  assumes "length k = 32" "0 \<le> c" "c < 2 ^ 32" "1 \<le> d" "d \<le> 2"
  shows "conv_501_A9 hmac k c d = Inr (hmac k (kdf_input 0x6e [be_enc 4 (nat c), be_enc 1 (nat d)]))"
proof -
  have "packs [(4, c), (2, 4), (1, d), (2, 1)] =
      Inr (be_enc 4 (nat c) @ be_enc 2 4 @ be_enc 1 (nat d) @ be_enc 2 1)"
    using assms by (subst packs_Inr) simp_all
  with assms show ?thesis
    by (simp add: conv_501_A9_def guarded_def kdf_str_def kdf_input_def)
qed

definition hmac_collision :: "mac_fun \<Rightarrow> bool" where
  "hmac_collision hmac \<longleftrightarrow> (\<exists>k s k' s'. (k, s) \<noteq> (k', s') \<and> hmac k s = hmac k' s')"

lemma be_enc_inj: "m < 256 ^ k \<Longrightarrow> n < 256 ^ k \<Longrightarrow> be_enc k m = be_enc k n \<longleftrightarrow> m = n"
  by (metis be_val_be_enc mod_less)

text \<open>
  The keys of one security context are separated: two NAS key derivations that give the
  same key have the same parent key, the same purpose and the same algorithm, two gNB keys the
  same parent, count and access type, and a NAS key is never a gNB key - unless the run exhibits
  a collision of HMAC.\<close>

theorem keys_separated:
  assumes "\<not> hmac_collision hmac"
  shows "(conv_501_A8 hmac k t a = Inr key \<and> conv_501_A8 hmac k' t' a' = Inr key
            \<longrightarrow> k = k' \<and> t = t' \<and> a = a') \<and>
         (conv_501_A9 hmac k c d = Inr key \<and> conv_501_A9 hmac k' c' d' = Inr key
            \<longrightarrow> k = k' \<and> c = c' \<and> d = d') \<and>
         \<not> (conv_501_A8 hmac k t a = Inr key \<and> conv_501_A9 hmac k' c' d' = Inr key)"
proof -
  have inj: "x = y \<and> s = u" if "hmac x s = hmac y u" for x s y u
    using assms that unfolding hmac_collision_def by blast
  have A8: "length k = 32 \<and> 0 \<le> t \<and> t \<le> 6 \<and> 0 \<le> a \<and> a \<le> 15" if "conv_501_A8 hmac k t a = Inr key"
    for k t a key using that by (auto simp: conv_501_A8_def guarded_def split: if_splits)
  have A9: "length k = 32 \<and> 0 \<le> c \<and> c < 2 ^ 32 \<and> 1 \<le> d \<and> d \<le> 2" if "conv_501_A9 hmac k c d = Inr key"
    for k c d key using that by (auto simp: conv_501_A9_def guarded_def split: if_splits)
  have one: "k = k' \<and> t = t' \<and> a = a'"
    if "conv_501_A8 hmac k t a = Inr key" "conv_501_A8 hmac k' t' a' = Inr key"
  proof -
    have "hmac k (kdf_input 0x69 [be_enc 1 (nat t), be_enc 1 (nat a)]) =
        hmac k' (kdf_input 0x69 [be_enc 1 (nat t'), be_enc 1 (nat a')])"
      using that A8 [OF that(1)] A8 [OF that(2)] by (simp add: nas_key_string)
    from inj [OF this] have "k = k'" and "kdf_input 0x69 [be_enc 1 (nat t), be_enc 1 (nat a)] =
        kdf_input 0x69 [be_enc 1 (nat t'), be_enc 1 (nat a')]" by simp_all
    moreover from kdf_input_inj [OF this(2)]
    have "be_enc 1 (nat t) = be_enc 1 (nat t')" "be_enc 1 (nat a) = be_enc 1 (nat a')" by simp_all
    ultimately show ?thesis
      using A8 [OF that(1)] A8 [OF that(2)] be_enc_inj [of "nat t" 1 "nat t'"] be_enc_inj [of "nat a" 1 "nat a'"]
      by (auto simp: byte_of_eq_iff eq_nat_nat_iff)
  qed
  have two: "k = k' \<and> c = c' \<and> d = d'"
    if "conv_501_A9 hmac k c d = Inr key" "conv_501_A9 hmac k' c' d' = Inr key"
  proof -
    have "hmac k (kdf_input 0x6e [be_enc 4 (nat c), be_enc 1 (nat d)]) =
        hmac k' (kdf_input 0x6e [be_enc 4 (nat c'), be_enc 1 (nat d')])"
      using that A9 [OF that(1)] A9 [OF that(2)] by (simp add: gnb_key_string)
    from inj [OF this] have "k = k'" and "kdf_input 0x6e [be_enc 4 (nat c), be_enc 1 (nat d)] =
        kdf_input 0x6e [be_enc 4 (nat c'), be_enc 1 (nat d')]" by simp_all
    moreover from kdf_input_inj [OF this(2)]
    have "be_enc 4 (nat c) = be_enc 4 (nat c')" "be_enc 1 (nat d) = be_enc 1 (nat d')" by simp_all
    ultimately show ?thesis
      using A9 [OF that(1)] A9 [OF that(2)] be_enc_inj [of "nat c" 4 "nat c'"] be_enc_inj [of "nat d" 1 "nat d'"]
      by (auto simp: byte_of_eq_iff eq_nat_nat_iff)
  qed
  have three: False if "conv_501_A8 hmac k t a = Inr key" "conv_501_A9 hmac k' c' d' = Inr key"
  proof -
    have "hmac k (kdf_input 0x69 [be_enc 1 (nat t), be_enc 1 (nat a)]) =
        hmac k' (kdf_input 0x6e [be_enc 4 (nat c'), be_enc 1 (nat d')])"
      using that A8 [OF that(1)] A9 [OF that(2)] by (simp add: nas_key_string gnb_key_string)
    from inj [OF this] show False by (simp add: kdf_input_def byte_of_eq_iff)
  qed
  show ?thesis using one two three by blast
qed

fun tagged :: "bytes \<Rightarrow> bytes \<Rightarrow> bytes" where
  \<comment> \<open>a function without collisions\<close>
  "tagged [] s = byte_of 0 # s"
| "tagged (b # bs) s = byte_of 1 # b # tagged bs s"

lemma tagged_inj: "tagged k s = tagged k' s' \<Longrightarrow> k = k' \<and> s = s'"
proof (induction k arbitrary: k')
  case Nil
  then show ?case by (cases k') (auto simp: byte_of_eq_iff)
next
  case (Cons b k)
  then show ?case by (cases k') (auto simp: byte_of_eq_iff)
qed

theorem keys_separated_witness:
  "\<not> hmac_collision tagged \<and>
   conv_501_A8 tagged (zeros 32) 1 2 \<noteq> conv_501_A8 tagged (zeros 32) 2 2"
proof -
  have ok: "\<not> hmac_collision tagged" by (auto simp: hmac_collision_def dest: tagged_inj)
  moreover obtain key where "conv_501_A8 tagged (zeros 32) 1 2 = Inr key"
    using nas_key_string [of "zeros 32" 1 2 tagged] by simp
  then have "conv_501_A8 tagged (zeros 32) 1 2 \<noteq> conv_501_A8 tagged (zeros 32) 2 2"
    using keys_separated [OF ok, of "zeros 32" 1 2 key "zeros 32" 2 2] by auto
  ultimately show ?thesis ..
qed

text \<open>
  The range check of the two handover key derivations admits one value too many: the carrier
  number 2^24 does not fit its three octets, its leading octet is cut off, and the key is the key
  of carrier zero.\<close>

theorem arfcn_wraps:
  "conv_501_A11 hmac k pci 16777216 = conv_501_A11 hmac k pci 0 \<and>
   conv_501_A12 hmac k pci 16777216 = conv_501_A12 hmac k pci 0"
proof -
  have "packs [(4, 16777216), (2, 3)] = Inr (be_enc 4 16777216 @ be_enc 2 3)"
    "packs [(4, 0), (2, 3)] = Inr (be_enc 4 0 @ be_enc 2 3)"
    by (subst packs_Inr; simp)+
  moreover have "drop 1 (be_enc 4 16777216) = drop 1 (be_enc 4 0)"
    by (simp add: be_enc_4 byte_of_eq_iff)
  ultimately show ?thesis
    by (simp add: conv_501_A11_def conv_501_A12_def guarded_def kdf_str_def del: drop_eq_Nil2)
qed

text \<open>
  The update acknowledgement key announces a length of two octets for its data whatever the
  length is: its string follows the scheme of the other derivations only for data of exactly two
  octets.\<close>

theorem upu_length_fixed:
  assumes "length k = 32" and "length d \<le> 65535" and "c < 65536"
  shows "\<exists>s. conv_501_A19 hmac k d (int c) = Inr (hmac k s) \<and>
             s = byte_of 0x7b # d @ be_enc 2 2 @ be_enc 2 c @ be_enc 2 2 \<and>
             (s = kdf_input 0x7b [d, be_enc 2 c] \<longleftrightarrow> length d = 2)"
proof -
  let ?s = "byte_of 0x7b # d @ be_enc 2 2 @ be_enc 2 c @ be_enc 2 2"
  have "packs [(2, 2), (2, int c), (2, 2)] = Inr (be_enc 2 2 @ be_enc 2 c @ be_enc 2 2)"
    using assms(3) by (subst packs_Inr) simp_all
  then have "conv_501_A19 hmac k d (int c) = Inr (hmac k ?s)"
    using assms by (simp add: conv_501_A19_def guarded_def kdf_str_def)
  moreover have "?s = kdf_input 0x7b [d, be_enc 2 c] \<longleftrightarrow> be_enc 2 2 = be_enc 2 (length d)"
    by (simp add: kdf_input_def)
  moreover have "be_enc 2 2 = be_enc 2 (length d) \<longleftrightarrow> length d = 2"
    using assms(2) be_enc_inj [of 2 2 "length d"] by auto
  ultimately show ?thesis by blast
qed

theorem upu_length_fixed_witness:
  "\<exists>s. conv_501_A19 tagged (zeros 32) (zeros 5) 7 = Inr (tagged (zeros 32) s) \<and>
       s \<noteq> kdf_input 0x7b [zeros 5, be_enc 2 7]"
  using upu_length_fixed [of "zeros 32" "zeros 5" 7 tagged] by auto

section \<open>CMAC against its specification\<close>

text \<open>NIST SP 800-38B as a stream: doubling in the field for the subkeys, and the chaining over
  blocks of 16 octets with the last one masked by the first subkey when it is complete and padded
  and masked by the second otherwise.\<close>

definition gf_double :: "nat \<Rightarrow> nat" where
  "gf_double v = (2 * v mod 2 ^ 128) XOR (if 2 ^ 127 \<le> v then 0x87 else 0)"

function cmac_chain :: "(bytes \<Rightarrow> bytes) \<Rightarrow> nat \<Rightarrow> nat \<Rightarrow> bytes \<Rightarrow> bytes \<Rightarrow> bytes" where
  "cmac_chain enc k1 k2 c d =
     (if length d < 16 then enc (xor_buf c (xor_buf (d @ byte_of 0x80 # zeros (15 - length d)) (be_enc 16 k2)))
      else if length d = 16 then enc (xor_buf c (xor_buf d (be_enc 16 k1)))
      else cmac_chain enc k1 k2 (enc (xor_buf c (take 16 d))) (drop 16 d))"
  by pat_completeness auto
termination by (relation "measure (\<lambda>(enc, k1, k2, c, d). length d)") auto

declare cmac_chain.simps [simp del]

definition cmac_spec :: "(bytes \<Rightarrow> bytes) \<Rightarrow> bytes \<Rightarrow> bytes" where
  "cmac_spec enc d =
     (let k1 = gf_double (be_val (enc (zeros 16))) in cmac_chain enc k1 (gf_double k1) (zeros 16) d)"

lemma be_enc_add: "be_enc (j + k) n = be_enc j (n div 256 ^ k) @ be_enc k n"
proof (induction k arbitrary: n)
  case (Suc k)
  then show ?case by (simp add: div_mult2_eq)
qed simp

lemma be_enc_mod: "be_enc k (n mod 256 ^ k) = be_enc k n"
  by (metis be_enc_be_val be_val_be_enc length_be_enc)

lemma pack_block_enc: "pack_block n = be_enc 16 n"
proof -
  have "be_enc 16 n = be_enc 8 (n div 256 ^ 8) @ be_enc 8 n"
    using be_enc_add [of 8 8 n] by simp
  moreover have "n mod MAX_UINT64 = n mod 256 ^ 8" "drop_bit 64 n = n div 256 ^ 8"
    by (simp_all add: MAX_UINT64_def drop_bit_eq_div)
  ultimately show ?thesis by (simp only: pack_block_def be_enc_mod)
qed

lemma top_bit: "(n :: nat) < 2 ^ Suc k \<Longrightarrow> n AND 2 ^ k \<noteq> 0 \<longleftrightarrow> 2 ^ k \<le> n"
proof -
  assume n: "n < 2 ^ Suc k"
  have "n AND 2 ^ k \<noteq> 0 \<longleftrightarrow> odd (n div 2 ^ k)"
    by (simp add: and_exp_eq_0_iff_not_bit bit_iff_odd)
  moreover have "n div 2 ^ k < 2" using n by (simp add: less_mult_imp_div_less)
  then have "odd (n div 2 ^ k) \<longleftrightarrow> n div 2 ^ k \<noteq> 0" by (cases "n div 2 ^ k") auto
  moreover have "n div 2 ^ k = 0 \<longleftrightarrow> n < 2 ^ k" by (simp add: div_eq_0_iff)
  ultimately show ?thesis by (simp only: not_less)
qed

lemma nat_xor_less: "(a :: nat) < 2 ^ n \<Longrightarrow> b < 2 ^ n \<Longrightarrow> a XOR b < 2 ^ n"
  by (metis take_bit_nat_eq_self_iff take_bit_xor)

lemma double_step:
  assumes "v < 2 ^ 128" and "t \<longleftrightarrow> 2 ^ 127 \<le> v"
  shows "(if t then (push_bit 1 v AND 0xffffffffffffffffffffffffffffffff) XOR 0x87
          else push_bit 1 v AND 0xffffffffffffffffffffffffffffffff) = gf_double v"
proof -
  have "push_bit 1 v AND (2 ^ 128 - 1) = 2 * v mod 2 ^ 128"
    by (simp only: push_bit_eq_mult nat_and_mask power_one_right mult.commute)
  then have "push_bit 1 v AND 0xffffffffffffffffffffffffffffffff = 2 * v mod 2 ^ 128" by simp
  with assms(2) show ?thesis by (simp add: gf_double_def)
qed

lemma gf_double_less: "gf_double v < 2 ^ 128"
  unfolding gf_double_def by (rule nat_xor_less) simp_all

lemma keyschedule_spec:
  assumes "length (enc (zeros 16)) = 16"
  shows "keyschedule enc = (let k1 = gf_double (be_val (enc (zeros 16)))
           in Inr (be_enc 16 k1, be_enc 16 (gf_double k1)))"
proof -
  let ?l = "enc (zeros 16)"
  define lh ll where "lh = be_val (take 8 ?l)" "ll = be_val (drop 8 ?l)"
  note h = this
  have b: "lh < 2 ^ 64" "ll < 2 ^ 64"
    using be_val_bound [of "take 8 ?l"] be_val_bound [of "drop 8 ?l"] assms by (simp_all add: h)
  have v: "push_bit 64 lh + ll = be_val ?l"
    using be_val_append [of "take 8 ?l" "drop 8 ?l"] assms by (simp add: h push_bit_eq_mult)
  have less: "be_val ?l < 2 ^ 128" using be_val_bound [of ?l] assms by simp
  have t1: "lh AND 0x8000000000000000 \<noteq> 0 \<longleftrightarrow> 2 ^ 127 \<le> be_val ?l"
  proof -
    have "lh AND 2 ^ 63 \<noteq> 0 \<longleftrightarrow> 2 ^ 63 \<le> lh" using b(1) by (intro top_bit) simp
    moreover have "2 ^ 63 \<le> lh \<longleftrightarrow> 2 ^ 127 \<le> lh * 2 ^ 64 + ll" using b by simp arith
    ultimately show ?thesis unfolding v [symmetric] by (simp add: push_bit_eq_mult)
  qed
  have t2: "gf_double (be_val ?l) AND 0x80000000000000000000000000000000 \<noteq> 0 \<longleftrightarrow>
      2 ^ 127 \<le> gf_double (be_val ?l)"
    using top_bit [of "gf_double (be_val ?l)" 127] gf_double_less [of "be_val ?l"] by simp
  show ?thesis
    unfolding keyschedule_def Let_def using assms
    by (simp only: h [symmetric] v double_step [OF less t1] double_step [OF gf_double_less t2]
        pack_block_enc if_False not_True_eq_False simp_thms)
qed

lemma blocks_from_drop: "blocks_from i n d = blocks_from 0 n (drop i d)"
proof (induction n arbitrary: i d)
  case (Suc n)
  have "slice i (i + 16) d = slice 0 16 (drop i d)" by (simp add: slice_def take_drop add.commute)
  moreover have "blocks_from (i + 16) n d = blocks_from (0 + 16) n (drop i d)"
    using Suc [of "i + 16" d] Suc [of 16 "drop i d"] by (simp add: add.commute)
  ultimately show ?case by simp
qed simp

lemma blocks16_step:
  "d \<noteq> [] \<Longrightarrow> blocks16 d = take 16 d # blocks16 (drop 16 d)"
proof -
  assume "d \<noteq> []"
  then have "(length d + 15) div 16 = Suc ((length (drop 16 d) + 15) div 16)"
    by (cases "length d \<le> 16") (auto simp: div_if le_Suc_eq neq_Nil_conv)
  then show ?thesis
    unfolding blocks16_def by (simp add: blocks_from_drop [of 16])
qed

lemma blocks16_Nil [simp]: "blocks16 [] = []"
  by (simp add: blocks16_def)

lemma blocks16_eq_Nil [simp]: "blocks16 d = [] \<longleftrightarrow> d = []"
  by (cases "d = []") (simp_all add: blocks16_step)

definition masked_blocks :: "cmac_obj \<Rightarrow> nat \<Rightarrow> bytes \<Rightarrow> bytes list" where
  \<comment> \<open>the blocks that \<open>cmac\<close> chains for a message of whole octets\<close>
  "masked_blocks c n d =
     (if blocks16 d \<noteq> [] then butlast (blocks16 d) @ [last_block c (last (blocks16 d)) n 0]
      else [xor_buf (byte_of 0x80 # zeros 15) (cm_k2 c)])"

lemma last_block_octets:
  "last_block c mn (8 * n) 0 =
     (if n mod 16 \<noteq> 0 then xor_buf (mn @ byte_of 0x80 # zeros (15 - n mod 16)) (cm_k2 c)
      else xor_buf mn (cm_k1 c))"
proof -
  have "8 * n mod 128 = 8 * (n mod 16)" by (simp add: mult_mod_right)
  then show ?thesis by (simp add: last_block_def Let_def drop_bit_eq_div)
qed

lemma chain_blocks:
  assumes "cm_k1 c = be_enc 16 k1" "cm_k2 c = be_enc 16 k2" "n mod 16 = length d mod 16"
  shows "foldl (\<lambda>v mi. cm_enc c (xor_buf v mi)) v (masked_blocks c (8 * n) d) =
         cmac_chain (cm_enc c) k1 k2 v d"
  using assms(3)
proof (induction "length d" arbitrary: d v rule: less_induct)
  case less
  show ?case
  proof (cases "length d \<le> 16")
    case True
    show ?thesis
    proof (cases "d = []")
      case True
      then show ?thesis
        by (simp add: masked_blocks_def assms cmac_chain.simps [where d = "[]"])
    next
      case False
      with True have "blocks16 d = [d]" by (simp add: blocks16_step)
      with True False less.prems show ?thesis
        by (cases "length d = 16")
           (simp_all add: masked_blocks_def last_block_octets assms cmac_chain.simps [where d = d])
    qed
  next
    case False
    then have ne: "d \<noteq> []" "drop 16 d \<noteq> []" by auto
    have blocks: "masked_blocks c (8 * n) d = take 16 d # masked_blocks c (8 * n) (drop 16 d)"
      using ne by (simp add: masked_blocks_def blocks16_step [of d])
    have "n mod 16 = length (drop 16 d) mod 16"
      using False less.prems by (simp add: mod_if)
    with False less.hyps [of "drop 16 d" "cm_enc c (xor_buf v (take 16 d))"] ne show ?thesis
      by (simp add: blocks cmac_chain.simps [where d = d])
  qed
qed

lemma cmac_octets:
  assumes "length (enc (zeros 16)) = 16" "0 < t" "t < 128" "t mod 8 = 0"
    "data_len = None \<or> data_len = Some (8 * length d)" "d \<noteq> [] \<or> data_len = None"
  shows "rbind (new_cmac enc (Some t)) (\<lambda>c. cmac c d data_len) = Inr (take (t div 8) (cmac_spec enc d))"
proof -
  define k1 where "k1 = gf_double (be_val (enc (zeros 16)))"
  let ?c = "\<lparr>cm_enc = enc, cm_k1 = be_enc 16 k1, cm_k2 = be_enc 16 (gf_double k1), cm_tlen = t\<rparr>"
  have new: "new_cmac enc (Some t) = Inr ?c"
    using assms(2,3) keyschedule_spec [of enc, OF assms(1)] by (simp add: new_cmac_def k1_def Let_def)
  have cut: "cut_bits d data_len = Inr (d, 8 * length d, 0)"
    using assms(5,6) by (auto simp: cut_bits_def)
  have "foldl (\<lambda>v mi. enc (xor_buf v mi)) (zeros 16) (masked_blocks ?c (8 * length d) d) = cmac_spec enc d"
    using chain_blocks [of ?c k1 "gf_double k1" "length d" d "zeros 16"]
    by (simp add: cmac_spec_def k1_def Let_def)
  then show ?thesis
    using assms(3,4) unfolding new
    by (simp add: cmac_def cut masked_blocks_def Let_def drop_bit_eq_div)
qed

definition cm_header :: "int \<Rightarrow> int \<Rightarrow> int \<Rightarrow> bytes" where
  \<comment> \<open>count, bearer and direction as the algorithms put them in front of the message\<close>
  "cm_header count bearer dir =
     be_enc 4 (nat count) @ be_enc 4 (nat (bearer * 2 ^ 27 + dir * 2 ^ 26))"

lemma cm_header_packs:
  assumes "0 \<le> count" "count < 2 ^ 32" "0 \<le> bearer" "bearer < 32" "0 \<le> dir" "dir < 2"
  shows "packs [(4, count), (4, push_bit 27 bearer + push_bit 26 dir)] = Inr (cm_header count bearer dir)"
proof -
  have "bearer * 134217728 + dir * 67108864 < 4294967296" using assms by simp
  then show ?thesis
    using assms by (subst packs_Inr) (simp_all add: cm_header_def push_bit_eq_mult)
qed

text \<open>
  C29: The integrity algorithm computes what its standard specifies: for a message of whole octets
  the code is the first four octets of the CMAC of the header and the message, as NIST SP 800-38B
  defines it, for every block cipher of 16-octet blocks.\<close>

theorem eia2_is_cmac:
  assumes "\<forall>x. length (aes key x) = 16"
    and "0 \<le> count" "count < 2 ^ 32" "0 \<le> bearer" "bearer < 32" "0 \<le> dir" "dir < 2"
  shows "EIA2 aes key count bearer dir msg None =
           Inr (take 4 (cmac_spec (aes key) (cm_header count bearer dir @ msg)))"
proof -
  let ?m = "cm_header count bearer dir @ msg"
  have len: "64 + 8 * length msg = 8 * length ?m" by (simp add: cm_header_def)
  have "rbind (new_cmac (aes key) (Some 32)) (\<lambda>c. cmac c ?m (Some (8 * length ?m))) =
      Inr (take (32 div 8) (cmac_spec (aes key) ?m))"
    using assms(1) by (intro cmac_octets) (simp_all add: cm_header_def be_enc_4)
  then show ?thesis
    using assms by (simp add: EIA2_def MAX_UINT32_def cm_header_packs len del: append_assoc)
qed

theorem eia2_is_cmac_witness:
  "EIA2 (\<lambda>k x. zeros 16) [] 5 1 0 [byte_of 7] None =
     Inr (take 4 (cmac_spec (\<lambda>x. zeros 16) (cm_header 5 1 0 @ [byte_of 7])))"
  using eia2_is_cmac [of "\<lambda>k x. zeros 16" "[]" 5 1 0 "[byte_of 7]"] by simp

section \<open>Ciphering is its own inverse\<close>

definition stream_cipher :: "(bytes \<Rightarrow> bytes \<Rightarrow> bytes \<Rightarrow> bytes) \<Rightarrow> bool" where
  \<comment> \<open>counter mode: the data masked with a key stream of its length\<close>
  "stream_cipher ctr \<longleftrightarrow>
     (\<exists>ks. \<forall>k iv d. length (ks k iv (length d)) = length d \<and> ctr k iv d = xor_buf d (ks k iv (length d)))"

lemma stream_cipher_twice: "stream_cipher ctr \<Longrightarrow> ctr k iv (ctr k iv d) = d \<and> length (ctr k iv d) = length d"
proof -
  assume "stream_cipher ctr"
  then obtain ks where ks: "\<forall>k iv d. length (ks k iv (length d)) = length d \<and>
      ctr k iv d = xor_buf d (ks k iv (length d))"
    by (auto simp: stream_cipher_def)
  then have len: "length (ks k iv (length d)) = length d" by blast
  with ks have "ctr k iv d = xor_buf d (ks k iv (length d))" by blast
  moreover have "length (xor_buf d (ks k iv (length d))) = length d" using len by simp
  moreover have "ctr k iv (xor_buf d (ks k iv (length d))) =
      xor_buf (xor_buf d (ks k iv (length d))) (ks k iv (length (xor_buf d (ks k iv (length d)))))"
    using ks by blast
  ultimately show ?thesis using len by (simp add: xor_buf_cancel)
qed

text \<open>
  Deciphering is ciphering again: for every message of whole octets, every count and direction
  and the bearers below 32 the algorithm succeeds, keeps the length, and applied to its own output
  returns the message. Bearer 32 passes the argument check but does not fit the header field, so
  the call fails with a packing error instead of the module's own.\<close>

theorem eea2_involution:
  assumes "stream_cipher ctr" and "0 \<le> count" "count < 2 ^ 32" "0 \<le> bearer" "bearer < 32" "0 \<le> dir" "dir < 2"
  shows "\<exists>e. EEA2 ctr key count bearer dir msg None = Inr e \<and> length e = length msg \<and>
             EEA2 ctr key count bearer dir e None = Inr msg \<and>
             EEA2 ctr key count 32 dir msg None = Inl StructError"
proof -
  have "EEA2 ctr key count bearer dir d None = Inr (ctr key (cm_header count bearer dir @ be_enc 8 0) d)" for d
    using assms by (simp add: EEA2_def MAX_UINT32_def cm_header_packs)
  moreover have "packs [(4, count), (4, push_bit 27 32 + push_bit 26 dir)] = Inl StructError"
    using assms by (simp add: packs_def pack_be_def push_bit_eq_mult)
  then have "EEA2 ctr key count 32 dir msg None = Inl StructError"
    using assms by (simp add: EEA2_def MAX_UINT32_def)
  ultimately show ?thesis
    using stream_cipher_twice [OF assms(1)] by auto
qed

theorem eea2_involution_witness:
  "\<exists>e. EEA2 (\<lambda>k iv d. d) [] 1 2 0 [byte_of 9] None = Inr e \<and>
       EEA2 (\<lambda>k iv d. d) [] 1 2 0 e None = Inr [byte_of 9]"
proof -
  have "xor_buf d (zeros (length d)) = d" for d
    by (induction d) (simp_all add: xor_buf_def zeros_def byte_of_def)
  then have "stream_cipher (\<lambda>k iv d. d)"
    unfolding stream_cipher_def by (intro exI [of _ "\<lambda>k iv n. zeros n"]) simp
  from eea2_involution [OF this, of 1 2 0 "[]" "[byte_of 9]"] show ?thesis by auto
qed

section \<open>Concealed identities are recovered\<close>

text \<open>
  The home network recovers the concealed identity: whatever key pair the subscriber drew, the
  three values it sends open to the plaintext under the matching private key, and a tag that is
  not the one computed over the received ciphertext opens to nothing.\<close>

theorem ecies_roundtrip:
  assumes "stream_cipher ctr" and "\<forall>i z. length (x963 i z) = 64"
    and "\<forall>a b. ec_shared ec a (ec_pub ec b) = ec_shared ec b (ec_pub ec a)"
    and "ue' = ecies_generate ec x963 fresh (ec_pub ec hn) ue"
  shows "\<exists>ek ct tag. ecies_protect ctr hmac msg ue' = Inr (ek, ct, tag) \<and> length ct = length msg \<and>
           ecies_unprotect ec x963 ctr hmac hn ek ct tag = Inr (Some msg) \<and>
           (bad \<noteq> tag \<longrightarrow> ecies_unprotect ec x963 ctr hmac hn ek ct bad = Inr None)"
proof -
  define k where "k = (case fresh of None \<Rightarrow> eu_key ue | Some k \<Rightarrow> k)"
  have ue: "eu_EK ue' = ec_pub ec k" "eu_SK ue' = x963 (ec_pub ec k) (ec_shared ec hn (ec_pub ec k))"
    using assms(3) by (simp_all add: assms(4) ecies_generate_def Let_def k_def)
  have "length (slice 24 32 (x963 i z)) = 8" for i z using assms(2) by (simp add: length_slice)
  then obtain cnt where "unpack_Q (slice 24 32 (x963 (ec_pub ec k) (ec_shared ec hn (ec_pub ec k)))) = Inr cnt"
    by (auto simp: unpack_be_def)
  then show ?thesis
    using stream_cipher_twice [OF assms(1)]
    by (auto simp: ecies_protect_def ecies_unprotect_def ue aes_ctr_def Let_def)
qed

theorem ecies_roundtrip_witness:
  "let ec = \<lparr>ec_pub = (\<lambda>n. be_enc 2 n), ec_shared = (\<lambda>n p. [])\<rparr>;
       ue = ecies_generate ec (\<lambda>i z. zeros 64) (Some 3) (ec_pub ec 5) \<lparr>eu_key = 1, eu_EK = [], eu_SK = []\<rparr>
   in \<exists>ek ct tag. ecies_protect (\<lambda>k iv d. d) (\<lambda>k m. zeros 32) [byte_of 1] ue = Inr (ek, ct, tag) \<and>
        ecies_unprotect ec (\<lambda>i z. zeros 64) (\<lambda>k iv d. d) (\<lambda>k m. zeros 32) 5 ek ct tag = Inr (Some [byte_of 1])"
proof -
  have "xor_buf d (zeros (length d)) = d" for d
    by (induction d) (simp_all add: xor_buf_def zeros_def byte_of_def)
  then have str: "stream_cipher (\<lambda>k iv d. d)"
    unfolding stream_cipher_def by (intro exI [of _ "\<lambda>k iv n. zeros n"]) simp
  let ?ec = "\<lparr>ec_pub = (\<lambda>n. be_enc 2 n), ec_shared = (\<lambda>n p. [])\<rparr>"
  have len: "\<forall>i z. length ((\<lambda>i z. zeros 64) i z) = 64" by simp
  have dh: "\<forall>a b. ec_shared ?ec a (ec_pub ?ec b) = ec_shared ?ec b (ec_pub ?ec a)" by simp
  show ?thesis
    unfolding Let_def
    using ecies_roundtrip [OF str len dh refl, where fresh = "Some 3" and hn = 5 and
        ue = "\<lparr>eu_key = 1, eu_EK = [], eu_SK = []\<rparr>" and hmac = "\<lambda>k m. zeros 32" and msg = "[byte_of 1]"]
    by blast
qed

end
