(* ===== verification/Aka.thy ===== *)
theory Aka
  imports SaCrypto
begin

text \<open>
  The subscriber side of 5G-AKA (\<open>protocol/crypto.py\<close>) over the toolkit of \<open>SaCrypto\<close>, and the
  NAS security envelope with its message counters (\<open>protocol/nas_security.py\<close>).

  The message class of the NAS library is a parameter, the record \<open>nas_lib\<close>: its constructor, its
  field readers and its four security methods.  \<open>aes\<close> and \<open>hmac\<close> are the parameters of \<open>SaCrypto\<close>.
\<close>

section \<open>Authentication\<close>

datatype sqn_val = SqnInt int | SqnBytes bytes

record sim =
  sim_imsi :: string
  sim_k :: bytes
  sim_opc :: bytes
  sim_op_type :: string
  sim_sqn :: sqn_val

definition ascii :: "string \<Rightarrow> bytes" where
  "ascii s = map (\<lambda>c. byte_of (of_char c)) s"

definition zfill3 :: "string \<Rightarrow> string" where
  \<comment> \<open>\<open>str.zfill(3)\<close>: zeros after a leading sign, if any\<close>
  "zfill3 s =
     (let z = replicate (3 - length s) CHR ''0'' in
      if s \<noteq> [] \<and> (hd s = CHR ''+'' \<or> hd s = CHR ''-'') then hd s # z @ tl s else z @ s)"

definition get_snn :: "string \<Rightarrow> string \<Rightarrow> bytes" where
  "get_snn mcc mnc = ascii (''5G:mnc'' @ zfill3 mnc @ ''.mcc'' @ mcc @ ''.3gppnetwork.org'')"

datatype auth_result =
    NoAuth
  | SyncFailure bytes
  | AuthOk bytes bytes bytes bytes bytes \<comment> \<open>RES*, KAUSF, KSEAF, CK, IK\<close>

definition sim_milenage :: "sim \<Rightarrow> milenage \<times> bytes option" where
  \<comment> \<open>the two ways of handing the operator value to the algorithm\<close>
  "sim_milenage s =
     (if sim_op_type s = ''OPC'' then (set_opc (sim_opc s) (new_milenage None), None)
      else (new_milenage None, Some (sim_opc s)))"

definition sim_f2345 :: "(bytes \<Rightarrow> bytes \<Rightarrow> bytes) \<Rightarrow> sim \<Rightarrow> bytes \<Rightarrow> (bytes \<times> bytes \<times> bytes \<times> bytes) res" where
  \<comment> \<open>the unpacked result of \<open>f2345\<close>; unpacking \<open>None\<close> raises\<close>
  "sim_f2345 aes s rnd =
     (let (m, p) = sim_milenage s in
      rbind (f2345 aes m (sim_k s) rnd p) (\<lambda>r. case r of None \<Rightarrow> Inl TypeError | Some x \<Rightarrow> Inr x))"

definition sqn_bytes :: "sqn_val \<Rightarrow> bytes res" where
  \<comment> \<open>\<open>sqn_val.to_bytes(6, 'big')\<close>\<close>
  "sqn_bytes v =
     (let n = (case v of SqnInt n \<Rightarrow> n | SqnBytes b \<Rightarrow> int (be_val b)) in
      if 0 \<le> n \<and> n < 2 ^ 48 then Inr (be_enc 6 (nat n)) else Inl OverflowError)"

definition compute_auts :: "(bytes \<Rightarrow> bytes \<Rightarrow> bytes) \<Rightarrow> sim \<Rightarrow> bytes \<Rightarrow> bytes res" where
  "compute_auts aes s rnd =
     rbind (sqn_bytes (sim_sqn s)) (\<lambda>sqn_ms.
     rbind (sim_f2345 aes s rnd) (\<lambda>(res, ck, ik, ak).
     let (m, p) = sim_milenage s in
     rbind (f1star aes m (sim_k s) rnd sqn_ms (zeros 2) p) (\<lambda>mac_s.
     case mac_s of None \<Rightarrow> Inl TypeError | Some mac \<Rightarrow> Inr (xor_buf sqn_ms ak @ mac))))"

definition ue_authenticate ::
  "(bytes \<Rightarrow> bytes \<Rightarrow> bytes) \<Rightarrow> mac_fun \<Rightarrow> sim \<Rightarrow> bytes \<Rightarrow> bytes \<Rightarrow> bytes \<Rightarrow> auth_result res" where
  "ue_authenticate aes hmac s rnd autn sn_name =
     rbind (sim_f2345 aes s rnd) (\<lambda>(xres, ck, ik, ak).
     let sqn_xor_ak = slice 0 6 autn; amf_field = slice 6 8 autn; mac_a = slice 8 16 autn;
         sqn = xor_buf sqn_xor_ak ak; (m, p) = sim_milenage s in
     rbind (f1 aes m (sim_k s) rnd sqn amf_field p) (\<lambda>expected.
     if Some mac_a \<noteq> expected then
       rbind (compute_auts aes s rnd) (\<lambda>auts. Inr (if auts \<noteq> [] then SyncFailure auts else NoAuth))
     else
       rbind (conv_501_A4 hmac ck ik sn_name rnd xres) (\<lambda>rs.
       rbind (conv_501_A2 hmac ck ik sn_name sqn_xor_ak) (\<lambda>kausf.
       rbind (conv_501_A6 hmac kausf sn_name) (\<lambda>kseaf.
       Inr (AuthOk rs kausf kseaf ck ik))))))"

definition derive_kamf :: "mac_fun \<Rightarrow> bytes \<Rightarrow> string \<Rightarrow> bytes res" where
  \<comment> \<open>with the default \<open>abba\<close>\<close>
  "derive_kamf hmac kseaf supi = conv_501_A7 hmac kseaf (ascii supi) (zeros 2)"

definition last16 :: "bytes \<Rightarrow> bytes" where
  "last16 b = drop (length b - 16) b"

definition derive_nas_keys :: "mac_fun \<Rightarrow> bytes \<Rightarrow> int \<Rightarrow> int \<Rightarrow> (bytes \<times> bytes) res" where
  "derive_nas_keys hmac kamf ciph integ =
     rbind (conv_501_A8 hmac kamf 1 ciph) (\<lambda>e.
     rbind (conv_501_A8 hmac kamf 2 integ) (\<lambda>i. Inr (last16 e, last16 i)))"

definition derive_kgnb :: "mac_fun \<Rightarrow> bytes \<Rightarrow> int \<Rightarrow> bytes res" where
  "derive_kgnb hmac kamf cnt = conv_501_A9 hmac kamf cnt 1"

section \<open>NAS security envelope\<close>

record 'm nas_lib =
  nl_make :: "nat \<Rightarrow> nat \<Rightarrow> bytes \<Rightarrow> 'm" \<comment> \<open>header type, sequence number, inner message\<close>
  nl_hdr :: "'m \<Rightarrow> nat"
  nl_seqn :: "'m \<Rightarrow> nat"
  nl_encrypt :: "bytes \<Rightarrow> nat \<Rightarrow> nat \<Rightarrow> nat \<Rightarrow> nat \<Rightarrow> 'm \<Rightarrow> 'm" \<comment> \<open>key, direction, algorithm, offset, bearer\<close>
  nl_decrypt :: "bytes \<Rightarrow> nat \<Rightarrow> nat \<Rightarrow> nat \<Rightarrow> nat \<Rightarrow> 'm \<Rightarrow> 'm"
  nl_mac :: "bytes \<Rightarrow> nat \<Rightarrow> nat \<Rightarrow> nat \<Rightarrow> nat \<Rightarrow> 'm \<Rightarrow> 'm"
  nl_verify :: "bytes \<Rightarrow> nat \<Rightarrow> nat \<Rightarrow> nat \<Rightarrow> nat \<Rightarrow> 'm \<Rightarrow> bool"
  nl_inner :: "'m \<Rightarrow> bytes" \<comment> \<open>the inner message\<close>

definition usable :: "bytes option \<Rightarrow> bytes option" where
  \<comment> \<open>a key that is neither \<open>None\<close> nor empty\<close>
  "usable k = (case k of None \<Rightarrow> None | Some b \<Rightarrow> if b = [] then None else Some b)"

definition wrap_nas_security ::
  "'m nas_lib \<Rightarrow> bytes \<Rightarrow> bytes option \<Rightarrow> bytes option \<Rightarrow> nat \<Rightarrow> nat \<Rightarrow> nat \<Rightarrow> nat \<Rightarrow> nat \<Rightarrow> nat \<Rightarrow> 'm \<times> nat" where
  "wrap_nas_security L plain kenc kint ciph integ count direction bearer sec_hdr =
     (let seqn = count AND 0xFF; seqnoff = count AND 0xFFFFFF00;
          m = nl_make L sec_hdr seqn plain;
          m = (case usable kenc of Some k \<Rightarrow> if ciph > 0 then nl_encrypt L k direction ciph seqnoff bearer m else m
               | None \<Rightarrow> m);
          m = (case usable kint of Some k \<Rightarrow> if integ > 0 then nl_mac L k direction integ seqnoff bearer m else m
               | None \<Rightarrow> m)
      in (m, (count + 1) AND 0xFFFFFFFF))"

definition reconcile :: "nat \<Rightarrow> nat \<Rightarrow> nat" where
  \<comment> \<open>the received sequence number joined with the overflow counter\<close>
  "reconcile dl_count seqn =
     (let seqnoff = dl_count AND 0xFFFFFF00; expected = dl_count AND 0xFF in
      if seqn \<noteq> expected then
        (if seqn > expected then seqnoff OR seqn else (seqnoff + 0x100) OR seqn)
      else dl_count)"

definition unwrap_nas_security ::
  "'m nas_lib \<Rightarrow> 'm \<Rightarrow> bytes option \<Rightarrow> bytes option \<Rightarrow> nat \<Rightarrow> nat \<Rightarrow> nat \<Rightarrow> nat \<Rightarrow> nat \<Rightarrow> bytes \<times> nat \<times> bool" where
  \<comment> \<open>the inner message (still to be parsed), the new count, the verdict\<close>
  "unwrap_nas_security L msg kenc kint ciph integ dl_count direction bearer =
     (let dl = reconcile dl_count (nl_seqn L msg); seqnoff = dl AND 0xFFFFFF00;
          mac_ok = (case usable kint of
              Some k \<Rightarrow> if integ > 0 then nl_verify L k direction integ seqnoff bearer msg else True
            | None \<Rightarrow> True);
          m = (case usable kenc of
              Some k \<Rightarrow> if nl_hdr L msg \<in> {2, 4} \<and> ciph > 0
                        then nl_decrypt L k direction ciph seqnoff bearer msg else msg
            | None \<Rightarrow> msg)
      in (nl_inner L m, (dl + 1) AND 0xFFFFFFFF, mac_ok))"

section \<open>The subscriber and the network agree\<close>

lemma xor_buf_assoc: "xor_buf (xor_buf a b) c = xor_buf a (xor_buf b c)"
proof (induction a arbitrary: b c)
  case (Cons x a)
  then show ?case by (cases b; cases c) (simp_all add: xor_buf_def xor.assoc)
qed (simp add: xor_buf_def)

definition block_cipher :: "(bytes \<Rightarrow> bytes \<Rightarrow> bytes) \<Rightarrow> bool" where
  "block_cipher aes \<longleftrightarrow> (\<forall>k x. length (aes k x) = 16)"

definition good_sim :: "sim \<Rightarrow> bool" where
  "good_sim s \<longleftrightarrow> length (sim_k s) = 16 \<and> length (sim_opc s) = 16"

lemma rot16_octets: "r mod 8 = 0 \<Longrightarrow> rot16 b r = Inr (drop (r div 8) b @ take (r div 8) b)"
  by (simp add: rot16_def drop_bit_eq_div Let_def)

lemma sim_opc_value:
  assumes "block_cipher aes" "good_sim s" "sim_milenage s = (m, p)"
  shows "\<exists>opc. get_opc aes m (sim_k s) p = Inr opc \<and> length opc = 16"
  using assms
  by (auto simp: block_cipher_def good_sim_def sim_milenage_def get_opc_def set_opc_def new_milenage_def
      make_OPc_def split: if_splits)

lemma f1_out_block:
  assumes "block_cipher aes" "good_sim s" "sim_milenage s = (m, p)" "length rnd = 16"
    "length sqn = 6" "length amf = 2"
  shows "\<exists>out. f1_out aes m (sim_k s) rnd sqn amf p = Inr (Some out) \<and> length out = 16"
proof -
  obtain opc where "get_opc aes m (sim_k s) p = Inr opc" "length opc = 16"
    using sim_opc_value [OF assms(1-3)] by blast
  with assms show ?thesis
    by (simp add: f1_out_def good_sim_def Let_def mil_r1_def rot16_octets block_cipher_def)
qed

lemma f1_mac:
  assumes "block_cipher aes" "good_sim s" "sim_milenage s = (m, p)" "length rnd = 16"
    "length sqn = 6" "length amf = 2"
  shows "\<exists>a b. f1 aes m (sim_k s) rnd sqn amf p = Inr (Some a) \<and> length a = 8 \<and>
               f1star aes m (sim_k s) rnd sqn amf p = Inr (Some b) \<and> length b = 8"
proof -
  obtain out where "f1_out aes m (sim_k s) rnd sqn amf p = Inr (Some out)" "length out = 16"
    using f1_out_block [OF assms] by blast
  then show ?thesis by (simp add: f1_def f1star_def length_slice)
qed

lemma sim_f2345_block:
  assumes "block_cipher aes" "good_sim s" "length rnd = 16"
  shows "\<exists>xres ck ik ak. sim_f2345 aes s rnd = Inr (xres, ck, ik, ak) \<and>
           length xres = 8 \<and> length ck = 16 \<and> length ik = 16 \<and> length ak = 6"
proof -
  obtain m p where mp: "sim_milenage s = (m, p)" by fastforce
  obtain opc where "get_opc aes m (sim_k s) p = Inr opc" "length opc = 16"
    using sim_opc_value [OF assms(1,2) mp] by blast
  with assms show ?thesis
    by (simp add: sim_f2345_def mp f2345_def good_sim_def Let_def mil_out_def mil_r2_def mil_r3_def
        mil_r4_def rot16_octets block_cipher_def length_slice)
qed

definition home_vector ::
  "(bytes \<Rightarrow> bytes \<Rightarrow> bytes) \<Rightarrow> sim \<Rightarrow> bytes \<Rightarrow> bytes \<Rightarrow> bytes \<Rightarrow> (bytes \<times> bytes \<times> bytes \<times> bytes) res" where
  \<comment> \<open>what the home network computes for a subscriber: AUTN, XRES, CK, IK\<close>
  "home_vector aes s rnd sqn amf =
     rbind (sim_f2345 aes s rnd) (\<lambda>(xres, ck, ik, ak).
     let (m, p) = sim_milenage s in
     rbind (f1 aes m (sim_k s) rnd sqn amf p) (\<lambda>mac.
     case mac of None \<Rightarrow> Inl TypeError | Some mac \<Rightarrow> Inr (xor_buf sqn ak @ amf @ mac, xres, ck, ik)))"

lemma home_vector_Inr:
  assumes "block_cipher aes" "good_sim s" "length rnd = 16" "length sqn = 6" "length amf = 2"
    "home_vector aes s rnd sqn amf = Inr (autn, xres, ck, ik)"
  obtains ak mac m p where "sim_f2345 aes s rnd = Inr (xres, ck, ik, ak)" "sim_milenage s = (m, p)"
    "f1 aes m (sim_k s) rnd sqn amf p = Inr (Some mac)" "autn = xor_buf sqn ak @ amf @ mac"
    "length ak = 6" "length mac = 8" "length ck = 16" "length ik = 16" "length xres = 8"
proof -
  obtain m p where mp: "sim_milenage s = (m, p)" by fastforce
  obtain xr c i ak where f: "sim_f2345 aes s rnd = Inr (xr, c, i, ak)" and
    len: "length xr = 8" "length c = 16" "length i = 16" "length ak = 6"
    using sim_f2345_block [OF assms(1-3)] by blast
  obtain mac where mac: "f1 aes m (sim_k s) rnd sqn amf p = Inr (Some mac)" "length mac = 8"
    using f1_mac [OF assms(1,2) mp assms(3-5)] by blast
  show ?thesis using that [of ak m p mac] assms(6) f mp mac len by (simp add: home_vector_def)
qed

lemma kdf_chain:
  assumes "\<forall>k m. length (hmac k m) = 32" "length ck = 16" "length ik = 16" "length rnd = 16"
    "4 \<le> length xres" "length xres \<le> 16" "32 \<le> length sn" "length sn \<le> 255" "length sx = 6"
  shows "\<exists>rs kausf kseaf. conv_501_A4 hmac ck ik sn rnd xres = Inr rs \<and>
           conv_501_A2 hmac ck ik sn sx = Inr kausf \<and> conv_501_A6 hmac kausf sn = Inr kseaf \<and>
           length rs = 16 \<and> length kausf = 32 \<and> length kseaf = 32"
proof -
  have len: "packs [(2, int (length b))] = Inr (be_enc 2 (length b))" if "length b \<le> 255" for b :: bytes
    using that by (subst packs_Inr) simp_all
  have p6: "packs [(2, 6)] = Inr (be_enc 2 6)" and p16: "packs [(2, 16)] = Inr (be_enc 2 16)"
    by (subst packs_Inr; simp)+
  have x: "length xres \<le> 255" using assms(6) by simp
  have "\<exists>x. conv_501_A4 hmac ck ik sn rnd xres = Inr x \<and> length x = 16"
    using assms len [OF assms(8)] len [OF x] p16 by (simp add: conv_501_A4_def guarded_def kdf_str_def)
  moreover have "\<exists>x. conv_501_A2 hmac ck ik sn sx = Inr x \<and> length x = 32"
    using assms len [OF assms(8)] p6 by (simp add: conv_501_A2_def guarded_def kdf_str_def)
  moreover have "\<exists>x. conv_501_A6 hmac k sn = Inr x \<and> length x = 32" if "length k = 32" for k
    using assms that len [OF assms(8)] by (simp add: conv_501_A6_def guarded_def kdf_str_def)
  ultimately show ?thesis by blast
qed

lemma authentic_accepted:
  assumes "block_cipher aes" "\<forall>k m. length (hmac k m) = 32" "good_sim s" "length rnd = 16"
    "length sqn = 6" "length amf = 2" "32 \<le> length sn" "length sn \<le> 255"
    "home_vector aes s rnd sqn amf = Inr (autn, xres, ck, ik)"
  shows "\<exists>rs kausf kseaf. conv_501_A4 hmac ck ik sn rnd xres = Inr rs \<and>
      conv_501_A2 hmac ck ik sn (slice 0 6 autn) = Inr kausf \<and> conv_501_A6 hmac kausf sn = Inr kseaf \<and>
      ue_authenticate aes hmac s rnd autn sn = Inr (AuthOk rs kausf kseaf ck ik)"
proof -
  obtain ak mac m p where v: "sim_f2345 aes s rnd = Inr (xres, ck, ik, ak)" "sim_milenage s = (m, p)"
    "f1 aes m (sim_k s) rnd sqn amf p = Inr (Some mac)" "autn = xor_buf sqn ak @ amf @ mac"
    "length ak = 6" "length mac = 8" "length ck = 16" "length ik = 16" "length xres = 8"
    by (rule home_vector_Inr [OF assms(1,3-6,9)])
  have parts: "slice 0 6 autn = xor_buf sqn ak" "slice 6 8 autn = amf" "slice 8 16 autn = mac"
    using v assms(5,6) by (simp_all add: slice_def)
  obtain rs kausf kseaf where k: "conv_501_A4 hmac ck ik sn rnd xres = Inr rs"
    "conv_501_A2 hmac ck ik sn (xor_buf sqn ak) = Inr kausf" "conv_501_A6 hmac kausf sn = Inr kseaf"
    using kdf_chain [of hmac ck ik rnd xres sn "xor_buf sqn ak"] assms v by auto
  have "xor_buf (xor_buf sqn ak) ak = sqn"
    using assms(5) v(5) by (intro xor_buf_cancel) simp
  with v k parts show ?thesis by (auto simp: ue_authenticate_def)
qed

lemma forged_resync:
  assumes "block_cipher aes" "good_sim s" "length rnd = 16" "length autn = 16"
    "sqn_bytes (sim_sqn s) = Inr sqn_ms"
    "\<nexists>sqn amf xres ck ik. length sqn = 6 \<and> length amf = 2 \<and>
       home_vector aes s rnd sqn amf = Inr (autn, xres, ck, ik)"
  shows "\<exists>auts. ue_authenticate aes hmac s rnd autn sn = Inr (SyncFailure auts) \<and> length auts = 14"
proof -
  obtain m p where mp: "sim_milenage s = (m, p)" by fastforce
  obtain xr ck ik ak where f: "sim_f2345 aes s rnd = Inr (xr, ck, ik, ak)" and
    len: "length xr = 8" "length ck = 16" "length ik = 16" "length ak = 6"
    using sim_f2345_block [OF assms(1-3)] by blast
  let ?sqn = "xor_buf (slice 0 6 autn) ak" and ?amf = "slice 6 8 autn"
  have sl: "length ?sqn = 6" "length ?amf = 2" using assms(4) len by (simp_all add: length_slice)
  obtain mac where mac: "f1 aes m (sim_k s) rnd ?sqn ?amf p = Inr (Some mac)" "length mac = 8"
    using f1_mac [OF assms(1,2) mp assms(3) sl] by blast
  have "slice 8 16 autn \<noteq> mac"
  proof
    assume eq: "slice 8 16 autn = mac"
    have "slice 0 6 autn @ ?amf @ slice 8 16 autn = autn"
      using assms(4) by (simp only: slice_join) (simp add: slice_def)
    moreover have "xor_buf ?sqn ak = slice 0 6 autn"
      using assms(4) len by (intro xor_buf_cancel) (simp add: length_slice)
    ultimately have "home_vector aes s rnd ?sqn ?amf = Inr (autn, xr, ck, ik)"
      using mac by (simp add: home_vector_def f mp eq)
    with assms(6) sl show False by blast
  qed
  moreover have "length sqn_ms = 6"
    using assms(5) by (auto simp: sqn_bytes_def Let_def split: if_splits)
  moreover obtain macs where "f1star aes m (sim_k s) rnd sqn_ms (zeros 2) p = Inr (Some macs)" "length macs = 8"
    using f1_mac [OF assms(1,2) mp assms(3), of sqn_ms "zeros 2"] calculation by auto
  ultimately show ?thesis
    using len mac by (cases macs) (simp_all add: ue_authenticate_def compute_auts_def f mp assms(5) Let_def)
qed


definition zero_sim :: sim where
  "zero_sim = \<lparr>sim_imsi = ''001010000000001'', sim_k = zeros 16, sim_opc = zeros 16,
               sim_op_type = ''OPC'', sim_sqn = SqnInt 1\<rparr>"


section \<open>The resynchronisation token\<close>

lemma compute_auts_block:
  assumes "block_cipher aes" "good_sim s" "length rnd = 16" "sqn_bytes (sim_sqn s) = Inr sqn_ms"
  obtains xres ck ik ak macs where "sim_f2345 aes s rnd = Inr (xres, ck, ik, ak)" "length ak = 6"
    "length sqn_ms = 6" "length macs = 8" "compute_auts aes s rnd = Inr (xor_buf sqn_ms ak @ macs)"
proof -
  obtain m p where mp: "sim_milenage s = (m, p)" by fastforce
  obtain xr ck ik ak where f: "sim_f2345 aes s rnd = Inr (xr, ck, ik, ak)" "length ak = 6"
    using sim_f2345_block [OF assms(1-3)] by blast
  have q: "length sqn_ms = 6"
    using assms(4) by (auto simp: sqn_bytes_def Let_def split: if_splits)
  then obtain macs where "f1star aes m (sim_k s) rnd sqn_ms (zeros 2) p = Inr (Some macs)" "length macs = 8"
    using f1_mac [OF assms(1,2) mp assms(3), of sqn_ms "zeros 2"] by auto
  then show ?thesis
    using that [of xr ck ik ak macs] f q by (simp add: compute_auts_def assms(4) mp)
qed

lemma xor_buf_inj: "length b = length a \<Longrightarrow> length c = length a \<Longrightarrow> xor_buf a b = xor_buf a c \<longleftrightarrow> b = c"
  by (metis order_refl xor_buf_cancel xor_buf_commute)

text \<open>
  The resynchronisation token hides the sequence number with the key of \<open>f5\<close>, not with the
  resynchronisation key \<open>f5star\<close> the package provides for it: removing the \<open>f5\<close> key returns the
  card's number, and a home network that removes the \<open>f5star\<close> key, whatever it is, recovers that
  number only when the two keys happen to be equal.\<close>

theorem auts_uses_f5:
  assumes "block_cipher aes" and "good_sim s" and "length rnd = 16"
    and "sqn_bytes (sim_sqn s) = Inr sqn_ms" and "sim_milenage s = (m, p)"
    and "f5star aes m (sim_k s) rnd p = Inr (Some aks)"
  shows "\<exists>xres ck ik ak auts. sim_f2345 aes s rnd = Inr (xres, ck, ik, ak) \<and>
           compute_auts aes s rnd = Inr auts \<and> xor_buf (take 6 auts) ak = sqn_ms \<and>
           (xor_buf (take 6 auts) aks = sqn_ms \<longleftrightarrow> aks = ak)"
proof -
  obtain xres ck ik ak macs where c: "sim_f2345 aes s rnd = Inr (xres, ck, ik, ak)" "length ak = 6"
    "length sqn_ms = 6" "length macs = 8" "compute_auts aes s rnd = Inr (xor_buf sqn_ms ak @ macs)"
    by (rule compute_auts_block [OF assms(1-4)])
  have aks: "length aks = 6"
  proof -
    obtain opc where "get_opc aes m (sim_k s) p = Inr opc" "length opc = 16"
      using sim_opc_value [OF assms(1,2,5)] by blast
    then show ?thesis
      using assms by (auto simp: f5star_def good_sim_def block_cipher_def mil_out_def mil_r5_def rot16_octets
          Let_def length_slice)
  qed
  let ?h = "take 6 (xor_buf sqn_ms ak @ macs)"
  have h: "?h = xor_buf sqn_ms ak" using c by simp
  have "xor_buf ?h ak = sqn_ms" unfolding h using c by (intro xor_buf_cancel) simp
  moreover from this have "xor_buf ?h aks = sqn_ms \<longleftrightarrow> xor_buf ?h aks = xor_buf ?h ak" by simp
  moreover have "xor_buf ?h aks = xor_buf ?h ak \<longleftrightarrow> aks = ak"
    using c aks h by (intro xor_buf_inj) simp_all
  ultimately show ?thesis using c by blast
qed

theorem auts_uses_f5_witness:
  "\<exists>auts. compute_auts (\<lambda>k x. zeros 16) zero_sim (zeros 16) = Inr auts"
proof -
  have aes: "block_cipher (\<lambda>k x. zeros 16)" and sim: "good_sim zero_sim" and z: "length (zeros 16) = 16"
    by (simp_all add: block_cipher_def good_sim_def zero_sim_def)
  have sqn: "sqn_bytes (sim_sqn zero_sim) = Inr (be_enc 6 1)"
    by (simp add: sqn_bytes_def zero_sim_def)
  obtain m p where mp: "sim_milenage zero_sim = (m, p)" by fastforce
  obtain opc where opc: "get_opc (\<lambda>k x. zeros 16) m (sim_k zero_sim) p = Inr opc"
    using sim_opc_value [OF aes sim mp] by blast
  have "\<exists>aks. f5star (\<lambda>k x. zeros 16) m (sim_k zero_sim) (zeros 16) p = Inr (Some aks)"
    using sim opc by (simp add: f5star_def good_sim_def mil_out_def mil_r5_def rot16_octets Let_def)
  then obtain aks where "f5star (\<lambda>k x. zeros 16) m (sim_k zero_sim) (zeros 16) p = Inr (Some aks)" ..
  from auts_uses_f5 [OF aes sim z sqn mp this] show ?thesis by blast
qed

section \<open>Message counters\<close>

lemma count_parts: "(n :: nat) AND 0xFFFFFF00 = (n div 256 mod 16777216) * 256"
proof -
  have mask: "(0xFFFFFF00 :: nat) = push_bit 8 (mask 24)"
    by (simp add: mask_eq_exp_minus_1 push_bit_eq_mult)
  have "n AND 0xFFFFFF00 = push_bit 8 (take_bit 24 (drop_bit 8 n))"
    unfolding mask by (rule bit_eqI) (auto simp: bit_simps)
  then show ?thesis by (simp add: push_bit_eq_mult take_bit_eq_mod drop_bit_eq_div)
qed

lemma reconcile_value:
  assumes "e < 2 ^ 32" "s < 256"
  shows "reconcile e s = (if s < e mod 256 then (e div 256 + 1) * 256 + s else e div 256 * 256 + s)"
proof -
  have off: "e AND 0xFFFFFF00 = e div 256 * 256"
    using assms(1) by (simp add: count_parts)
  have join: "k * 256 OR s = k * 256 + s" for k :: nat
    using nat_shift_or [of s 8 k] assms(2) by (simp add: push_bit_eq_mult)
  have up: "e div 256 * 256 + 256 = (e div 256 + 1) * 256" by simp
  show ?thesis
    using div_mult_mod_eq [of e 256]
    unfolding reconcile_def Let_def off mask_simps up join by auto
qed

lemma reconcile_resync:
  assumes "e \<le> c" "c < e + 256" "c < 2 ^ 32"
  shows "reconcile e (c mod 256) = c"
proof -
  define q r d where "q = e div 256" "r = e mod 256" "d = c - e"
  have e: "e = q * 256 + r" "r < 256" and c: "c = q * 256 + r + d" "d < 256"
    using assms by (simp_all add: q_r_d_def)
  have val: "reconcile e (c mod 256) =
      (if c mod 256 < r then (q + 1) * 256 + c mod 256 else q * 256 + c mod 256)"
    using assms by (subst reconcile_value) (simp_all add: q_r_d_def)
  show ?thesis
  proof (cases "r + d < 256")
    case True
    then have "(q * 256 + (r + d)) mod 256 = r + d" by (rule mod_parts)
    then have "c mod 256 = r + d" using c(1) by (simp add: add.assoc)
    then show ?thesis unfolding val using c(1) by simp
  next
    case False
    then have "c = (q + 1) * 256 + (r + d - 256)" using c by simp
    moreover have "r + d - 256 < 256" using e(2) c(2) by simp
    ultimately have "c mod 256 = r + d - 256" by (metis mod_parts)
    then show ?thesis unfolding val using c e(2) False by simp
  qed
qed

definition lib_ok :: "'m nas_lib \<Rightarrow> bool" where
  \<comment> \<open>what the library's message class documents: the security methods leave header and sequence
     number alone, a computed code verifies with the same arguments, and deciphering undoes ciphering\<close>
  "lib_ok L \<longleftrightarrow>
     (\<forall>h s p. nl_hdr L (nl_make L h s p) = h \<and> nl_seqn L (nl_make L h s p) = s \<and> nl_inner L (nl_make L h s p) = p) \<and>
     (\<forall>k d a off b m. nl_hdr L (nl_encrypt L k d a off b m) = nl_hdr L m \<and>
        nl_seqn L (nl_encrypt L k d a off b m) = nl_seqn L m \<and>
        nl_hdr L (nl_mac L k d a off b m) = nl_hdr L m \<and> nl_seqn L (nl_mac L k d a off b m) = nl_seqn L m \<and>
        nl_inner L (nl_mac L k d a off b m) = nl_inner L m \<and>
        nl_verify L k d a off b (nl_mac L k d a off b m) \<and>
        nl_inner L (nl_decrypt L k d a off b (nl_encrypt L k d a off b m)) = nl_inner L m) \<and>
     (\<forall>k d a off b m m'. nl_inner L m = nl_inner L m' \<longrightarrow> nl_seqn L m = nl_seqn L m' \<longrightarrow>
        nl_inner L (nl_decrypt L k d a off b m) = nl_inner L (nl_decrypt L k d a off b m'))"

lemma wrap_unwrap:
  assumes "lib_ok L" and "e \<le> c" "c < e + 256" "c < 2 ^ 32" and "h \<in> {2, 4}"
  shows "wrap_nas_security L plain kenc kint ciph integ c d b h =
           (fst (wrap_nas_security L plain kenc kint ciph integ c d b h), (c + 1) mod 2 ^ 32) \<and>
         unwrap_nas_security L (fst (wrap_nas_security L plain kenc kint ciph integ c d b h))
           kenc kint ciph integ e d b = (plain, (c + 1) mod 2 ^ 32, True)"
proof -
  define off where "off = c AND 0xFFFFFF00"
  define m0 where "m0 = nl_make L h (c mod 256) plain"
  define m1 where "m1 = (case usable kenc of
      Some k \<Rightarrow> if ciph > 0 then nl_encrypt L k d ciph off b m0 else m0 | None \<Rightarrow> m0)"
  define m2 where "m2 = (case usable kint of
      Some k \<Rightarrow> if integ > 0 then nl_mac L k d integ off b m1 else m1 | None \<Rightarrow> m1)"
  note ok = assms(1) [unfolded lib_ok_def]
  have make: "\<And>h s p. nl_hdr L (nl_make L h s p) = h" "\<And>h s p. nl_seqn L (nl_make L h s p) = s"
    "\<And>h s p. nl_inner L (nl_make L h s p) = p"
    using ok by blast+
  have enc: "\<And>k d a off b m. nl_hdr L (nl_encrypt L k d a off b m) = nl_hdr L m"
    "\<And>k d a off b m. nl_seqn L (nl_encrypt L k d a off b m) = nl_seqn L m"
    "\<And>k d a off b m. nl_inner L (nl_decrypt L k d a off b (nl_encrypt L k d a off b m)) = nl_inner L m"
    using ok by blast+
  have mac: "\<And>k d a off b m. nl_hdr L (nl_mac L k d a off b m) = nl_hdr L m"
    "\<And>k d a off b m. nl_seqn L (nl_mac L k d a off b m) = nl_seqn L m"
    "\<And>k d a off b m. nl_inner L (nl_mac L k d a off b m) = nl_inner L m"
    "\<And>k d a off b m. nl_verify L k d a off b (nl_mac L k d a off b m)"
    using ok by blast+
  note lib = make enc mac
  have w: "wrap_nas_security L plain kenc kint ciph integ c d b h = (m2, (c + 1) mod 2 ^ 32)"
    using nat_and_mask [of "c + 1" 32]
    unfolding wrap_nas_security_def Let_def m2_def m1_def m0_def off_def mask_simps by simp
  have head: "nl_hdr L m2 = h" "nl_seqn L m2 = c mod 256"
    by (simp_all add: m0_def m1_def m2_def lib split: option.splits)
  have inner: "nl_inner L m2 = nl_inner L m1" "nl_seqn L m2 = nl_seqn L m1"
    by (simp_all add: m2_def lib split: option.splits)
  have "nl_inner L (nl_decrypt L k d a off b m2) = nl_inner L (nl_decrypt L k d a off b m1)" for k a
    using ok inner by blast
  note dec = this
  have opened: "(case usable kenc of
      Some k \<Rightarrow> nl_inner L (if nl_hdr L m2 \<in> {2, 4} \<and> ciph > 0 then nl_decrypt L k d ciph off b m2 else m2)
    | None \<Rightarrow> nl_inner L m2) = plain"
  proof (cases "usable kenc")
    case None
    then show ?thesis by (simp add: inner m1_def m0_def lib)
  next
    case (Some k)
    show ?thesis
    proof (cases "ciph > 0")
      case True
      with Some assms(5) show ?thesis by (simp add: head dec) (simp add: m1_def m0_def lib)
    next
      case False
      with Some show ?thesis by (simp add: inner m1_def m0_def lib)
    qed
  qed
  have verdict: "(case usable kint of
      Some k \<Rightarrow> if integ > 0 then nl_verify L k d integ off b m2 else True | None \<Rightarrow> True)"
    by (simp add: m2_def lib split: option.splits)
  have rec: "reconcile e (nl_seqn L m2) = c"
    unfolding head using assms(2-4) by (rule reconcile_resync)
  show ?thesis
    unfolding w using opened verdict nat_and_mask [of "c + 1" 32]
    by (auto simp: unwrap_nas_security_def Let_def rec off_def [symmetric] split: option.splits if_splits)
qed


record plain_msg =
  pm_hdr :: nat
  pm_seqn :: nat
  pm_inner :: bytes

definition null_lib :: "plain_msg nas_lib" where
  "null_lib = \<lparr>nl_make = (\<lambda>h s p. \<lparr>pm_hdr = h, pm_seqn = s, pm_inner = p\<rparr>), nl_hdr = pm_hdr,
     nl_seqn = pm_seqn, nl_encrypt = (\<lambda>k d a off b m. m), nl_decrypt = (\<lambda>k d a off b m. m),
     nl_mac = (\<lambda>k d a off b m. m), nl_verify = (\<lambda>k d a off b m. True), nl_inner = pm_inner\<rparr>"


text \<open>
  A message that fails verification still moves the counter: any old sequence number is taken
  for one 256 counts ahead, the receiver continues from there although the verdict is bad, and the
  next genuine message is then opened with an offset one overflow too high.\<close>

theorem forged_moves_counter:
  assumes "e < 2 ^ 32 - 512" and "nl_seqn L m < e mod 256" and "usable kint = Some k" "0 < integ"
    and "\<forall>d a off b. \<not> nl_verify L k d a off b m"
  shows "snd (unwrap_nas_security L m kenc kint ciph integ e d b) =
           ((e div 256 + 1) * 256 + nl_seqn L m + 1, False) \<and>
         reconcile (fst (snd (unwrap_nas_security L m kenc kint ciph integ e d b))) (e mod 256) = e + 256"
proof -
  let ?s = "nl_seqn L m"
  define q r where "q = e div 256" "r = e mod 256"
  have s: "?s < r" "r < 256" using assms(2) by (simp_all add: q_r_def)
  have rec: "reconcile e ?s = (q + 1) * 256 + ?s"
    using assms(1) s by (subst reconcile_value) (simp_all add: q_r_def)
  have small: "(q + 1) * 256 + ?s + 1 < 2 ^ 32"
    using assms(1) s div_times_less_eq_dividend [of e 256] by (simp add: q_r_def)
  then have cnt: "snd (unwrap_nas_security L m kenc kint ciph integ e d b) = ((q + 1) * 256 + ?s + 1, False)"
    using assms(3-5) nat_and_mask [of "(q + 1) * 256 + ?s + 1" 32]
    by (simp add: unwrap_nas_security_def Let_def rec)
  have le: "?s + 1 \<le> r" using s by simp
  have "e + 256 = (q + 1) * 256 + r" by (simp add: q_r_def)
  moreover have "reconcile ((q + 1) * 256 + ?s + 1) ((e + 256) mod 256) = e + 256"
    using small s assms(1) \<open>e + 256 = (q + 1) * 256 + r\<close> by (intro reconcile_resync) simp_all
  ultimately show ?thesis unfolding cnt using cnt by (simp add: q_r_def)
qed

theorem forged_moves_counter_witness:
  "\<exists>m. snd (unwrap_nas_security (null_lib\<lparr>nl_verify := (\<lambda>k d a off b m. False)\<rparr>) m None (Some [byte_of 1]) 0 2 300 1 1)
       = (518, False)"
proof
  let ?L = "null_lib\<lparr>nl_verify := (\<lambda>k d a off b m. False)\<rparr>" and ?m = "\<lparr>pm_hdr = 2, pm_seqn = 5, pm_inner = []\<rparr>"
  have "nl_seqn ?L ?m = 5" by (simp add: null_lib_def)
  then show "snd (unwrap_nas_security ?L ?m None (Some [byte_of 1]) 0 2 300 1 1) = (518, False)"
    using forged_moves_counter [of 300 ?L ?m "Some [byte_of 1]" "[byte_of 1]" 2 None 0 1 1]
    by (simp add: usable_def)
qed

end
