(* ===== verification/Dispatcher.thy ===== *)
theory Dispatcher
  imports Prelude
begin

text \<open>
  The NGAP dispatcher (\<open>control/ngap/dispatcher.py\<close>) and the gNB actor around it
  (\<open>control/fsm/gnb_actor.py\<close>): classification of a decoded PDU, routing to the mailbox of an
  actor, bounded delivery that drops the oldest message, and the life cycle of the association.

  Mailboxes are shared objects: the two routing tables hold references (numbers) and the store
  \<open>d_boxes\<close> the contents, oldest first.  The decoder of the vendored ASN.1 runtime is the
  parameter \<open>decode\<close>; the information elements the code reads are typed values.  Locks, logging,
  sockets and task handles are left out; what the transport reports is an input.
\<close>

section \<open>Messages\<close>

record setup_item =
  si_psi :: "int option"
  si_nas :: "bytes option"

datatype ie_val = IeInt int | IeBytes bytes | IeSetup "setup_item list" | IeOther

type_synonym ies = "(int, ie_val) dict"

definition ie_int :: "ies \<Rightarrow> int \<Rightarrow> int option" where
  "ie_int m k = (case dict_get m k of Some (IeInt n) \<Rightarrow> Some n | _ \<Rightarrow> None)"

definition ie_bytes :: "ies \<Rightarrow> int \<Rightarrow> bytes option" where
  \<comment> \<open>\<open>bytes(x) if x else None\<close>\<close>
  "ie_bytes m k = (case dict_get m k of Some (IeBytes b) \<Rightarrow> (if b = [] then None else Some b) | _ \<Rightarrow> None)"

definition ie_setup :: "ies \<Rightarrow> int \<Rightarrow> setup_item list" where
  \<comment> \<open>\<open>ies.get(k, [])\<close>\<close>
  "ie_setup m k = (case dict_get m k of Some (IeSetup l) \<Rightarrow> l | _ \<Rightarrow> [])"

datatype ngap_msg =
    NgSetupResponse ies
  | NgSetupFailure ies
  | DownlinkNas "int option" "int option" bytes ies \<comment> \<open>AMF id, RAN id, NAS PDU\<close>
  | InitialContextSetup "int option" "int option" "bytes option" ies
  | PduSessionResourceSetup "int option" "int option" ies
  | UeContextRelease "int option" "int option" ies
  | PduSessionResourceModify "int option" "int option" ies
  | UnknownNgap string int

definition classify :: "string \<Rightarrow> int \<Rightarrow> ies \<Rightarrow> ngap_msg" where
  "classify category proc m =
     (if category = ''successfulOutcome'' \<and> proc = 21 then NgSetupResponse m
      else if category = ''unsuccessfulOutcome'' \<and> proc = 21 then NgSetupFailure m
      else if category \<noteq> ''initiatingMessage'' then UnknownNgap category proc
      else let aid = ie_int m 10; rid = ie_int m 85 in
        if proc = 4 then
          DownlinkNas aid rid (case ie_bytes m 38 of Some b \<Rightarrow> b | None \<Rightarrow> []) m
        else if proc = 14 then InitialContextSetup aid rid (ie_bytes m 38) m
        else if proc = 29 then PduSessionResourceSetup aid rid m
        else if proc = 41 then UeContextRelease aid rid m
        else if proc = 26 then PduSessionResourceModify aid rid m
        else UnknownNgap category proc)"

fun ue_ids :: "ngap_msg \<Rightarrow> (int option \<times> int option) option" where
  \<comment> \<open>AMF and RAN id of a UE-associated message\<close>
  "ue_ids (DownlinkNas a r b m) = Some (a, r)"
| "ue_ids (InitialContextSetup a r b m) = Some (a, r)"
| "ue_ids (PduSessionResourceSetup a r m) = Some (a, r)"
| "ue_ids (UeContextRelease a r m) = Some (a, r)"
| "ue_ids (PduSessionResourceModify a r m) = Some (a, r)"
| "ue_ids (NgSetupResponse m) = None"
| "ue_ids (NgSetupFailure m) = None"
| "ue_ids (UnknownNgap c p) = None"

section \<open>Dispatcher\<close>

record dispatcher =
  d_gnb :: "nat option"
  d_by_ran :: "(int, nat) dict"
  d_by_amf :: "(int, nat) dict"
  d_dispatched :: nat
  d_dropped :: nat
  d_decode_err :: nat
  d_boxes :: "nat \<Rightarrow> ngap_msg list"
  d_cap :: "nat \<Rightarrow> nat" \<comment> \<open>\<open>maxsize\<close> of each mailbox; zero is unbounded\<close>

definition new_dispatcher :: "(nat \<Rightarrow> nat) \<Rightarrow> dispatcher" where
  "new_dispatcher cap =
     \<lparr>d_gnb = None, d_by_ran = [], d_by_amf = [], d_dispatched = 0, d_dropped = 0, d_decode_err = 0,
      d_boxes = (\<lambda>_. []), d_cap = cap\<rparr>"

definition set_gnb_mailbox :: "nat \<Rightarrow> dispatcher \<Rightarrow> dispatcher" where
  "set_gnb_mailbox b d = d\<lparr>d_gnb := Some b\<rparr>"

definition register_ue :: "int \<Rightarrow> nat \<Rightarrow> dispatcher \<Rightarrow> dispatcher" where
  "register_ue rid b d = d\<lparr>d_by_ran := dict_set rid b (d_by_ran d)\<rparr>"

definition associate_amf_ue_id :: "int \<Rightarrow> int \<Rightarrow> dispatcher \<Rightarrow> dispatcher" where
  "associate_amf_ue_id rid aid d =
     (case dict_get (d_by_ran d) rid of None \<Rightarrow> d
      | Some b \<Rightarrow> d\<lparr>d_by_amf := dict_set aid b (d_by_amf d)\<rparr>)"

definition unregister_ue :: "int \<Rightarrow> int option \<Rightarrow> dispatcher \<Rightarrow> dispatcher" where
  "unregister_ue rid aid d =
     (let d = d\<lparr>d_by_ran := dict_del rid (d_by_ran d)\<rparr> in
      case aid of None \<Rightarrow> d | Some a \<Rightarrow> d\<lparr>d_by_amf := dict_del a (d_by_amf d)\<rparr>)"

definition dispatch_stats :: "dispatcher \<Rightarrow> nat \<times> nat \<times> nat" where
  "dispatch_stats d = (d_dispatched d, d_dropped d, d_decode_err d)"

definition route :: "ngap_msg \<Rightarrow> dispatcher \<Rightarrow> nat option \<times> dispatcher" where
  "route msg d =
     (case ue_ids msg of
        None \<Rightarrow> (d_gnb d, d)
      | Some (aid, rid) \<Rightarrow>
          (case (case rid of None \<Rightarrow> None | Some r \<Rightarrow> dict_get (d_by_ran d) r) of
             Some b \<Rightarrow>
               (Some b,
                case aid of None \<Rightarrow> d
                | Some a \<Rightarrow> if dict_get (d_by_amf d) a = None
                           then d\<lparr>d_by_amf := dict_set a b (d_by_amf d)\<rparr> else d)
           | None \<Rightarrow>
               (case (case aid of None \<Rightarrow> None | Some a \<Rightarrow> dict_get (d_by_amf d) a) of
                  Some b \<Rightarrow> (Some b, d)
                | None \<Rightarrow> (d_gnb d, d))))"

definition box_full :: "nat \<Rightarrow> dispatcher \<Rightarrow> bool" where
  "box_full b d \<longleftrightarrow> 0 < d_cap d b \<and> d_cap d b \<le> length (d_boxes d b)"

definition box_put :: "nat \<Rightarrow> ngap_msg \<Rightarrow> dispatcher \<Rightarrow> dispatcher" where
  "box_put b msg d = d\<lparr>d_boxes := (d_boxes d)(b := d_boxes d b @ [msg])\<rparr>"

definition deliver :: "nat \<Rightarrow> ngap_msg \<Rightarrow> dispatcher \<Rightarrow> dispatcher" where
  "deliver b msg d =
     (if \<not> box_full b d then box_put b msg d
      else let d = d\<lparr>d_boxes := (d_boxes d)(b := tl (d_boxes d b))\<rparr> in
        if \<not> box_full b d then box_put b msg d
        else d\<lparr>d_dropped := d_dropped d + 1\<rparr>)"

definition dispatch :: "(bytes \<Rightarrow> (string \<times> int \<times> ies) res) \<Rightarrow> bytes \<Rightarrow> dispatcher \<Rightarrow> dispatcher" where
  "dispatch decode data d =
     (case decode data of
        Inl e \<Rightarrow> d\<lparr>d_decode_err := d_decode_err d + 1\<rparr>
      | Inr (category, proc, m) \<Rightarrow>
          let msg = classify category proc m; (target, d) = route msg d in
          case target of
            None \<Rightarrow> d\<lparr>d_dropped := d_dropped d + 1\<rparr>
          | Some b \<Rightarrow> let d = deliver b msg d in d\<lparr>d_dispatched := d_dispatched d + 1\<rparr>)"

definition take_message :: "nat \<Rightarrow> dispatcher \<Rightarrow> ngap_msg option \<times> dispatcher" where
  \<comment> \<open>an actor takes the oldest message of its mailbox\<close>
  "take_message b d =
     (case d_boxes d b of [] \<Rightarrow> (None, d)
      | m # ms \<Rightarrow> (Some m, d\<lparr>d_boxes := (d_boxes d)(b := ms)\<rparr>))"

section \<open>gNB actor\<close>

datatype gnb_state = IDLE | NG_SETUP_SENT | READY | GNB_ERROR

record gnb =
  g_state :: gnb_state
  g_ues :: "(int, nat) dict" \<comment> \<open>RAN id to the mailbox of the attached UE\<close>
  g_counter :: int
  g_disp :: dispatcher
  g_box :: nat
  g_sent :: "bytes list"
  g_stop :: bool \<comment> \<open>the stop event, set by \<open>disconnect\<close> and never cleared\<close>
  g_runs :: nat \<comment> \<open>consumer tasks alive\<close>

definition new_gnb :: "nat \<Rightarrow> (nat \<Rightarrow> nat) \<Rightarrow> gnb" where
  "new_gnb b cap =
     \<lparr>g_state = IDLE, g_ues = [], g_counter = 0, g_disp = set_gnb_mailbox b (new_dispatcher cap),
      g_box = b, g_sent = [], g_stop = False, g_runs = 0\<rparr>"

definition gnb_connect :: "bytes \<Rightarrow> gnb \<Rightarrow> unit res \<times> gnb" where
  \<comment> \<open>up to the wait for the answer; the argument is the encoded NG Setup Request. The consumer task
     started here leaves its loop at once when the stop event is set\<close>
  "gnb_connect ng_setup g =
     (if g_state g \<notin> {IDLE, GNB_ERROR} then (Inl (RuntimeError ''gNB already in state''), g)
      else (Inr (), g\<lparr>g_state := NG_SETUP_SENT, g_sent := g_sent g @ [ng_setup],
                      g_runs := (if g_stop g then g_runs g else g_runs g + 1)\<rparr>))"

definition gnb_setup_timeout :: "gnb \<Rightarrow> unit res \<times> gnb" where
  \<comment> \<open>the wait of \<open>connect\<close> runs out\<close>
  "gnb_setup_timeout g = (Inl (Raised ''ConnectionError'' ''NG Setup timed out''), g\<lparr>g_state := GNB_ERROR\<rparr>)"

definition alloc_ran_ue_id :: "gnb \<Rightarrow> int \<times> gnb" where
  "alloc_ran_ue_id g = (g_counter g + 1, g\<lparr>g_counter := g_counter g + 1\<rparr>)"

definition attach_ue :: "int \<Rightarrow> nat \<Rightarrow> gnb \<Rightarrow> gnb" where
  "attach_ue rid b g =
     g\<lparr>g_ues := dict_set rid b (g_ues g), g_disp := register_ue rid b (g_disp g)\<rparr>"

definition detach_ue :: "int \<Rightarrow> int option \<Rightarrow> gnb \<Rightarrow> gnb" where
  "detach_ue rid aid g =
     g\<lparr>g_ues := dict_del rid (g_ues g), g_disp := unregister_ue rid aid (g_disp g)\<rparr>"

definition send_ngap :: "bytes \<Rightarrow> gnb \<Rightarrow> gnb" where
  "send_ngap data g = g\<lparr>g_sent := g_sent g @ [data]\<rparr>"

fun gnb_handle :: "ngap_msg \<Rightarrow> gnb \<Rightarrow> gnb" where
  "gnb_handle (NgSetupResponse m) g = g\<lparr>g_state := READY\<rparr>"
| "gnb_handle (NgSetupFailure m) g = g\<lparr>g_state := GNB_ERROR\<rparr>"
| "gnb_handle msg g = g"

definition gnb_consume :: "gnb \<Rightarrow> gnb" where
  \<comment> \<open>a consumer takes one message, and ends after it when the stop event is set\<close>
  "gnb_consume g =
     (if g_runs g = 0 then g
      else case take_message (g_box g) (g_disp g) of
        (None, d) \<Rightarrow> g
      | (Some msg, d) \<Rightarrow>
          gnb_handle msg (g\<lparr>g_disp := d, g_runs := (if g_stop g then g_runs g - 1 else g_runs g)\<rparr>))"

definition gnb_disconnect :: "gnb \<Rightarrow> gnb" where
  \<comment> \<open>the consumer waited for still handles the oldest message, if there is one, and ends\<close>
  "gnb_disconnect g =
     (let g' = g\<lparr>g_stop := True, g_state := IDLE\<rparr> in
      if d_boxes (g_disp g) (g_box g) = [] then g'\<lparr>g_runs := g_runs g - 1\<rparr> else gnb_consume g')"

fun gnb_wait_state :: "gnb_state \<Rightarrow> gnb_state list \<Rightarrow> bool res option" where
  \<comment> \<open>\<open>_wait_state\<close> over the states it sees at each wake-up; \<open>None\<close> while it still waits\<close>
  "gnb_wait_state target [] = None"
| "gnb_wait_state target (s # ss) =
     (if s = target then Some (Inr True)
      else if s = GNB_ERROR then Some (Inl (Raised ''ConnectionError'' ''gNB entered ERROR state''))
      else gnb_wait_state target ss)"

section \<open>Accounting and bounded mailboxes\<close>

datatype disp_op =
    Register int nat
  | Associate int int
  | Unregister int "int option"
  | Dispatch bytes
  | Take nat

fun disp_step :: "(bytes \<Rightarrow> (string \<times> int \<times> ies) res) \<Rightarrow> dispatcher \<Rightarrow> disp_op \<Rightarrow> dispatcher" where
  "disp_step dec d (Register r b) = register_ue r b d"
| "disp_step dec d (Associate r a) = associate_amf_ue_id r a d"
| "disp_step dec d (Unregister r a) = unregister_ue r a d"
| "disp_step dec d (Dispatch data) = dispatch dec data d"
| "disp_step dec d (Take b) = snd (take_message b d)"

definition disp_inv :: "dispatcher \<Rightarrow> bool" where
  "disp_inv d \<longleftrightarrow> (\<forall>b. d_cap d b = 0 \<or> length (d_boxes d b) \<le> d_cap d b)"

lemma route_frame:
  "route msg d = (t, d') \<Longrightarrow>
   d_boxes d' = d_boxes d \<and> d_cap d' = d_cap d \<and> d_gnb d' = d_gnb d \<and> d_by_ran d' = d_by_ran d \<and>
   d_dispatched d' = d_dispatched d \<and> d_dropped d' = d_dropped d \<and> d_decode_err d' = d_decode_err d"
  by (auto simp: route_def split: option.splits if_splits)

lemma route_target: "d_gnb d = Some g \<Longrightarrow> fst (route msg d) \<noteq> None"
  by (auto simp: route_def split: option.splits)

lemma deliver_within:
  assumes "disp_inv d"
  shows "disp_inv (deliver b msg d) \<and>
         deliver b msg d = d\<lparr>d_boxes := (d_boxes d)(b := (if box_full b d then tl (d_boxes d b) else d_boxes d b) @ [msg])\<rparr>"
proof (cases "box_full b d")
  case False
  with assms show ?thesis
    by (auto simp: deliver_def box_put_def disp_inv_def box_full_def not_le)
next
  case True
  then have cap: "length (d_boxes d b) = d_cap d b" "0 < d_cap d b"
    using assms by (auto simp: disp_inv_def box_full_def le_antisym) (metis le_antisym less_numeral_extra(3))
  have "\<not> box_full b (d\<lparr>d_boxes := (d_boxes d)(b := tl (d_boxes d b))\<rparr>)"
    using cap by (simp add: box_full_def)
  with True cap assms show ?thesis
    by (auto simp: deliver_def box_put_def disp_inv_def Let_def)
qed

lemma disp_inv_counters [simp]:
  "disp_inv (d\<lparr>d_dispatched := n\<rparr>) = disp_inv d" "disp_inv (d\<lparr>d_dropped := n\<rparr>) = disp_inv d"
  "disp_inv (d\<lparr>d_decode_err := n\<rparr>) = disp_inv d"
  by (simp_all add: disp_inv_def)

lemma dispatch_inv: "disp_inv d \<Longrightarrow> disp_inv (dispatch dec data d)"
proof -
  assume inv: "disp_inv d"
  show ?thesis
  proof (cases "dec data")
    case (Inl e)
    with inv show ?thesis by (simp add: dispatch_def)
  next
    case (Inr x)
    obtain c p m where x: "x = (c, p, m)" by (cases x) auto
    obtain t d' where r: "route (classify c p m) d = (t, d')" by fastforce
    then have "disp_inv d'" using inv route_frame [OF r] by (simp add: disp_inv_def)
    then have "disp_inv (deliver b msg d')" for b msg using deliver_within by blast
    with \<open>disp_inv d'\<close> show ?thesis
      by (cases t) (simp_all add: dispatch_def Inr x r Let_def)
  qed
qed

lemma disp_step_inv: "disp_inv d \<Longrightarrow> disp_inv (disp_step dec d op)"
proof (cases op)
  case (Dispatch data)
  then show "disp_inv d \<Longrightarrow> ?thesis" by (simp add: dispatch_inv)
next
  case (Take b)
  assume "disp_inv d"
  then show ?thesis using Take
    by (auto simp: take_message_def disp_inv_def split: list.split)
qed (auto simp: disp_inv_def register_ue_def associate_amf_ue_id_def unregister_ue_def Let_def
    split: option.split)

interpretation disp: step_system "disp_step dec" disp_inv for dec
  by unfold_locales (rule disp_step_inv)

fun is_dispatch :: "disp_op \<Rightarrow> bool" where
  "is_dispatch (Dispatch data) = True"
| "is_dispatch op = False"

definition total :: "dispatcher \<Rightarrow> nat" where
  "total d = d_dispatched d + d_dropped d + d_decode_err d"

lemma dispatch_counts:
  assumes "disp_inv d"
  shows "total (dispatch dec data d) = Suc (total d) \<and> d_gnb (dispatch dec data d) = d_gnb d \<and>
         (d_gnb d \<noteq> None \<longrightarrow> d_dropped (dispatch dec data d) = d_dropped d)"
proof (cases "dec data")
  case (Inl e)
  then show ?thesis by (simp add: dispatch_def total_def)
next
  case (Inr x)
  obtain c p m where x: "x = (c, p, m)" by (cases x) auto
  obtain t d' where r: "route (classify c p m) d = (t, d')" by fastforce
  note fr = route_frame [OF r]
  have "disp_inv d'" using assms fr by (simp add: disp_inv_def)
  note del = deliver_within [OF this, THEN conjunct2]
  show ?thesis
  proof (cases t)
    case None
    then have "d_gnb d = None" using route_target [of d _ "classify c p m"] r by (cases "d_gnb d") auto
    with None show ?thesis using fr by (simp add: dispatch_def Inr x r total_def)
  next
    case (Some b)
    then show ?thesis
      using fr by (simp add: dispatch_def Inr x r Let_def total_def del)
  qed
qed

lemma step_counts:
  assumes "disp_inv d" "d_gnb d = Some g"
  shows "total (disp_step dec d op) = total d + (if is_dispatch op then 1 else 0) \<and>
         d_gnb (disp_step dec d op) = Some g \<and> d_dropped (disp_step dec d op) = d_dropped d"
proof (cases op)
  case (Dispatch data)
  with dispatch_counts [OF assms(1), of dec data] assms(2) show ?thesis by simp
qed (use assms(2) in \<open>auto simp: total_def register_ue_def associate_amf_ue_id_def unregister_ue_def
    take_message_def Let_def split: option.split list.split\<close>)

lemma run_counts:
  assumes "disp_inv d" "d_gnb d = Some g"
  shows "total (foldl (disp_step dec) d ops) = total d + length (filter is_dispatch ops) \<and>
         d_gnb (foldl (disp_step dec) d ops) = Some g \<and>
         d_dropped (foldl (disp_step dec) d ops) = d_dropped d"
  using assms
proof (induction ops arbitrary: d)
  case Nil
  then show ?case by simp
next
  case (Cons op ops)
  note s = step_counts [OF Cons.prems, of dec op]
  from Cons.IH [OF disp_step_inv [OF Cons.prems(1)]] s show ?case by auto
qed

definition started :: "nat \<Rightarrow> (nat \<Rightarrow> nat) \<Rightarrow> dispatcher" where
  "started g cap = set_gnb_mailbox g (new_dispatcher cap)"

lemma started_inv: "disp_inv (started g cap)" "d_gnb (started g cap) = Some g" "total (started g cap) = 0"
    "d_dropped (started g cap) = 0" "d_cap (started g cap) = cap"
  by (simp_all add: started_def set_gnb_mailbox_def new_dispatcher_def disp_inv_def total_def)

lemma step_cap: "d_cap (disp_step dec d op) = d_cap d"
proof (cases op)
  case (Dispatch data)
  have "d_cap (deliver b msg d') = d_cap d'" for b msg d'
    by (simp add: deliver_def box_put_def Let_def)
  then show ?thesis
    using Dispatch route_frame [of _ d]
    by (auto simp: dispatch_def Let_def split: sum.split prod.split option.split)
qed (auto simp: register_ue_def associate_amf_ue_id_def unregister_ue_def take_message_def Let_def
    split: option.split list.split)

lemma run_cap: "d_cap (foldl (disp_step dec) d ops) = d_cap d"
  by (induction ops arbitrary: d) (simp_all add: step_cap)


section \<open>Routing\<close>

fun rebinds :: "int \<Rightarrow> disp_op \<Rightarrow> bool" where
  "rebinds r (Register r' b) = (r' = r)"
| "rebinds r (Unregister r' a) = (r' = r)"
| "rebinds r op = False"

lemma dispatch_by_ran: "d_by_ran (dispatch dec data d) = d_by_ran d"
proof -
  have "d_by_ran (deliver b msg d') = d_by_ran d'" for b msg d'
    by (simp add: deliver_def box_put_def Let_def)
  then show ?thesis
    using route_frame [of _ d]
    by (auto simp: dispatch_def Let_def split: sum.split prod.split option.split)
qed

lemma step_by_ran: "\<not> rebinds r op \<Longrightarrow> dict_get (d_by_ran (disp_step dec d op)) r = dict_get (d_by_ran d) r"
  by (cases op) (auto simp: dispatch_by_ran register_ue_def associate_amf_ue_id_def unregister_ue_def
      take_message_def Let_def split: option.split list.split)

lemma run_by_ran:
  "list_all (\<lambda>op. \<not> rebinds r op) ops \<Longrightarrow>
   dict_get (d_by_ran (foldl (disp_step dec) d ops)) r = dict_get (d_by_ran d) r"
  by (induction ops arbitrary: d) (auto simp: step_by_ran)

lemma route_owner:
  assumes "ue_ids msg = Some (a, Some r)" "dict_get (d_by_ran d) r = Some b"
  shows "\<exists>d'. route msg d = (Some b, d') \<and> d_boxes d' = d_boxes d \<and> d_cap d' = d_cap d \<and>
     (\<forall>x. a = Some x \<longrightarrow> dict_get (d_by_amf d') x =
        Some (case dict_get (d_by_amf d) x of None \<Rightarrow> b | Some o' \<Rightarrow> o'))"
  using assms by (auto simp: route_def split: option.split)



text \<open>
  Removing a UE leaves routes behind: the removal knows one AMF id, but every new AMF id seen
  with the RAN id was bound, so a message naming a second one still goes to the mailbox of the
  removed UE instead of the gNB.\<close>

theorem stale_amf_route:
  "let dec = (\<lambda>data. Inr (''initiatingMessage'', 4,
                [(10, IeInt (if data = [] then 10 else 11)), (85, IeInt 1)]));
       d = dispatch dec [0] (dispatch dec [] (register_ue 1 7 (started 0 cap)));
       d' = unregister_ue 1 (Some 10) d
   in dict_get (d_by_ran d') 1 = None \<and> fst (route (UeContextRelease (Some 11) None []) d') = Some 7"
  by (simp add: started_def set_gnb_mailbox_def new_dispatcher_def register_ue_def dispatch_def classify_def
      ie_int_def route_def unregister_ue_def deliver_def box_put_def box_full_def Let_def dict_set_def)

section \<open>The gNB keeps its tables together\<close>

datatype gnb_op =
    Connect bytes
  | SetupTimeout
  | Disconnect
  | Attach nat \<comment> \<open>a new UE with this mailbox, under a freshly allocated RAN id\<close>
  | Detach int "int option"
  | Deliver bytes
  | Consume

fun gnb_step :: "(bytes \<Rightarrow> (string \<times> int \<times> ies) res) \<Rightarrow> gnb \<Rightarrow> gnb_op \<Rightarrow> gnb" where
  "gnb_step dec g (Connect pdu) = snd (gnb_connect pdu g)"
| "gnb_step dec g SetupTimeout = snd (gnb_setup_timeout g)"
| "gnb_step dec g Disconnect = gnb_disconnect g"
| "gnb_step dec g (Attach b) = (let (r, g) = alloc_ran_ue_id g in attach_ue r b g)"
| "gnb_step dec g (Detach r a) = detach_ue r a g"
| "gnb_step dec g (Deliver data) = g\<lparr>g_disp := dispatch dec data (g_disp g)\<rparr>"
| "gnb_step dec g Consume = gnb_consume g"

definition gnb_inv :: "gnb \<Rightarrow> bool" where
  "gnb_inv g \<longleftrightarrow> dict_get (g_ues g) = dict_get (d_by_ran (g_disp g)) \<and> dict_ok (g_ues g) \<and> 0 \<le> g_counter g \<and>
     (\<forall>r \<in> fst ` set (g_ues g). 1 \<le> r \<and> r \<le> g_counter g)"

lemma gnb_handle_frame:
  "g_ues (gnb_handle msg g) = g_ues g \<and> g_disp (gnb_handle msg g) = g_disp g \<and>
   g_counter (gnb_handle msg g) = g_counter g"
  by (cases msg) auto

lemma take_by_ran: "take_message b d = (m, d') \<Longrightarrow> d_by_ran d' = d_by_ran d"
  by (auto simp: take_message_def split: list.splits)

lemma consume_inv: "gnb_inv g \<Longrightarrow> gnb_inv (gnb_consume g)"
  using take_by_ran [of "g_box g" "g_disp g"]
  by (auto simp: gnb_consume_def gnb_inv_def gnb_handle_frame split: prod.split option.split)

lemma gnb_step_inv: "gnb_inv g \<Longrightarrow> gnb_inv (gnb_step dec g op)"
proof (cases op)
  case (Attach b)
  assume "gnb_inv g"
  then show ?thesis
    unfolding gnb_inv_def Attach
    by (auto simp: alloc_ran_ue_id_def attach_ue_def register_ue_def dest!: dict_set_mem)
next
  case (Detach r a)
  assume "gnb_inv g"
  then show ?thesis
    by (auto simp: gnb_inv_def Detach detach_ue_def unregister_ue_def Let_def split: option.split)
next
  case Disconnect
  assume "gnb_inv g"
  then have "gnb_inv (g\<lparr>g_stop := True, g_state := IDLE\<rparr>)" by (simp add: gnb_inv_def)
  from consume_inv [OF this] \<open>gnb_inv g\<close> show ?thesis
    by (simp add: Disconnect gnb_disconnect_def Let_def) (simp add: gnb_inv_def)
next
  case Consume
  assume "gnb_inv g"
  then show ?thesis by (simp add: Consume consume_inv)
qed (auto simp: gnb_inv_def gnb_connect_def gnb_setup_timeout_def dispatch_by_ran)

interpretation gnb: step_system "gnb_step dec" gnb_inv for dec
  by unfold_locales (rule gnb_step_inv)

text \<open>
  The table of attached UEs and the dispatcher's routing table agree after any sequence of
  connections, attachments, removals and deliveries, and a newly attached UE gets a RAN id that no
  attached UE has, so it takes over nobody's messages.\<close>

theorem gnb_tables_agree:
  "let g = foldl (gnb_step dec) (new_gnb b cap) ops in
     dict_get (g_ues g) = dict_get (d_by_ran (g_disp g)) \<and>
     dict_get (g_ues g) (fst (alloc_ran_ue_id g)) = None \<and>
     dict_get (d_by_ran (g_disp (gnb_step dec g (Attach u)))) =
       (dict_get (d_by_ran (g_disp g)))(fst (alloc_ran_ue_id g) \<mapsto> u)"
proof -
  define g where "g = foldl (gnb_step dec) (new_gnb b cap) ops"
  have "gnb_inv g" unfolding g_def
    by (rule gnb.run_inv) (simp add: gnb_inv_def new_gnb_def set_gnb_mailbox_def new_dispatcher_def)
  then have eq: "dict_get (g_ues g) = dict_get (d_by_ran (g_disp g))"
    and new: "g_counter g + 1 \<notin> fst ` set (g_ues g)" by (auto simp: gnb_inv_def)
  have "dict_get (g_ues g) (g_counter g + 1) = None"
    using new by (simp only: map_of_eq_None_iff not_False_eq_True)
  then show ?thesis
    unfolding g_def [symmetric] Let_def
    by (simp add: alloc_ran_ue_id_def attach_ue_def register_ue_def eq)
qed

section \<open>A closed association stays closed\<close>

definition closed :: "gnb \<Rightarrow> bool" where
  "closed g \<longleftrightarrow> g_stop g \<and> g_runs g = 0 \<and> g_state g \<noteq> READY"

lemma closed_step: "closed g \<Longrightarrow> closed (gnb_step dec g op)"
  by (cases op) (auto simp: closed_def gnb_connect_def gnb_setup_timeout_def gnb_disconnect_def gnb_consume_def
      alloc_ran_ue_id_def attach_ue_def detach_ue_def Let_def)

interpretation closed: step_system "gnb_step dec" closed for dec
  by unfold_locales (rule closed_step)

text \<open>
  A gNB actor cannot be connected twice: the connect call admits an idle actor and sends the NG
  Setup Request again, but the stop event set by the disconnection is never cleared, so nobody reads
  the mailbox; whatever the network answers, the actor is never ready again and the wait of the
  connect call never ends with success.\<close>

theorem reconnect_never_ready:
  assumes "g_runs g = 1" and "d_boxes (g_disp g) (g_box g) = []"
  shows "fst (gnb_connect pdu (gnb_disconnect g)) = Inr () \<and>
         (\<forall>ops. g_state (foldl (gnb_step dec) (gnb_disconnect g) (Connect pdu # ops)) \<noteq> READY)"
proof -
  have "closed (gnb_disconnect g)"
    using assms by (simp add: closed_def gnb_disconnect_def Let_def)
  then have "closed (foldl (gnb_step dec) (gnb_disconnect g) (Connect pdu # ops))" for ops
    by (rule closed.run_inv)
  moreover have "fst (gnb_connect pdu (gnb_disconnect g)) = Inr ()"
    using assms by (simp add: gnb_connect_def gnb_disconnect_def Let_def)
  ultimately show ?thesis by (auto simp: closed_def)
qed

theorem reconnect_never_ready_witness:
  "let g = snd (gnb_connect [] (new_gnb 0 (\<lambda>_. 256)));
       g' = foldl (gnb_step (\<lambda>data. Inr (''successfulOutcome'', 21, []))) g [Deliver [], Consume]
   in g_state g' = READY \<and>
      g_state (foldl (gnb_step (\<lambda>data. Inr (''successfulOutcome'', 21, []))) g'
                 [Disconnect, Connect [], Deliver [], Consume]) \<noteq> READY"
proof -
  let ?dec = "\<lambda>data :: bytes. Inr (''successfulOutcome'', 21, []) :: (string \<times> int \<times> ies) res"
  define g' where "g' = foldl (gnb_step ?dec) (snd (gnb_connect [] (new_gnb 0 (\<lambda>_. 256)))) [Deliver [], Consume]"
  have g': "g_runs g' = 1" "d_boxes (g_disp g') (g_box g') = []" "g_state g' = READY"
    by (simp_all add: g'_def gnb_connect_def new_gnb_def set_gnb_mailbox_def new_dispatcher_def dispatch_def
        classify_def route_def deliver_def box_full_def box_put_def gnb_consume_def take_message_def Let_def)
  from reconnect_never_ready [OF g'(1,2), of "[]" ?dec, THEN conjunct2, rule_format, of "[Deliver [], Consume]"] g'(3)
  show ?thesis unfolding Let_def g'_def [symmetric] by simp
qed

end
