(* ===== verification/UeActor.thy ===== *)
theory UeActor
  imports Aka Dispatcher
begin

text \<open>
  The UE actor (\<open>control/fsm/ue_actor.py\<close>): the registration state machine that consumes the
  messages of the dispatcher, runs the authentication of \<open>Aka\<close> and answers with NGAP messages.

  A handler is a function from the actor to a result and the actor after it, so that what was done
  before an exception is kept, as in the code; \<open>ue_out\<close> collects the messages handed to the gNB,
  oldest first.  The record \<open>env\<close> holds what lies outside: the parser and the builders of NAS
  messages (vendored codec), the NAS security library and the primitives of \<open>SaCrypto\<close>.  Mailbox
  loops, timeouts and logging are left out; sending never fails.
\<close>

section \<open>State\<close>

datatype ue_phase =
    DEREGISTERED | REG_INITIATED | AUTH_PENDING | SEC_MODE_PENDING | REGISTERED | DEREGISTERING | UE_ERROR

datatype ue_nas = \<comment> \<open>the calls of the NAS message builder\<close>
    RegistrationRequest
  | AuthenticationFailure int "bytes option"
  | AuthenticationResponse bytes
  | SecurityModeComplete "bytes option"
  | RegistrationComplete

datatype ngap_out = \<comment> \<open>the calls of the NGAP message builder, each sent to the gNB\<close>
    InitialUeMessage int bytes
  | UplinkNasTransport int int bytes
  | InitialContextSetupResponse int int
  | PduSessionResourceSetupResponse int int int int

record nas_view = \<comment> \<open>what the handlers read of a parsed message; \<open>None\<close> where reading raises\<close>
  nv_type :: "int option"
  nv_rand_autn :: "(bytes \<times> bytes) option"
  nv_algo :: "bytes option"

datatype 'm parsed = Plain nas_view | Secured 'm

record 'm env =
  en_lib :: "'m nas_lib"
  en_bytes :: "'m \<Rightarrow> bytes"
  en_parse :: "bytes \<Rightarrow> 'm parsed option" \<comment> \<open>\<open>None\<close> where the parser reports an error\<close>
  en_inner :: "bytes \<Rightarrow> nas_view"
  en_build :: "ue_nas \<Rightarrow> bytes"
  en_aes :: "bytes \<Rightarrow> bytes \<Rightarrow> bytes"
  en_hmac :: mac_fun

record sec_ctx =
  sc_kamf :: "bytes option"
  sc_kseaf :: "bytes option"
  sc_enc :: "bytes option"
  sc_int :: "bytes option"
  sc_kgnb :: "bytes option"
  sc_eea :: nat
  sc_eia :: nat
  sc_ul :: nat
  sc_dl :: nat

record ue =
  ue_sim :: sim
  ue_ran :: int
  ue_amf :: "int option"
  ue_phase :: ue_phase
  ue_error :: "py_error option"
  ue_ctx :: sec_ctx
  ue_reg_request :: "bytes option"
  ue_teids :: int \<comment> \<open>the tunnel counter of the gNB\<close>
  ue_out :: "ngap_out list"

definition new_ctx :: sec_ctx where
  "new_ctx = \<lparr>sc_kamf = None, sc_kseaf = None, sc_enc = None, sc_int = None, sc_kgnb = None,
              sc_eea = 0, sc_eia = 0, sc_ul = 0, sc_dl = 0\<rparr>"

definition new_ue :: "sim \<Rightarrow> int \<Rightarrow> int \<Rightarrow> ue" where
  "new_ue s rid teids =
     \<lparr>ue_sim = s, ue_ran = rid, ue_amf = None, ue_phase = DEREGISTERED, ue_error = None, ue_ctx = new_ctx,
      ue_reg_request = None, ue_teids = teids, ue_out = []\<rparr>"

definition ue_mcc :: "ue \<Rightarrow> string" where "ue_mcc u = slice 0 3 (sim_imsi (ue_sim u))"
definition ue_mnc :: "ue \<Rightarrow> string" where "ue_mnc u = slice 3 5 (sim_imsi (ue_sim u))"

type_synonym act = "ue \<Rightarrow> unit res \<times> ue"

definition ok :: act where "ok u = (Inr (), u)"

definition andthen :: "act \<Rightarrow> act \<Rightarrow> act" where
  \<comment> \<open>statement sequence: an exception skips the rest, its effects so far stay\<close>
  "andthen f g u = (case f u of (Inl e, u') \<Rightarrow> (Inl e, u') | (Inr x, u') \<Rightarrow> g u')"

definition set_phase :: "ue_phase \<Rightarrow> act" where
  "set_phase p u = (Inr (), u\<lparr>ue_phase := p\<rparr>)"

section \<open>Sending\<close>

definition amf_or_0 :: "ue \<Rightarrow> int" where
  "amf_or_0 u = (case ue_amf u of None \<Rightarrow> 0 | Some a \<Rightarrow> a)"

definition send_out :: "ngap_out \<Rightarrow> act" where
  "send_out m u = (Inr (), u\<lparr>ue_out := ue_out u @ [m]\<rparr>)"

definition send_plain :: "bytes \<Rightarrow> act" where
  "send_plain nas u = send_out (UplinkNasTransport (amf_or_0 u) (ue_ran u) nas) u"

definition send_secured :: "'m env \<Rightarrow> bytes \<Rightarrow> nat \<Rightarrow> act" where
  "send_secured E plain sec_hdr u =
     (let c = ue_ctx u;
          (m, n) = wrap_nas_security (en_lib E) plain (sc_enc c) (sc_int c) (sc_eea c) (sc_eia c)
                     (sc_ul c) 0 1 sec_hdr
      in send_plain (en_bytes E m) (u\<lparr>ue_ctx := c\<lparr>sc_ul := n\<rparr>\<rparr>))"

section \<open>NAS handlers\<close>

definition handle_auth_request :: "'m env \<Rightarrow> nas_view \<Rightarrow> act" where
  "handle_auth_request E v u0 =
     (let u = u0\<lparr>ue_phase := AUTH_PENDING\<rparr> in
      case nv_rand_autn v of
        None \<Rightarrow> (Inr (), u)
      | Some (rnd, autn) \<Rightarrow>
          (case ue_authenticate (en_aes E) (en_hmac E) (ue_sim u) rnd autn (get_snn (ue_mcc u) (ue_mnc u)) of
             Inl e \<Rightarrow> (Inl e, u)
           | Inr NoAuth \<Rightarrow> send_plain (en_build E (AuthenticationFailure 20 None)) u
           | Inr (SyncFailure auts) \<Rightarrow> send_plain (en_build E (AuthenticationFailure 21 (Some auts))) u
           | Inr (AuthOk rs kausf kseaf ck ik) \<Rightarrow>
               let u = u\<lparr>ue_ctx := (ue_ctx u)\<lparr>sc_kseaf := Some kseaf\<rparr>\<rparr> in
               (case derive_kamf (en_hmac E) kseaf (sim_imsi (ue_sim u)) of
                  Inl e \<Rightarrow> (Inl e, u)
                | Inr kamf \<Rightarrow>
                    send_plain (en_build E (AuthenticationResponse rs))
                      (u\<lparr>ue_ctx := (ue_ctx u)\<lparr>sc_kamf := Some kamf\<rparr>\<rparr>))))"

definition derive_from :: "bytes option \<Rightarrow> (bytes \<Rightarrow> 'a res) \<Rightarrow> 'a res" where
  \<comment> \<open>a derivation from a key that may still be \<open>None\<close>, whose length cannot be taken\<close>
  "derive_from k f = (case k of None \<Rightarrow> Inl TypeError | Some b \<Rightarrow> f b)"

definition handle_sec_mode_command :: "'m env \<Rightarrow> nas_view \<Rightarrow> act" where
  "handle_sec_mode_command E v u0 =
     (let u = u0\<lparr>ue_phase := SEC_MODE_PENDING\<rparr> in
      case nv_algo v of
        None \<Rightarrow> (Inr (), u)
      | Some algo \<Rightarrow>
          (case idx algo 0 of
             Inl e \<Rightarrow> (Inl e, u)
           | Inr b \<Rightarrow>
               let eea = drop_bit 4 (unat b) AND 0x0F; eia = unat b AND 0x0F;
                   u = u\<lparr>ue_ctx := (ue_ctx u)\<lparr>sc_eea := eea, sc_eia := eia\<rparr>\<rparr> in
               (case derive_from (sc_kamf (ue_ctx u)) (\<lambda>k. derive_nas_keys (en_hmac E) k (int eea) (int eia)) of
                  Inl e \<Rightarrow> (Inl e, u)
                | Inr (kenc, kint) \<Rightarrow>
                    andthen
                      (send_secured E (en_build E (SecurityModeComplete (ue_reg_request u))) 4)
                      (\<lambda>u. case derive_from (sc_kamf (ue_ctx u))
                              (\<lambda>k. derive_kgnb (en_hmac E) k ((int (sc_ul (ue_ctx u)) - 1) AND 0xFFFFFFFF)) of
                           Inl e \<Rightarrow> (Inl e, u)
                         | Inr kgnb \<Rightarrow> (Inr (), u\<lparr>ue_ctx := (ue_ctx u)\<lparr>sc_kgnb := Some kgnb\<rparr>\<rparr>))
                      (u\<lparr>ue_ctx := (ue_ctx u)\<lparr>sc_enc := Some kenc, sc_int := Some kint,
                                              sc_ul := 0, sc_dl := 0\<rparr>\<rparr>))))"

definition handle_registration_accept :: "'m env \<Rightarrow> act" where
  "handle_registration_accept E =
     andthen (send_secured E (en_build E RegistrationComplete) 2) (set_phase REGISTERED)"

definition on_nas :: "'m env \<Rightarrow> nas_view \<Rightarrow> act" where
  \<comment> \<open>the dispatch on the message type\<close>
  "on_nas E v =
     (case nv_type v of
        None \<Rightarrow> ok
      | Some t \<Rightarrow>
          if t = 0x56 then handle_auth_request E v
          else if t = 0x5D then handle_sec_mode_command E v
          else if t = 0x42 then handle_registration_accept E
          else if t = 0x44 then set_phase DEREGISTERED
          else ok)"

definition process_nas :: "'m env \<Rightarrow> bytes \<Rightarrow> act" where
  "process_nas E nas u =
     (if nas = [] then (Inr (), u)
      else case en_parse E nas of
        None \<Rightarrow> (Inr (), u)
      | Some (Plain v) \<Rightarrow> on_nas E v u
      | Some (Secured m) \<Rightarrow>
          let c = ue_ctx u;
              (inner, dl, mac_ok) = unwrap_nas_security (en_lib E) m (sc_enc c) (sc_int c) (sc_eea c) (sc_eia c)
                                      (sc_dl c) 1 1
          in on_nas E (en_inner E inner) (u\<lparr>ue_ctx := c\<lparr>sc_dl := dl\<rparr>\<rparr>))"

section \<open>NGAP handlers\<close>

definition learn_amf :: "int option \<Rightarrow> ue \<Rightarrow> ue" where
  "learn_amf a u = (if ue_amf u = None \<and> a \<noteq> None then u\<lparr>ue_amf := a\<rparr> else u)"

fun setup_items :: "'m env \<Rightarrow> setup_item list \<Rightarrow> act" where
  "setup_items E [] = ok"
| "setup_items E (i # is) =
     andthen
       (\<lambda>u. let u = u\<lparr>ue_teids := ue_teids u + 1\<rparr> in
            send_out (PduSessionResourceSetupResponse (amf_or_0 u) (ue_ran u)
              (case si_psi i of None \<Rightarrow> 1 | Some p \<Rightarrow> p) (ue_teids u)) u)
       (andthen (case si_nas i of None \<Rightarrow> ok | Some nas \<Rightarrow> process_nas E nas) (setup_items E is))"

fun ue_handle :: "'m env \<Rightarrow> ngap_msg \<Rightarrow> act" where
  "ue_handle E (DownlinkNas a r nas m) = (\<lambda>u. process_nas E nas (learn_amf a u))"
| "ue_handle E (InitialContextSetup a r nas m) = (\<lambda>u.
     andthen (\<lambda>u. send_out (InitialContextSetupResponse (amf_or_0 u) (ue_ran u)) u)
       (case nas of None \<Rightarrow> ok | Some n \<Rightarrow> process_nas E n) (learn_amf a u))"
| "ue_handle E (PduSessionResourceSetup a r m) = (\<lambda>u. setup_items E (ie_setup m 74) (learn_amf a u))"
| "ue_handle E (UeContextRelease a r m) = set_phase DEREGISTERED"
| "ue_handle E msg = ok"

definition ue_receive :: "'m env \<Rightarrow> ue \<Rightarrow> ngap_msg \<Rightarrow> ue" where
  \<comment> \<open>one turn of \<open>_run\<close>: an exception is recorded and puts the actor into its error state\<close>
  "ue_receive E u msg =
     (case ue_handle E msg u of
        (Inr x, u') \<Rightarrow> u'
      | (Inl e, u') \<Rightarrow> u'\<lparr>ue_error := Some e, ue_phase := UE_ERROR\<rparr>)"

definition ue_register :: "'m env \<Rightarrow> ue \<Rightarrow> ue" where
  "ue_register E u0 =
     (let nas = en_build E RegistrationRequest
      in u0\<lparr>ue_phase := REG_INITIATED, ue_reg_request := Some nas,
            ue_out := ue_out u0 @ [InitialUeMessage (ue_ran u0) nas]\<rparr>)"

section \<open>Frame and key invariant\<close>

fun out_ids :: "ngap_out \<Rightarrow> int \<times> int" where
  \<comment> \<open>the AMF and RAN id an outgoing message carries\<close>
  "out_ids (InitialUeMessage r n) = (0, r)"
| "out_ids (UplinkNasTransport a r n) = (a, r)"
| "out_ids (InitialContextSetupResponse a r) = (a, r)"
| "out_ids (PduSessionResourceSetupResponse a r p t) = (a, r)"

definition keys_ok :: "sec_ctx \<Rightarrow> bool" where
  \<comment> \<open>a derived key implies the key it was derived from\<close>
  "keys_ok c \<longleftrightarrow> (sc_kamf c \<noteq> None \<longrightarrow> sc_kseaf c \<noteq> None) \<and> (sc_int c \<noteq> None \<longleftrightarrow> sc_enc c \<noteq> None) \<and>
     (sc_int c \<noteq> None \<longrightarrow> sc_kamf c \<noteq> None) \<and> (sc_kgnb c \<noteq> None \<longrightarrow> sc_int c \<noteq> None)"

definition extends :: "ue \<Rightarrow> ue \<Rightarrow> bool" where
  \<comment> \<open>what a handler may do after the AMF id has been learned\<close>
  "extends u u' \<longleftrightarrow> ue_sim u' = ue_sim u \<and> ue_ran u' = ue_ran u \<and> ue_amf u' = ue_amf u \<and>
     (\<exists>new. ue_out u' = ue_out u @ new \<and> (\<forall>m \<in> set new. out_ids m = (amf_or_0 u, ue_ran u))) \<and>
     (keys_ok (ue_ctx u) \<longrightarrow> keys_ok (ue_ctx u'))"

definition keeps :: "act \<Rightarrow> bool" where
  "keeps f \<longleftrightarrow> (\<forall>u. extends u (snd (f u)))"

lemma extends_refl [simp, intro]: "extends u u"
  by (simp add: extends_def)

lemma extends_trans: "extends u v \<Longrightarrow> extends v w \<Longrightarrow> extends u w"
  by (fastforce simp: extends_def amf_or_0_def)

lemma extends_update:
  "ue_sim u' = ue_sim u \<Longrightarrow> ue_ran u' = ue_ran u \<Longrightarrow> ue_amf u' = ue_amf u \<Longrightarrow> ue_out u' = ue_out u \<Longrightarrow>
   (keys_ok (ue_ctx u) \<Longrightarrow> keys_ok (ue_ctx u')) \<Longrightarrow> extends u u'"
  by (simp add: extends_def)

lemma keeps_ok [simp, intro]: "keeps ok" "keeps (set_phase p)"
  by (simp_all add: keeps_def ok_def set_phase_def extends_def)

lemma keeps_andthen [intro]:
  assumes "keeps f" "keeps g"
  shows "keeps (andthen f g)"
  unfolding keeps_def
proof
  fix u
  obtain r u' where f: "f u = (r, u')" by fastforce
  then have "extends u u'" using assms(1) by (metis keeps_def snd_conv)
  with assms(2) f show "extends u (snd (andthen f g u))"
    by (cases r) (auto simp: andthen_def keeps_def intro: extends_trans)
qed

lemma extends_keeps: "extends u u' \<Longrightarrow> keeps f \<Longrightarrow> extends u (snd (f u'))"
  by (auto simp: keeps_def intro: extends_trans)

lemma keeps_send_plain [intro]: "keeps (send_plain nas)"
  by (simp add: keeps_def send_plain_def send_out_def extends_def)

lemma keeps_send_out: "out_ids m = (amf_or_0 u, ue_ran u) \<Longrightarrow> extends u (snd (send_out m u))"
  by (simp add: extends_def send_out_def)

lemma send_secured_ctx:
  "\<exists>n m. send_secured E plain h u = send_plain m (u\<lparr>ue_ctx := (ue_ctx u)\<lparr>sc_ul := n\<rparr>\<rparr>)"
  by (auto simp: send_secured_def Let_def split: prod.split)

lemma send_plain_ctx [simp]: "ue_ctx (snd (send_plain m u)) = ue_ctx u" "fst (send_plain m u) = Inr ()"
  by (simp_all add: send_plain_def send_out_def)

lemma keeps_send_secured [intro]: "keeps (send_secured E plain h)"
  unfolding keeps_def
proof
  fix u
  obtain n m where s: "send_secured E plain h u = send_plain m (u\<lparr>ue_ctx := (ue_ctx u)\<lparr>sc_ul := n\<rparr>\<rparr>)"
    using send_secured_ctx by blast
  show "extends u (snd (send_secured E plain h u))"
    unfolding s by (rule extends_keeps) (auto intro!: extends_update simp: keys_ok_def)
qed

lemma keeps_auth [intro]: "keeps (handle_auth_request E v)"
  unfolding keeps_def handle_auth_request_def Let_def
  by (auto split: option.splits sum.splits auth_result.splits prod.splits
      intro!: extends_keeps [OF _ keeps_send_plain] extends_update simp: keys_ok_def)

lemma sec_mode_value:
  assumes "nv_algo v = Some (b # bs)" "sc_kamf (ue_ctx u0) = Some k"
    and "eea = drop_bit 4 (unat b) AND 0x0F" "eia = unat b AND 0x0F"
    and "derive_nas_keys (en_hmac E) k (int eea) (int eia) = Inr (e, i)"
    and "send_secured E (en_build E (SecurityModeComplete (ue_reg_request u0))) 4
           (u0\<lparr>ue_phase := SEC_MODE_PENDING,
                ue_ctx := (ue_ctx u0)\<lparr>sc_eea := eea, sc_eia := eia, sc_enc := Some e, sc_int := Some i,
                                       sc_ul := 0, sc_dl := 0\<rparr>\<rparr>) = (Inr (), u')"
    and "sc_kamf (ue_ctx u') = Some k"
  shows "handle_sec_mode_command E v u0 =
     (case derive_kgnb (en_hmac E) k ((int (sc_ul (ue_ctx u')) - 1) AND 0xFFFFFFFF) of
        Inl e \<Rightarrow> (Inl e, u')
      | Inr kgnb \<Rightarrow> (Inr (), u'\<lparr>ue_ctx := (ue_ctx u')\<lparr>sc_kgnb := Some kgnb\<rparr>\<rparr>))"
  using assms by (simp add: handle_sec_mode_command_def idx_def Let_def derive_from_def andthen_def)

lemma keeps_smc [intro]: "keeps (handle_sec_mode_command E v)"
  unfolding keeps_def
proof
  fix u0
  show "extends u0 (snd (handle_sec_mode_command E v u0))"
  proof (cases "\<exists>b bs k e i. nv_algo v = Some (b # bs) \<and> sc_kamf (ue_ctx u0) = Some k \<and>
      derive_nas_keys (en_hmac E) k (int (drop_bit 4 (unat b) AND 0x0F)) (int (unat b AND 0x0F)) = Inr (e, i)")
    case False
    then show ?thesis
      by (auto simp: handle_sec_mode_command_def Let_def derive_from_def idx_def intro!: extends_update
          split: option.splits sum.splits list.splits if_splits simp: keys_ok_def neq_Nil_conv)
  next
    case True
    then obtain b bs k e i where t: "nv_algo v = Some (b # bs)" "sc_kamf (ue_ctx u0) = Some k"
      and nk: "derive_nas_keys (en_hmac E) k (int (drop_bit 4 (unat b) AND 0x0F)) (int (unat b AND 0x0F)) = Inr (e, i)"
      by blast
    define u where "u = u0\<lparr>ue_phase := SEC_MODE_PENDING,
        ue_ctx := (ue_ctx u0)\<lparr>sc_eea := drop_bit 4 (unat b) AND 0x0F, sc_eia := unat b AND 0x0F,
          sc_enc := Some e, sc_int := Some i, sc_ul := 0, sc_dl := 0\<rparr>\<rparr>"
    define plain where "plain = en_build E (SecurityModeComplete (ue_reg_request u0))"
    obtain n m where s: "send_secured E plain 4 u = send_plain m (u\<lparr>ue_ctx := (ue_ctx u)\<lparr>sc_ul := n\<rparr>\<rparr>)"
      using send_secured_ctx by blast
    obtain u' where u': "send_secured E plain 4 u = (Inr (), u')"
      unfolding s by (metis prod.collapse send_plain_ctx(2))
    have "extends u (snd (send_secured E plain 4 u))"
      by (rule extends_keeps [OF _ keeps_send_secured]) simp
    then have "extends u u'" by (simp add: u')
    have "ue_ctx (snd (send_secured E plain 4 u)) = (ue_ctx u)\<lparr>sc_ul := n\<rparr>"
      unfolding s by simp
    then have ctx: "ue_ctx u' = (ue_ctx u)\<lparr>sc_ul := n\<rparr>" by (simp add: u')
    have "extends u0 u" using t(2) by (auto simp: u_def keys_ok_def intro!: extends_update)
    with \<open>extends u u'\<close> have ext: "extends u0 u'" by (metis extends_trans)
    have int: "sc_int (ue_ctx u') = Some i" "sc_enc (ue_ctx u') = Some e" "sc_kamf (ue_ctx u') = Some k"
      using t(2) by (simp_all add: ctx u_def)
    have "extends u' (u'\<lparr>ue_ctx := (ue_ctx u')\<lparr>sc_kgnb := Some g\<rparr>\<rparr>)" for g
      using int by (auto intro!: extends_update simp: keys_ok_def)
    with ext show ?thesis
      unfolding sec_mode_value [OF t refl refl nk u' [unfolded plain_def u_def] int(3)]
      by (auto intro: extends_trans split: sum.split)
  qed
qed

lemma keeps_accept [intro]: "keeps (handle_registration_accept E)"
  unfolding handle_registration_accept_def by auto

lemma keeps_on_nas [intro]: "keeps (on_nas E v)"
  unfolding on_nas_def by (auto split: option.split)

lemma keeps_process_nas [intro]: "keeps (process_nas E nas)"
proof -
  have "extends u (u\<lparr>ue_ctx := (ue_ctx u)\<lparr>sc_dl := n\<rparr>\<rparr>)" for u n
    by (rule extends_update) (auto simp: keys_ok_def)
  then show ?thesis
    unfolding keeps_def process_nas_def Let_def
    by (auto split: option.split parsed.split prod.split intro!: extends_keeps [OF _ keeps_on_nas])
qed

lemma keeps_setup_items [intro]: "keeps (setup_items E is)"
proof (induction "is")
  case Nil
  then show ?case by (simp add: keeps_def ok_def)
next
  case (Cons i "is")
  have "keeps (\<lambda>u. let u = u\<lparr>ue_teids := ue_teids u + 1\<rparr> in
      send_out (PduSessionResourceSetupResponse (amf_or_0 u) (ue_ran u) p (ue_teids u)) u)" for p
    by (auto simp: keeps_def Let_def send_out_def extends_def amf_or_0_def)
  with Cons show ?case by (auto split: option.split intro!: keeps_andthen)
qed

fun msg_amf :: "ngap_msg \<Rightarrow> int option" where
  \<comment> \<open>the AMF id an actor may learn from a message\<close>
  "msg_amf (DownlinkNas a r nas m) = a"
| "msg_amf (InitialContextSetup a r nas m) = a"
| "msg_amf (PduSessionResourceSetup a r m) = a"
| "msg_amf msg = None"

lemma handle_split: "\<exists>f. keeps f \<and> ue_handle E msg u = f (learn_amf (msg_amf msg) u)"
proof (cases msg)
  case (DownlinkNas a r nas m)
  then show ?thesis by (intro exI [of _ "process_nas E nas"]) auto
next
  case (InitialContextSetup a r nas m)
  have "keeps (\<lambda>u. send_out (InitialContextSetupResponse (amf_or_0 u) (ue_ran u)) u)"
    by (simp add: keeps_def extends_def send_out_def)
  moreover have "keeps (case nas of None \<Rightarrow> ok | Some n \<Rightarrow> process_nas E n)"
    by (auto split: option.split)
  ultimately show ?thesis unfolding InitialContextSetup by (auto simp del: not_None_eq intro!: keeps_andthen)
next
  case (PduSessionResourceSetup a r m)
  then show ?thesis by (intro exI [of _ "setup_items E (ie_setup m 74)"]) auto
next
  case (UeContextRelease a r m)
  then show ?thesis by (intro exI [of _ "set_phase DEREGISTERED"]) (auto simp: learn_amf_def)
qed (intro exI [of _ ok]; auto simp: learn_amf_def)+

lemma handle_extends: "extends (learn_amf (msg_amf msg) u) (snd (ue_handle E msg u))"
  using handle_split [of E msg u] by (auto simp: keeps_def)

lemma receive_extends: "extends (learn_amf (msg_amf msg) u) (ue_receive E u msg)"
  using handle_extends [of msg u E]
  by (auto simp: ue_receive_def extends_def split: prod.split sum.split)

section \<open>A run of the actor\<close>

datatype ue_op = StartRegister | Receive ngap_msg

fun ue_step :: "'m env \<Rightarrow> ue \<Rightarrow> ue_op \<Rightarrow> ue" where
  "ue_step E u StartRegister = ue_register E u"
| "ue_step E u (Receive msg) = ue_receive E u msg"

fun first_amf :: "ue_op list \<Rightarrow> int option" where
  \<comment> \<open>the AMF id of the first message that carries one\<close>
  "first_amf [] = None"
| "first_amf (StartRegister # ops) = first_amf ops"
| "first_amf (Receive msg # ops) = (case msg_amf msg of Some a \<Rightarrow> Some a | None \<Rightarrow> first_amf ops)"

lemma first_amf_snoc:
  "first_amf (ops @ [Receive msg]) = (case first_amf ops of Some a \<Rightarrow> Some a | None \<Rightarrow> msg_amf msg)"
  "first_amf (ops @ [StartRegister]) = first_amf ops"
  by (induction ops rule: first_amf.induct) (auto split: option.split)

definition ue_inv :: "sim \<Rightarrow> int \<Rightarrow> int option \<Rightarrow> ue \<Rightarrow> bool" where
  "ue_inv s rid amf u \<longleftrightarrow> ue_sim u = s \<and> ue_ran u = rid \<and> ue_amf u = amf \<and> keys_ok (ue_ctx u)"

lemma learn_inv:
  "ue_inv s rid amf u \<Longrightarrow> ue_inv s rid (case amf of Some a \<Rightarrow> Some a | None \<Rightarrow> a') (learn_amf a' u)"
  by (auto simp: ue_inv_def learn_amf_def split: option.split)

lemma receive_inv:
  "ue_inv s rid amf u \<Longrightarrow>
   ue_inv s rid (case amf of Some a \<Rightarrow> Some a | None \<Rightarrow> msg_amf msg) (ue_receive E u msg)"
  using receive_extends [of msg u E] learn_inv [of s rid amf u "msg_amf msg"]
  by (simp add: extends_def ue_inv_def)

lemma ue_run_inv: "ue_inv s rid (first_amf ops) (foldl (ue_step E) (new_ue s rid t) ops)"
proof (induction ops rule: rev_induct)
  case Nil
  then show ?case by (simp add: ue_inv_def new_ue_def new_ctx_def keys_ok_def)
next
  case (snoc op ops)
  then show ?case
  proof (cases op)
    case StartRegister
    with snoc show ?thesis by (simp add: first_amf_snoc ue_inv_def ue_register_def Let_def)
  next
    case (Receive msg)
    with receive_inv [OF snoc] show ?thesis by (simp add: first_amf_snoc)
  qed
qed

text \<open>
  C22: Whatever an actor receives, in whatever order, it answers under its own identifiers: its RAN id
  never changes, its AMF id is the first one it was told and is never replaced, the messages already
  sent are never altered, each answer carries exactly these two ids (zero before the AMF id is
  known), and every key it holds comes with the key it was derived from.\<close>

theorem ue_answers_own_ids:
  "let u = foldl (ue_step E) (new_ue s rid t) ops;
       u' = foldl (ue_step E) (new_ue s rid t) (ops @ [Receive msg]);
       amf = (case first_amf (ops @ [Receive msg]) of None \<Rightarrow> 0 | Some a \<Rightarrow> a) in
   ue_ran u' = rid \<and> ue_amf u' = first_amf (ops @ [Receive msg]) \<and> keys_ok (ue_ctx u') \<and>
   (\<exists>new. ue_out u' = ue_out u @ new \<and> set (map out_ids new) \<subseteq> {(amf, rid)})"
proof -
  define u where "u = foldl (ue_step E) (new_ue s rid t) ops"
  define v where "v = learn_amf (msg_amf msg) u"
  have v: "ue_inv s rid (first_amf (ops @ [Receive msg])) v"
    unfolding v_def u_def first_amf_snoc by (rule learn_inv [OF ue_run_inv])
  have "ue_out v = ue_out u" by (simp add: v_def learn_amf_def)
  with receive_extends [of msg u E, folded v_def] v
  show ?thesis
    unfolding Let_def foldl_append u_def [symmetric]
    by (auto simp: extends_def ue_inv_def amf_or_0_def)
qed

section \<open>The registration runs through\<close>

lemma send_secured_value:
  "wrap_nas_security (en_lib E) plain (sc_enc c) (sc_int c) (sc_eea c) (sc_eia c) (sc_ul c) 0 1 h = (m, n) \<Longrightarrow>
   ue_ctx u = c \<Longrightarrow>
   send_secured E plain h u =
     (Inr (), u\<lparr>ue_ctx := c\<lparr>sc_ul := n\<rparr>,
                ue_out := ue_out u @ [UplinkNasTransport (amf_or_0 u) (ue_ran u) (en_bytes E m)]\<rparr>)"
  by (simp add: send_secured_def send_plain_def send_out_def amf_or_0_def Let_def)

lemma auth_value:
  assumes "nv_rand_autn v = Some (rnd, autn)"
    and "ue_authenticate (en_aes E) (en_hmac E) (ue_sim u) rnd autn (get_snn (ue_mcc u) (ue_mnc u)) =
           Inr (AuthOk rs kausf kseaf ck ik)"
    and "derive_kamf (en_hmac E) kseaf (sim_imsi (ue_sim u)) = Inr kamf"
  shows "handle_auth_request E v u =
     (Inr (), u\<lparr>ue_phase := AUTH_PENDING, ue_ctx := (ue_ctx u)\<lparr>sc_kseaf := Some kseaf, sc_kamf := Some kamf\<rparr>,
        ue_out := ue_out u @ [UplinkNasTransport (amf_or_0 u) (ue_ran u)
                                (en_build E (AuthenticationResponse rs))]\<rparr>)"
  using assms
  by (simp add: handle_auth_request_def Let_def send_plain_def send_out_def amf_or_0_def ue_mcc_def ue_mnc_def)

lemma kamf_length:
  assumes "\<forall>k m. length (hmac k m) = 32" "derive_kamf hmac kseaf supi = Inr kamf"
  shows "length kamf = 32"
  using assms by (auto simp: derive_kamf_def conv_501_A7_def guarded_def rbind_eq_Inr split: if_splits)

lemma kgnb_exists:
  assumes "length kamf = 32"
  shows "\<exists>kgnb. derive_kgnb hmac kamf 0 = Inr kgnb"
  using gnb_key_string [of kamf 0 1 hmac] assms by (simp add: derive_kgnb_def)

record authentic =
  \<comment> \<open>what the network side of one registration consists of: the vector, the keys derived from it,
     the algorithms chosen, and the three downlink messages with their meaning\<close>
  au_rand :: bytes
  au_autn :: bytes
  au_res :: bytes
  au_kseaf :: bytes
  au_kamf :: bytes
  au_enc :: bytes
  au_int :: bytes
  au_algo :: byte
  au_challenge :: bytes
  au_command :: bytes
  au_accept :: bytes

definition au_eea :: "authentic \<Rightarrow> nat" where "au_eea n = drop_bit 4 (unat (au_algo n)) AND 0x0F"
definition au_eia :: "authentic \<Rightarrow> nat" where "au_eia n = unat (au_algo n) AND 0x0F"

definition au_up :: "'m env \<Rightarrow> authentic \<Rightarrow> ue_nas \<Rightarrow> nat \<Rightarrow> nat \<Rightarrow> 'm" where
  \<comment> \<open>an uplink message under the keys of the network, with its count and header type\<close>
  "au_up E n msg cnt h = fst (wrap_nas_security (en_lib E) (en_build E msg) (Some (au_enc n)) (Some (au_int n))
                            (au_eea n) (au_eia n) cnt 0 1 h)"

definition network_keys :: "'m env \<Rightarrow> sim \<Rightarrow> authentic \<Rightarrow> bool" where
  \<comment> \<open>the home network computed the vector for this subscriber and the keys from it\<close>
  "network_keys E s n \<longleftrightarrow>
     (\<exists>sqn fld xres ck ik kausf.
        let sn = get_snn (slice 0 3 (sim_imsi s)) (slice 3 5 (sim_imsi s)) in
        length (au_rand n) = 16 \<and> length sqn = 6 \<and> length fld = 2 \<and>
        home_vector (en_aes E) s (au_rand n) sqn fld = Inr (au_autn n, xres, ck, ik) \<and>
        conv_501_A4 (en_hmac E) ck ik sn (au_rand n) xres = Inr (au_res n) \<and>
        conv_501_A2 (en_hmac E) ck ik sn (slice 0 6 (au_autn n)) = Inr kausf \<and>
        conv_501_A6 (en_hmac E) kausf sn = Inr (au_kseaf n)) \<and>
     derive_kamf (en_hmac E) (au_kseaf n) (sim_imsi s) = Inr (au_kamf n) \<and>
     derive_nas_keys (en_hmac E) (au_kamf n) (int (au_eea n)) (int (au_eia n)) = Inr (au_enc n, au_int n)"

definition network_messages :: "'m env \<Rightarrow> authentic \<Rightarrow> bool" where
  \<comment> \<open>how the parser reads the three messages: a plain challenge, a security mode command under any
     protection, a registration accept protected under the new keys with count zero\<close>
  "network_messages E n \<longleftrightarrow>
     (\<exists>v. au_challenge n \<noteq> [] \<and> en_parse E (au_challenge n) = Some (Plain v) \<and>
        nv_type v = Some 0x56 \<and> nv_rand_autn v = Some (au_rand n, au_autn n)) \<and>
     (\<exists>m. au_command n \<noteq> [] \<and> en_parse E (au_command n) = Some (Secured m) \<and>
        nv_type (en_inner E (nl_inner (en_lib E) m)) = Some 0x5D \<and>
        nv_algo (en_inner E (nl_inner (en_lib E) m)) = Some [au_algo n]) \<and>
     (\<exists>plain. au_accept n \<noteq> [] \<and>
        en_parse E (au_accept n) = Some (Secured (fst (wrap_nas_security (en_lib E) plain
            (Some (au_enc n)) (Some (au_int n)) (au_eea n) (au_eia n) 0 1 1 2))) \<and>
        nv_type (en_inner E plain) = Some 0x42)"

definition env_ok :: "'m env \<Rightarrow> bool" where
  "env_ok E \<longleftrightarrow> lib_ok (en_lib E) \<and> block_cipher (en_aes E) \<and> (\<forall>k m. length (en_hmac E k m) = 32)"

lemma snn_length: "length mcc = 3 \<Longrightarrow> length mnc = 2 \<Longrightarrow> length (get_snn mcc mnc) = 32"
proof -
  assume "length mcc = 3" "length mnc = 2"
  then have "length (zfill3 mnc) = 3" by (auto simp: zfill3_def Let_def)
  with \<open>length mcc = 3\<close> show ?thesis by (simp add: get_snn_def ascii_def)
qed

lemma network_auth:
  assumes "env_ok E" "good_sim s" "5 \<le> length (sim_imsi s)" "network_keys E s n"
  shows "\<exists>kausf ck ik. ue_authenticate (en_aes E) (en_hmac E) s (au_rand n) (au_autn n)
           (get_snn (slice 0 3 (sim_imsi s)) (slice 3 5 (sim_imsi s))) =
         Inr (AuthOk (au_res n) kausf (au_kseaf n) ck ik)"
proof -
  let ?sn = "get_snn (slice 0 3 (sim_imsi s)) (slice 3 5 (sim_imsi s))"
  have sn: "length ?sn = 32" using assms(3) by (intro snn_length) (simp_all add: length_slice)
  obtain sqn fld xres ck ik kausf where k: "length (au_rand n) = 16" "length sqn = 6" "length fld = 2"
    "home_vector (en_aes E) s (au_rand n) sqn fld = Inr (au_autn n, xres, ck, ik)"
    "conv_501_A4 (en_hmac E) ck ik ?sn (au_rand n) xres = Inr (au_res n)"
    "conv_501_A2 (en_hmac E) ck ik ?sn (slice 0 6 (au_autn n)) = Inr kausf"
    "conv_501_A6 (en_hmac E) kausf ?sn = Inr (au_kseaf n)"
    using assms(4) unfolding network_keys_def Let_def by blast
  have env: "block_cipher (en_aes E)" "\<forall>k m. length (en_hmac E k m) = 32"
    using assms(1) by (simp_all add: env_ok_def)
  from authentic_accepted [OF env assms(2) k(1,2,3) _ _ k(4), of ?sn] sn k(5-7) show ?thesis by auto
qed

definition registering :: "'m env \<Rightarrow> sim \<Rightarrow> int \<Rightarrow> int \<Rightarrow> ue" where
  "registering E s rid t = ue_register E (new_ue s rid t)"

lemma challenge_answered:
  assumes "env_ok E" "good_sim s" "5 \<le> length (sim_imsi s)" "network_keys E s n" "network_messages E n"
  shows "ue_receive E (registering E s rid t) (DownlinkNas (Some a) r (au_challenge n) ies) =
     (new_ue s rid t)\<lparr>ue_amf := Some a, ue_phase := AUTH_PENDING,
        ue_ctx := new_ctx\<lparr>sc_kseaf := Some (au_kseaf n), sc_kamf := Some (au_kamf n)\<rparr>,
        ue_reg_request := Some (en_build E RegistrationRequest),
        ue_out := [InitialUeMessage rid (en_build E RegistrationRequest),
                   UplinkNasTransport a rid (en_build E (AuthenticationResponse (au_res n)))]\<rparr>"
proof -
  obtain v where v: "au_challenge n \<noteq> []" "en_parse E (au_challenge n) = Some (Plain v)"
    "nv_type v = Some 0x56" "nv_rand_autn v = Some (au_rand n, au_autn n)"
    using assms(5) unfolding network_messages_def by blast
  define u where "u = learn_amf (Some a) (registering E s rid t)"
  have u: "ue_sim u = s" "ue_ran u = rid" "ue_amf u = Some a" "ue_ctx u = new_ctx"
    by (simp_all add: u_def registering_def ue_register_def new_ue_def learn_amf_def Let_def)
  obtain kausf ck ik where auth: "ue_authenticate (en_aes E) (en_hmac E) (ue_sim u) (au_rand n) (au_autn n)
      (get_snn (ue_mcc u) (ue_mnc u)) = Inr (AuthOk (au_res n) kausf (au_kseaf n) ck ik)"
    using network_auth [OF assms(1-4)] unfolding ue_mcc_def ue_mnc_def u by blast
  have kamf: "derive_kamf (en_hmac E) (au_kseaf n) (sim_imsi (ue_sim u)) = Inr (au_kamf n)"
    using assms(4) by (simp add: network_keys_def u)
  note val = auth_value [OF v(4) auth kamf]
  have "ue_handle E (DownlinkNas (Some a) r (au_challenge n) ies) (registering E s rid t) =
      handle_auth_request E v u"
    using v by (simp add: process_nas_def on_nas_def u_def)
  then show ?thesis
    unfolding ue_receive_def val
    by (simp add: u_def registering_def ue_register_def new_ue_def new_ctx_def learn_amf_def amf_or_0_def Let_def)
qed

lemma command_answered:
  assumes "network_messages E n"
    and "derive_nas_keys (en_hmac E) (au_kamf n) (int (au_eea n)) (int (au_eia n)) = Inr (au_enc n, au_int n)"
    and "derive_kgnb (en_hmac E) (au_kamf n) 0 = Inr kgnb"
    and "ue_amf u = Some a" and "ue_reg_request u = Some req"
    and "ue_ctx u = new_ctx\<lparr>sc_kseaf := Some (au_kseaf n), sc_kamf := Some (au_kamf n)\<rparr>"
  shows "ue_receive E u (DownlinkNas (Some a) r (au_command n) ies) =
     u\<lparr>ue_phase := SEC_MODE_PENDING,
       ue_ctx := \<lparr>sc_kamf = Some (au_kamf n), sc_kseaf = Some (au_kseaf n), sc_enc = Some (au_enc n),
                  sc_int = Some (au_int n), sc_kgnb = Some kgnb, sc_eea = au_eea n, sc_eia = au_eia n,
                  sc_ul = 1, sc_dl = 0\<rparr>,
       ue_out := ue_out u @ [UplinkNasTransport a (ue_ran u)
                    (en_bytes E (au_up E n (SecurityModeComplete (Some req)) 0 4))]\<rparr>"
proof -
  obtain m where m: "au_command n \<noteq> []" "en_parse E (au_command n) = Some (Secured m)"
    "nv_type (en_inner E (nl_inner (en_lib E) m)) = Some 0x5D"
    "nv_algo (en_inner E (nl_inner (en_lib E) m)) = Some [au_algo n]"
    using assms(1) unfolding network_messages_def by blast
  let ?v = "en_inner E (nl_inner (en_lib E) m)"
  obtain dl ok' where un: "unwrap_nas_security (en_lib E) m None None 0 0 0 1 1 = (nl_inner (en_lib E) m, dl, ok')"
    by (simp add: unwrap_nas_security_def usable_def Let_def)
  define u0 where "u0 = u\<lparr>ue_ctx := (ue_ctx u)\<lparr>sc_dl := dl\<rparr>\<rparr>"
  define c where "c = \<lparr>sc_kamf = Some (au_kamf n), sc_kseaf = Some (au_kseaf n), sc_enc = Some (au_enc n),
      sc_int = Some (au_int n), sc_kgnb = None, sc_eea = au_eea n, sc_eia = au_eia n, sc_ul = 0, sc_dl = 0\<rparr>"
  define u1 where "u1 = u0\<lparr>ue_phase := SEC_MODE_PENDING, ue_ctx := c\<rparr>"
  have c1: "u1 = u0\<lparr>ue_phase := SEC_MODE_PENDING,
      ue_ctx := (ue_ctx u0)\<lparr>sc_eea := au_eea n, sc_eia := au_eia n, sc_enc := Some (au_enc n),
                              sc_int := Some (au_int n), sc_ul := 0, sc_dl := 0\<rparr>\<rparr>"
    by (simp add: u1_def u0_def assms(6) new_ctx_def c_def)
  define m' where "m' = au_up E n (SecurityModeComplete (Some req)) 0 4"
  have w: "wrap_nas_security (en_lib E) (en_build E (SecurityModeComplete (Some req))) (sc_enc c) (sc_int c)
      (sc_eea c) (sc_eia c) (sc_ul c) 0 1 4 = (m', 1)"
    by (simp add: m'_def au_up_def c_def wrap_nas_security_def Let_def)
  have sent: "send_secured E (en_build E (SecurityModeComplete (ue_reg_request u0))) 4 u1 =
      (Inr (), u1\<lparr>ue_ctx := c\<lparr>sc_ul := 1\<rparr>, ue_out := ue_out u1 @ [UplinkNasTransport a (ue_ran u) (en_bytes E m')]\<rparr>)"
    using send_secured_value [OF w, of u1] assms(4,5) by (simp add: u1_def u0_def amf_or_0_def)
  have k0: "sc_kamf (ue_ctx u0) = Some (au_kamf n)" by (simp add: u0_def assms(6))
  have "ue_handle E (DownlinkNas (Some a) r (au_command n) ies) u = handle_sec_mode_command E ?v u0"
    using m un assms(4,6) by (simp add: process_nas_def on_nas_def learn_amf_def u0_def new_ctx_def Let_def)
  also have "\<dots> = (Inr (), u1\<lparr>ue_ctx := c\<lparr>sc_ul := 1, sc_kgnb := Some kgnb\<rparr>,
      ue_out := ue_out u1 @ [UplinkNasTransport a (ue_ran u) (en_bytes E m')]\<rparr>)"
    using assms(3)
    by (subst sec_mode_value [OF m(4) k0 au_eea_def au_eia_def assms(2) sent [unfolded c1]])
      (simp_all add: u1_def c_def)
  finally show ?thesis
    by (simp add: ue_receive_def u1_def u0_def c_def m'_def)
qed

lemma accept_answered:
  assumes "env_ok E" "network_messages E n"
    and "ue_amf u = Some a"
    and "ue_ctx u = \<lparr>sc_kamf = k1, sc_kseaf = k2, sc_enc = Some (au_enc n), sc_int = Some (au_int n), sc_kgnb = k3,
                      sc_eea = au_eea n, sc_eia = au_eia n, sc_ul = 1, sc_dl = 0\<rparr>"
  shows "ue_receive E u (InitialContextSetup (Some a) r (Some (au_accept n)) ies) =
     u\<lparr>ue_phase := REGISTERED, ue_ctx := (ue_ctx u)\<lparr>sc_ul := 2, sc_dl := 1\<rparr>,
       ue_out := ue_out u @ [InitialContextSetupResponse a (ue_ran u),
                             UplinkNasTransport a (ue_ran u) (en_bytes E (au_up E n RegistrationComplete 1 2))]\<rparr>"
proof -
  obtain plain where p: "au_accept n \<noteq> []"
    "en_parse E (au_accept n) = Some (Secured (fst (wrap_nas_security (en_lib E) plain (Some (au_enc n))
        (Some (au_int n)) (au_eea n) (au_eia n) 0 1 1 2)))"
    "nv_type (en_inner E plain) = Some 0x42"
    using assms(2) unfolding network_messages_def by blast
  have "lib_ok (en_lib E)" using assms(1) by (simp add: env_ok_def)
  from wrap_unwrap [OF this, of 0 0 2, THEN conjunct2]
  have un: "unwrap_nas_security (en_lib E) (fst (wrap_nas_security (en_lib E) plain (Some (au_enc n))
      (Some (au_int n)) (au_eea n) (au_eia n) 0 1 1 2)) (Some (au_enc n)) (Some (au_int n)) (au_eea n)
      (au_eia n) 0 1 1 = (plain, 1, True)" by simp
  define u0 where "u0 = u\<lparr>ue_out := ue_out u @ [InitialContextSetupResponse a (ue_ran u)]\<rparr>"
  define c where "c = (ue_ctx u)\<lparr>sc_dl := 1\<rparr>"
  define m where "m = au_up E n RegistrationComplete 1 2"
  have w: "wrap_nas_security (en_lib E) (en_build E RegistrationComplete) (sc_enc c) (sc_int c)
      (sc_eea c) (sc_eia c) (sc_ul c) 0 1 2 = (m, 2)"
    by (simp add: m_def au_up_def c_def assms(4) wrap_nas_security_def Let_def flip: numeral_2_eq_2)
  have "ue_handle E (InitialContextSetup (Some a) r (Some (au_accept n)) ies) u = process_nas E (au_accept n) u0"
    using assms(3) by (simp add: andthen_def send_out_def learn_amf_def amf_or_0_def u0_def)
  also have "\<dots> = handle_registration_accept E (u0\<lparr>ue_ctx := c\<rparr>)"
    using p un by (simp add: process_nas_def on_nas_def u0_def c_def assms(4) Let_def)
  also have "\<dots> = (Inr (), u\<lparr>ue_phase := REGISTERED, ue_ctx := c\<lparr>sc_ul := 2\<rparr>,
       ue_out := ue_out u @ [InitialContextSetupResponse a (ue_ran u),
                             UplinkNasTransport a (ue_ran u) (en_bytes E m)]\<rparr>)"
    using send_secured_value [OF w, of "u0\<lparr>ue_ctx := c\<rparr>"] assms(3)
    by (simp add: handle_registration_accept_def andthen_def set_phase_def u0_def amf_or_0_def)
  finally show ?thesis by (simp add: ue_receive_def c_def m_def)
qed


definition zero_env :: "plain_msg env" where
  "zero_env = \<lparr>en_lib = null_lib, en_bytes = pm_inner,
     en_parse = (\<lambda>b. if b = [1] then Some (Plain \<lparr>nv_type = Some 0x56,
                         nv_rand_autn = Some (zeros 16, zeros 16), nv_algo = None\<rparr>)
                     else Some (Secured \<lparr>pm_hdr = 2, pm_seqn = 0, pm_inner = b\<rparr>)),
     en_inner = (\<lambda>b. \<lparr>nv_type = Some (if b = [2] then 0x5D else 0x42), nv_rand_autn = None,
                      nv_algo = Some [0x12]\<rparr>),
     en_build = (\<lambda>x. []), en_aes = (\<lambda>k x. zeros 16), en_hmac = (\<lambda>k m. zeros 32)\<rparr>"

definition zero_net :: authentic where
  "zero_net = \<lparr>au_rand = zeros 16, au_autn = zeros 16, au_res = zeros 16, au_kseaf = zeros 32,
     au_kamf = zeros 32, au_enc = zeros 16, au_int = zeros 16, au_algo = 0x12, au_challenge = [1],
     au_command = [2], au_accept = [3]\<rparr>"

lemma zero_env_ok: "env_ok zero_env" "good_sim zero_sim" "5 \<le> length (sim_imsi zero_sim)"
  by (simp_all add: env_ok_def zero_env_def lib_ok_def null_lib_def block_cipher_def good_sim_def zero_sim_def)

lemma null_wrap:
  "fst (wrap_nas_security null_lib plain ke ki a b c d e h) = \<lparr>pm_hdr = h, pm_seqn = c AND 0xFF, pm_inner = plain\<rparr>"
  by (simp add: wrap_nas_security_def null_lib_def Let_def split: option.split)

lemma zero_messages: "network_messages zero_env zero_net"
proof -
  have "en_lib zero_env = null_lib" "nl_inner null_lib = pm_inner" by (simp_all add: zero_env_def null_lib_def)
  then show ?thesis
    by (simp add: network_messages_def null_wrap) (simp add: zero_env_def zero_net_def)
qed

lemma take_zeros: "take i (zeros n) = zeros (min i n)"
  by (simp add: zeros_def)

lemma slice_zeros: "slice i j (zeros n) = zeros (min j n - i)"
  by (simp add: zeros_def slice_def)

lemma xor_zeros: "xor_buf (zeros m) (zeros n) = zeros (min m n)"
  by (simp add: xor_buf_def zeros_def zip_replicate byte_of_def)

lemma append_zeros: "zeros m @ zeros n = zeros (m + n)"
  by (simp add: zeros_def replicate_add)

lemma zero_vector:
  "home_vector (\<lambda>k x. zeros 16) zero_sim (zeros 16) (zeros 6) (zeros 2) =
     Inr (zeros 16, zeros 8, zeros 16, zeros 16)"
  by (simp add: home_vector_def sim_f2345_def f2345_def f1_def f1_out_def sim_milenage_def zero_sim_def
      set_opc_def new_milenage_def get_opc_def mil_out_def rot16_octets mil_r1_def mil_r2_def mil_r3_def
      mil_r4_def xor_zeros slice_zeros take_zeros append_zeros Let_def)

lemma packs_len: "n \<le> 255 \<Longrightarrow> packs [(2, int n)] = Inr (be_enc 2 n)"
  by (subst packs_Inr) simp_all

lemma zero_kdf:
  "conv_501_A4 (\<lambda>k m. zeros 32) (zeros 16) (zeros 16) (get_snn ''001'' ''01'') (zeros 16) (zeros 8) = Inr (zeros 16)"
  "conv_501_A2 (\<lambda>k m. zeros 32) (zeros 16) (zeros 16) (get_snn ''001'' ''01'') (zeros 6) = Inr (zeros 32)"
  "conv_501_A6 (\<lambda>k m. zeros 32) (zeros 32) (get_snn ''001'' ''01'') = Inr (zeros 32)"
  "derive_kamf (\<lambda>k m. zeros 32) (zeros 32) ''001010000000001'' = Inr (zeros 32)"
  "derive_nas_keys (\<lambda>k m. zeros 32) (zeros 32) 1 2 = Inr (zeros 16, zeros 16)"
proof -
  have sn: "length (get_snn ''001'' ''01'') = 32" by (rule snn_length) simp_all
  have p: "packs [(2, 32)] = Inr (be_enc 2 32)" "packs [(2, 6)] = Inr (be_enc 2 6)"
    "packs [(2, 8)] = Inr (be_enc 2 8)" "packs [(2, 16)] = Inr (be_enc 2 16)"
    "packs [(2, 15)] = Inr (be_enc 2 15)" "packs [(2, 2)] = Inr (be_enc 2 2)"
    using packs_len [of 32] packs_len [of 6] packs_len [of 8] packs_len [of 16] packs_len [of 15] packs_len [of 2]
    by simp_all
  show "conv_501_A4 (\<lambda>k m. zeros 32) (zeros 16) (zeros 16) (get_snn ''001'' ''01'') (zeros 16) (zeros 8) = Inr (zeros 16)"
    using sn p by (simp add: conv_501_A4_def guarded_def kdf_str_def slice_zeros drop_replicate zeros_def)
  show "conv_501_A2 (\<lambda>k m. zeros 32) (zeros 16) (zeros 16) (get_snn ''001'' ''01'') (zeros 6) = Inr (zeros 32)"
    using sn p by (simp add: conv_501_A2_def guarded_def kdf_str_def)
  show "conv_501_A6 (\<lambda>k m. zeros 32) (zeros 32) (get_snn ''001'' ''01'') = Inr (zeros 32)"
    using sn p by (simp add: conv_501_A6_def guarded_def kdf_str_def)
  show "derive_kamf (\<lambda>k m. zeros 32) (zeros 32) ''001010000000001'' = Inr (zeros 32)"
    using p by (simp add: derive_kamf_def conv_501_A7_def guarded_def kdf_str_def ascii_def)
  show "derive_nas_keys (\<lambda>k m. zeros 32) (zeros 32) 1 2 = Inr (zeros 16, zeros 16)"
    by (simp add: derive_nas_keys_def nas_key_string last16_def) (simp add: zeros_def)
qed

lemma zero_keys: "network_keys zero_env zero_sim zero_net"
proof -
  have alg: "au_eea zero_net = 1" "au_eia zero_net = 2"
    by (simp_all add: au_eea_def au_eia_def zero_net_def)
  have sl: "sim_imsi zero_sim = ''001010000000001''"
    "slice 0 3 ''001010000000001'' = ''001''" "slice 3 5 ''001010000000001'' = ''01''" "slice 0 6 (zeros 16) = zeros 6"
    by (simp_all add: zero_sim_def slice_def slice_zeros zeros_def)
  have f: "au_rand zero_net = zeros 16" "au_autn zero_net = zeros 16" "au_res zero_net = zeros 16"
    "au_kseaf zero_net = zeros 32" "au_kamf zero_net = zeros 32" "au_enc zero_net = zeros 16"
    "au_int zero_net = zeros 16" "en_aes zero_env = (\<lambda>k x. zeros 16)" "en_hmac zero_env = (\<lambda>k m. zeros 32)"
    by (simp_all add: zero_net_def zero_env_def)
  show ?thesis
    unfolding network_keys_def Let_def f sl alg
    using zero_vector zero_kdf length_zeros by (intro conjI exI) (assumption | simp add: sl)+
qed


text \<open>
  The state machine has no guard: an unprotected registration accept registers the subscriber from
  any state, also before any challenge, and so does a protected one whose verification fails; no
  key is established by it.\<close>

theorem accept_needs_no_security:
  assumes "nas \<noteq> []"
    and "(\<exists>v. en_parse E nas = Some (Plain v) \<and> nv_type v = Some 0x42) \<or>
         (\<exists>m inner dl. en_parse E nas = Some (Secured m) \<and>
            unwrap_nas_security (en_lib E) m (sc_enc (ue_ctx u)) (sc_int (ue_ctx u)) (sc_eea (ue_ctx u))
              (sc_eia (ue_ctx u)) (sc_dl (ue_ctx u)) 1 1 = (inner, dl, False) \<and>
            nv_type (en_inner E inner) = Some 0x42)"
  shows "ue_phase (ue_receive E u (DownlinkNas a r nas ies)) = REGISTERED \<and>
         ue_error (ue_receive E u (DownlinkNas a r nas ies)) = ue_error u \<and>
         sc_kamf (ue_ctx (ue_receive E u (DownlinkNas a r nas ies))) = sc_kamf (ue_ctx u) \<and>
         sc_int (ue_ctx (ue_receive E u (DownlinkNas a r nas ies))) = sc_int (ue_ctx u)"
proof -
  have acc: "\<exists>x o'. handle_registration_accept E v =
      (Inr (), v\<lparr>ue_ctx := (ue_ctx v)\<lparr>sc_ul := x\<rparr>, ue_out := o', ue_phase := REGISTERED\<rparr>)" for v
    by (auto simp: handle_registration_accept_def andthen_def set_phase_def send_secured_def send_plain_def
        send_out_def Let_def split: prod.split)
  have "\<exists>v. ue_handle E (DownlinkNas a r nas ies) u = handle_registration_accept E v \<and>
      ue_error v = ue_error u \<and> sc_kamf (ue_ctx v) = sc_kamf (ue_ctx u) \<and> sc_int (ue_ctx v) = sc_int (ue_ctx u)"
    using assms by (auto simp: process_nas_def on_nas_def learn_amf_def)
  then obtain v where v: "ue_handle E (DownlinkNas a r nas ies) u = handle_registration_accept E v"
    "ue_error v = ue_error u" "sc_kamf (ue_ctx v) = sc_kamf (ue_ctx u)" "sc_int (ue_ctx v) = sc_int (ue_ctx u)"
    by blast
  from acc [of v] v show ?thesis by (auto simp: ue_receive_def)
qed


theorem accept_needs_no_security_witness:
  "ue_phase (ue_receive (zero_env\<lparr>en_parse := (\<lambda>b. Some (Plain \<lparr>nv_type = Some 0x42, nv_rand_autn = None, nv_algo = None\<rparr>))\<rparr>)
     (new_ue zero_sim 7 0) (DownlinkNas (Some 9) (Some 7) [1] [])) = REGISTERED"
  using accept_needs_no_security [of "[1]"
      "zero_env\<lparr>en_parse := (\<lambda>b. Some (Plain \<lparr>nv_type = Some 0x42, nv_rand_autn = None, nv_algo = None\<rparr>))\<rparr>"
      "new_ue zero_sim 7 0" "Some 9" "Some 7" "[]"]
  by simp

end
