(* ===== verification/Ikev2.thy ===== *)
theory Ikev2
  imports Prelude
begin

text \<open>
  The IKEv2 initiator of the N3IWF client (\<open>protocol/ikev2.py\<close>): header and payload codecs, the
  Diffie-Hellman group, the key derivations and the encrypted payload.

  HMAC-SHA-256 (\<open>hmac key data\<close>) and AES-CBC (\<open>enc\<close>, \<open>dec\<close>: key, initialisation vector, data) come from
  the \<open>cryptography\<close> package and are parameters; random octets and the random exponent are
  arguments.  Fields of the data classes are unbounded integers, as in the code: what does not fit
  an octet or a packed field raises.  Parsers run on the octets left instead of an offset.
\<close>

section \<open>Numbers of the standard\<close>

definition EXCHANGE_IKE_SA_INIT :: int where "EXCHANGE_IKE_SA_INIT = 34"
definition EXCHANGE_IKE_AUTH :: int where "EXCHANGE_IKE_AUTH = 35"
definition PAYLOAD_NONE :: int where "PAYLOAD_NONE = 0"
definition PAYLOAD_SA :: int where "PAYLOAD_SA = 33"
definition PAYLOAD_KE :: int where "PAYLOAD_KE = 34"
definition PAYLOAD_NONCE :: int where "PAYLOAD_NONCE = 40"
definition PAYLOAD_SK :: int where "PAYLOAD_SK = 46"
definition FLAG_INITIATOR :: int where "FLAG_INITIATOR = push_bit 3 1"
definition HEADER_LEN :: nat where "HEADER_LEN = 28"
definition PAYLOAD_HEADER_LEN :: nat where "PAYLOAD_HEADER_LEN = 4"
definition VERSION_BYTE :: int where "VERSION_BYTE = 0x20"
definition PROTO_IKE :: int where "PROTO_IKE = 1"
definition PROTO_AH :: int where "PROTO_AH = 2"
definition PROTO_ESP :: int where "PROTO_ESP = 3"
definition TRANSFORM_ENCR :: int where "TRANSFORM_ENCR = 1"
definition TRANSFORM_PRF :: int where "TRANSFORM_PRF = 2"
definition TRANSFORM_INTEG :: int where "TRANSFORM_INTEG = 3"
definition TRANSFORM_DH :: int where "TRANSFORM_DH = 4"
definition ENCR_AES_CBC :: int where "ENCR_AES_CBC = 12"
definition PRF_HMAC_SHA256 :: int where "PRF_HMAC_SHA256 = 5"
definition INTEG_HMAC_SHA256_128 :: int where "INTEG_HMAC_SHA256_128 = 12"
definition DH_MODP_2048 :: int where "DH_MODP_2048 = 14"
definition ATTR_KEY_LENGTH :: int where "ATTR_KEY_LENGTH = 14"
definition TS_IPV4_ADDR_RANGE :: int where "TS_IPV4_ADDR_RANGE = 7"
definition TS_IPV6_ADDR_RANGE :: int where "TS_IPV6_ADDR_RANGE = 8"

lemmas ike_numbers = EXCHANGE_IKE_SA_INIT_def EXCHANGE_IKE_AUTH_def PAYLOAD_NONE_def PAYLOAD_SA_def
  PAYLOAD_KE_def PAYLOAD_NONCE_def PAYLOAD_SK_def FLAG_INITIATOR_def HEADER_LEN_def
  PAYLOAD_HEADER_LEN_def VERSION_BYTE_def PROTO_IKE_def PROTO_AH_def PROTO_ESP_def
  TRANSFORM_ENCR_def TRANSFORM_PRF_def TRANSFORM_INTEG_def TRANSFORM_DH_def ENCR_AES_CBC_def
  PRF_HMAC_SHA256_def INTEG_HMAC_SHA256_128_def DH_MODP_2048_def ATTR_KEY_LENGTH_def
  TS_IPV4_ADDR_RANGE_def TS_IPV6_ADDR_RANGE_def

section \<open>Header\<close>

record ike_header =
  ih_spi_i :: bytes
  ih_spi_r :: bytes
  ih_next :: int
  ih_exchange :: int
  ih_flags :: int
  ih_msg_id :: int
  ih_len :: int
  ih_version :: int

definition header_marshal :: "ike_header \<Rightarrow> bytes res" where
  "header_marshal h =
     (if length (ih_spi_i h) \<noteq> 8 \<or> length (ih_spi_r h) \<noteq> 8
      then Inl (ValueError ''RFC 7296 3.1: SPIs are 8 octets'')
      else rbind (py_bytes [ih_next h, ih_version h, ih_exchange h, ih_flags h]) (\<lambda>b.
           rbind (packs [(4, ih_msg_id h), (4, ih_len h)]) (\<lambda>m.
           Inr (ih_spi_i h @ ih_spi_r h @ b @ m))))"

definition parse_header :: "bytes \<Rightarrow> ike_header res" where
  "parse_header buf =
     (if length buf < HEADER_LEN then Inl (ValueError ''RFC 7296 3.1 header truncated'')
      else let spi_i = take 8 buf; spi_r = slice 8 16 buf in
        if spi_i = zeros 8 then Inl (ValueError ''RFC 7296 3.1: initiator SPI is zero'')
        else Inr \<lparr>ih_spi_i = spi_i, ih_spi_r = spi_r, ih_next = int (unat (buf ! 16)),
                  ih_exchange = int (unat (buf ! 18)), ih_flags = int (unat (buf ! 19)),
                  ih_msg_id = int (be_val (slice 20 24 buf)), ih_len = int (be_val (slice 24 28 buf)),
                  ih_version = int (unat (buf ! 17))\<rparr>)"

section \<open>Payload chain\<close>

record payload =
  pl_type :: int
  pl_data :: bytes
  pl_critical :: bool

definition type_after :: "payload list \<Rightarrow> int \<Rightarrow> int" where
  \<comment> \<open>the type of the next payload, or what follows the chain\<close>
  "type_after ps fin = (case ps of [] \<Rightarrow> fin | p # _ \<Rightarrow> pl_type p)"

fun marshal_chain :: "payload list \<Rightarrow> bytes res" where
  "marshal_chain [] = Inr []"
| "marshal_chain (p # ps) =
     (let n = PAYLOAD_HEADER_LEN + length (pl_data p) in
      if n > 0xFFFF then Inl (ValueError ''RFC 7296 3.2 payload length overflow'')
      else rbind (py_bytes [type_after ps PAYLOAD_NONE, if pl_critical p then 0x80 else 0]) (\<lambda>b.
           rbind (pack_H (int n)) (\<lambda>l.
           rbind (marshal_chain ps) (\<lambda>out. Inr (b @ l @ pl_data p @ out)))))"

definition marshal_payloads :: "payload list \<Rightarrow> (bytes \<times> int) res" where
  "marshal_payloads ps =
     (case ps of [] \<Rightarrow> Inr ([], PAYLOAD_NONE)
      | p # _ \<Rightarrow> rbind (marshal_chain ps) (\<lambda>out. Inr (out, pl_type p)))"

function parse_payloads :: "bytes \<Rightarrow> int \<Rightarrow> payload list res" where
  "parse_payloads buf pt =
     (if pt = 0 then Inr []
      else if length buf < 4 then Inl (ValueError ''RFC 7296 3.2 payload header truncated'')
      else let nxt = unat (buf ! 0); crit = unat (buf ! 1); pl_len = be_val (slice 2 4 buf) in
        if crit AND 0x7F \<noteq> 0 then Inl (ValueError ''RFC 7296 3.2 RESERVED bits set'')
        else if pl_len < 4 \<or> pl_len > length buf then Inl (ValueError ''RFC 7296 3.2 bad payload length'')
        else rbind (parse_payloads (drop pl_len buf) (int nxt)) (\<lambda>ps.
             Inr (\<lparr>pl_type = pt, pl_data = slice 4 pl_len buf, pl_critical = (crit AND 0x80 \<noteq> 0)\<rparr> # ps)))"
  by pat_completeness auto
termination by (relation "measure (\<lambda>(buf, pt). length buf)") auto

declare parse_payloads.simps [simp del]

definition find_payload :: "payload list \<Rightarrow> int \<Rightarrow> payload option" where
  "find_payload ps pt = find (\<lambda>p. pl_type p = pt) ps"

section \<open>Security association proposals\<close>

record attribute =
  at_type :: int
  at_is_tv :: bool
  at_tv :: int
  at_value :: bytes

definition attribute_marshal :: "attribute \<Rightarrow> bytes res" where
  "attribute_marshal a =
     (if at_is_tv a then packs [(2, at_type a OR 0x8000), (2, at_tv a)]
      else rbind (packs [(2, at_type a AND 0x7FFF), (2, int (length (at_value a)))]) (\<lambda>h. Inr (h @ at_value a)))"

record transform =
  tr_type :: int
  tr_id :: int
  tr_attrs :: "attribute list"

definition transform_marshal :: "transform \<Rightarrow> int \<Rightarrow> bytes res" where
  "transform_marshal t mark =
     rbind (rmap attribute_marshal (tr_attrs t)) (\<lambda>as. let attrs = concat as in
     rbind (packs [(1, mark), (1, 0), (2, int (8 + length attrs))]) (\<lambda>h.
     rbind (packs [(1, tr_type t), (1, 0), (2, tr_id t)]) (\<lambda>b. Inr (h @ b @ attrs))))"

fun marshal_all :: "('a \<Rightarrow> int \<Rightarrow> bytes res) \<Rightarrow> int \<Rightarrow> 'a list \<Rightarrow> bytes res" where
  \<comment> \<open>the elements of a list, each but the last marked as followed by another\<close>
  "marshal_all f mark [] = Inr []"
| "marshal_all f mark (x # xs) =
     rbind (f x (if xs = [] then 0 else mark)) (\<lambda>b. rbind (marshal_all f mark xs) (\<lambda>bs. Inr (b @ bs)))"

record proposal =
  pr_num :: int
  pr_proto :: int
  pr_spi :: bytes
  pr_transforms :: "transform list"

definition proposal_marshal :: "proposal \<Rightarrow> int \<Rightarrow> bytes res" where
  "proposal_marshal p mark =
     rbind (marshal_all transform_marshal 3 (pr_transforms p)) (\<lambda>tbody.
     rbind (packs [(1, mark), (1, 0), (2, int (8 + length (pr_spi p) + length tbody))]) (\<lambda>h.
     rbind (py_bytes [pr_num p, pr_proto p, int (length (pr_spi p)), int (length (pr_transforms p))]) (\<lambda>b.
     Inr (h @ b @ pr_spi p @ tbody))))"

definition sa_marshal :: "proposal list \<Rightarrow> bytes res" where
  "sa_marshal ps = marshal_all proposal_marshal 2 ps"

definition default_ike_proposal :: proposal where
  "default_ike_proposal =
     \<lparr>pr_num = 1, pr_proto = PROTO_IKE, pr_spi = [],
      pr_transforms =
        [\<lparr>tr_type = TRANSFORM_ENCR, tr_id = ENCR_AES_CBC,
           tr_attrs = [\<lparr>at_type = ATTR_KEY_LENGTH, at_is_tv = True, at_tv = 256, at_value = []\<rparr>]\<rparr>,
         \<lparr>tr_type = TRANSFORM_PRF, tr_id = PRF_HMAC_SHA256, tr_attrs = []\<rparr>,
         \<lparr>tr_type = TRANSFORM_INTEG, tr_id = INTEG_HMAC_SHA256_128, tr_attrs = []\<rparr>,
         \<lparr>tr_type = TRANSFORM_DH, tr_id = DH_MODP_2048, tr_attrs = []\<rparr>]\<rparr>"

section \<open>Bodies of the payloads\<close>

definition marshal_ke :: "int \<Rightarrow> bytes \<Rightarrow> bytes res" where
  "marshal_ke grp pub = rbind (packs [(2, grp), (2, 0)]) (\<lambda>h. Inr (h @ pub))"

definition parse_ke :: "bytes \<Rightarrow> (int \<times> bytes) res" where
  "parse_ke buf =
     (if length buf < 4 then Inl (ValueError ''RFC 7296 3.4 KE truncated'')
      else Inr (int (be_val (take 2 buf)), drop 4 buf))"

definition marshal_id :: "int \<Rightarrow> bytes \<Rightarrow> bytes res" where
  "marshal_id t d = rbind (py_bytes [t, 0, 0, 0]) (\<lambda>h. Inr (h @ d))"

definition parse_id :: "bytes \<Rightarrow> (int \<times> bytes) res" where
  "parse_id buf =
     (if length buf < 4 then Inl (ValueError ''RFC 7296 3.5 ID truncated'')
      else Inr (int (unat (buf ! 0)), drop 4 buf))"

definition fresh_nonce :: "(nat \<Rightarrow> bytes) \<Rightarrow> int \<Rightarrow> bytes res" where
  "fresh_nonce token n =
     (if \<not> (16 \<le> n \<and> n \<le> 256) then Inl (ValueError ''RFC 7296 3.9: Nonce must be 16..256 octets'')
      else Inr (token (nat n)))"

record notify =
  no_type :: int
  no_proto :: int
  no_spi :: bytes
  no_data :: bytes

definition notify_marshal :: "notify \<Rightarrow> bytes res" where
  "notify_marshal n =
     rbind (py_bytes [no_proto n, int (length (no_spi n))]) (\<lambda>h.
     rbind (pack_H (no_type n)) (\<lambda>t. Inr (h @ t @ no_spi n @ no_data n)))"

definition parse_notify :: "bytes \<Rightarrow> notify res" where
  "parse_notify buf =
     (if length buf < 4 then Inl (ValueError ''RFC 7296 3.10 Notify truncated'')
      else let spi_len = unat (buf ! 1) in
        if 4 + spi_len > length buf then Inl (ValueError ''RFC 7296 3.10 SPI overruns'')
        else Inr \<lparr>no_type = int (be_val (slice 2 4 buf)), no_proto = int (unat (buf ! 0)),
                  no_spi = slice 4 (4 + spi_len) buf, no_data = drop (4 + spi_len) buf\<rparr>)"

record traffic_selector =
  ts_type :: int
  ts_proto :: int
  ts_port_lo :: int
  ts_port_hi :: int
  ts_addr_lo :: bytes
  ts_addr_hi :: bytes

definition ts_addr_len :: "int \<Rightarrow> nat res" where
  "ts_addr_len t =
     (if t = TS_IPV4_ADDR_RANGE then Inr 4 else if t = TS_IPV6_ADDR_RANGE then Inr 16
      else Inl (ValueError ''3.13.1 TS Type''))"

definition ts_marshal :: "traffic_selector \<Rightarrow> bytes res" where
  "ts_marshal s =
     rbind (ts_addr_len (ts_type s)) (\<lambda>n.
     if length (ts_addr_lo s) \<noteq> n \<or> length (ts_addr_hi s) \<noteq> n
     then Inl (ValueError ''3.13.1 address length'')
     else rbind (py_bytes [ts_type s, ts_proto s]) (\<lambda>h.
          rbind (packs [(2, int (8 + 2 * n)), (2, ts_port_lo s), (2, ts_port_hi s)]) (\<lambda>b.
          Inr (h @ b @ ts_addr_lo s @ ts_addr_hi s))))"

definition marshal_ts :: "traffic_selector list \<Rightarrow> bytes res" where
  "marshal_ts ss =
     (if ss = [] then Inl (ValueError ''3.13: TS payload MUST contain at least one selector'')
      else if length ss > 255 then Inl (ValueError ''3.13: Number of TSs is a single octet'')
      else rbind (py_bytes [int (length ss), 0, 0, 0]) (\<lambda>h.
           rbind (rmap ts_marshal ss) (\<lambda>bs. Inr (h @ concat bs))))"

definition parse_selector :: "bytes \<Rightarrow> (traffic_selector \<times> bytes) res" where
  \<comment> \<open>one turn of the loop: the selector and the octets behind it\<close>
  "parse_selector buf =
     (if length buf < 8 then Inl (ValueError ''3.13 TS substructure header truncated'')
      else let t = int (unat (buf ! 0)); sel_len = be_val (slice 2 4 buf) in
        if sel_len > length buf then Inl (ValueError ''3.13 TS Selector Length overruns'')
        else rbind (ts_addr_len t) (\<lambda>n.
          if sel_len \<noteq> 8 + 2 * n then Inl (ValueError ''3.13 sel_len'')
          else Inr (\<lparr>ts_type = t, ts_proto = int (unat (buf ! 1)), ts_port_lo = int (be_val (slice 4 6 buf)),
                     ts_port_hi = int (be_val (slice 6 8 buf)), ts_addr_lo = slice 8 (8 + n) buf,
                     ts_addr_hi = slice (8 + n) (8 + 2 * n) buf\<rparr>, drop sel_len buf)))"

fun parse_selectors :: "nat \<Rightarrow> bytes \<Rightarrow> traffic_selector list res" where
  "parse_selectors 0 buf =
     (if buf \<noteq> [] then Inl (ValueError ''3.13 TS payload has trailing octets'') else Inr [])"
| "parse_selectors (Suc n) buf =
     rbind (parse_selector buf) (\<lambda>(s, rest). rbind (parse_selectors n rest) (\<lambda>ss. Inr (s # ss)))"

definition parse_ts :: "bytes \<Rightarrow> traffic_selector list res" where
  "parse_ts buf =
     (if length buf < 4 then Inl (ValueError ''3.13 TS payload header truncated'')
      else parse_selectors (unat (buf ! 0)) (drop 4 buf))"

record delete =
  de_proto :: int
  de_spi_size :: int
  de_spis :: "bytes list"

definition delete_marshal :: "delete \<Rightarrow> bytes res" where
  "delete_marshal d =
     (if de_proto d = PROTO_IKE \<and> (de_spi_size d \<noteq> 0 \<or> de_spis d \<noteq> [])
      then Inl (ValueError ''RFC 7296 3.11: IKE Delete MUST carry no SPIs'')
      else if de_proto d \<noteq> PROTO_IKE \<and> list_ex (\<lambda>s. int (length s) \<noteq> de_spi_size d) (de_spis d)
      then Inl (ValueError ''3.11 SPI len'')
      else rbind (py_bytes [de_proto d, de_spi_size d]) (\<lambda>h.
           rbind (pack_H (int (length (de_spis d)))) (\<lambda>n. Inr (h @ n @ concat (de_spis d)))))"

definition parse_delete :: "bytes \<Rightarrow> delete res" where
  "parse_delete buf =
     (if length buf < 4 then Inl (ValueError ''RFC 7296 3.11 Delete header < 4 octets'')
      else let proto = int (unat (buf ! 0)); spi_size = unat (buf ! 1); n = be_val (slice 2 4 buf) in
        if proto = PROTO_IKE \<and> (spi_size \<noteq> 0 \<or> n \<noteq> 0)
        then Inl (ValueError ''RFC 7296 3.11: IKE Delete MUST have spi_size=0, num=0'')
        else if proto \<in> {PROTO_AH, PROTO_ESP} \<and> spi_size \<noteq> 4
        then Inl (ValueError ''3.11: AH/ESP SPI Size MUST be 4'')
        else if 4 + n * spi_size \<noteq> length buf then Inl (ValueError ''3.11 Delete length mismatch'')
        else Inr \<lparr>de_proto = proto, de_spi_size = int spi_size,
                  de_spis = map (\<lambda>i. slice (4 + i * spi_size) (4 + (i + 1) * spi_size) buf) [0..<n]\<rparr>)"

record cp_attribute =
  ca_type :: int
  ca_value :: bytes

record cp =
  cp_cfg :: int
  cp_attrs :: "cp_attribute list"

definition cp_attr_marshal :: "cp_attribute \<Rightarrow> bytes res" where
  "cp_attr_marshal a =
     rbind (packs [(2, ca_type a AND 0x7FFF), (2, int (length (ca_value a)))]) (\<lambda>h. Inr (h @ ca_value a))"

definition cp_marshal :: "cp \<Rightarrow> bytes res" where
  "cp_marshal c =
     rbind (py_bytes [cp_cfg c, 0, 0, 0]) (\<lambda>h.
     rbind (rmap cp_attr_marshal (cp_attrs c)) (\<lambda>bs. Inr (h @ concat bs)))"

function parse_cp_attrs :: "bytes \<Rightarrow> cp_attribute list res" where
  "parse_cp_attrs buf =
     (if buf = [] then Inr []
      else if length buf < 4 then Inl (ValueError ''3.15 attribute header truncated'')
      else let t = be_val (take 2 buf) AND 0x7FFF; vlen = be_val (slice 2 4 buf) in
        if 4 + vlen > length buf then Inl (ValueError ''3.15 attribute value overruns'')
        else rbind (parse_cp_attrs (drop (4 + vlen) buf)) (\<lambda>as.
             Inr (\<lparr>ca_type = int t, ca_value = slice 4 (4 + vlen) buf\<rparr> # as)))"
  by pat_completeness auto
termination by (relation "measure length") auto

declare parse_cp_attrs.simps [simp del]

definition parse_cp :: "bytes \<Rightarrow> cp res" where
  "parse_cp buf =
     (if length buf < 4 then Inl (ValueError ''RFC 7296 3.15 CP header < 4 octets'')
      else rbind (parse_cp_attrs (drop 4 buf)) (\<lambda>as.
           Inr \<lparr>cp_cfg = int (unat (buf ! 0)), cp_attrs = as\<rparr>))"

section \<open>Diffie-Hellman, group 14\<close>

definition MODP_2048_P :: int where
  "MODP_2048_P = 0xFFFFFFFFFFFFFFFFC90FDAA22168C234C4C6628B80DC1CD129024E088A67CC74020BBEA63B139B22514A08798E3404DDEF9519B3CD3A431B302B0A6DF25F14374FE1356D6D51C245E485B576625E7EC6F44C42E9A637ED6B0BFF5CB6F406B7EDEE386BFB5A899FA5AE9F24117C4B1FE649286651ECE45B3DC2007CB8A163BF0598DA48361C55D39A69163FA8FD24CF5F83655D23DCA3AD961C62F356208552BB9ED529077096966D670C354E4ABC9804F1746C08CA18217C32905E462E36CE3BE39E772C180E86039B2783A2EC07A28FB5C55DF06F4C52C9DE2BCBF6955817183995497CEA956AE515D2261898FA051015728E5A8AACAA68FFFFFFFFFFFFFFFF"

definition MODP_2048_G :: int where "MODP_2048_G = 2"
definition MODP_2048_LEN :: nat where "MODP_2048_LEN = 256"

record dh =
  dh_priv :: nat
  dh_public :: bytes

definition new_dh :: "nat \<Rightarrow> dh" where
  \<comment> \<open>the argument is the drawn exponent less one, below \<open>p - 2\<close>\<close>
  "new_dh r =
     (let x = r + 1 in
      \<lparr>dh_priv = x, dh_public = be_enc MODP_2048_LEN (nat (MODP_2048_G ^ x mod MODP_2048_P))\<rparr>)"

definition dh_shared :: "dh \<Rightarrow> bytes \<Rightarrow> bytes res" where
  "dh_shared d peer =
     (if peer = [] then Inl (ValueError ''RFC 7296 2.10: empty peer DH public value'')
      else let y = int (be_val peer) in
        if y \<le> 0 \<or> y \<ge> MODP_2048_P then Inl (ValueError ''DH peer public out of [1, p-1]'')
        else if y = 1 \<or> y = MODP_2048_P - 1 then Inl (ValueError ''RFC 6989: peer in trivial subgroup'')
        else Inr (be_enc MODP_2048_LEN (nat (y ^ dh_priv d mod MODP_2048_P))))"

section \<open>Key derivation\<close>

type_synonym prf_fun = "bytes \<Rightarrow> bytes \<Rightarrow> bytes"

function prf_loop :: "prf_fun \<Rightarrow> bytes \<Rightarrow> bytes \<Rightarrow> nat \<Rightarrow> nat \<Rightarrow> bytes \<Rightarrow> bytes \<Rightarrow> bytes res" where
  \<comment> \<open>the loop of \<open>prf_plus\<close>; the counter octet raises beyond 255\<close>
  "prf_loop prf key seed n i t out =
     (if n \<le> length out then Inr (take n out)
      else if 256 \<le> i then Inl (ValueError ''bytes must be in range(0, 256)'')
      else let t = prf key (t @ seed @ [byte_of i]) in prf_loop prf key seed n (i + 1) t (out @ t))"
  by pat_completeness auto
termination by (relation "measure (\<lambda>(prf, key, seed, n, i, t, out). 256 - i)") auto

declare prf_loop.simps [simp del]

definition prf_plus :: "prf_fun \<Rightarrow> bytes \<Rightarrow> bytes \<Rightarrow> nat \<Rightarrow> bytes res" where
  "prf_plus prf key seed n =
     (if n > 255 * 32 then Inl (ValueError ''RFC 7296 2.13: prf+ output > 255 * out'')
      else prf_loop prf key seed n 1 [] [])"

record ike_keys =
  sk_d :: bytes
  sk_ai :: bytes
  sk_ar :: bytes
  sk_ei :: bytes
  sk_er :: bytes
  sk_pi :: bytes
  sk_pr :: bytes

fun cut_parts :: "nat list \<Rightarrow> bytes \<Rightarrow> bytes list" where
  \<comment> \<open>the local function \<open>take\<close>, called for each length in turn\<close>
  "cut_parts [] s = []"
| "cut_parts (n # ns) s = take n s # cut_parts ns (drop n s)"

definition derive_ike_sa_keys ::
  "prf_fun \<Rightarrow> bytes \<Rightarrow> bytes \<Rightarrow> bytes \<Rightarrow> bytes \<Rightarrow> bytes \<Rightarrow> nat \<Rightarrow> nat \<Rightarrow> ike_keys res" where
  "derive_ike_sa_keys prf ni nr g_ir spi_i spi_r integ_len encr_len =
     (let skeyseed = prf (ni @ nr) g_ir; seed = ni @ nr @ spi_i @ spi_r;
          total = 32 + 2 * integ_len + 2 * encr_len + 2 * 32
      in rbind (prf_plus prf skeyseed seed total) (\<lambda>stream.
         let ks = cut_parts [32, integ_len, integ_len, encr_len, encr_len, 32, 32] stream in
         Inr \<lparr>sk_d = ks ! 0, sk_ai = ks ! 1, sk_ar = ks ! 2, sk_ei = ks ! 3, sk_er = ks ! 4,
              sk_pi = ks ! 5, sk_pr = ks ! 6\<rparr>))"

record child_keys =
  ck_encr_i :: bytes
  ck_integ_i :: bytes
  ck_encr_r :: bytes
  ck_integ_r :: bytes

definition derive_child_sa_keys ::
  "prf_fun \<Rightarrow> bytes \<Rightarrow> bytes \<Rightarrow> bytes \<Rightarrow> nat \<Rightarrow> nat \<Rightarrow> bytes \<Rightarrow> child_keys res" where
  "derive_child_sa_keys prf skd ni nr encr_len integ_len g_new =
     (let seed = (if g_new \<noteq> [] then g_new @ ni @ nr else ni @ nr); total = 2 * encr_len + 2 * integ_len
      in rbind (prf_plus prf skd seed total) (\<lambda>stream.
         let ks = cut_parts [encr_len, integ_len, encr_len, integ_len] stream in
         Inr \<lparr>ck_encr_i = ks ! 0, ck_integ_i = ks ! 1, ck_encr_r = ks ! 2, ck_integ_r = ks ! 3\<rparr>))"

definition KEY_PAD_IKEV2 :: bytes where
  "KEY_PAD_IKEV2 = map (\<lambda>c. byte_of (of_char c)) ''Key Pad for IKEv2''"

definition compute_auth_octets :: "prf_fun \<Rightarrow> bytes \<Rightarrow> bytes \<Rightarrow> bytes \<Rightarrow> bytes \<Rightarrow> bytes \<Rightarrow> bytes" where
  "compute_auth_octets prf secret real_message nonce_peer sk_p id_body =
     (let inner = prf secret KEY_PAD_IKEV2; maced_id = prf sk_p id_body
      in prf inner (real_message @ nonce_peer @ maced_id))"

section \<open>Encrypted messages\<close>

type_synonym cbc_fun = "bytes \<Rightarrow> bytes \<Rightarrow> bytes \<Rightarrow> bytes"

definition hmac_sha256_128 :: "prf_fun \<Rightarrow> bytes \<Rightarrow> bytes \<Rightarrow> bytes" where
  "hmac_sha256_128 hmac key data = take 16 (hmac key data)"

definition sk_pad_len :: "nat \<Rightarrow> nat" where
  "sk_pad_len n = (let p = 16 - ((n + 1) mod 16) in if p = 16 then 0 else p)"

fun preceding_chain :: "payload list \<Rightarrow> bytes res" where
  \<comment> \<open>the chain in front of the encrypted payload; its length is only checked by the packing\<close>
  "preceding_chain [] = Inr []"
| "preceding_chain (p # ps) =
     rbind (py_bytes [type_after ps PAYLOAD_SK, if pl_critical p then 0x80 else 0]) (\<lambda>b.
     rbind (pack_H (int (4 + length (pl_data p)))) (\<lambda>l.
     rbind (preceding_chain ps) (\<lambda>out. Inr (b @ l @ pl_data p @ out))))"

definition encrypted_message ::
  "cbc_fun \<Rightarrow> prf_fun \<Rightarrow> bytes \<Rightarrow> ike_header \<Rightarrow> payload list \<Rightarrow> payload list \<Rightarrow> bytes \<Rightarrow> bytes \<Rightarrow> bytes res" where
  "encrypted_message enc hmac iv hdr preceding inner encr_key integ_key =
     (if inner = [] then Inl (ValueError ''RFC 7296 3.14: at least one inner payload required'')
      else rbind (marshal_payloads inner) (\<lambda>(inner_bytes, first_inner).
        let pad_len = sk_pad_len (length inner_bytes);
            plaintext = inner_bytes @ zeros pad_len @ [byte_of pad_len];
            ct = enc encr_key iv plaintext;
            sk_len = 4 + (length iv + length ct + 16) in
        rbind (py_bytes [first_inner, 0]) (\<lambda>g. rbind (pack_H (int sk_len)) (\<lambda>l.
        let sk_generic = g @ l in
        rbind (preceding_chain preceding) (\<lambda>pre.
        rbind (header_marshal (hdr\<lparr>ih_next := type_after preceding PAYLOAD_SK,
                                   ih_len := int (HEADER_LEN + length pre + sk_len)\<rparr>)) (\<lambda>h.
        let covered = h @ pre @ sk_generic @ iv @ ct in
        Inr (covered @ hmac_sha256_128 hmac integ_key covered)))))))"

function walk_to_sk :: "bytes \<Rightarrow> int \<Rightarrow> (payload list \<times> bytes \<times> nat) res" where
  \<comment> \<open>the loop of \<open>decrypt_message\<close>: the payloads in front of the encrypted one, the octets from its header on, and its length\<close>
  "walk_to_sk buf cur =
     (if cur = 0 then Inl (ValueError ''RFC 7296 3.14: SK payload absent'')
      else if length buf < 4 then Inl (ValueError ''chain header truncated'')
      else let nxt = int (unat (buf ! 0)); pl_len = be_val (slice 2 4 buf) in
        if pl_len < 4 \<or> pl_len > length buf then Inl (ValueError ''bad payload length'')
        else if cur = PAYLOAD_SK then Inr ([], buf, pl_len)
        else rbind (walk_to_sk (drop pl_len buf) nxt) (\<lambda>(ps, sk, n).
             Inr (\<lparr>pl_type = cur, pl_data = slice 4 pl_len buf, pl_critical = False\<rparr> # ps, sk, n)))"
  by pat_completeness auto
termination by (relation "measure (\<lambda>(buf, cur). length buf)") auto

declare walk_to_sk.simps [simp del]

definition open_sk ::
  "cbc_fun \<Rightarrow> prf_fun \<Rightarrow> bytes \<Rightarrow> bytes \<Rightarrow> bytes \<Rightarrow> bytes \<Rightarrow> bytes \<Rightarrow> payload list res" where
  \<comment> \<open>the second half of \<open>decrypt_message\<close>: the octets in front of the payload, its header, its body\<close>
  "open_sk dec hmac before sk_generic sk_body encr_key integ_key =
     (if length sk_body < 16 + 16 then Inl (ValueError ''SK body too short for IV+ICV'')
      else let iv = take 16 sk_body; ct = slice 16 (length sk_body - 16) sk_body;
               icv = drop (length sk_body - 16) sk_body in
      if length ct mod 16 \<noteq> 0 then Inl (ValueError ''SK ciphertext not block-aligned'')
      else if hmac_sha256_128 hmac integ_key (before @ sk_generic @ iv @ ct) \<noteq> icv
      then Inl (ValueError ''RFC 7296 3.14: ICV mismatch'')
      else let pt = dec encr_key iv ct in
      if pt = [] then Inl (ValueError ''plaintext empty'')
      else let pad = unat (last pt) in
      if pad + 1 > length pt then Inl (ValueError ''SK pad length > plaintext'')
      else parse_payloads (take (length pt - pad - 1) pt) (int (unat (sk_generic ! 0))))"

definition decrypt_message ::
  "cbc_fun \<Rightarrow> prf_fun \<Rightarrow> bytes \<Rightarrow> bytes \<Rightarrow> bytes \<Rightarrow> (ike_header \<times> payload list \<times> payload list) res" where
  "decrypt_message dec hmac msg encr_key integ_key =
     rbind (parse_header msg) (\<lambda>hdr.
     if ih_len hdr \<noteq> int (length msg) then Inl (ValueError ''RFC 7296 3.1 length mismatch'')
     else rbind (walk_to_sk (drop HEADER_LEN msg) (ih_next hdr)) (\<lambda>(preceding, sk, sk_len).
       let sk_off = length msg - length sk in
       rbind (open_sk dec hmac (take HEADER_LEN msg @ slice HEADER_LEN sk_off msg) (take 4 sk)
                (slice 4 sk_len sk) encr_key integ_key) (\<lambda>inner.
       Inr (hdr, preceding, inner))))"

section \<open>The first message\<close>

definition build_ike_sa_init_request :: "bytes \<Rightarrow> dh \<Rightarrow> bytes \<Rightarrow> bytes res" where
  "build_ike_sa_init_request spi_i d nonce =
     rbind (sa_marshal [default_ike_proposal]) (\<lambda>sa.
     rbind (marshal_ke DH_MODP_2048 (dh_public d)) (\<lambda>ke.
     rbind (marshal_payloads [\<lparr>pl_type = PAYLOAD_SA, pl_data = sa, pl_critical = False\<rparr>,
                              \<lparr>pl_type = PAYLOAD_KE, pl_data = ke, pl_critical = False\<rparr>,
                              \<lparr>pl_type = PAYLOAD_NONCE, pl_data = nonce, pl_critical = False\<rparr>]) (\<lambda>(body, first).
     rbind (header_marshal \<lparr>ih_spi_i = spi_i, ih_spi_r = zeros 8, ih_next = first,
              ih_exchange = EXCHANGE_IKE_SA_INIT, ih_flags = FLAG_INITIATOR, ih_msg_id = 0,
              ih_len = int (HEADER_LEN + length body), ih_version = VERSION_BYTE\<rparr>) (\<lambda>h.
     Inr (h @ body)))))"

section \<open>Fields in range\<close>

definition octet :: "int \<Rightarrow> bool" where "octet n \<longleftrightarrow> 0 \<le> n \<and> n < 256"
definition u16 :: "int \<Rightarrow> bool" where "u16 n \<longleftrightarrow> 0 \<le> n \<and> n < 65536"

named_theorems fits \<open>fields that fit\<close>

lemma py_bytes_octet [fits]:
  "octet n \<Longrightarrow> py_bytes (n # ns) = rbind (py_bytes ns) (\<lambda>bs. Inr (byte_of (nat n) # bs))"
  by (simp add: octet_def py_byte_def)

lemma octet_back [fits]: "octet n \<Longrightarrow> int (unat (byte_of (nat n))) = n"
  by (simp add: octet_def nat_less_iff)

lemmas octet_mod [fits] = octet_back [unfolded unat_byte_of]

lemma octet_numeral [simp]: "octet 0" "octet 1" "octet (numeral k) \<longleftrightarrow> (numeral k :: int) < 256"
  "octet (int n) \<longleftrightarrow> n < 256" "octet (if b then x else y) \<longleftrightarrow> (if b then octet x else octet y)"
  by (auto simp: octet_def)

lemma u16_numeral [simp]: "u16 0" "u16 (numeral k) \<longleftrightarrow> (numeral k :: int) < 65536" "u16 (int n) \<longleftrightarrow> n < 65536"
  by (auto simp: u16_def)

lemma u16_val: "u16 n \<Longrightarrow> int (be_val (be_enc 2 (nat n))) = n"
  by (simp add: u16_def nat_less_iff)

lemma packs_cons: "0 \<le> n \<Longrightarrow> n < 256 ^ k \<Longrightarrow> packs ((k, n) # fs) = rbind (packs fs) (\<lambda>bs. Inr (be_enc k (nat n) @ bs))"
  by (cases "rmap (\<lambda>(k, n). pack_be k n) fs") (simp_all add: packs_def pack_be_def)

lemma packs_u16 [fits]:
  "u16 n \<Longrightarrow> packs ((2, n) # fs) = rbind (packs fs) (\<lambda>bs. Inr (be_enc 2 (nat n) @ bs))"
  by (rule packs_cons) (auto simp: u16_def)

lemma packs_nil [simp]: "packs [] = Inr []" by (simp add: packs_def)

lemma pack_H_u16 [fits]: "u16 n \<Longrightarrow> pack_H n = Inr (be_enc 2 (nat n))"
  by (auto simp: u16_def pack_be_def)

lemma pack_H_plus [fits]:
  "numeral k + n < 65536 \<Longrightarrow> pack_H (numeral k + int n) = Inr (be_enc 2 (numeral k + n))"
  using pack_H_nat [of "numeral k + n"] by simp

lemma slice_2_4: "slice 2 4 (a # b # be_enc 2 n @ xs) = be_enc 2 n"
  using slice_append_middle [of 2 "[a, b]" 4 "be_enc 2 n" xs] by simp

lemma be_val_2_4 [simp]: "n < 65536 \<Longrightarrow> be_val (slice 2 4 (a # b # be_enc 2 n @ xs)) = n"
  by (simp add: slice_2_4)

section \<open>Payload chains\<close>

definition payload_ok :: "payload \<Rightarrow> bool" where
  "payload_ok p \<longleftrightarrow> octet (pl_type p) \<and> pl_type p \<noteq> 0 \<and> length (pl_data p) + 4 \<le> 0xFFFF"

fun chain_enc :: "int \<Rightarrow> payload list \<Rightarrow> bytes" where
  "chain_enc fin [] = []"
| "chain_enc fin (p # ps) =
     byte_of (nat (type_after ps fin)) # (if pl_critical p then byte_of 128 else byte_of 0)
       # be_enc 2 (4 + length (pl_data p)) @ pl_data p @ chain_enc fin ps"

lemma type_after_octet: "list_all payload_ok ps \<Longrightarrow> octet fin \<Longrightarrow> octet (type_after ps fin)"
  by (auto simp: type_after_def payload_ok_def split: list.split)

lemma marshal_chain_enc: "list_all payload_ok ps \<Longrightarrow> marshal_chain ps = Inr (chain_enc 0 ps)"
proof (induction ps)
  case (Cons p ps)
  have "octet (type_after ps 0)" using Cons.prems by (intro type_after_octet) auto
  moreover have "py_bytes [if pl_critical p then 0x80 else 0] =
      Inr [if pl_critical p then byte_of 128 else byte_of 0]"
    by (simp add: py_byte_def)
  ultimately show ?case
    using Cons by (simp add: ike_numbers payload_ok_def fits Let_def del: py_bytes.simps)
qed simp

lemma preceding_chain_enc: "list_all payload_ok ps \<Longrightarrow> preceding_chain ps = Inr (chain_enc 46 ps)"
proof (induction ps)
  case (Cons p ps)
  have "octet (type_after ps 46)" using Cons.prems by (intro type_after_octet) auto
  moreover have "py_bytes [if pl_critical p then 0x80 else 0] =
      Inr [if pl_critical p then byte_of 128 else byte_of 0]"
    by (simp add: py_byte_def)
  ultimately show ?case
    using Cons by (simp add: ike_numbers payload_ok_def fits del: py_bytes.simps)
qed simp

lemma chain_step:
  assumes "n = 4 + length d" "n < 65536"
  shows "length (a # b # be_enc 2 n @ d @ xs) = n + length xs"
    and "be_val (slice 2 4 (a # b # be_enc 2 n @ d @ xs)) = n"
    and "slice 4 n (a # b # be_enc 2 n @ d @ xs) = d" and "drop n (a # b # be_enc 2 n @ d @ xs) = xs"
proof -
  have "a # b # be_enc 2 n @ d @ xs = ([a, b] @ be_enc 2 n) @ d @ xs" and l: "length ([a, b] @ be_enc 2 n) = 4"
    by simp_all
  then show "slice 4 n (a # b # be_enc 2 n @ d @ xs) = d" "drop n (a # b # be_enc 2 n @ d @ xs) = xs"
    using assms(1) by (simp_all only: slice_append_middle drop_append l) simp_all
qed (use assms in simp_all)

lemma parse_chain_enc:
  "list_all payload_ok ps \<Longrightarrow> parse_payloads (chain_enc 0 ps @ rest) (type_after ps 0) = Inr ps"
proof (induction ps)
  case Nil
  then show ?case by (simp add: type_after_def parse_payloads.simps)
next
  case (Cons p ps)
  define n where "n = 4 + length (pl_data p)"
  have n: "n < 65536" "n = 4 + length (pl_data p)" using Cons.prems by (auto simp: payload_ok_def n_def)
  define c where "c = (if pl_critical p then byte_of 128 else byte_of 0)"
  define b where "b = byte_of (nat (type_after ps 0))"
  have t: "int (unat b) = type_after ps 0"
    unfolding b_def using Cons.prems by (intro octet_back type_after_octet) auto
  have crit: "unat c AND 0x7F = 0" "(unat c AND 0x80 \<noteq> 0) = pl_critical p" by (auto simp: c_def)
  have buf: "chain_enc 0 (p # ps) @ rest = b # c # be_enc 2 n @ pl_data p @ (chain_enc 0 ps @ rest)"
    by (simp add: b_def c_def n_def)
  note s = chain_step [OF n(2,1), of b c "chain_enc 0 ps @ rest"]
  show ?case
    unfolding buf using Cons n(2) s crit t
    by (subst parse_payloads.simps) (simp add: type_after_def payload_ok_def)
qed

definition not_critical :: "payload \<Rightarrow> payload" where "not_critical p = p\<lparr>pl_critical := False\<rparr>"

lemma walk_chain_enc:
  assumes "list_all payload_ok ps" "list_all (\<lambda>p. pl_type p \<noteq> 46) ps"
    and "4 \<le> length sk" "be_val (slice 2 4 sk) = n" "4 \<le> n" "n \<le> length sk"
  shows "walk_to_sk (chain_enc 46 ps @ sk) (type_after ps 46) = Inr (map not_critical ps, sk, n)"
  using assms(1,2)
proof (induction ps)
  case Nil
  then show ?case using assms(3-) by (simp add: type_after_def walk_to_sk.simps ike_numbers)
next
  case (Cons p ps)
  define m where "m = 4 + length (pl_data p)"
  have m: "m < 65536" "m = 4 + length (pl_data p)" using Cons.prems by (auto simp: payload_ok_def m_def)
  define c where "c = (if pl_critical p then byte_of 128 else byte_of 0)"
  define b where "b = byte_of (nat (type_after ps 46))"
  have t: "int (unat b) = type_after ps 46"
    unfolding b_def using Cons.prems by (intro octet_back type_after_octet) auto
  have buf: "chain_enc 46 (p # ps) @ sk = b # c # be_enc 2 m @ pl_data p @ (chain_enc 46 ps @ sk)"
    by (simp add: b_def c_def m_def)
  note s = chain_step [OF m(2,1), of b c "chain_enc 46 ps @ sk"]
  show ?case
    unfolding buf using Cons m(2) s t
    by (subst walk_to_sk.simps) (simp add: type_after_def payload_ok_def not_critical_def ike_numbers)
qed

section \<open>An encrypted message is opened\<close>

definition header_ok :: "ike_header \<Rightarrow> bool" where
  "header_ok h \<longleftrightarrow> length (ih_spi_i h) = 8 \<and> ih_spi_i h \<noteq> zeros 8 \<and> length (ih_spi_r h) = 8 \<and>
     octet (ih_next h) \<and> octet (ih_version h) \<and> octet (ih_exchange h) \<and> octet (ih_flags h) \<and>
     0 \<le> ih_msg_id h \<and> ih_msg_id h < 2 ^ 32 \<and> 0 \<le> ih_len h \<and> ih_len h < 2 ^ 32"

definition header_enc :: "ike_header \<Rightarrow> bytes" where
  "header_enc h = ih_spi_i h @ ih_spi_r h @
     [byte_of (nat (ih_next h)), byte_of (nat (ih_version h)), byte_of (nat (ih_exchange h)), byte_of (nat (ih_flags h))] @
     be_enc 4 (nat (ih_msg_id h)) @ be_enc 4 (nat (ih_len h))"

lemma header_marshal_enc: "header_ok h \<Longrightarrow> header_marshal h = Inr (header_enc h)"
  by (simp add: header_marshal_def header_ok_def header_enc_def fits packs_cons del: py_bytes.simps(2))

lemma length_header_enc: "header_ok h \<Longrightarrow> length (header_enc h) = 28"
  by (simp add: header_enc_def header_ok_def)

lemma be_val_4: "0 \<le> n \<Longrightarrow> n < 2 ^ 32 \<Longrightarrow> int (be_val (be_enc 4 (nat n))) = n"
  by (simp add: be_val_be_enc nat_less_iff)

lemma parse_header_enc:
  assumes "header_ok h"
  shows "parse_header (header_enc h @ rest) = Inr h"
proof -
  let ?b = "header_enc h @ rest"
  let ?four = "[byte_of (nat (ih_next h)), byte_of (nat (ih_version h)), byte_of (nat (ih_exchange h)),
    byte_of (nat (ih_flags h))]"
  have l: "length (ih_spi_i h) = 8" "length (ih_spi_r h) = 8" using assms by (auto simp: header_ok_def)
  have p: "take 8 ?b = ih_spi_i h" "slice 8 16 ?b = ih_spi_r h"
    using l by (simp_all add: header_enc_def slice_def)
  have "slice 16 20 ?b = ?four"
    using slice_append_middle [of 16 "ih_spi_i h @ ih_spi_r h" 20 ?four] l by (simp add: header_enc_def)
  then have n: "?b ! 16 = ?four ! 0" "?b ! 17 = ?four ! 1" "?b ! 18 = ?four ! 2" "?b ! 19 = ?four ! 3"
    using l by (simp_all add: header_enc_def nth_append)
  have m: "slice 20 24 ?b = be_enc 4 (nat (ih_msg_id h))" "slice 24 28 ?b = be_enc 4 (nat (ih_len h))"
    using slice_append_middle [of 20 "ih_spi_i h @ ih_spi_r h @ ?four" 24 "be_enc 4 (nat (ih_msg_id h))"]
      slice_append_middle [of 24 "ih_spi_i h @ ih_spi_r h @ ?four @ be_enc 4 (nat (ih_msg_id h))" 28
        "be_enc 4 (nat (ih_len h))"] l
    by (simp_all add: header_enc_def)
  have "\<not> length ?b < HEADER_LEN" using length_header_enc [OF assms] by (simp add: ike_numbers)
  then show ?thesis
    using assms unfolding parse_header_def Let_def p n m
    by (simp add: header_ok_def octet_mod be_val_4)
qed

lemma parse_header_prefix: "length H = 28 \<Longrightarrow> parse_header (H @ x) = parse_header H"
  by (simp add: parse_header_def ike_numbers slice_append_left nth_append Let_def)

lemma decrypt_split:
  assumes "length H = 28" "parse_header H = Inr hdr" "ih_len hdr = int (length (H @ pre @ sk))"
    and "walk_to_sk (pre @ sk) (ih_next hdr) = Inr (ps, sk, n)"
  shows "decrypt_message dec hmac (H @ pre @ sk) ekey ikey =
     rbind (open_sk dec hmac (H @ pre) (take 4 sk) (slice 4 n sk) ekey ikey) (\<lambda>inner. Inr (hdr, ps, inner))"
proof -
  have "slice 28 (28 + length pre) (H @ pre @ sk) = pre" "length (H @ pre @ sk) - length sk = 28 + length pre"
    using slice_append_middle [of 28 H "28 + length pre" pre sk] assms(1) by simp_all
  then show ?thesis
    using assms by (simp add: decrypt_message_def parse_header_prefix ike_numbers Let_def del: length_append)
qed

lemma sk_pad_len_block: "(n + 1 + sk_pad_len n) mod 16 = 0" "sk_pad_len n < 16"
proof -
  have "(n + 1) mod 16 < 16" by simp
  moreover have "(n + 1 + (16 - (n + 1) mod 16)) mod 16 = 0"
  proof -
    have "n + 1 + (16 - (n + 1) mod 16) = (n + 1) div 16 * 16 + 16"
      using div_mult_mod_eq [of "n + 1" 16] calculation by linarith
    then show ?thesis by simp
  qed
  ultimately show "(n + 1 + sk_pad_len n) mod 16 = 0" "sk_pad_len n < 16"
    by (auto simp: sk_pad_len_def Let_def)
qed

definition cbc_ok :: "cbc_fun \<Rightarrow> cbc_fun \<Rightarrow> bool" where
  \<comment> \<open>whole blocks keep their length and decryption undoes encryption\<close>
  "cbc_ok enc dec \<longleftrightarrow> (\<forall>k v d. length d mod 16 = 0 \<longrightarrow> length (enc k v d) = length d \<and> dec k v (enc k v d) = d)"

definition chain_size :: "payload list \<Rightarrow> nat" where
  "chain_size ps = sum_list (map (\<lambda>p. 4 + length (pl_data p)) ps)"

lemma length_chain_enc: "length (chain_enc fin ps) = chain_size ps"
  by (induction ps) (auto simp: chain_size_def)

definition sealed_header :: "ike_header \<Rightarrow> payload list \<Rightarrow> nat \<Rightarrow> ike_header" where
  "sealed_header hdr pre sk_len =
     hdr\<lparr>ih_next := type_after pre PAYLOAD_SK, ih_len := int (HEADER_LEN + chain_size pre + sk_len)\<rparr>"

definition sk_size :: "payload list \<Rightarrow> nat" where
  \<comment> \<open>the length of the encrypted payload: header, initialisation vector, padded chain, check value\<close>
  "sk_size inner = 36 + (chain_size inner + sk_pad_len (chain_size inner) + 1)"

definition sealed :: "cbc_fun \<Rightarrow> bytes \<Rightarrow> ike_header \<Rightarrow> payload list \<Rightarrow> payload list \<Rightarrow> bytes \<Rightarrow> bytes" where
  \<comment> \<open>everything the check value covers\<close>
  "sealed enc iv hdr pre inner ekey =
     header_enc (sealed_header hdr pre (sk_size inner)) @ chain_enc 46 pre @
     (byte_of (nat (pl_type (hd inner))) # byte_of 0 # be_enc 2 (sk_size inner) @ iv @
      enc ekey iv (chain_enc 0 inner @ zeros (sk_pad_len (chain_size inner)) @ [byte_of (sk_pad_len (chain_size inner))]))"

lemma sealed_header_ok:
  assumes "header_ok hdr" "list_all payload_ok pre" "chain_size pre + k < 2 ^ 31" "k < 2 ^ 16"
  shows "header_ok (sealed_header hdr pre k)"
proof -
  have "octet (type_after pre 46)" using assms(2) by (intro type_after_octet) auto
  with assms show ?thesis by (simp add: header_ok_def sealed_header_def ike_numbers)
qed

lemma encrypted_message_value:
  assumes "header_ok hdr" "list_all payload_ok pre" "inner \<noteq> []" "list_all payload_ok inner"
    and "length iv = 16" "cbc_ok enc dec" "chain_size pre < 2 ^ 30" "chain_size inner < 65000"
  shows "encrypted_message enc hmac iv hdr pre inner ekey ikey =
     Inr (sealed enc iv hdr pre inner ekey @ hmac_sha256_128 hmac ikey (sealed enc iv hdr pre inner ekey))"
proof -
  obtain p ps where inner: "inner = p # ps" using assms(3) by (cases inner) auto
  let ?n = "chain_size inner" and ?pad = "sk_pad_len (chain_size inner)"
  let ?plain = "chain_enc 0 inner @ zeros ?pad @ [byte_of ?pad]"
  have mp: "marshal_payloads inner = Inr (chain_enc 0 inner, pl_type p)"
    using marshal_chain_enc [OF assms(4)] by (simp add: marshal_payloads_def inner)
  have pad: "?pad < 16" by (rule sk_pad_len_block)
  have ct: "length (enc ekey iv ?plain) = ?n + ?pad + 1"
    using assms(6) sk_pad_len_block(1) [of ?n] by (simp add: cbc_ok_def length_chain_enc ac_simps)
  have len: "4 + (length iv + length (enc ekey iv ?plain) + 16) = sk_size inner"
    using ct assms(5) by (simp add: sk_size_def)
  have small: "sk_size inner < 65536" using assms(8) pad by (simp add: sk_size_def)
  have pt: "py_bytes [pl_type p, 0] = Inr [byte_of (nat (pl_type p)), byte_of 0]"
    using assms(4) inner by (simp add: payload_ok_def fits del: py_bytes.simps(2))
  have hok: "header_ok (sealed_header hdr pre (sk_size inner))"
    using assms small by (intro sealed_header_ok) simp_all
  have hm: "header_marshal (hdr\<lparr>ih_next := type_after pre PAYLOAD_SK,
      ih_len := int (HEADER_LEN + length (chain_enc 46 pre) + sk_size inner)\<rparr>) =
    Inr (header_enc (sealed_header hdr pre (sk_size inner)))"
    using header_marshal_enc [OF hok] by (simp add: sealed_header_def length_chain_enc)
  have hd: "hd inner = p" by (simp add: inner)
  show ?thesis
    using assms(3)
    unfolding encrypted_message_def mp rbind.simps prod.case Let_def length_chain_enc len pt
      pack_H_nat [OF small] preceding_chain_enc [OF assms(2)] hm [unfolded length_chain_enc] sealed_def hd
    by simp
qed

lemma sealed_parts:
  assumes "length iv = 16" "cbc_ok enc dec" "chain_size inner < 65000" "inner \<noteq> []" "list_all payload_ok inner"
    and plain_def: "plain = chain_enc 0 inner @ zeros (sk_pad_len (chain_size inner)) @ [byte_of (sk_pad_len (chain_size inner))]"
    and sk_def: "sk = byte_of (nat (pl_type (hd inner))) # byte_of 0 # be_enc 2 (sk_size inner) @ (iv @ enc ekey iv plain @ icv)"
    and "length icv = 16"
  shows "length sk = sk_size inner" "be_val (slice 2 4 sk) = sk_size inner" "4 \<le> sk_size inner"
    and "take 4 sk = byte_of (nat (pl_type (hd inner))) # byte_of 0 # be_enc 2 (sk_size inner)"
    and "slice 4 (sk_size inner) sk = iv @ enc ekey iv plain @ icv"
    and "length (enc ekey iv plain) = chain_size inner + sk_pad_len (chain_size inner) + 1"
    and "dec ekey iv (enc ekey iv plain) = plain"
    and "length (enc ekey iv plain) mod 16 = 0"
    and "int (unat (sk ! 0)) = type_after inner 0"
proof -
  have blk: "length plain mod 16 = 0"
    using sk_pad_len_block(1) [of "chain_size inner"] by (simp add: plain_def length_chain_enc ac_simps)
  show ct: "length (enc ekey iv plain) = chain_size inner + sk_pad_len (chain_size inner) + 1"
    and "dec ekey iv (enc ekey iv plain) = plain" and "length (enc ekey iv plain) mod 16 = 0"
    using assms(2) blk by (simp_all add: cbc_ok_def) (simp add: plain_def length_chain_enc)
  have n: "sk_size inner = 4 + length (iv @ enc ekey iv plain @ icv)" "sk_size inner < 65536"
    using assms(1,3,8) ct sk_pad_len_block(2) [of "chain_size inner"] by (simp_all add: sk_size_def)
  note s = chain_step [OF n, of "byte_of (nat (pl_type (hd inner)))" "byte_of 0" "[]", unfolded append_Nil2]
  show "length sk = sk_size inner" "be_val (slice 2 4 sk) = sk_size inner"
    "slice 4 (sk_size inner) sk = iv @ enc ekey iv plain @ icv"
    using s by (simp_all only: sk_def) simp
  show "4 \<le> sk_size inner" by (simp add: sk_size_def)
  show "take 4 sk = byte_of (nat (pl_type (hd inner))) # byte_of 0 # be_enc 2 (sk_size inner)"
    by (simp add: sk_def take_Cons')
  show "int (unat (sk ! 0)) = type_after inner 0"
    using assms(4,5) by (cases inner) (auto simp: sk_def payload_ok_def type_after_def octet_mod)
qed

lemma sealed_opened:
  assumes "header_ok hdr" and "list_all payload_ok pre" "list_all (\<lambda>p. pl_type p \<noteq> PAYLOAD_SK) pre"
    and "inner \<noteq> []" "list_all payload_ok inner" and "length iv = 16" and "cbc_ok enc dec"
    and "\<forall>k m. 16 \<le> length (hmac k m)" and "chain_size pre < 2 ^ 30" "chain_size inner < 65000"
  shows "\<exists>body icv. encrypted_message enc hmac iv hdr pre inner ekey ikey = Inr (body @ icv) \<and> length icv = 16 \<and>
    decrypt_message dec hmac (body @ icv) ekey ikey =
      Inr (sealed_header hdr pre (sk_size inner), map not_critical pre, inner) \<and>
    (\<forall>bad. length bad = 16 \<and> bad \<noteq> icv \<longrightarrow>
       decrypt_message dec hmac (body @ bad) ekey ikey = Inl (ValueError ''RFC 7296 3.14: ICV mismatch''))"
proof -
  define body where "body = sealed enc iv hdr pre inner ekey"
  define icv where "icv = hmac_sha256_128 hmac ikey body"
  have icv: "length icv = 16" using assms(8) by (simp add: icv_def hmac_sha256_128_def)
  have built: "encrypted_message enc hmac iv hdr pre inner ekey ikey = Inr (body @ icv)"
    unfolding body_def icv_def using assms by (intro encrypted_message_value) simp_all
  let ?pad = "sk_pad_len (chain_size inner)"
  define plain where "plain = chain_enc 0 inner @ zeros ?pad @ [byte_of ?pad]"
  let ?h = "sealed_header hdr pre (sk_size inner)"
  have small: "sk_size inner < 2 ^ 16"
    using assms(10) sk_pad_len_block(2) [of "chain_size inner"] by (simp add: sk_size_def)
  then have hok: "header_ok ?h" using assms(1,2,9) by (intro sealed_header_ok) simp_all
  have "decrypt_message dec hmac (body @ c) ekey ikey =
      (if c = icv then Inr (?h, map not_critical pre, inner)
       else Inl (ValueError ''RFC 7296 3.14: ICV mismatch''))" if c: "length c = 16" for c
  proof -
    define sk where "sk = byte_of (nat (pl_type (hd inner))) # byte_of 0 # be_enc 2 (sk_size inner) @
      (iv @ enc ekey iv plain @ c)"
    note sp = sealed_parts [OF assms(6,7,10,4,5) plain_def sk_def c]
    have msg: "body @ c = header_enc ?h @ chain_enc 46 pre @ sk"
      by (simp add: body_def sealed_def sk_def plain_def)
    have hl: "length (header_enc ?h) = 28" by (rule length_header_enc [OF hok])
    have header: "parse_header (header_enc ?h) = Inr ?h" using parse_header_enc [OF hok, of "[]"] by simp
    have len: "ih_len ?h = int (length (header_enc ?h @ chain_enc 46 pre @ sk))"
      using hl sp(1) by (simp add: sealed_header_def ike_numbers length_chain_enc)
    have walk: "walk_to_sk (chain_enc 46 pre @ sk) (ih_next ?h) = Inr (map not_critical pre, sk, sk_size inner)"
      using walk_chain_enc [OF assms(2) _ _ sp(2,3)] assms(3) sp(1,3)
      by (simp add: sealed_header_def ike_numbers)
    have body: "(header_enc ?h @ chain_enc 46 pre) @ take 4 sk @ iv @ enc ekey iv plain = body"
      unfolding sp(4) by (simp add: body_def sealed_def plain_def)
    have cut: "take 16 (iv @ enc ekey iv plain @ c) = iv"
      "slice 16 (length (iv @ enc ekey iv plain @ c) - 16) (iv @ enc ekey iv plain @ c) = enc ekey iv plain"
      "drop (length (iv @ enc ekey iv plain @ c) - 16) (iv @ enc ekey iv plain @ c) = c"
      "(length (iv @ enc ekey iv plain @ c) < 16 + 16) = False"
      using assms(6) c by (simp_all add: slice_def)
    have last: "last plain = byte_of ?pad" "plain \<noteq> []" "length plain = chain_size inner + ?pad + 1"
      "take (length plain - ?pad - 1) plain = chain_enc 0 inner"
      by (simp_all add: plain_def length_chain_enc)
    have pad: "unat (byte_of ?pad) = ?pad" using sk_pad_len_block(2) [of "chain_size inner"] by simp
    have parse: "parse_payloads (chain_enc 0 inner) (type_after inner 0) = Inr inner"
      using parse_chain_enc [OF assms(5), of "[]"] by simp
    have first: "int (unat (take 4 sk ! 0)) = type_after inner 0" using sp(9) by simp
    have "open_sk dec hmac (header_enc ?h @ chain_enc 46 pre) (take 4 sk) (slice 4 (sk_size inner) sk) ekey ikey =
        (if c = icv then Inr inner else Inl (ValueError ''RFC 7296 3.14: ICV mismatch''))"
      unfolding open_sk_def sp(5) Let_def first cut sp(7) body icv_def [symmetric] last(1,4) pad parse
      using sp(8) last(2,3) by auto
    then show ?thesis
      unfolding msg decrypt_split [OF hl header len walk] by simp
  qed
  with built icv show ?thesis by (intro exI [of _ body] exI [of _ icv]) simp
qed


definition example_header :: ike_header where
  "example_header = \<lparr>ih_spi_i = byte_of 1 # zeros 7, ih_spi_r = byte_of 2 # zeros 7, ih_next = 0,
     ih_exchange = EXCHANGE_IKE_AUTH, ih_flags = FLAG_INITIATOR, ih_msg_id = 1, ih_len = 0,
     ih_version = VERSION_BYTE\<rparr>"

definition example_payload :: payload where
  "example_payload = \<lparr>pl_type = 48, pl_data = [byte_of 7], pl_critical = True\<rparr>"

lemma example_ok:
  "header_ok example_header" "payload_ok example_payload" "cbc_ok (\<lambda>k v d. d) (\<lambda>k v d. d)"
  "chain_size [example_payload] = 5"
  by (simp_all add: header_ok_def example_header_def ike_numbers zeros_def byte_of_eq_iff Cons_replicate_eq
      payload_ok_def example_payload_def cbc_ok_def chain_size_def)


section \<open>What the check value covers\<close>

lemma walk_to_sk_split:
  "walk_to_sk buf cur = Inr (ps, sk, n) \<Longrightarrow>
   \<exists>pre. buf = pre @ sk \<and> 4 \<le> n \<and> n \<le> length sk \<and>
     (\<forall>t. length t = length sk - n \<longrightarrow> walk_to_sk (pre @ take n sk @ t) cur = Inr (ps, take n sk @ t, n))"
proof (induction buf cur arbitrary: ps rule: walk_to_sk.induct)
  case (1 buf cur)
  define l where "l = be_val (slice 2 4 buf)"
  have g: "cur \<noteq> 0" "4 \<le> length buf" "4 \<le> l" "l \<le> length buf"
    using "1.prems" by (auto simp: walk_to_sk.simps [of buf cur] l_def Let_def split: if_splits)
  have head: "be_val (slice 2 4 (x @ y)) = be_val (slice 2 4 x)" "(x @ y) ! 0 = x ! 0" if "4 \<le> length x" for x y :: bytes
    using that by (auto simp: slice_append_left nth_append)
  show ?case
  proof (cases "cur = PAYLOAD_SK")
    case True
    then have r: "ps = []" "sk = buf" "n = l"
      using "1.prems" g by (auto simp: walk_to_sk.simps [of buf PAYLOAD_SK] l_def Let_def)
    have "walk_to_sk (take n buf @ t) cur = Inr ([], take n buf @ t, n)" if "length t = length buf - n" for t
    proof -
      have "be_val (slice 2 4 (take n buf @ t)) = l"
        using g r head(1) [of "take n buf"] head(1) [of "take n buf" "drop n buf"] by (simp add: l_def)
      then show ?thesis using g r True that by (subst walk_to_sk.simps) (simp add: Let_def)
    qed
    then show ?thesis using r g by (intro exI [of _ "[]"]) simp
  next
    case False
    then obtain ps' where w: "walk_to_sk (drop l buf) (int (unat (buf ! 0))) = Inr (ps', sk, n)"
      and ps: "ps = \<lparr>pl_type = cur, pl_data = slice 4 l buf, pl_critical = False\<rparr> # ps'"
      using "1.prems" g by (auto simp: walk_to_sk.simps [of buf cur] l_def Let_def rbind_eq_Inr)
    have "\<exists>pre. drop l buf = pre @ sk \<and> 4 \<le> n \<and> n \<le> length sk \<and>
        (\<forall>t. length t = length sk - n \<longrightarrow>
          walk_to_sk (pre @ take n sk @ t) (int (unat (buf ! 0))) = Inr (ps', take n sk @ t, n))"
      using "1.IH" [of "int (unat (buf ! 0))" l ps'] g False w by (simp add: l_def)
    then obtain pre where pre: "drop l buf = pre @ sk" "4 \<le> n" "n \<le> length sk"
      and ih: "\<And>t. length t = length sk - n \<Longrightarrow>
          walk_to_sk (pre @ take n sk @ t) (int (unat (buf ! 0))) = Inr (ps', take n sk @ t, n)" by blast
    have buf: "buf = take l buf @ pre @ sk" using pre(1) append_take_drop_id [of l buf] by simp
    have "walk_to_sk ((take l buf @ pre) @ take n sk @ t) cur = Inr (ps, take n sk @ t, n)"
      if "length t = length sk - n" for t
    proof -
      let ?b = "take l buf @ (pre @ take n sk @ t)"
      have "be_val (slice 2 4 ?b) = l" "?b ! 0 = buf ! 0" "slice 4 l ?b = slice 4 l buf" "drop l ?b = pre @ take n sk @ t"
        using g head [of "take l buf" "pre @ take n sk @ t"] head [of "take l buf" "pre @ sk"] buf
        by (simp_all add: l_def [symmetric]) (simp_all add: slice_def l_def)
      then show ?thesis using g False ih [OF that] ps by (subst walk_to_sk.simps) (simp add: Let_def)
    qed
    with buf pre show ?thesis by (intro exI [of _ "take l buf @ pre"]) simp
  qed
qed

text \<open>
  C23: An accepted message is authentic up to the end of the encrypted payload and no further: it
  consists of a body, the check value computed over that whole body under the receiver's key, and
  octets behind the payload, of which only the number is protected - any others of the same number
  give the same result.\<close>

theorem ike_authenticated_part:
  assumes "decrypt_message dec hmac msg ekey ikey = Inr r"
  shows "\<exists>body icv trail. msg = body @ icv @ trail \<and> length icv = 16 \<and> hmac_sha256_128 hmac ikey body = icv \<and>
     (\<forall>t. length t = length trail \<longrightarrow> decrypt_message dec hmac (body @ icv @ t) ekey ikey = Inr r)"
proof -
  obtain hdr where hdr: "parse_header msg = Inr hdr" "ih_len hdr = int (length msg)"
    using assms by (auto simp: decrypt_message_def rbind_eq_Inr split: if_splits)
  then obtain ps sk n where w: "walk_to_sk (drop HEADER_LEN msg) (ih_next hdr) = Inr (ps, sk, n)"
    using assms by (auto simp: decrypt_message_def rbind_eq_Inr split: if_splits)
  obtain pre where pre: "drop HEADER_LEN msg = pre @ sk" "4 \<le> n" "n \<le> length sk"
    and other: "\<And>t. length t = length sk - n \<Longrightarrow>
      walk_to_sk (pre @ take n sk @ t) (ih_next hdr) = Inr (ps, take n sk @ t, n)"
    using walk_to_sk_split [OF w] by blast
  define H where "H = take HEADER_LEN msg"
  have H: "length H = 28" "msg = H @ pre @ sk"
    using hdr(1) pre(1) append_take_drop_id [of HEADER_LEN msg]
    by (auto simp: H_def parse_header_def ike_numbers split: if_splits)
  have long: "32 \<le> length (slice 4 n sk)"
    using assms by (auto simp: decrypt_message_def open_sk_def hdr w Let_def split: if_splits)
  define s where "s = slice 4 n sk"
  define icv where "icv = drop (length s - 16) s"
  define body where "body = H @ pre @ take 4 sk @ take (length s - 16) s"
  have head: "take n sk = take 4 sk @ s"
    using pre(2) slice_join [of 0 4 n sk] by (simp add: s_def)
  have cut: "take n sk = take 4 sk @ take (length s - 16) s @ icv" by (simp add: head icv_def)
  have iv: "take 16 s @ slice 16 (length s - 16) s = take (length s - 16) s"
    using long slice_join [of 0 16 "length s - 16" s] by (simp add: s_def)
  have header: "parse_header H = Inr hdr" using hdr(1) parse_header_prefix [OF H(1)] by (simp add: H(2))
  have msg: "decrypt_message dec hmac msg ekey ikey =
      rbind (open_sk dec hmac (H @ pre) (take 4 sk) s ekey ikey) (\<lambda>inner. Inr (hdr, ps, inner))"
    using decrypt_split [OF H(1) header, of pre sk ps n] hdr(2) w pre(1) by (simp add: H(2) s_def)
  have same: "take 4 (take n sk @ t) = take 4 sk" "slice 4 n (take n sk @ t) = s" for t
    using pre by (simp_all add: s_def slice_def)
  have "decrypt_message dec hmac (H @ pre @ take n sk @ t) ekey ikey = Inr r" if "length t = length sk - n" for t
  proof -
    have len: "ih_len hdr = int (length (H @ pre @ take n sk @ t))" using hdr(2) pre(3) that by (simp add: H(2))
    show ?thesis
      unfolding decrypt_split [OF H(1) header len other [OF that]] same msg [symmetric] by (rule assms)
  qed
  moreover have "hmac_sha256_128 hmac ikey body = icv"
    using assms msg iv long by (auto simp: open_sk_def Let_def body_def icv_def s_def split: if_splits)
  moreover have eq: "body @ icv @ t = H @ pre @ take n sk @ t" for t by (simp add: body_def cut)
  moreover have "H @ pre @ take n sk @ drop n sk = msg" by (simp add: H(2))
  moreover have "length icv = 16" using long by (simp add: icv_def s_def)
  ultimately have "msg = body @ icv @ drop n sk \<and> length icv = 16 \<and> hmac_sha256_128 hmac ikey body = icv \<and>
      (\<forall>t. length t = length (drop n sk) \<longrightarrow> decrypt_message dec hmac (body @ icv @ t) ekey ikey = Inr r)"
    unfolding eq by simp
  then show ?thesis by blast
qed

theorem ike_authenticated_part_witness:
  "\<exists>msg body icv trail r. decrypt_message (\<lambda>k v d. d) (\<lambda>k m. zeros 32) msg [] [] = Inr r \<and>
     msg = body @ icv @ trail \<and> length icv = 16 \<and> hmac_sha256_128 (\<lambda>k m. zeros 32) [] body = icv"
proof -
  obtain msg where r: "decrypt_message (\<lambda>k v d. d) (\<lambda>k m. zeros 32) msg [] [] =
       Inr (sealed_header example_header [] (sk_size [example_payload]), [], [example_payload])"
    using sealed_opened [of example_header "[]" "[example_payload]" "zeros 16" "\<lambda>k v d. d" "\<lambda>k v d. d"
      "\<lambda>k m. zeros 32" "[]" "[]"] example_ok
    by (simp add: chain_size_def [of "[]"]) blast
  from ike_authenticated_part [OF r] r show ?thesis by blast
qed

section \<open>Payload bodies are read back\<close>

lemma be_enc_pair: "be_enc 2 n = [byte_of (n div 256), byte_of n]"
  by (simp add: numeral_2_eq_2)

lemma be_enc_Nil [simp]: "be_enc k n = [] \<longleftrightarrow> k = 0"
  using length_be_enc [of k n] by (auto simp del: length_be_enc)

lemma be_val_pair: "u16 n \<Longrightarrow> int (be_val [byte_of (nat n div 256), byte_of (nat n)]) = n"
  using u16_val [of n] by (simp add: be_enc_pair)

lemma be_val_pair_nat: "n < 65536 \<Longrightarrow> be_val [byte_of (n div 256), byte_of n] = n"
  using be_val_enc_2 [of n] by (simp only: be_enc_pair)

lemmas cons_slices = slice_def take_Cons' drop_Cons' nth_Cons'

definition ts_ok :: "traffic_selector \<Rightarrow> bool" where
  "ts_ok s \<longleftrightarrow> octet (ts_proto s) \<and> u16 (ts_port_lo s) \<and> u16 (ts_port_hi s) \<and>
     ts_type s \<in> {TS_IPV4_ADDR_RANGE, TS_IPV6_ADDR_RANGE} \<and>
     (let n = (if ts_type s = TS_IPV4_ADDR_RANGE then 4 else 16) in
      length (ts_addr_lo s) = n \<and> length (ts_addr_hi s) = n)"

lemma selector_read:
  assumes "ts_ok s"
  shows "\<exists>b. ts_marshal s = Inr b \<and> parse_selector (b @ rest) = Inr (s, rest)"
proof -
  define n :: nat where "n = (if ts_type s = TS_IPV4_ADDR_RANGE then 4 else 16)"
  have f: "octet (ts_proto s)" "u16 (ts_port_lo s)" "u16 (ts_port_hi s)" "octet (ts_type s)"
    "ts_addr_len (ts_type s) = Inr n" "length (ts_addr_lo s) = n" "length (ts_addr_hi s) = n" "n \<le> 16"
    using assms by (auto simp: ts_ok_def n_def ts_addr_len_def ike_numbers Let_def split: if_splits)
  define b where "b = byte_of (nat (ts_type s)) # byte_of (nat (ts_proto s)) # be_enc 2 (8 + 2 * n) @
      be_enc 2 (nat (ts_port_lo s)) @ be_enc 2 (nat (ts_port_hi s)) @ ts_addr_lo s @ ts_addr_hi s"
  have "packs [(2, int (8 + 2 * n)), (2, ts_port_lo s), (2, ts_port_hi s)] =
      Inr (be_enc 2 (8 + 2 * n) @ be_enc 2 (nat (ts_port_lo s)) @ be_enc 2 (nat (ts_port_hi s)))"
  proof -
    have "u16 (8 + 2 * int n)" "nat (8 + 2 * int n) = 8 + 2 * n" using f(8) by (simp_all add: u16_def)
    then show ?thesis using f by (simp add: packs_u16)
  qed
  then have enc: "ts_marshal s = Inr b"
    using f by (simp add: ts_marshal_def b_def fits del: py_bytes.simps(2))
  have sel: "be_val (slice 2 4 (b @ rest)) = 8 + 2 * n"
    using f(8) by (simp add: b_def)
  have ports: "int (be_val (slice 4 6 (b @ rest))) = ts_port_lo s" "int (be_val (slice 6 8 (b @ rest))) = ts_port_hi s"
    using f by (simp_all add: b_def be_enc_pair cons_slices be_val_pair)
  have addr: "slice 8 (8 + n) (b @ rest) = ts_addr_lo s" "slice (8 + n) (8 + 2 * n) (b @ rest) = ts_addr_hi s"
    "drop (8 + 2 * n) (b @ rest) = rest" "length b = 8 + 2 * n"
    using f by (simp_all add: b_def be_enc_pair cons_slices)
  have head: "int (unat ((b @ rest) ! 0)) = ts_type s" "int (unat ((b @ rest) ! 1)) = ts_proto s"
    using f by (simp_all add: b_def octet_mod)
  have "parse_selector (b @ rest) = Inr (s, rest)"
    unfolding parse_selector_def Let_def head sel ports f(5) rbind.simps addr(1-3)
    using addr(4) by simp
  with enc show ?thesis by blast
qed

definition ts_list_ok :: "traffic_selector list \<Rightarrow> bool" where
  "ts_list_ok ss \<longleftrightarrow> ss \<noteq> [] \<and> length ss \<le> 255 \<and> list_all ts_ok ss"

lemma selectors_read:
  "list_all ts_ok ss \<Longrightarrow>
   \<exists>bs. rmap ts_marshal ss = Inr bs \<and> parse_selectors (length ss) (concat bs) = Inr ss"
proof (induction ss)
  case (Cons s ss)
  then obtain bs where bs: "rmap ts_marshal ss = Inr bs" "parse_selectors (length ss) (concat bs) = Inr ss" by auto
  obtain b where "ts_marshal s = Inr b" "parse_selector (b @ concat bs) = Inr (s, concat bs)"
    using selector_read [of s "concat bs"] Cons.prems by auto
  with bs show ?case by simp
qed simp

lemma ts_read: "ts_list_ok ss \<Longrightarrow> \<exists>b. marshal_ts ss = Inr b \<and> parse_ts b = Inr ss"
proof -
  assume ok: "ts_list_ok ss"
  then obtain bs where bs: "rmap ts_marshal ss = Inr bs" "parse_selectors (length ss) (concat bs) = Inr ss"
    using selectors_read [of ss] by (auto simp: ts_list_ok_def)
  let ?b = "[byte_of (length ss), byte_of 0, byte_of 0, byte_of 0] @ concat bs"
  have len: "length ss < 256" using ok by (simp add: ts_list_ok_def)
  then have "marshal_ts ss = Inr ?b"
    using ok bs by (simp add: marshal_ts_def ts_list_ok_def py_byte_def)
  moreover have "drop 4 ?b = concat bs" "unat (?b ! 0) = length ss" "\<not> length ?b < 4" using len by simp_all
  ultimately show ?thesis using bs by (simp only: parse_ts_def) (simp add: len)
qed

interpretation ts: codec marshal_ts parse_ts ts_list_ok
  by unfold_locales (use ts_read in fastforce)+

definition cp_attr_ok :: "cp_attribute \<Rightarrow> bool" where
  "cp_attr_ok a \<longleftrightarrow> 0 \<le> ca_type a \<and> ca_type a < 0x8000 \<and> length (ca_value a) < 65536"

definition cp_ok :: "cp \<Rightarrow> bool" where
  "cp_ok c \<longleftrightarrow> octet (cp_cfg c) \<and> list_all cp_attr_ok (cp_attrs c)"

lemma mask15: "0 \<le> (a :: int) \<Longrightarrow> a < 0x8000 \<Longrightarrow> a AND 0x7FFF = a" "(n :: nat) < 0x8000 \<Longrightarrow> n AND 0x7FFF = n"
  using int_and_mask [of a 15] nat_and_mask [of n 15] by simp_all

lemma cp_attrs_read:
  "list_all cp_attr_ok as \<Longrightarrow>
   \<exists>bs. rmap cp_attr_marshal as = Inr bs \<and> parse_cp_attrs (concat bs) = Inr as"
proof (induction as)
  case Nil
  then show ?case by (simp add: parse_cp_attrs.simps)
next
  case (Cons a as)
  then obtain bs where bs: "rmap cp_attr_marshal as = Inr bs" "parse_cp_attrs (concat bs) = Inr as" by auto
  have ok: "0 \<le> ca_type a" "ca_type a < 0x8000" "length (ca_value a) < 65536" "u16 (ca_type a)"
    using Cons.prems by (auto simp: cp_attr_ok_def u16_def)
  let ?b = "be_enc 2 (nat (ca_type a)) @ be_enc 2 (length (ca_value a)) @ ca_value a"
  have "cp_attr_marshal a = Inr ?b"
    using ok by (simp add: cp_attr_marshal_def mask15 packs_u16)
  moreover have "parse_cp_attrs (?b @ concat bs) = Inr (a # as)"
  proof -
    have "be_val (take 2 (?b @ concat bs)) AND 0x7FFF = nat (ca_type a)"
      using ok by (simp add: mask15 nat_less_iff)
    moreover have "be_val (slice 2 4 (?b @ concat bs)) = length (ca_value a)"
      "slice 4 (4 + length (ca_value a)) (?b @ concat bs) = ca_value a"
      "drop (4 + length (ca_value a)) (?b @ concat bs) = concat bs"
      using ok by (simp_all add: be_enc_pair cons_slices be_val_pair_nat)
    ultimately show ?thesis using ok bs by (subst parse_cp_attrs.simps) (simp add: Let_def)
  qed
  ultimately show ?case using bs by simp
qed

lemma cp_read: "cp_ok c \<Longrightarrow> \<exists>b. cp_marshal c = Inr b \<and> parse_cp b = Inr c"
proof -
  assume ok: "cp_ok c"
  then obtain bs where bs: "rmap cp_attr_marshal (cp_attrs c) = Inr bs" "parse_cp_attrs (concat bs) = Inr (cp_attrs c)"
    using cp_attrs_read [of "cp_attrs c"] by (auto simp: cp_ok_def)
  with ok have "cp_marshal c = Inr ([byte_of (nat (cp_cfg c)), byte_of 0, byte_of 0, byte_of 0] @ concat bs)"
    by (simp add: cp_marshal_def cp_ok_def fits del: py_bytes.simps(2))
  then show ?thesis using ok bs by (simp add: parse_cp_def cp_ok_def octet_mod)
qed

interpretation cp: codec cp_marshal parse_cp cp_ok
  by unfold_locales (use cp_read in fastforce)+

definition notify_ok :: "notify \<Rightarrow> bool" where
  "notify_ok n \<longleftrightarrow> octet (no_proto n) \<and> u16 (no_type n) \<and> length (no_spi n) \<le> 255"

lemma notify_read: "notify_ok n \<Longrightarrow> \<exists>b. notify_marshal n = Inr b \<and> parse_notify b = Inr n"
proof -
  assume ok: "notify_ok n"
  let ?b = "byte_of (nat (no_proto n)) # byte_of (length (no_spi n)) # be_enc 2 (nat (no_type n)) @ no_spi n @ no_data n"
  have "notify_marshal n = Inr ?b"
    using ok by (simp add: notify_marshal_def notify_ok_def fits del: py_bytes.simps(2))
  moreover have "int (be_val (slice 2 4 ?b)) = no_type n" "slice 4 (4 + length (no_spi n)) ?b = no_spi n"
    "drop (4 + length (no_spi n)) ?b = no_data n"
    using ok by (simp_all add: notify_ok_def be_enc_pair cons_slices be_val_pair)
  ultimately show ?thesis using ok by (simp add: parse_notify_def notify_ok_def Let_def octet_mod)
qed

interpretation notify: codec notify_marshal parse_notify notify_ok
  by unfold_locales (use notify_read in fastforce)+

definition delete_ok :: "delete \<Rightarrow> bool" where
  "delete_ok d \<longleftrightarrow> octet (de_proto d) \<and> octet (de_spi_size d) \<and> length (de_spis d) < 65536 \<and>
     list_all (\<lambda>s. int (length s) = de_spi_size d) (de_spis d) \<and>
     (de_proto d = PROTO_IKE \<longrightarrow> de_spi_size d = 0 \<and> de_spis d = []) \<and>
     (de_proto d \<in> {PROTO_AH, PROTO_ESP} \<longrightarrow> de_spi_size d = 4)"

lemma equal_pieces:
  assumes "list_all (\<lambda>s. length s = k) xs"
  shows "map (\<lambda>i. slice (i * k) ((i + 1) * k) (concat xs)) [0..<length xs] = xs"
  using assms
proof (induction xs)
  case (Cons x xs)
  have "slice (Suc i * k) ((Suc i + 1) * k) (x @ concat xs) = slice (i * k) ((i + 1) * k) (concat xs)" for i
    using Cons.prems by (subst slice_append_right) (simp_all add: algebra_simps)
  moreover have "slice (0 * k) ((0 + 1) * k) (x @ concat xs) = x" using Cons.prems by simp
  ultimately show ?case
    using Cons unfolding length_Cons upt_conv_Cons [OF zero_less_Suc] map_Suc_upt [symmetric] by (simp add: comp_def)
qed simp

lemma delete_read: "delete_ok d \<Longrightarrow> \<exists>b. delete_marshal d = Inr b \<and> parse_delete b = Inr d"
proof -
  assume ok: "delete_ok d"
  define k where "k = nat (de_spi_size d)"
  have k: "int k = de_spi_size d" "list_all (\<lambda>s. length s = k) (de_spis d)" "k < 256"
    using ok by (auto simp: delete_ok_def k_def octet_def list_all_iff nat_less_iff)
  let ?h = "byte_of (nat (de_proto d)) # byte_of k # be_enc 2 (length (de_spis d))"
  let ?b = "?h @ concat (de_spis d)"
  have "py_bytes [de_proto d, de_spi_size d] = Inr [byte_of (nat (de_proto d)), byte_of k]"
    using ok by (simp add: delete_ok_def fits k_def del: py_bytes.simps(2))
  then have enc: "delete_marshal d = Inr ?b"
    using ok by (simp add: delete_marshal_def delete_ok_def fits list_all_iff list_ex_iff del: py_bytes.simps)
  have len: "length (concat xs) = length xs * k" if "list_all (\<lambda>s. length s = k) xs" for xs :: "bytes list"
    using that by (induction xs) auto
  have n: "be_val (slice 2 4 ?b) = length (de_spis d)" using ok by (simp add: delete_ok_def)
  have "slice (4 + i * k) (4 + (i + 1) * k) ?b = slice (i * k) ((i + 1) * k) (concat (de_spis d))" for i
    using slice_append_right [of ?h "4 + i * k" "4 + (i + 1) * k" "concat (de_spis d)"] by simp
  then have spis: "map (\<lambda>i. slice (4 + i * k) (4 + (i + 1) * k) ?b) [0..<length (de_spis d)] = de_spis d"
    using equal_pieces [OF k(2)] by simp
  have h: "int (unat (?b ! 0)) = de_proto d" "unat (?b ! 1) = k" "4 + length (de_spis d) * k = length ?b"
    "\<not> length ?b < 4"
    using ok k(3) len [OF k(2)] by (simp_all add: delete_ok_def octet_mod)
  have "parse_delete ?b = Inr d"
  proof -
    have c: "\<not> (de_proto d = PROTO_IKE \<and> (k \<noteq> 0 \<or> length (de_spis d) \<noteq> 0))"
      "\<not> (de_proto d \<in> {PROTO_AH, PROTO_ESP} \<and> k \<noteq> 4)"
      using ok k(1) by (auto simp: delete_ok_def)
    show ?thesis
      unfolding parse_delete_def Let_def h(1,2) n spis
      by (simp only: h(3,4) c k(1) if_False simp_thms) simp
  qed
  with enc show ?thesis by blast
qed

interpretation delete: codec delete_marshal parse_delete delete_ok
  by unfold_locales (use delete_read in fastforce)+

lemma ke_read: "u16 g \<Longrightarrow> \<exists>b. marshal_ke g pub = Inr b \<and> parse_ke b = Inr (g, pub)"
  by (simp add: marshal_ke_def parse_ke_def packs_u16 u16_val)

lemma id_read: "octet t \<Longrightarrow> \<exists>b. marshal_id t d = Inr b \<and> parse_id b = Inr (t, d)"
  by (simp add: marshal_id_def parse_id_def fits del: py_bytes.simps(2))

text \<open>
  Every payload body the builder writes is read back: traffic selectors, configuration attributes,
  deletions and notifications whose fields fit, as well as key exchange and identification bodies,
  are written without an error and parsed to the value written.\<close>

theorem ike_bodies_roundtrip:
  "(ts_list_ok ss \<longrightarrow> rbind (marshal_ts ss) parse_ts = Inr ss) \<and>
   (cp_ok c \<longrightarrow> rbind (cp_marshal c) parse_cp = Inr c) \<and>
   (delete_ok d \<longrightarrow> rbind (delete_marshal d) parse_delete = Inr d) \<and>
   (notify_ok n \<longrightarrow> rbind (notify_marshal n) parse_notify = Inr n) \<and>
   (u16 g \<longrightarrow> rbind (marshal_ke g pub) parse_ke = Inr (g, pub)) \<and>
   (octet t \<longrightarrow> rbind (marshal_id t i) parse_id = Inr (t, i))"
  using ts.roundtrip [of ss] cp.roundtrip [of c] delete.roundtrip [of d] notify.roundtrip [of n]
    ke_read [of g pub] id_read [of t i] by auto

theorem ike_bodies_roundtrip_witness:
  "let s = \<lparr>ts_type = 7, ts_proto = 0, ts_port_lo = 0, ts_port_hi = 65535, ts_addr_lo = zeros 4, ts_addr_hi = zeros 4\<rparr>;
       d = \<lparr>de_proto = 3, de_spi_size = 4, de_spis = [zeros 4, zeros 4]\<rparr>
   in rbind (marshal_ts [s]) parse_ts = Inr [s] \<and> rbind (delete_marshal d) parse_delete = Inr d"
proof -
  let ?s = "\<lparr>ts_type = 7, ts_proto = 0, ts_port_lo = 0, ts_port_hi = 65535, ts_addr_lo = zeros 4, ts_addr_hi = zeros 4\<rparr>"
  let ?d = "\<lparr>de_proto = 3, de_spi_size = 4, de_spis = [zeros 4, zeros 4]\<rparr>"
  have "ts_list_ok [?s]" by (simp add: ts_list_ok_def ts_ok_def ike_numbers)
  moreover have "delete_ok ?d" by (simp add: delete_ok_def ike_numbers)
  ultimately show ?thesis using ike_bodies_roundtrip [of "[?s]" _ ?d] by simp
qed

section \<open>Key material\<close>

fun prf_t :: "prf_fun \<Rightarrow> bytes \<Rightarrow> bytes \<Rightarrow> nat \<Rightarrow> bytes" where
  \<comment> \<open>the blocks of RFC 7296, section 2.13\<close>
  "prf_t mac key seed 0 = []"
| "prf_t mac key seed (Suc i) = mac key (prf_t mac key seed i @ seed @ [byte_of (Suc i)])"

definition prf_stream :: "prf_fun \<Rightarrow> bytes \<Rightarrow> bytes \<Rightarrow> nat \<Rightarrow> bytes" where
  "prf_stream mac key seed k = concat (map (\<lambda>i. prf_t mac key seed (Suc i)) [0..<k])"

lemma prf_stream_Suc: "prf_stream mac key seed (Suc k) = prf_stream mac key seed k @ prf_t mac key seed (Suc k)"
  by (simp add: prf_stream_def)

lemma length_prf_stream: "\<forall>k m. length (mac k m) = 32 \<Longrightarrow> length (prf_stream mac key seed k) = 32 * k"
  by (induction k) (simp_all add: prf_stream_Suc, simp add: prf_stream_def)

lemma prf_stream_prefix: "k \<le> m \<Longrightarrow> \<exists>r. prf_stream mac key seed m = prf_stream mac key seed k @ r"
proof (induction m)
  case (Suc m)
  then show ?case by (cases "k = Suc m") (auto simp: prf_stream_Suc le_Suc_eq)
qed simp

lemma prf_loop_value:
  assumes "\<forall>k m. length (mac k m) = 32" "n \<le> 255 * 32" "j \<le> 255"
  shows "prf_loop mac key seed n (Suc j) (prf_t mac key seed j) (prf_stream mac key seed j) =
           Inr (take n (prf_stream mac key seed 255))"
  using assms(3)
proof (induction "255 - j" arbitrary: j)
  case 0
  then have "j = 255" by simp
  then show ?case using assms by (subst prf_loop.simps) (simp add: length_prf_stream)
next
  case (Suc d)
  show ?case
  proof (cases "n \<le> 32 * j")
    case True
    obtain r where "prf_stream mac key seed 255 = prf_stream mac key seed j @ r"
      using prf_stream_prefix [OF Suc.prems] by blast
    then show ?thesis using True assms(1) by (subst prf_loop.simps) (simp add: length_prf_stream)
  next
    case False
    have "prf_loop mac key seed n (Suc (Suc j)) (prf_t mac key seed (Suc j)) (prf_stream mac key seed (Suc j)) =
        Inr (take n (prf_stream mac key seed 255))"
      using Suc by (intro Suc.hyps) simp_all
    then show ?thesis
      using False Suc assms(1) by (subst prf_loop.simps) (simp add: length_prf_stream prf_stream_Suc Let_def)
  qed
qed

lemma prf_plus_value:
  assumes "\<forall>k m. length (mac k m) = 32" "n \<le> 8160"
  shows "prf_plus mac key seed n = Inr (take n (prf_stream mac key seed 255))"
  using prf_loop_value [of mac n 0 key seed] assms by (simp add: prf_plus_def prf_stream_def)

lemma if_cases: "(P \<Longrightarrow> A) \<Longrightarrow> (\<not> P \<Longrightarrow> B) \<Longrightarrow> if P then A else B"
  by simp

lemma cut_parts_concat: "concat (cut_parts ns s) = take (sum_list ns) s"
  by (induction ns arbitrary: s) (simp_all add: take_add)

lemma cut_parts_lengths: "sum_list ns \<le> length s \<Longrightarrow> map length (cut_parts ns s) = ns"
  by (induction ns arbitrary: s) auto

text \<open>
  C28: The key material is the one of the standard: the loop ends for every length, with exactly as many
  octets of the block sequence of section 2.13 as were asked for while at most 255 blocks are needed,
  and with an error beyond; the seven keys of the association and the four of a child association
  have the negotiated lengths and are, one behind the other, that stream.\<close>

theorem ike_key_material:
  assumes "\<forall>k m. length (mac k m) = 32"
  shows "(if n \<le> 8160 then prf_plus mac key seed n = Inr (take n (prf_stream mac key seed 255)) \<and>
              length (take n (prf_stream mac key seed 255)) = n
          else \<exists>e. prf_plus mac key seed n = Inl e) \<and>
    (if 96 + 2 * il + 2 * el \<le> 8160 then
       \<exists>ks. derive_ike_sa_keys mac ni nr g spi spr il el = Inr ks \<and>
         map length [sk_d ks, sk_ai ks, sk_ar ks, sk_ei ks, sk_er ks, sk_pi ks, sk_pr ks] = [32, il, il, el, el, 32, 32] \<and>
         concat [sk_d ks, sk_ai ks, sk_ar ks, sk_ei ks, sk_er ks, sk_pi ks, sk_pr ks] =
           take (96 + 2 * il + 2 * el) (prf_stream mac (mac (ni @ nr) g) (ni @ nr @ spi @ spr) 255)
     else \<exists>e. derive_ike_sa_keys mac ni nr g spi spr il el = Inl e) \<and>
    (if 2 * el + 2 * il \<le> 8160 then
       \<exists>ks. derive_child_sa_keys mac d ni nr el il g' = Inr ks \<and>
         map length [ck_encr_i ks, ck_integ_i ks, ck_encr_r ks, ck_integ_r ks] = [el, il, el, il] \<and>
         concat [ck_encr_i ks, ck_integ_i ks, ck_encr_r ks, ck_integ_r ks] =
           take (2 * el + 2 * il) (prf_stream mac d (g' @ ni @ nr) 255)
     else \<exists>e. derive_child_sa_keys mac d ni nr el il g' = Inl e)"
proof -
  have len: "length (prf_stream mac k s 255) = 8160" for k s by (simp add: length_prf_stream [OF assms])
  have big: "\<exists>e. prf_plus mac k s m = Inl e" if "\<not> m \<le> 8160" for k s m using that by (simp add: prf_plus_def)
  note val = prf_plus_value [OF assms]
  have one: "if n \<le> 8160 then prf_plus mac key seed n = Inr (take n (prf_stream mac key seed 255)) \<and>
              length (take n (prf_stream mac key seed 255)) = n
          else \<exists>e. prf_plus mac key seed n = Inl e" using val [of n] big [of n] len by simp
  define tot where "tot = 96 + 2 * il + 2 * el"
  have tot: "32 + 2 * il + 2 * el + 2 * 32 = tot" by (simp add: tot_def)
  have two: "\<exists>ks. derive_ike_sa_keys mac ni nr g spi spr il el = Inr ks \<and>
         map length [sk_d ks, sk_ai ks, sk_ar ks, sk_ei ks, sk_er ks, sk_pi ks, sk_pr ks] = [32, il, il, el, el, 32, 32] \<and>
         concat [sk_d ks, sk_ai ks, sk_ar ks, sk_ei ks, sk_er ks, sk_pi ks, sk_pr ks] =
           take tot (prf_stream mac (mac (ni @ nr) g) (ni @ nr @ spi @ spr) 255)" if "tot \<le> 8160"
  proof -
    let ?s = "take tot (prf_stream mac (mac (ni @ nr) g) (ni @ nr @ spi @ spr) 255)"
    have l: "length ?s = tot" using that len by simp
    have s: "sum_list [32, il, il, el, el, 32, 32] = tot" by (simp add: tot_def)
    have "concat (cut_parts [32, il, il, el, el, 32, 32] ?s) = ?s" unfolding cut_parts_concat s by simp
    moreover have "map length (cut_parts [32, il, il, el, el, 32, 32] ?s) = [32, il, il, el, el, 32, 32]"
      by (rule cut_parts_lengths) (simp only: s l order_refl)
    ultimately show ?thesis
      unfolding derive_ike_sa_keys_def Let_def tot val [OF that] rbind.simps by simp
  qed
  define cot where "cot = 2 * el + 2 * il"
  have three: "\<exists>ks. derive_child_sa_keys mac d ni nr el il g' = Inr ks \<and>
         map length [ck_encr_i ks, ck_integ_i ks, ck_encr_r ks, ck_integ_r ks] = [el, il, el, il] \<and>
         concat [ck_encr_i ks, ck_integ_i ks, ck_encr_r ks, ck_integ_r ks] =
           take cot (prf_stream mac d (g' @ ni @ nr) 255)" if "cot \<le> 8160"
  proof -
    let ?s = "take cot (prf_stream mac d (g' @ ni @ nr) 255)"
    have l: "length ?s = cot" using that len by simp
    have s: "sum_list [el, il, el, il] = cot" by (simp add: cot_def)
    have "concat (cut_parts [el, il, el, il] ?s) = ?s" unfolding cut_parts_concat s by simp
    moreover have "map length (cut_parts [el, il, el, il] ?s) = [el, il, el, il]"
      by (rule cut_parts_lengths) (simp only: s l order_refl)
    moreover have "(if g' \<noteq> [] then g' @ ni @ nr else ni @ nr) = g' @ ni @ nr" by simp
    ultimately show ?thesis
      unfolding derive_child_sa_keys_def Let_def cot_def [symmetric] by (simp add: val [OF that])
  qed
  have four: "\<exists>e. derive_ike_sa_keys mac ni nr g spi spr il el = Inl e" if "\<not> tot \<le> 8160"
    unfolding derive_ike_sa_keys_def Let_def tot
    using big [OF that, of "mac (ni @ nr) g" "ni @ nr @ spi @ spr"] by auto
  have five: "\<exists>e. derive_child_sa_keys mac d ni nr el il g' = Inl e" if "\<not> cot \<le> 8160"
    unfolding derive_child_sa_keys_def Let_def cot_def [symmetric]
    using big [OF that, of d "g' @ ni @ nr"] by auto
  show ?thesis
    unfolding tot_def [symmetric] cot_def [symmetric]
    by (rule conjI [OF one conjI [OF if_cases [OF two four] if_cases [OF three five]]])
qed

section \<open>Both sides agree\<close>

lemma modp_facts: "2 < MODP_2048_P" "MODP_2048_P < 256 ^ 256" "odd MODP_2048_P"
  by (simp_all add: MODP_2048_P_def)

lemma power_mod_range: "0 < (2 :: int) ^ k mod MODP_2048_P" "(2 :: int) ^ k mod MODP_2048_P < MODP_2048_P"
proof -
  have "coprime MODP_2048_P (2 ^ k)" using modp_facts(3) by (simp add: coprime_power_right_iff)
  then have "\<not> MODP_2048_P dvd 2 ^ k"
    using modp_facts(1) coprime_common_divisor [of MODP_2048_P "2 ^ k" MODP_2048_P] zdvd_imp_le [of MODP_2048_P 1]
    by fastforce
  then have "(2 :: int) ^ k mod MODP_2048_P \<noteq> 0" by (simp add: dvd_eq_mod_eq_0)
  then show "0 < (2 :: int) ^ k mod MODP_2048_P" "(2 :: int) ^ k mod MODP_2048_P < MODP_2048_P"
    using modp_facts(1) pos_mod_sign [of MODP_2048_P "2 ^ k"]
      pos_mod_bound [of MODP_2048_P "2 ^ k"] by (simp_all add: order_less_le)
qed

lemma dh_public_value: "int (be_val (dh_public (new_dh r))) = 2 ^ (r + 1) mod MODP_2048_P"
proof -
  let ?y = "(2 :: int) ^ (r + 1) mod MODP_2048_P"
  have "nat ?y < 256 ^ 256"
    using power_mod_range [of "r + 1"] modp_facts(2) by (subst nat_less_iff) (simp_all del: power_Suc)
  then show ?thesis
    using power_mod_range(1) [of "r + 1"]
    by (simp add: new_dh_def MODP_2048_LEN_def MODP_2048_G_def be_val_be_enc Let_def del: power_Suc)
qed

text \<open>
  The two sides of the exchange agree: for all exponents a public value is refused exactly when it
  is one of the two of the trivial subgroup, otherwise both sides compute the same shared secret of
  256 octets, the generator raised to the product of the exponents, so that all keys derived from it
  are the same.\<close>

theorem dh_sides_agree:
  "let a = new_dh r; b = new_dh s; pa = (2 :: int) ^ (r + 1) mod MODP_2048_P; pb = 2 ^ (s + 1) mod MODP_2048_P in
     length (dh_public a) = 256 \<and>
     dh_shared a (dh_public b) =
       (if pb \<in> {1, MODP_2048_P - 1} then Inl (ValueError ''RFC 6989: peer in trivial subgroup'')
        else Inr (be_enc 256 (nat (2 ^ ((r + 1) * (s + 1)) mod MODP_2048_P)))) \<and>
     (pa \<notin> {1, MODP_2048_P - 1} \<and> pb \<notin> {1, MODP_2048_P - 1} \<longrightarrow>
        dh_shared a (dh_public b) = dh_shared b (dh_public a))"
proof -
  have one: "dh_shared (new_dh r) (dh_public (new_dh s)) =
       (if (2 :: int) ^ (s + 1) mod MODP_2048_P \<in> {1, MODP_2048_P - 1}
        then Inl (ValueError ''RFC 6989: peer in trivial subgroup'')
        else Inr (be_enc 256 (nat (2 ^ ((r + 1) * (s + 1)) mod MODP_2048_P))))" for r s
  proof -
    have "dh_public (new_dh s) \<noteq> []" by (simp add: new_dh_def MODP_2048_LEN_def Let_def)
    moreover have "dh_priv (new_dh r) = r + 1" by (simp add: new_dh_def Let_def)
    moreover have "((2 :: int) ^ (s + 1) mod MODP_2048_P) ^ (r + 1) mod MODP_2048_P =
        2 ^ ((r + 1) * (s + 1)) mod MODP_2048_P"
      by (simp only: power_mod power_mult [symmetric] mult.commute)
    ultimately show ?thesis
      using power_mod_range [of "s + 1"]
      unfolding dh_shared_def dh_public_value Let_def MODP_2048_LEN_def by auto
  qed
  have "length (dh_public (new_dh r)) = 256" by (simp add: new_dh_def MODP_2048_LEN_def Let_def)
  then show ?thesis unfolding Let_def one by (simp add: mult.commute)
qed

theorem ike_key_material_witness:
  "\<exists>ks. derive_ike_sa_keys (\<lambda>k m. zeros 32) [] [] [] [] [] 32 32 = Inr ks \<and> length (sk_ai ks) = 32"
proof -
  have "\<forall>k m. length ((\<lambda>k m. zeros 32) k m) = 32" by simp
  from ike_key_material [OF this, of 0 "[]" "[]" 32 32 "[]" "[]" "[]" "[]" "[]" "[]" "[]"] show ?thesis by auto
qed

theorem dh_sides_agree_witness:
  "dh_shared (new_dh 0) (dh_public (new_dh 1)) = dh_shared (new_dh 1) (dh_public (new_dh 0))"
proof -
  have "(2 :: int) ^ (0 + 1) mod MODP_2048_P \<notin> {1, MODP_2048_P - 1}"
    "(2 :: int) ^ (1 + 1) mod MODP_2048_P \<notin> {1, MODP_2048_P - 1}"
    by (simp_all add: MODP_2048_P_def)
  then show ?thesis
    using dh_sides_agree [of 0 1] unfolding Let_def by blast
qed

section \<open>The first message is a request for the mandatory suite\<close>

definition mandatory_sa :: bytes where
  \<comment> \<open>the security association payload of RFC 7296, section 3.3, octet by octet\<close>
  "mandatory_sa = map byte_of
     [0, 0, 0, 44, 1, 1, 0, 4,
      3, 0, 0, 12, 1, 0, 0, 12, 0x80, 14, 1, 0,
      3, 0, 0, 8, 2, 0, 0, 5,
      3, 0, 0, 8, 3, 0, 0, 12,
      0, 0, 0, 8, 4, 0, 0, 14]"

lemma be_enc_1: "be_enc 1 n = [byte_of n]" "be_enc (Suc 0) n = [byte_of n]" by simp_all

lemma packs_octets [fits]:
  "octet n \<Longrightarrow> packs ((1, n) # fs) = rbind (packs fs) (\<lambda>bs. Inr (byte_of (nat n) # bs))"
  by (subst packs_cons) (simp_all add: octet_def)

lemma sa_marshal_default: "sa_marshal [default_ike_proposal] = Inr mandatory_sa"
proof -
  have attr: "attribute_marshal \<lparr>at_type = 14, at_is_tv = True, at_tv = 256, at_value = []\<rparr> =
      Inr (map byte_of [0x80, 14, 1, 0])"
    by (simp add: attribute_marshal_def packs_u16 be_enc_pair byte_of_eq_iff)
  have tr: "transform_marshal \<lparr>tr_type = t, tr_id = i, tr_attrs = []\<rparr> l =
      Inr (map (\<lambda>n. byte_of (nat n)) [l, 0, 0, 8, t, 0, 0, i])" if "octet t" "octet i" "octet l" for t i l
  proof -
    have "u16 i" "nat i div 256 = 0" using that by (auto simp: octet_def u16_def nat_less_iff)
    then show ?thesis using that
      by (simp add: transform_marshal_def packs_octets packs_u16 be_enc_pair del: One_nat_def)
  qed
  have enc: "transform_marshal \<lparr>tr_type = 1, tr_id = 12,
      tr_attrs = [\<lparr>at_type = 14, at_is_tv = True, at_tv = 256, at_value = []\<rparr>]\<rparr> 3 =
      Inr (map byte_of [3, 0, 0, 12, 1, 0, 0, 12, 0x80, 14, 1, 0])"
    by (simp add: transform_marshal_def attr packs_octets packs_u16 be_enc_pair byte_of_eq_iff del: One_nat_def)
  show ?thesis
    by (simp add: sa_marshal_def proposal_marshal_def default_ike_proposal_def ike_numbers enc tr
        packs_octets packs_u16 be_enc_pair py_byte_def mandatory_sa_def byte_of_eq_iff del: One_nat_def)
qed

text \<open>
  The first message of the initiator is parsed by any receiver: for every initiator identifier but
  zero, exponent and nonce of 16 to 256 octets the request is built, its header announces its own
  length and the exchange, and its payloads are, in this order, the mandatory proposal octet by octet
  as the standard lays it out, the key exchange with the public value of group 14, and the nonce.\<close>

theorem ike_sa_init_parsed:
  assumes "length spi = 8" "spi \<noteq> zeros 8" and "16 \<le> length nonce" "length nonce \<le> 256"
  shows "\<exists>msg hdr ke. build_ike_sa_init_request spi (new_dh r) nonce = Inr msg \<and>
     parse_header msg = Inr hdr \<and> ih_spi_i hdr = spi \<and> ih_len hdr = int (length msg) \<and>
     ih_exchange hdr = EXCHANGE_IKE_SA_INIT \<and> ih_flags hdr = 8 \<and> ih_msg_id hdr = 0 \<and>
     parse_payloads (drop HEADER_LEN msg) (ih_next hdr) =
       Inr [\<lparr>pl_type = PAYLOAD_SA, pl_data = mandatory_sa, pl_critical = False\<rparr>,
            \<lparr>pl_type = PAYLOAD_KE, pl_data = ke, pl_critical = False\<rparr>,
            \<lparr>pl_type = PAYLOAD_NONCE, pl_data = nonce, pl_critical = False\<rparr>] \<and>
     parse_ke ke = Inr (DH_MODP_2048, dh_public (new_dh r))"
proof -
  have pub: "length (dh_public (new_dh r)) = 256" by (simp add: new_dh_def MODP_2048_LEN_def Let_def)
  obtain ke where ke: "marshal_ke DH_MODP_2048 (dh_public (new_dh r)) = Inr ke"
    "parse_ke ke = Inr (DH_MODP_2048, dh_public (new_dh r))"
    using ke_read [of DH_MODP_2048] by (auto simp: ike_numbers)
  have lke: "length ke = 260"
    using ke(1) pub by (auto simp: marshal_ke_def packs_u16 ike_numbers)
  define ps where "ps = [\<lparr>pl_type = PAYLOAD_SA, pl_data = mandatory_sa, pl_critical = False\<rparr>,
            \<lparr>pl_type = PAYLOAD_KE, pl_data = ke, pl_critical = False\<rparr>,
            \<lparr>pl_type = PAYLOAD_NONCE, pl_data = nonce, pl_critical = False\<rparr>]"
  have lsa: "length mandatory_sa = 44" by (simp add: mandatory_sa_def)
  have ok: "list_all payload_ok ps"
    using lke lsa assms by (simp add: ps_def payload_ok_def ike_numbers)
  have mp: "marshal_payloads ps = Inr (chain_enc 0 ps, PAYLOAD_SA)"
    using marshal_chain_enc [OF ok] by (simp add: marshal_payloads_def ps_def)
  have lc: "length (chain_enc 0 ps) = 316 + length nonce"
    using lke lsa by (simp add: length_chain_enc chain_size_def ps_def)
  define hdr where "hdr = \<lparr>ih_spi_i = spi, ih_spi_r = zeros 8, ih_next = PAYLOAD_SA,
              ih_exchange = EXCHANGE_IKE_SA_INIT, ih_flags = FLAG_INITIATOR, ih_msg_id = 0,
              ih_len = int (HEADER_LEN + length (chain_enc 0 ps)), ih_version = VERSION_BYTE\<rparr>"
  have hok: "header_ok hdr" using assms lc by (simp add: header_ok_def hdr_def ike_numbers)
  have "build_ike_sa_init_request spi (new_dh r) nonce = Inr (header_enc hdr @ chain_enc 0 ps)"
    unfolding build_ike_sa_init_request_def sa_marshal_default rbind.simps ke(1) ps_def [symmetric] mp prod.case
      hdr_def [symmetric] header_marshal_enc [OF hok] ..
  moreover have "parse_header (header_enc hdr @ chain_enc 0 ps) = Inr hdr" by (rule parse_header_enc [OF hok])
  moreover have "drop HEADER_LEN (header_enc hdr @ chain_enc 0 ps) = chain_enc 0 ps"
    "ih_len hdr = int (length (header_enc hdr @ chain_enc 0 ps))"
    using length_header_enc [OF hok] by (simp_all add: ike_numbers hdr_def)
  moreover have "parse_payloads (chain_enc 0 ps) (ih_next hdr) = Inr ps"
    using parse_chain_enc [OF ok, of "[]"] by (simp add: hdr_def ps_def type_after_def)
  moreover have "ih_spi_i hdr = spi" "ih_exchange hdr = EXCHANGE_IKE_SA_INIT" "ih_flags hdr = 8" "ih_msg_id hdr = 0"
    by (simp_all add: hdr_def FLAG_INITIATOR_def)
  ultimately show ?thesis
    using ke(2) by - (rule exI [of _ "header_enc hdr @ chain_enc 0 ps"], rule exI [of _ hdr], rule exI [of _ ke],
        simp add: ps_def)
qed

theorem ike_sa_init_parsed_witness:
  "\<exists>msg hdr. build_ike_sa_init_request (byte_of 1 # zeros 7) (new_dh 5) (zeros 32) = Inr msg \<and>
     parse_header msg = Inr hdr \<and> ih_len hdr = int (length msg)"
proof -
  have "byte_of 1 # zeros 7 \<noteq> zeros 8" by (simp add: zeros_def Cons_replicate_eq byte_of_eq_iff)
  with ike_sa_init_parsed [of "byte_of 1 # zeros 7" "zeros 32" 5] show ?thesis by auto
qed

end
