(* ===== verification/QosRules.thy ===== *)
theory QosRules
  imports Prelude
begin

text \<open>
  The QoS rules and protocol configuration options of a session (\<open>statemachine/ue_fsm.py\<close>): the
  octet decoders \<open>_decode_qos_rule_bytes\<close>, \<open>_parse_pf_components\<close> and \<open>_parse_pco_bytes\<close>, and the
  decoders of the nested lists into which the vendored codec turns the same elements.  A value of
  such a list is a \<open>pyval\<close>.  Offsets into a buffer are modelled by the octets from the offset on; every
  index the code takes is an \<open>idx\<close> that could raise, so that the totality theorems say something.

  The reference encoders follow TS 24.501, 9.11.4.13 and TS 24.008, 10.5.6.3; they are specification,
  not code.
\<close>

section \<open>Python values\<close>

datatype pyval =
    PyNone | PyBool bool | PyInt int | PyStr string | PyBytes bytes
  | PyList "pyval list" | PyTuple "pyval list" | PyDict "(string \<times> pyval) list"

fun as_int :: "pyval \<Rightarrow> int option" where
  \<comment> \<open>\<open>isinstance(v, int)\<close> and the value; a bool is an int\<close>
  "as_int (PyInt n) = Some n"
| "as_int (PyBool b) = Some (if b then 1 else 0)"
| "as_int v = None"

fun as_list :: "pyval \<Rightarrow> pyval list option" where
  "as_list (PyList vs) = Some vs"
| "as_list v = None"

definition ascii :: "bytes \<Rightarrow> string" where
  "ascii b = map (\<lambda>x. char_of (unat x)) b"

fun py_int :: "pyval \<Rightarrow> int res" where
  \<comment> \<open>\<open>int(v)\<close>\<close>
  "py_int (PyInt n) = Inr n"
| "py_int (PyBool b) = Inr (if b then 1 else 0)"
| "py_int (PyStr s) = (case py_int_str s of None \<Rightarrow> Inl (ValueError ''int'') | Some n \<Rightarrow> Inr n)"
| "py_int (PyBytes b) = (case (if list_ex (\<lambda>x. 28 \<le> unat x \<and> unat x \<le> 31) b then None else py_int_str (ascii b)) of
     None \<Rightarrow> Inl (ValueError ''int'') | Some n \<Rightarrow> Inr n)"
| "py_int v = Inl TypeError"

fun py_iter :: "pyval \<Rightarrow> pyval list res" where
  \<comment> \<open>what a \<open>for\<close> loop over the value visits\<close>
  "py_iter (PyList vs) = Inr vs"
| "py_iter (PyTuple vs) = Inr vs"
| "py_iter (PyStr s) = Inr (map (\<lambda>c. PyStr [c]) s)"
| "py_iter (PyBytes b) = Inr (map (\<lambda>x. PyInt (int (unat x))) b)"
| "py_iter (PyDict d) = Inr (map (\<lambda>(k, v). PyStr k) d)"
| "py_iter v = Inl TypeError"

type_synonym content = "(string, pyval) dict"

record qos_filter =
  qf_ident :: "(nat \<times> string \<times> bytes) option" \<comment> \<open>identifier, direction and octets (hexadecimal in the code); only the octet decoder sets them\<close>
  qf_content :: content

record qos_flow =
  fl_rule_id :: pyval
  fl_qfi :: pyval
  fl_dqr :: int
  fl_precedence :: int
  fl_filters :: "qos_filter list"

section \<open>Octet decoders\<close>

definition dotted :: "bytes \<Rightarrow> string res" where
  "dotted b = rbind (rmap (idx b) [0, 1, 2, 3]) (\<lambda>os. Inr (join_with (CHR ''.'') (map (\<lambda>x. dec_str (unat x)) os)))"

definition be16 :: "bytes \<Rightarrow> int res" where
  "be16 b = rbind (idx b 0) (\<lambda>h. rbind (idx b 1) (\<lambda>l. Inr (int (push_bit 8 (unat h) OR unat l))))"

definition port_pair :: "string \<Rightarrow> string \<Rightarrow> bytes \<Rightarrow> content \<Rightarrow> content res" where
  "port_pair kmin kmax b info =
     rbind (be16 b) (\<lambda>lo. rbind (be16 (drop 2 b)) (\<lambda>hi.
       Inr (dict_set kmax (PyInt hi) (dict_set kmin (PyInt lo) info))))"

definition addr_mask :: "string \<Rightarrow> string \<Rightarrow> bytes \<Rightarrow> content \<Rightarrow> content res" where
  \<comment> \<open>an address and, where four more octets follow, its mask\<close>
  "addr_mask ka km b info =
     rbind (dotted b) (\<lambda>ip. let info = dict_set ka (PyStr ip) info in
       if 4 \<le> length (drop 4 b) then rbind (dotted (drop 4 b)) (\<lambda>m. Inr (dict_set km (PyStr m) info))
       else Inr info)"

definition addr_len :: "bytes \<Rightarrow> nat" where
  \<comment> \<open>how far the offset moves over them\<close>
  "addr_len b = (if 4 \<le> length (drop 4 b) then 8 else 4)"

function parse_pf_components :: "bytes \<Rightarrow> content \<Rightarrow> content res" where
  "parse_pf_components buf info =
     (if buf = [] then Inr info
      else rbind (idx buf 0) (\<lambda>t. let b = drop 1 buf in
        if t = 0x01 then parse_pf_components b (dict_set ''match_all'' (PyBool True) info)
        else if t = 0x10 \<and> 4 \<le> length b then
          rbind (addr_mask ''remote_ip'' ''remote_mask'' b info) (parse_pf_components (drop (addr_len b) b))
        else if t = 0x11 \<and> 4 \<le> length b then
          rbind (addr_mask ''local_ip'' ''local_mask'' b info) (parse_pf_components (drop (addr_len b) b))
        else if t = 0x30 \<and> 1 \<le> length b then
          rbind (idx b 0) (\<lambda>p. parse_pf_components (drop 1 b) (dict_set ''protocol'' (PyInt (int (unat p))) info))
        else if t = 0x40 \<and> 2 \<le> length b then
          rbind (be16 b) (\<lambda>p. parse_pf_components (drop 2 b) (dict_set ''local_port'' (PyInt p) info))
        else if t = 0x41 \<and> 4 \<le> length b then
          rbind (port_pair ''local_port_min'' ''local_port_max'' b info) (parse_pf_components (drop 4 b))
        else if t = 0x50 \<and> 2 \<le> length b then
          rbind (be16 b) (\<lambda>p. parse_pf_components (drop 2 b) (dict_set ''remote_port'' (PyInt p) info))
        else if t = 0x51 \<and> 4 \<le> length b then
          rbind (port_pair ''remote_port_min'' ''remote_port_max'' b info) (parse_pf_components (drop 4 b))
        else Inr info))"
  by pat_completeness auto
termination by (relation "measure (\<lambda>(b, i). length b)") auto

declare parse_pf_components.simps [simp del]

fun read_filters :: "nat \<Rightarrow> bytes \<Rightarrow> (qos_filter list \<times> bytes) res" where
  \<comment> \<open>the loop over the packet filters and the octets behind it\<close>
  "read_filters 0 b = Inr ([], b)"
| "read_filters (Suc n) b =
     (if b = [] then Inr ([], b)
      else rbind (idx b 0) (\<lambda>dir_id. let b = drop 1 b in
        if b = [] then Inr ([], b)
        else rbind (idx b 0) (\<lambda>pf_len. let b = drop 1 b; c = take (unat pf_len) b in
          rbind (idx [''dl'', ''ul'', ''bidir'', ''bidir''] (drop_bit 4 (unat dir_id) AND 0x03)) (\<lambda>dir.
          rbind (parse_pf_components c []) (\<lambda>info.
          rbind (read_filters n (drop (unat pf_len) b)) (\<lambda>(fs, r).
            Inr (\<lparr>qf_ident = Some (unat dir_id AND 0x0F, dir, c), qf_content = info\<rparr> # fs, r)))))))"

definition decode_rule :: "byte \<Rightarrow> bytes \<Rightarrow> qos_flow res" where
  \<comment> \<open>the body of one rule, at least three octets\<close>
  "decode_rule rule_id d =
     rbind (idx d 0) (\<lambda>b0. let npf = unat b0 AND 0x0F; dqr = drop_bit 4 (unat b0) AND 0x01 in
     rbind (read_filters npf (drop 1 d)) (\<lambda>(fs, r).
     rbind (if 0 < length r then rbind (idx r 0) (\<lambda>p. Inr (int (unat p))) else Inr 255) (\<lambda>precedence.
     rbind (if 1 < length r then rbind (idx r 1) (\<lambda>q. Inr (int (unat q AND 0x3F))) else Inr 0) (\<lambda>qfi.
       Inr \<lparr>fl_rule_id = PyInt (int (unat rule_id)), fl_qfi = PyInt qfi, fl_dqr = int dqr,
            fl_precedence = precedence, fl_filters = fs\<rparr>))))"

function decode_qos_rule_bytes :: "bytes \<Rightarrow> qos_flow list res" where
  "decode_qos_rule_bytes data =
     (if length data < 3 then Inr []
      else rbind (idx data 0) (\<lambda>rule_id. rbind (be16 (drop 1 data)) (\<lambda>rule_len.
        let b = drop 3 data in
        if int (length b) < rule_len then Inr []
        else let d = take (nat rule_len) b; rest = drop (nat rule_len) b in
          if length d < 3 then decode_qos_rule_bytes rest
          else rbind (decode_rule rule_id d) (\<lambda>f. rbind (decode_qos_rule_bytes rest) (\<lambda>fs. Inr (f # fs))))))"
  by pat_completeness auto
termination by (relation "measure length") auto

declare decode_qos_rule_bytes.simps [simp del]

function pco_loop :: "bytes \<Rightarrow> (string, string) dict \<Rightarrow> (string, string) dict res" where
  "pco_loop b result =
     (if length b < 3 then Inr result
      else rbind (be16 b) (\<lambda>cid. rbind (idx b 2) (\<lambda>l. let b = drop 3 b; d = take (unat l) b in
        if length b < unat l then Inr result
        else rbind (if cid = 0x000C \<and> 4 \<le> unat l then rbind (dotted d) (\<lambda>a. Inr (dict_set ''pcscf'' a result))
                    else if cid = 0x000D \<and> 4 \<le> unat l then rbind (dotted d) (\<lambda>a. Inr (dict_set ''dns'' a result))
                    else Inr result)
               (pco_loop (drop (unat l) b)))))"
  by pat_completeness auto
termination by (relation "measure (\<lambda>(b, r). length b)") auto

declare pco_loop.simps [simp del]

definition parse_pco_bytes :: "bytes \<Rightarrow> (string, string) dict res" where
  "parse_pco_bytes b =
     (if b = [] then Inr []
      else rbind (idx b 0) (\<lambda>h. pco_loop (if unat h AND 0x80 \<noteq> 0 then drop 1 b else b) []))"

section \<open>List decoders\<close>

definition is_num_pair :: "pyval \<Rightarrow> bool" where
  "is_num_pair v = (case as_list v of Some (t # _ # _) \<Rightarrow> as_int t \<noteq> None | _ \<Rightarrow> False)"

fun find_components :: "pyval list \<Rightarrow> pyval list option \<Rightarrow> pyval list option" where
  \<comment> \<open>the first loop of \<open>_parse_decoded_filter\<close>\<close>
  "find_components [] cs = cs"
| "find_components (e # es) cs =
     (case as_list e of
        Some (x # xs) \<Rightarrow>
          if as_list x \<noteq> None then find_components es (Some (x # xs))
          else if as_int x \<in> Some ` {1, 16, 17, 48, 64, 65, 80, 81} then find_components es (Some [e])
          else if xs \<noteq> [] then
            let new = filter is_num_pair (x # xs)
            in find_components es (if new = [] then cs else Some (case cs of None \<Rightarrow> new | Some c \<Rightarrow> c @ new))
          else find_components es cs
      | _ \<Rightarrow> find_components es cs)"

definition is_pair :: "pyval \<Rightarrow> bool" where
  "is_pair v = (case as_list v of Some [t, _] \<Rightarrow> as_int t \<noteq> None | _ \<Rightarrow> False)"

definition put_range :: "string \<Rightarrow> string \<Rightarrow> pyval \<Rightarrow> content \<Rightarrow> content" where
  "put_range kmin kmax v info =
     (case as_list v of Some (lo # hi # _) \<Rightarrow> dict_set kmax hi (dict_set kmin lo info) | _ \<Rightarrow> info)"

definition put_component :: "content \<Rightarrow> pyval \<Rightarrow> content" where
  \<comment> \<open>one pass of the loop over the components\<close>
  "put_component info c =
     (case as_list c of
        Some (t # v # _) \<Rightarrow>
          (case as_int t of
             None \<Rightarrow> info
           | Some n \<Rightarrow>
               if n = 1 then dict_set ''match_all'' (PyBool True) info
               else if n = 48 then dict_set ''protocol'' v info
               else if n = 64 then dict_set ''local_port'' v info
               else if n = 65 then put_range ''local_port_min'' ''local_port_max'' v info
               else if n = 80 then dict_set ''remote_port'' v info
               else if n = 81 then put_range ''remote_port_min'' ''remote_port_max'' v info
               else info)
      | _ \<Rightarrow> info)"

definition or_pairs :: "pyval list \<Rightarrow> pyval list option \<Rightarrow> pyval list" where
  \<comment> \<open>the second attempt, where the first found nothing: every pair that starts with a number\<close>
  "or_pairs elems cs = (case cs of Some (c # zs) \<Rightarrow> c # zs | _ \<Rightarrow> filter is_pair elems)"

definition parse_decoded_filter :: "pyval \<Rightarrow> qos_filter res" where
  "parse_decoded_filter pf =
     rbind (py_iter pf) (\<lambda>elems.
       let cs = or_pairs elems (find_components elems None)
       in Inr \<lparr>qf_ident = None,
               qf_content = (if cs = [] then [(''match_all'', PyBool True)] else foldl put_component [] cs)\<rparr>)"

fun first_filters :: "pyval list \<Rightarrow> pyval list" where
  \<comment> \<open>the first element of a rule that is a list of lists\<close>
  "first_filters [] = []"
| "first_filters (e # es) =
     (case as_list e of Some (x # xs) \<Rightarrow> if as_list x \<noteq> None then x # xs else first_filters es
      | _ \<Rightarrow> first_filters es)"

definition parse_decoded_qos_rule :: "pyval list \<Rightarrow> qos_flow option" where
  \<comment> \<open>\<open>None\<close> where the code catches an exception\<close>
  "parse_decoded_qos_rule rule =
     (if rule = [] then None
      else let qfi_data = last rule;
          precedence = (if 3 \<le> length rule then (case as_int (rule ! (length rule - 2)) of None \<Rightarrow> 255 | Some p \<Rightarrow> p) else 255);
          dqr = (if 1 < length rule then (case as_int (rule ! 1) of None \<Rightarrow> 0 | Some n \<Rightarrow> drop_bit 4 n AND 0x01) else 0)
      in case (case as_list qfi_data of
                 Some q \<Rightarrow> Inr (if q = [] then PyInt 1 else last q)
               | None \<Rightarrow> rbind (py_int qfi_data) (\<lambda>n. Inr (PyInt (n AND 0x3F)))) of
           Inl e \<Rightarrow> None
         | Inr qfi \<Rightarrow>
             (case rmap parse_decoded_filter (first_filters rule) of
                Inl e \<Rightarrow> None
              | Inr fs \<Rightarrow> Some \<lparr>fl_rule_id = rule ! 0, fl_qfi = qfi, fl_dqr = dqr,
                               fl_precedence = precedence, fl_filters = fs\<rparr>))"

definition opt_list :: "'a option \<Rightarrow> 'a list" where
  "opt_list x = (case x of None \<Rightarrow> [] | Some y \<Rightarrow> [y])"

definition rules_of_ie :: "pyval list \<Rightarrow> qos_flow list" where
  \<comment> \<open>the rules of one information element \<open>[tag, length, rules]\<close> or \<open>[tag, rules]\<close>\<close>
  "rules_of_ie ie =
     (case as_list (if 2 < length ie then ie ! 2 else ie ! 1) of
        None \<Rightarrow> []
      | Some rs \<Rightarrow>
          let rs = (if rs \<noteq> [] \<and> as_list (hd rs) = None then [PyList rs] else rs)
          in concat (map (\<lambda>r. case as_list r of
               Some rule \<Rightarrow> if 3 \<le> length rule then opt_list (parse_decoded_qos_rule rule) else []
             | None \<Rightarrow> []) rs))"

definition parse_qos_rules_from_list :: "pyval \<Rightarrow> qos_flow list" where
  "parse_qos_rules_from_list raw =
     (case as_list raw of
        Some (h # ies) \<Rightarrow>
          concat (map (\<lambda>ie. case as_list ie of
            Some (t # x # zs) \<Rightarrow> if as_int t \<in> {Some 9, Some 122} then rules_of_ie (t # x # zs) else []
          | _ \<Rightarrow> []) ies)
      | _ \<Rightarrow> [])"

definition parse_qos_rules :: "pyval option \<Rightarrow> qos_flow list" where
  \<comment> \<open>the value of the QoS rules element, \<open>None\<close> where it is absent or not sent\<close>
  "parse_qos_rules v =
     (case v of
        Some (PyBytes b) \<Rightarrow> (case decode_qos_rule_bytes b of Inl e \<Rightarrow> [] | Inr fs \<Rightarrow> fs)
      | Some (PyList rs) \<Rightarrow>
          concat (map (\<lambda>r. case as_list r of Some rule \<Rightarrow> opt_list (parse_decoded_qos_rule rule) | None \<Rightarrow> []) rs)
      | _ \<Rightarrow> [])"

fun find_bytes :: "pyval \<Rightarrow> bytes option" and find_bytes_in :: "pyval list \<Rightarrow> bytes option" where
  "find_bytes (PyBytes b) = (if 4 \<le> length b then Some b else None)"
| "find_bytes (PyList vs) = find_bytes_in vs"
| "find_bytes v = None"
| "find_bytes_in [] = None"
| "find_bytes_in (v # vs) = (case find_bytes v of Some b \<Rightarrow> Some b | None \<Rightarrow> find_bytes_in vs)"

definition pco_item :: "(string, string) dict \<Rightarrow> pyval \<Rightarrow> (string, string) dict res" where
  \<comment> \<open>one container \<open>[id, length, data]\<close> of the second attempt\<close>
  "pco_item result item =
     (case as_list item of
        Some (c # x # y # zs) \<Rightarrow>
          (case last (y # zs) of
             PyBytes d \<Rightarrow>
               if as_int c = Some 0x000C \<and> 4 \<le> length d then rbind (dotted d) (\<lambda>a. Inr (dict_set ''pcscf'' a result))
               else if as_int c = Some 0x000D \<and> 4 \<le> length d then rbind (dotted d) (\<lambda>a. Inr (dict_set ''dns'' a result))
               else Inr result
           | _ \<Rightarrow> Inr result)
      | _ \<Rightarrow> Inr result)"

fun pco_items :: "(string, string) dict \<Rightarrow> pyval list \<Rightarrow> (string, string) dict" where
  "pco_items result [] = result"
| "pco_items result (i # is) = (case pco_item result i of Inl e \<Rightarrow> result | Inr r \<Rightarrow> pco_items r is)"

definition parse_pco_list :: "pyval \<Rightarrow> (string, string) dict" where
  "parse_pco_list ie =
     (case find_bytes ie of
        Some b \<Rightarrow> (case parse_pco_bytes b of Inl e \<Rightarrow> [] | Inr r \<Rightarrow> r)
      | None \<Rightarrow> (case as_list ie of None \<Rightarrow> [] | Some items \<Rightarrow> pco_items [] items))"

section \<open>Reference encodings\<close>

datatype pf_comp =
    MatchAll | RemoteAddr bytes bytes | LocalAddr bytes bytes | Protocol nat
  | LocalPort nat | LocalPorts nat nat | RemotePort nat | RemotePorts nat nat

fun comp_ok :: "pf_comp \<Rightarrow> bool" where
  "comp_ok MatchAll \<longleftrightarrow> True"
| "comp_ok (RemoteAddr a m) \<longleftrightarrow> length a = 4 \<and> length m = 4"
| "comp_ok (LocalAddr a m) \<longleftrightarrow> length a = 4 \<and> length m = 4"
| "comp_ok (Protocol n) \<longleftrightarrow> n < 256"
| "comp_ok (LocalPort n) \<longleftrightarrow> n < 65536"
| "comp_ok (LocalPorts n m) \<longleftrightarrow> n < 65536 \<and> m < 65536"
| "comp_ok (RemotePort n) \<longleftrightarrow> n < 65536"
| "comp_ok (RemotePorts n m) \<longleftrightarrow> n < 65536 \<and> m < 65536"

fun comp_octets :: "pf_comp \<Rightarrow> bytes" where
  "comp_octets MatchAll = [0x01]"
| "comp_octets (RemoteAddr a m) = 0x10 # a @ m"
| "comp_octets (LocalAddr a m) = 0x11 # a @ m"
| "comp_octets (Protocol n) = [0x30, byte_of n]"
| "comp_octets (LocalPort n) = 0x40 # be_enc 2 n"
| "comp_octets (LocalPorts n m) = 0x41 # be_enc 2 n @ be_enc 2 m"
| "comp_octets (RemotePort n) = 0x50 # be_enc 2 n"
| "comp_octets (RemotePorts n m) = 0x51 # be_enc 2 n @ be_enc 2 m"

definition ip_text :: "bytes \<Rightarrow> string" where
  "ip_text a = join_with (CHR ''.'') (map (\<lambda>x. dec_str (unat x)) a)"

abbreviation py_nat :: "nat \<Rightarrow> pyval" where "py_nat n \<equiv> PyInt (int n)"

fun comp_entries :: "pf_comp \<Rightarrow> content" where
  "comp_entries MatchAll = [(''match_all'', PyBool True)]"
| "comp_entries (RemoteAddr a m) = [(''remote_ip'', PyStr (ip_text a)), (''remote_mask'', PyStr (ip_text m))]"
| "comp_entries (LocalAddr a m) = [(''local_ip'', PyStr (ip_text a)), (''local_mask'', PyStr (ip_text m))]"
| "comp_entries (Protocol n) = [(''protocol'', py_nat n)]"
| "comp_entries (LocalPort n) = [(''local_port'', py_nat n)]"
| "comp_entries (LocalPorts n m) = [(''local_port_min'', py_nat n), (''local_port_max'', py_nat m)]"
| "comp_entries (RemotePort n) = [(''remote_port'', py_nat n)]"
| "comp_entries (RemotePorts n m) = [(''remote_port_min'', py_nat n), (''remote_port_max'', py_nat m)]"

definition put_entries :: "content \<Rightarrow> content \<Rightarrow> content" where
  "put_entries es d = foldl (\<lambda>d (k, v). dict_set k v d) d es"

lemma put_entries_simps [simp]:
  "put_entries [] d = d" "put_entries ((k, v) # es) d = put_entries es (dict_set k v d)"
  "put_entries (es @ fs) d = put_entries fs (put_entries es d)"
  by (simp_all add: put_entries_def)

record spec_filter =
  sf_id :: nat
  sf_dir :: nat
  sf_comps :: "pf_comp list"

record spec_rule =
  sr_id :: nat
  sr_op :: nat
  sr_default :: bool
  sr_filters :: "spec_filter list"
  sr_precedence :: nat
  sr_segregation :: bool
  sr_qfi :: nat

definition comps_octets :: "pf_comp list \<Rightarrow> bytes" where
  "comps_octets cs = concat (map comp_octets cs)"

definition filter_ok :: "spec_filter \<Rightarrow> bool" where
  "filter_ok f \<longleftrightarrow> sf_id f < 16 \<and> sf_dir f < 4 \<and> list_all comp_ok (sf_comps f) \<and>
     length (comps_octets (sf_comps f)) < 256"

definition filter_octets :: "spec_filter \<Rightarrow> bytes" where
  "filter_octets f = byte_of (sf_dir f * 16 + sf_id f) # byte_of (length (comps_octets (sf_comps f))) #
     comps_octets (sf_comps f)"

definition rule_body :: "spec_rule \<Rightarrow> bytes" where
  "rule_body r = byte_of (sr_op r * 32 + (if sr_default r then 16 else 0) + length (sr_filters r)) #
     concat (map filter_octets (sr_filters r)) @
     [byte_of (sr_precedence r), byte_of ((if sr_segregation r then 64 else 0) + sr_qfi r)]"

definition rule_ok :: "spec_rule \<Rightarrow> bool" where
  "rule_ok r \<longleftrightarrow> sr_id r < 256 \<and> sr_op r < 8 \<and> length (sr_filters r) < 16 \<and> list_all filter_ok (sr_filters r) \<and>
     sr_precedence r < 256 \<and> sr_qfi r < 64"

definition rule_octets :: "spec_rule \<Rightarrow> bytes" where
  "rule_octets r = byte_of (sr_id r) # be_enc 2 (length (rule_body r)) @ rule_body r"

definition read_filter :: "spec_filter \<Rightarrow> qos_filter" where
  \<comment> \<open>what the decoder makes of a filter\<close>
  "read_filter f = \<lparr>qf_ident = Some (sf_id f, [''dl'', ''ul'', ''bidir'', ''bidir''] ! sf_dir f, comps_octets (sf_comps f)),
     qf_content = put_entries (concat (map comp_entries (sf_comps f))) []\<rparr>"

definition read_rule :: "spec_rule \<Rightarrow> qos_flow" where
  "read_rule r = \<lparr>fl_rule_id = py_nat (sr_id r), fl_qfi = py_nat (sr_qfi r), fl_dqr = (if sr_default r then 1 else 0),
     fl_precedence = int (sr_precedence r), fl_filters = map read_filter (sr_filters r)\<rparr>"

section \<open>Reading the components\<close>

lemma length_4: "length a = 4 \<longleftrightarrow> (\<exists>w x y z. a = [w, x, y, z])"
  by (auto simp: eval_nat_numeral length_Suc_conv)

lemma dotted_append [simp]: "length a = 4 \<Longrightarrow> dotted (a @ r) = Inr (ip_text a)"
  by (auto simp: length_4 dotted_def ip_text_def idx_def)

lemma dotted_self [simp]: "length a = 4 \<Longrightarrow> dotted a = Inr (ip_text a)"
  using dotted_append [of a "[]"] by simp

lemma be16_enc [simp]: "n < 65536 \<Longrightarrow> be16 (be_enc 2 n @ r) = Inr (int n)"
proof -
  assume n: "n < 65536"
  have "be_enc 2 n = [byte_of (n div 256), byte_of n]" by (simp add: numeral_2_eq_2)
  moreover have "push_bit 8 (n div 256) OR (n mod 256) = n"
    by (subst nat_shift_or) simp_all
  ultimately show ?thesis using n by (simp add: be16_def idx_def)
qed

lemma be16_total: "2 \<le> length b \<Longrightarrow> \<exists>n. be16 b = Inr n \<and> 0 \<le> n \<and> n = int (be_val (take 2 b))"
proof -
  assume "2 \<le> length b"
  then obtain x y r where b: "b = x # y # r" by (cases b; cases "tl b") auto
  have "push_bit 8 (unat x) OR unat y = unat x * 256 + unat y"
    using nat_shift_or [of "unat y" 8 "unat x"] by simp
  then show ?thesis by (simp add: b be16_def idx_def be_val_two)
qed

lemma dotted_total: "4 \<le> length b \<Longrightarrow> \<exists>s. dotted b = Inr s"
  using dotted_append [of "take 4 b" "drop 4 b"] by auto

lemma uint_byte_of [simp]: "n < 256 \<Longrightarrow> uint (byte_of n) = int n"
  by (simp add: byte_of_def unsigned_of_nat take_bit_nat_eq_self)

lemma component_read:
  "comp_ok c \<Longrightarrow> parse_pf_components (comp_octets c @ r) i = parse_pf_components r (put_entries (comp_entries c) i)"
  by (subst parse_pf_components.simps)
    (cases c; simp add: addr_mask_def addr_len_def port_pair_def Let_def)

lemma components_read:
  "list_all comp_ok cs \<Longrightarrow>
   parse_pf_components (comps_octets cs @ r) i = parse_pf_components r (put_entries (concat (map comp_entries cs)) i)"
  by (induction cs arbitrary: i) (simp_all add: comps_octets_def component_read)

lemma components_read_all:
  "list_all comp_ok cs \<Longrightarrow> parse_pf_components (comps_octets cs) i = Inr (put_entries (concat (map comp_entries cs)) i)"
  using components_read [of cs "[]" i] by (simp add: parse_pf_components.simps)

lemma rbind_total: "\<exists>x. m = Inr x \<Longrightarrow> (\<And>x. m = Inr x \<Longrightarrow> \<exists>y. f x = Inr y) \<Longrightarrow> \<exists>y. rbind m f = Inr y"
  by auto

lemma idx_total: "i < length b \<Longrightarrow> \<exists>x. idx b i = Inr x"
  by (simp add: idx_def)

lemma addr_mask_total: "4 \<le> length r \<Longrightarrow> \<exists>d. addr_mask ka km r i = Inr d"
  using dotted_total [of "drop 4 r"] unfolding addr_mask_def
  by (auto simp: Let_def intro!: rbind_total dotted_total)

lemma port_pair_total: "4 \<le> length r \<Longrightarrow> \<exists>d. port_pair ka km r i = Inr d"
  using be16_total [of r] be16_total [of "drop 2 r"] by (auto simp: port_pair_def)

lemma components_total: "\<exists>d. parse_pf_components b i = Inr d"
proof (induction b i rule: parse_pf_components.induct)
  case (1 b i)
  show ?case
  proof (cases b)
    case Nil
    then show ?thesis by (simp add: parse_pf_components.simps)
  next
    case (Cons t r)
    note IH = "1.IH" [unfolded Cons, simplified]
    have be: "2 \<le> length r \<Longrightarrow> \<exists>n. be16 r = Inr n" using be16_total [of r] by blast
    show ?thesis
      unfolding Cons
      by (subst parse_pf_components.simps)
        (use be in \<open>auto simp: Let_def intro!: rbind_total addr_mask_total port_pair_total idx_total IH\<close>)
  qed
qed

section \<open>Reading the rules\<close>

lemma filter_head:
  assumes "d < 4" "i < 16"
  shows "(d * 16 + i) mod 256 = d * 16 + i" "(d * 16 + i) AND 15 = i" "drop_bit 4 (d * 16 + i) AND 3 = (d :: nat)"
  using assms by (simp_all add: mask_simps drop_bit_eq_div)

lemma filters_read:
  "list_all filter_ok fs \<Longrightarrow>
   read_filters (length fs) (concat (map filter_octets fs) @ r) = Inr (map read_filter fs, r)"
proof (induction fs)
  case Nil
  then show ?case by simp
next
  case (Cons f fs)
  then have f: "sf_id f < 16" "sf_dir f < 4" "list_all comp_ok (sf_comps f)" "length (comps_octets (sf_comps f)) < 256"
    by (auto simp: filter_ok_def)
  have dirs: "idx [''dl'', ''ul'', ''bidir'', ''bidir''] (sf_dir f) = Inr ([''dl'', ''ul'', ''bidir'', ''bidir''] ! sf_dir f)"
    using f(2) by (simp add: idx_def)
  show ?case
    using Cons f by (simp add: filter_octets_def filter_head [OF f(2,1)] dirs components_read_all Let_def read_filter_def)
qed

lemma rule_head:
  assumes "op < 8" "n < 16"
  shows "unat (byte_of (op * 32 + (if d then 16 else 0) + n)) AND 15 = n"
    "drop_bit 4 (unat (byte_of (op * 32 + (if d then 16 else 0) + n))) AND 1 = (if d then 1 else (0 :: nat))"
proof -
  define k where "k = (if d then 1 else (0 :: nat))"
  have k: "k < 2" by (simp add: k_def)
  have v: "op * 32 + (if d then 16 else 0) + n = (op * 2 + k) * 16 + n" by (simp add: k_def)
  have big: "((op * 2 + k) * 16 + n) mod 256 = (op * 2 + k) * 16 + n" using assms k by simp
  have d: "(m * 16 + n) div 16 = m" for m using assms(2) by simp
  have e: "(m * 16 + n) mod 16 = n" for m using assms(2) by simp
  show "unat (byte_of (op * 32 + (if d then 16 else 0) + n)) AND 15 = n"
    unfolding v unat_byte_of big by (simp only: mask_simps e)
  have "drop_bit 4 (unat (byte_of ((op * 2 + k) * 16 + n))) AND 1 = k"
    unfolding unat_byte_of big by (simp add: mask_simps drop_bit_eq_div d k del: distrib_right_numeral)
  then show "drop_bit 4 (unat (byte_of (op * 32 + (if d then 16 else 0) + n))) AND 1 = (if d then 1 else (0 :: nat))"
    unfolding v by (simp add: k_def)
qed

lemma rule_read:
  assumes "rule_ok r"
  shows "decode_rule (byte_of (sr_id r)) (rule_body r) = Inr (read_rule r)"
proof -
  have q: "unat (byte_of ((if sr_segregation r then 64 else 0) + sr_qfi r)) AND 63 = sr_qfi r"
    using assms by (simp add: rule_ok_def nat_and_mask [of _ 6, simplified])
  show ?thesis
    using assms filters_read [of "sr_filters r"] rule_head [of "sr_op r" "length (sr_filters r)" "sr_default r"] q
    by (simp add: decode_rule_def rule_body_def rule_ok_def read_rule_def Let_def)
qed

lemma rule_body_length: "rule_ok r \<Longrightarrow> 3 \<le> length (rule_body r) \<and> length (rule_body r) < 65536"
proof -
  assume ok: "rule_ok r"
  have "length (concat (map filter_octets fs)) \<le> length fs * 257" if "list_all filter_ok fs" for fs
    using that by (induction fs) (auto simp: filter_octets_def filter_ok_def)
  from this [of "sr_filters r"] ok show ?thesis by (auto simp: rule_body_def rule_ok_def)
qed

lemma rules_read:
  "list_all rule_ok rs \<Longrightarrow> decode_qos_rule_bytes (concat (map rule_octets rs)) = Inr (map read_rule rs)"
proof (induction rs)
  case Nil
  then show ?case by (simp add: decode_qos_rule_bytes.simps)
next
  case (Cons r rs)
  then have r: "rule_ok r" by simp
  define b where "b = rule_body r"
  have b: "3 \<le> length b" "length b < 65536" using rule_body_length [OF r] by (simp_all add: b_def)
  then have len: "be16 (be_enc 2 (length b) @ b @ x) = Inr (int (length b))" for x by simp
  have octets: "rule_octets r = byte_of (sr_id r) # be_enc 2 (length b) @ b" by (simp add: rule_octets_def b_def)
  have cut: "drop 3 (byte_of (sr_id r) # be_enc 2 (length b) @ b @ x) = b @ x" for x
    by (simp add: numeral_3_eq_3 numeral_2_eq_2)
  show ?case
    using Cons.prems Cons.IH rule_read [OF r] b
    by (subst decode_qos_rule_bytes.simps) (simp add: octets len cut Let_def del: be_enc.simps flip: b_def)
qed

section \<open>Properties of the octet decoders\<close>



definition flow_in_range :: "qos_flow \<Rightarrow> bool" where
  "flow_in_range f \<longleftrightarrow> (\<exists>q \<ge> 0. q < 64 \<and> fl_qfi f = PyInt q) \<and> fl_dqr f \<in> {0, 1} \<and>
     0 \<le> fl_precedence f \<and> fl_precedence f < 256 \<and> length (fl_filters f) \<le> 15"

lemma read_filters_total: "\<exists>fs r. read_filters n b = Inr (fs, r) \<and> length fs \<le> n"
proof (induction n arbitrary: b)
  case (Suc n)
  show ?case
  proof (cases "length b < 2")
    case True
    then consider "b = []" | x where "b = [x]" by (cases b) auto
    then show ?thesis by cases auto
  next
    case False
    then obtain d l r where b: "b = d # l # r" by (cases b; cases "tl b") auto
    have "drop_bit 4 (unat d) AND 3 < 4" by (simp add: mask_simps)
    then obtain dir where dir: "idx [''dl'', ''ul'', ''bidir'', ''bidir''] (drop_bit 4 (unat d) AND 3) = Inr dir"
      by (simp add: idx_def)
    obtain info where "parse_pf_components (take (unat l) r) [] = Inr info" using components_total by blast
    moreover obtain fs r' where "read_filters n (drop (unat l) r) = Inr (fs, r')" "length fs \<le> n" using Suc by blast
    ultimately show ?thesis using dir by (auto simp: b Let_def)
  qed
qed simp

lemma uint_byte: "uint (b :: byte) < 256"
  using unsigned_less [of b, where 'a = int] by simp

lemma decode_rule_total: "d \<noteq> [] \<Longrightarrow> \<exists>f. decode_rule i d = Inr f \<and> flow_in_range f"
proof -
  assume "d \<noteq> []"
  then obtain b r where d: "d = b # r" by (cases d) auto
  obtain fs r' where fs: "read_filters (unat b AND 15) r = Inr (fs, r')" "length fs \<le> unat b AND 15"
    using read_filters_total by blast
  have "unat b AND 15 \<le> 15" "drop_bit 4 (unat b) AND 1 \<in> {0, 1}" "(unat x AND 63) < 64" for x :: byte
    using nat_and_mask [of "unat x" 6] by (auto simp: mask_simps)
  then show ?thesis
    using fs uint_byte by (cases r'; cases "tl r'") (auto simp: d decode_rule_def Let_def flow_in_range_def idx_def)
qed

lemma qos_decode_total:
  "\<exists>fs. decode_qos_rule_bytes data = Inr fs \<and> (\<forall>f \<in> set fs. flow_in_range f)"
proof (induction data rule: measure_induct_rule [of length])
  case (less data)
  show ?case
  proof (cases "length data < 3")
    case True
    then show ?thesis by (simp add: decode_qos_rule_bytes.simps)
  next
    case False
    obtain n where n: "be16 (drop 1 data) = Inr n" using be16_total [of "drop 1 data"] False by auto
    obtain x where x: "idx data 0 = Inr x" using idx_total [of 0 data] False by (cases data) auto
    define d where "d = take (nat n) (drop 3 data)"
    define rest where "rest = drop (nat n) (drop 3 data)"
    have step: "decode_qos_rule_bytes data =
        (if int (length (drop 3 data)) < n then Inr [] else if length d < 3 then decode_qos_rule_bytes rest
         else rbind (decode_rule x d) (\<lambda>f. rbind (decode_qos_rule_bytes rest) (\<lambda>fs. Inr (f # fs))))"
      using False n x by (subst decode_qos_rule_bytes.simps) (simp only: Let_def d_def rest_def rbind.simps if_False)
    show ?thesis
    proof (cases "int (length (drop 3 data)) < n")
      case True
      then show ?thesis using step by simp
    next
      case long: False
      then have "\<exists>fs. decode_qos_rule_bytes rest = Inr fs \<and> (\<forall>f \<in> set fs. flow_in_range f)"
        by (intro less) (use False in \<open>simp add: rest_def\<close>)
      moreover have "3 \<le> length d \<Longrightarrow> \<exists>f. decode_rule x d = Inr f \<and> flow_in_range f"
        by (rule decode_rule_total) auto
      ultimately show ?thesis using long by (auto simp: step)
    qed
  qed
qed

lemma pco_loop_total: "\<exists>d. pco_loop b r = Inr d"
proof (induction b arbitrary: r rule: measure_induct_rule [of length])
  case (less b)
  have be: "2 \<le> length x \<Longrightarrow> \<exists>n. be16 x = Inr n" for x using be16_total [of x] by blast
  have dot: "\<exists>s. dotted (take n (drop 3 b)) = Inr s" if "4 \<le> n" "n \<le> length (drop 3 b)" for n
    by (rule dotted_total) (use that in simp)
  show ?case
    by (subst pco_loop.simps)
      (auto simp: Let_def not_less intro!: rbind_total idx_total be dot less)
qed

text \<open>
  C30: Whatever octets the network sends, decoding the QoS rules and the configuration options ends
  without an exception, and in every rule it returns the flow identifier is below 64, the default flag
  is 0 or 1, the precedence an octet, and there are at most fifteen filters.\<close>

theorem qos_decode_bounds:
  "(\<exists>fs. decode_qos_rule_bytes data = Inr fs \<and> list_all flow_in_range fs) \<and>
   (\<exists>d. parse_pco_bytes data = Inr d)"
proof
  show "\<exists>fs. decode_qos_rule_bytes data = Inr fs \<and> list_all flow_in_range fs"
    using qos_decode_total [of data] by (auto simp: list_all_iff)
  show "\<exists>d. parse_pco_bytes data = Inr d"
    using pco_loop_total by (cases data) (auto simp: parse_pco_bytes_def)
qed

section \<open>Configuration options\<close>

definition container_ok :: "nat \<times> bytes \<Rightarrow> bool" where
  "container_ok c \<longleftrightarrow> fst c < 65536 \<and> length (snd c) < 256"

definition container_octets :: "nat \<times> bytes \<Rightarrow> bytes" where
  "container_octets c = be_enc 2 (fst c) @ byte_of (length (snd c)) # snd c"

definition note_container :: "(string, string) dict \<Rightarrow> nat \<times> bytes \<Rightarrow> (string, string) dict" where
  "note_container d c =
     (if fst c = 12 \<and> 4 \<le> length (snd c) then dict_set ''pcscf'' (ip_text (take 4 (snd c))) d
      else if fst c = 13 \<and> 4 \<le> length (snd c) then dict_set ''dns'' (ip_text (take 4 (snd c))) d
      else d)"

lemma dotted_take: "4 \<le> length x \<Longrightarrow> dotted x = Inr (ip_text (take 4 x))"
  using dotted_append [of "take 4 x" "drop 4 x"] by simp

lemma container_read:
  assumes "container_ok c"
  shows "pco_loop (container_octets c @ r) d = pco_loop r (note_container d c)"
proof -
  obtain i x where c: "c = (i, x)" by (cases c)
  then have ok: "i < 65536" "length x < 256" using assms by (auto simp: container_ok_def)
  have "idx (be_enc 2 i @ y # z) 2 = Inr y" "drop 3 (be_enc 2 i @ y # z) = z" for y and z :: bytes
    by (simp_all add: idx_def numeral_2_eq_2 numeral_3_eq_3)
  then show ?thesis
    using ok
    by (subst pco_loop.simps)
      (simp add: c container_octets_def note_container_def Let_def dotted_take del: be_enc.simps)
qed

text \<open>
  Configuration options laid out as TS 24.008 prescribes yield the addresses of the last P-CSCF and
  DNS container of at least four octets; every other container is passed over.\<close>

theorem pco_roundtrip:
  assumes "list_all container_ok cs"
  shows "parse_pco_bytes (0x80 # concat (map container_octets cs)) = Inr (foldl note_container [] cs)"
proof -
  have "pco_loop (concat (map container_octets cs)) d = Inr (foldl note_container d cs)" for d
    using assms
  proof (induction cs arbitrary: d)
    case Nil
    then show ?case by (simp add: pco_loop.simps)
  next
    case (Cons c cs)
    then show ?case by (simp add: container_read)
  qed
  then show ?thesis by (simp add: parse_pco_bytes_def)
qed

theorem pco_roundtrip_witness:
  "let cs = [(0x000D, [8, 8, 8, 8]), (0x000C, [10, 0, 0, 9])] in
   parse_pco_bytes (0x80 # concat (map container_octets cs)) = Inr [(''dns'', ''8.8.8.8''), (''pcscf'', ''10.0.0.9'')]"
proof -
  have "list_all container_ok [(0x000D, [8, 8, 8, 8]), (0x000C, [10, 0, 0, 9])]" by (simp add: container_ok_def)
  moreover have "foldl note_container [] [(0x000D, [8, 8, 8, 8]), (0x000C, [10, 0, 0, 9])] =
      [(''dns'', ''8.8.8.8''), (''pcscf'', ''10.0.0.9'')]"
    by code_simp
  ultimately show ?thesis using pco_roundtrip by (simp only: Let_def)
qed

section \<open>List decoders against octet decoders\<close>

fun comp_value :: "pf_comp \<Rightarrow> pyval" where
  \<comment> \<open>the pair the vendored codec makes of a component\<close>
  "comp_value (Protocol n) = PyList [PyInt 48, py_nat n]"
| "comp_value (LocalPort n) = PyList [PyInt 64, py_nat n]"
| "comp_value (LocalPorts n m) = PyList [PyInt 65, PyList [py_nat n, py_nat m]]"
| "comp_value (RemotePort n) = PyList [PyInt 80, py_nat n]"
| "comp_value (RemotePorts n m) = PyList [PyInt 81, PyList [py_nat n, py_nat m]]"
| "comp_value (RemoteAddr a m) = PyList [PyInt 16, PyList [PyBytes a, PyBytes m]]"
| "comp_value (LocalAddr a m) = PyList [PyInt 17, PyList [PyBytes a, PyBytes m]]"
| "comp_value MatchAll = PyList [PyInt 1, PyNone]"

fun is_addr :: "pf_comp \<Rightarrow> bool" where
  "is_addr (RemoteAddr a m) = True"
| "is_addr (LocalAddr a m) = True"
| "is_addr c = False"

definition filter_value :: "spec_filter \<Rightarrow> pyval" where
  "filter_value f = PyList [py_nat (sf_id f), py_nat (sf_dir f), py_nat (length (comps_octets (sf_comps f))),
     PyList (map comp_value (sf_comps f))]"

definition rule_value :: "spec_rule \<Rightarrow> pyval" where
  "rule_value r = PyList [py_nat (sr_id r),
     py_nat (sr_op r * 32 + (if sr_default r then 16 else 0) + length (sr_filters r)),
     PyList (map filter_value (sr_filters r)), py_nat (sr_precedence r),
     PyList [PyInt 0, PyInt (if sr_segregation r then 1 else 0), py_nat (sr_qfi r)]]"

definition without_ident :: "qos_flow \<Rightarrow> qos_flow" where
  "without_ident f = f\<lparr>fl_filters := map (\<lambda>p. p\<lparr>qf_ident := None\<rparr>) (fl_filters f)\<rparr>"

lemma put_comp_value: "\<not> is_addr c \<Longrightarrow> put_component d (comp_value c) = put_entries (comp_entries c) d"
  by (cases c) (simp_all add: put_component_def put_range_def)

lemma put_addr_value: "is_addr c \<Longrightarrow> put_component d (comp_value c) = d"
  by (cases c) (simp_all add: put_component_def)

lemma put_comp_values:
  "foldl put_component d (map comp_value cs) =
   put_entries (concat (map comp_entries (filter (\<lambda>c. \<not> is_addr c) cs))) d"
  by (induction cs arbitrary: d) (simp_all add: put_comp_value put_addr_value)

lemma comp_value_list: "\<exists>xs. comp_value c = PyList xs"
  by (cases c) simp_all

lemma filter_value_read:
  assumes "sf_comps f \<noteq> []"
  shows "parse_decoded_filter (filter_value f) =
     Inr \<lparr>qf_ident = None,
          qf_content = put_entries (concat (map comp_entries (filter (\<lambda>c. \<not> is_addr c) (sf_comps f)))) []\<rparr>"
proof -
  obtain c cs where cs: "sf_comps f = c # cs" using assms by (cases "sf_comps f") auto
  obtain xs where "comp_value c = PyList xs" using comp_value_list by blast
  then show ?thesis
    using put_comp_values [of "[]" "sf_comps f"]
    by (simp add: parse_decoded_filter_def filter_value_def cs or_pairs_def del: map_map)
qed

lemma is_list_filter_value: "as_list (filter_value f) = Some [py_nat (sf_id f), py_nat (sf_dir f),
     py_nat (length (comps_octets (sf_comps f))), PyList (map comp_value (sf_comps f))]"
  by (simp add: filter_value_def)

definition plain_filter :: "spec_filter \<Rightarrow> bool" where
  "plain_filter f \<longleftrightarrow> sf_comps f \<noteq> [] \<and> list_all (\<lambda>c. \<not> is_addr c) (sf_comps f)"

lemma plain_filters_read:
  "list_all plain_filter fs \<Longrightarrow>
   rmap parse_decoded_filter (map filter_value fs) = Inr (map (\<lambda>f. (read_filter f)\<lparr>qf_ident := None\<rparr>) fs)"
proof (induction fs)
  case (Cons f fs)
  then have "filter (\<lambda>c. \<not> is_addr c) (sf_comps f) = sf_comps f"
    by (simp add: plain_filter_def list_all_iff)
  with Cons filter_value_read [of f] show ?case by (simp add: plain_filter_def read_filter_def)
qed simp

lemma first_filters_rule:
  assumes "rule_value r = PyList xs"
  shows "first_filters xs = map filter_value (sr_filters r)"
  using assms by (cases "sr_filters r") (auto simp: rule_value_def is_list_filter_value)

lemma flag_bit:
  assumes "0 \<le> n" "(n :: int) < 16"
  shows "(op * 32 + (if d then 16 else 0) + n) div 16 mod 2 = (if d then 1 else 0)"
proof -
  define k where "k = (if d then 1 else (0 :: int))"
  have k: "0 \<le> k" "k < 2" by (simp_all add: k_def)
  have v: "op * 32 + (if d then 16 else 0) + n = (op * 2 + k) * 16 + n" by (simp add: k_def)
  have "(m * 16 + n) div 16 = m" for m using assms by simp
  then have "(op * 32 + (if d then 16 else 0) + n) div 16 mod 2 = (op * 2 + k) mod 2" unfolding v by (simp only:)
  also have "\<dots> = k" using k by simp
  finally show ?thesis by (simp add: k_def)
qed

lemma rule_value_read:
  assumes "rule_ok r" "list_all plain_filter (sr_filters r)" "rule_value r = PyList xs"
  shows "parse_decoded_qos_rule xs = Some (without_ident (read_rule r))" and "3 \<le> length xs" "xs \<noteq> []"
proof -
  have d: "(int (sr_op r) * 32 + (if sr_default r then 16 else 0) + int (length (sr_filters r))) div 16 mod 2 =
      (if sr_default r then 1 else 0)"
    using assms(1) flag_bit [of "int (length (sr_filters r))" "int (sr_op r)" "sr_default r"] by (simp add: rule_ok_def)
  show "parse_decoded_qos_rule xs = Some (without_ident (read_rule r))"
    using assms plain_filters_read [OF assms(2)] first_filters_rule [OF assms(3)] d
    by (auto simp: rule_value_def parse_decoded_qos_rule_def read_rule_def without_ident_def Let_def
        mask_simps drop_bit_eq_div comp_def)
  show "3 \<le> length xs" "xs \<noteq> []" using assms(3) by (auto simp: rule_value_def)
qed

lemma rule_value_list: "\<exists>xs. rule_value r = PyList xs"
  by (simp add: rule_value_def)

lemma rule_values_read:
  assumes "list_all rule_ok rs" "list_all (\<lambda>r. list_all plain_filter (sr_filters r)) rs"
  shows "concat (map (\<lambda>r. case as_list r of Some rule \<Rightarrow> opt_list (parse_decoded_qos_rule rule) | None \<Rightarrow> [])
           (map rule_value rs)) = map (\<lambda>r. without_ident (read_rule r)) rs"
    "concat (map (\<lambda>r. case as_list r of
           Some rule \<Rightarrow> if 3 \<le> length rule then opt_list (parse_decoded_qos_rule rule) else [] | None \<Rightarrow> [])
           (map rule_value rs)) = map (\<lambda>r. without_ident (read_rule r)) rs"
  using assms
proof (induction rs)
  case (Cons r rs)
  obtain xs where xs: "rule_value r = PyList xs" using rule_value_list by blast
  note v = rule_value_read [OF _ _ xs]
  { case 1 with Cons v xs show ?case by (simp add: opt_list_def) next
    case 2 with Cons v xs show ?case by (simp add: opt_list_def) }
qed simp_all

text \<open>
  For rules whose filters name protocols and ports, the three ways a rule list can arrive - octets,
  the codec's nested list, the codec's list of the whole message - give the same flows, filter
  identifiers aside, which only the octets keep.\<close>

theorem qos_forms_agree:
  assumes "list_all rule_ok rs" "list_all (\<lambda>r. list_all plain_filter (sr_filters r)) rs"
  shows "parse_qos_rules (Some (PyList (map rule_value rs))) =
      map without_ident (parse_qos_rules (Some (PyBytes (concat (map rule_octets rs))))) \<and>
    parse_qos_rules_from_list (PyList [h, PyList [PyInt 122, n, PyList (map rule_value rs)]]) =
      map without_ident (parse_qos_rules (Some (PyBytes (concat (map rule_octets rs)))))"
proof -
  have octets: "map without_ident (parse_qos_rules (Some (PyBytes (concat (map rule_octets rs))))) =
      map (\<lambda>r. without_ident (read_rule r)) rs"
    using rules_read [OF assms(1)] by (simp add: parse_qos_rules_def)
  have "parse_qos_rules (Some (PyList (map rule_value rs))) = map (\<lambda>r. without_ident (read_rule r)) rs"
    using rule_values_read(1) [OF assms] by (simp add: parse_qos_rules_def)
  moreover have first: "rs \<noteq> [] \<Longrightarrow> as_list (hd (map rule_value rs)) \<noteq> None"
    by (cases rs) (auto simp: rule_value_def)
  then have "rules_of_ie [PyInt 122, n, PyList (map rule_value rs)] = map (\<lambda>r. without_ident (read_rule r)) rs"
    using rule_values_read(2) [OF assms] by (auto simp: rules_of_ie_def Let_def)
  ultimately show ?thesis
    unfolding octets by (simp add: parse_qos_rules_from_list_def)
qed

theorem qos_forms_agree_witness:
  "let f = \<lparr>sf_id = 1, sf_dir = 3, sf_comps = [Protocol 17, LocalPort 5060]\<rparr>;
       r = \<lparr>sr_id = 2, sr_op = 1, sr_default = False, sr_filters = [f], sr_precedence = 10, sr_segregation = False, sr_qfi = 5\<rparr>
   in parse_qos_rules (Some (PyList [rule_value r])) =
        map without_ident (parse_qos_rules (Some (PyBytes (rule_octets r)))) \<and>
      map fl_qfi (parse_qos_rules (Some (PyList [rule_value r]))) = [PyInt 5]"
proof -
  let ?f = "\<lparr>sf_id = 1, sf_dir = 3, sf_comps = [Protocol 17, LocalPort 5060]\<rparr>"
  let ?r = "\<lparr>sr_id = 2, sr_op = 1, sr_default = False, sr_filters = [?f], sr_precedence = 10, sr_segregation = False, sr_qfi = 5\<rparr>"
  have ok: "list_all rule_ok [?r]" by (simp add: rule_ok_def filter_ok_def comps_octets_def)
  have plain: "list_all (\<lambda>r. list_all plain_filter (sr_filters r)) [?r]" by (simp add: plain_filter_def)
  have "map fl_qfi (parse_qos_rules (Some (PyList [rule_value ?r]))) = [PyInt 5]"
    using rule_values_read(1) [OF ok plain] by (simp add: parse_qos_rules_def without_ident_def read_rule_def)
  then show ?thesis using qos_forms_agree [OF ok plain] by (simp add: Let_def)
qed

section \<open>Where the decoders depart from the standard\<close>

text \<open>
  The standard's direction 1, downlink only, is reported as uplink.\<close>

theorem filter_direction_shifted:
  assumes "rule_ok r" "sr_filters r = [f]" "sf_dir f = 1"
  shows "\<exists>q. decode_qos_rule_bytes (rule_octets r) = Inr [q] \<and>
     map qf_ident (fl_filters q) = [Some (sf_id f, ''ul'', comps_octets (sf_comps f))]"
  using assms rules_read [of "[r]"] by (simp add: read_rule_def read_filter_def)

text \<open>
  The operation of a rule is not looked at.  The command to delete packet filter 3 of rule 2, whose
  filter list holds bare identifiers, is read as a new rule for flow 0 with one filter without any
  component, which every packet matches.\<close>

theorem delete_filters_misread:
  "decode_qos_rule_bytes [2, 0, 4, 5 * 32 + 1, 3, 10, 5] =
   Inr [\<lparr>fl_rule_id = PyInt 2, fl_qfi = PyInt 0, fl_dqr = 0, fl_precedence = 255,
         fl_filters = [\<lparr>qf_ident = Some (3, ''dl'', [5]), qf_content = []\<rparr>]\<rparr>]"
  by code_simp

end
