(* ===== verification/UserPlane.thy ===== *)
theory UserPlane
  imports QosRules Gtpu
begin

text \<open>
  The tunnel manager of the emulated base station (\<open>protocol/gtpu.py\<close>): classification of uplink packets
  against QoS rules, the tunnel tables, and what the two data plane threads do with one packet.  The
  outcome of creating and configuring a TUN device is an argument; writing to a device or the UDP socket
  succeeds or fails as an argument says.  Threads, queues of callables and netlink calls are left out.
\<close>

section \<open>Constants\<close>

definition GTPU_PORT :: nat where "GTPU_PORT = 2152"
definition GTPU_FLAGS_EXT :: nat where "GTPU_FLAGS_EXT = 0x34"
definition GTPU_MSG_TPDU :: nat where "GTPU_MSG_TPDU = 0xFF"
definition GTPU_HDR_LEN :: nat where "GTPU_HDR_LEN = 8"
definition GTPU_EXT_PDU_SESSION :: nat where "GTPU_EXT_PDU_SESSION = 0x85"

lemmas gtpu_numbers = GTPU_FLAGS_EXT_def GTPU_MSG_TPDU_def GTPU_HDR_LEN_def GTPU_EXT_PDU_SESSION_def

section \<open>Classification\<close>

fun truthy :: "pyval \<Rightarrow> bool" where
  "truthy PyNone = False"
| "truthy (PyBool b) = b"
| "truthy (PyInt n) = (n \<noteq> 0)"
| "truthy (PyStr s) = (s \<noteq> [])"
| "truthy (PyBytes b) = (b \<noteq> [])"
| "truthy (PyList vs) = (vs \<noteq> [])"
| "truthy (PyTuple vs) = (vs \<noteq> [])"
| "truthy (PyDict d) = (d \<noteq> [])"

definition eq_num :: "pyval \<Rightarrow> nat \<Rightarrow> bool" where
  \<comment> \<open>\<open>v == n\<close>\<close>
  "eq_num v n = (as_int v = Some (int n))"

definition num_of :: "pyval \<Rightarrow> int res" where
  \<comment> \<open>the operand of an order comparison with a number, which raises for anything else\<close>
  "num_of v = (case as_int v of None \<Rightarrow> Inl TypeError | Some n \<Rightarrow> Inr n)"

definition in_range :: "content \<Rightarrow> string \<Rightarrow> string \<Rightarrow> nat \<Rightarrow> bool res" where
  \<comment> \<open>the port range test; a chained comparison stops at the first false part\<close>
  "in_range c kmin kmax port =
     (case (dict_get c kmin, dict_get c kmax) of
        (Some lo, Some hi) \<Rightarrow>
          rbind (num_of lo) (\<lambda>l. if \<not> l \<le> int port then Inr False
            else rbind (num_of hi) (\<lambda>h. Inr (int port \<le> h)))
      | _ \<Rightarrow> Inr True)"

definition port_is :: "content \<Rightarrow> string \<Rightarrow> nat \<Rightarrow> bool" where
  "port_is c k port = (case dict_get c k of None \<Rightarrow> True | Some v \<Rightarrow> eq_num v port)"

definition addr_is :: "content \<Rightarrow> string \<Rightarrow> string \<Rightarrow> bool" where
  "addr_is c k ip = (case dict_get c k of None \<Rightarrow> True | Some v \<Rightarrow> v = PyStr ''0.0.0.0'' \<or> v = PyStr ip)"

definition match_filter :: "content \<Rightarrow> nat \<Rightarrow> string \<Rightarrow> string \<Rightarrow> nat \<Rightarrow> nat \<Rightarrow> bool res" where
  "match_filter c protocol src_ip dst_ip src_port dst_port =
     (if (case dict_get c ''match_all'' of None \<Rightarrow> False | Some v \<Rightarrow> truthy v) then Inr True
      else if \<not> port_is c ''protocol'' protocol then Inr False
      else if \<not> addr_is c ''remote_ip'' dst_ip then Inr False
      else if \<not> addr_is c ''local_ip'' src_ip then Inr False
      else if \<not> port_is c ''local_port'' src_port then Inr False
      else rbind (in_range c ''local_port_min'' ''local_port_max'' src_port) (\<lambda>a.
        if \<not> a then Inr False
        else if \<not> port_is c ''remote_port'' dst_port then Inr False
        else rbind (in_range c ''remote_port_min'' ''remote_port_max'' dst_port) (\<lambda>b. Inr b)))"

record packet_view =
  pv_protocol :: nat
  pv_src_ip :: string
  pv_dst_ip :: string
  pv_src_port :: nat
  pv_dst_port :: nat

definition port_at :: "bytes \<Rightarrow> nat \<Rightarrow> nat" where
  "port_at p i = push_bit 8 (unat (p ! i)) OR unat (p ! (i + 1))"

definition view_packet :: "bytes \<Rightarrow> packet_view" where
  \<comment> \<open>the header fields of an IPv4 packet of at least 20 octets\<close>
  "view_packet p =
     (let protocol = unat (p ! 9); ihl = (unat (p ! 0) AND 0x0F) * 4;
          ports = protocol \<in> {6, 17} \<and> 24 \<le> length p \<and> ihl + 4 \<le> length p
      in \<lparr>pv_protocol = protocol, pv_src_ip = ip_text (slice 12 16 p), pv_dst_ip = ip_text (slice 16 20 p),
          pv_src_port = (if ports then port_at p ihl else 0),
          pv_dst_port = (if ports then port_at p (ihl + 2) else 0)\<rparr>)"

definition filter_matches :: "packet_view \<Rightarrow> qos_filter \<Rightarrow> bool res" where
  "filter_matches v f = match_filter (qf_content f) (pv_protocol v) (pv_src_ip v) (pv_dst_ip v)
     (pv_src_port v) (pv_dst_port v)"

fun any_filter :: "packet_view \<Rightarrow> qos_filter list \<Rightarrow> bool res" where
  "any_filter v [] = Inr False"
| "any_filter v (f # fs) = rbind (filter_matches v f) (\<lambda>m. if m then Inr True else any_filter v fs)"

fun first_rule :: "packet_view \<Rightarrow> qos_flow list \<Rightarrow> pyval res" where
  \<comment> \<open>the loop over the sorted rules\<close>
  "first_rule v [] = Inr (PyInt (-1))"
| "first_rule v (r # rs) = rbind (any_filter v (fl_filters r)) (\<lambda>m. if m then Inr (fl_qfi r) else first_rule v rs)"

definition classify_packet :: "bytes \<Rightarrow> qos_flow list \<Rightarrow> pyval \<Rightarrow> pyval res" where
  "classify_packet p rules default_qfi =
     (if rules = [] \<or> length p < 20 then Inr default_qfi
      else if drop_bit 4 (unat (p ! 0)) AND 0x0F \<noteq> 4 then Inr default_qfi
      else first_rule (view_packet p) (sort_key fl_precedence rules))"

section \<open>Uplink encapsulation\<close>

definition build_gtpu_with_pdu_session_container :: "int \<Rightarrow> bytes \<Rightarrow> pyval \<Rightarrow> bool \<Rightarrow> bytes res" where
  "build_gtpu_with_pdu_session_container teid payload qfi is_uplink =
     (let pdu_type = (if is_uplink then 1 else 0); byte1 = push_bit 4 pdu_type in
      rbind (num_of qfi) (\<lambda>q.
      rbind (packs [(1, 1), (1, byte1), (1, q AND 0x3F)]) (\<lambda>e.
      let pdu_session_ext = e @ [0] in
      rbind (packs [(2, 0), (1, 0), (1, int GTPU_EXT_PDU_SESSION)]) (\<lambda>ext_fields.
      let total_len = length ext_fields + length pdu_session_ext + length payload in
      rbind (packs [(1, int GTPU_FLAGS_EXT), (1, int GTPU_MSG_TPDU), (2, int total_len), (4, teid)]) (\<lambda>gtpu_hdr.
        Inr (gtpu_hdr @ ext_fields @ pdu_session_ext @ payload))))))"

section \<open>Downlink decapsulation\<close>

function skip_chain :: "bytes \<Rightarrow> nat \<Rightarrow> nat \<Rightarrow> nat" where
  \<comment> \<open>the loop over the extension headers of \<open>_udp_receiver\<close>; a malformed header ends it\<close>
  "skip_chain data nxt off =
     (if nxt = 0 \<or> length data \<le> off then off
      else let ext_len = unat (data ! off) in
        if ext_len = 0 then off
        else let ext_size = ext_len * 4 in
          if length data < off + ext_size then off
          else skip_chain data (unat (data ! (off + ext_size - 1))) (off + ext_size))"
  by pat_completeness auto
termination by (relation "measure (\<lambda>(data, n, off). length data - off)") auto

declare skip_chain.simps [simp del]

definition rx_payload :: "bytes \<Rightarrow> bytes option" where
  \<comment> \<open>the payload of a T-PDU for a known tunnel; \<open>None\<close> where the datagram is dropped\<close>
  "rx_payload data =
     (let flags = unat (data ! 0) in
      if flags AND 0x07 \<noteq> 0 then
        (if length data < GTPU_HDR_LEN + 4 then None
         else let p = drop (skip_chain data (unat (data ! (GTPU_HDR_LEN + 3))) (GTPU_HDR_LEN + 4)) data
              in if p = [] then None else Some p)
      else let p = drop GTPU_HDR_LEN data in if p = [] then None else Some p)"

section \<open>Tunnels\<close>

record tunnel =
  tn_imsi :: string
  tn_ue_ip :: string
  tn_local :: int
  tn_remote :: int
  tn_upf :: string
  tn_rules :: "qos_flow list"
  tn_default_qfi :: pyval
  tn_name :: string
  tn_fd :: int
  tn_tx :: "nat \<times> nat" \<comment> \<open>packets and octets\<close>
  tn_rx :: "nat \<times> nat"
  tn_dropped :: nat

record manager =
  gm_available :: bool
  gm_tunnels :: "(int, tunnel) dict"
  gm_fds :: "(int, int) dict"

datatype tun_result = TunFd int | TunPermission | TunOsError
  \<comment> \<open>what \<open>_create_tun\<close> followed by \<open>_configure_tun\<close> does\<close>

definition destroy_tunnel :: "int \<Rightarrow> manager \<Rightarrow> manager" where
  "destroy_tunnel teid m =
     (case dict_get (gm_tunnels m) teid of
        None \<Rightarrow> m
      | Some t \<Rightarrow> m\<lparr>gm_tunnels := dict_del teid (gm_tunnels m), gm_fds := dict_del (tn_fd t) (gm_fds m)\<rparr>)"

definition stale_teids :: "string \<Rightarrow> manager \<Rightarrow> int list" where
  "stale_teids imsi m = map fst (filter (\<lambda>(t, tn). tn_imsi tn = imsi) (gm_tunnels m))"

definition tun_name_of :: "string \<Rightarrow> string" where
  "tun_name_of imsi = ''tun-ue-'' @ (if 6 \<le> length imsi then drop (length imsi - 6) imsi else imsi)"

definition obtain_fd :: "tun_result \<Rightarrow> tun_result \<Rightarrow> int option" where
  \<comment> \<open>the first attempt and, after an OS error, the second one; a permission error is an OS error there\<close>
  "obtain_fd first second =
     (case first of
        TunFd fd \<Rightarrow> Some fd
      | TunPermission \<Rightarrow> None
      | TunOsError \<Rightarrow> (case second of TunFd fd \<Rightarrow> Some fd | _ \<Rightarrow> None))"

definition create_tunnel ::
  "tun_result \<Rightarrow> tun_result \<Rightarrow> string \<Rightarrow> string \<Rightarrow> int \<Rightarrow> int \<Rightarrow> string \<Rightarrow> qos_flow list \<Rightarrow> manager \<Rightarrow>
   string option \<times> manager" where
  "create_tunnel first second imsi ue_ip local_teid remote_teid upf_ip rules m =
     (if \<not> gm_available m then (None, m)
      else let name = tun_name_of imsi;
               m = fold destroy_tunnel (stale_teids imsi m) m
           in case obtain_fd first second of
             None \<Rightarrow> (None, m)
           | Some fd \<Rightarrow>
               let t = \<lparr>tn_imsi = imsi, tn_ue_ip = ue_ip, tn_local = local_teid, tn_remote = remote_teid,
                        tn_upf = upf_ip, tn_rules = rules, tn_default_qfi = PyInt 1, tn_name = name, tn_fd = fd,
                        tn_tx = (0, 0), tn_rx = (0, 0), tn_dropped = 0\<rparr>
               in (Some name, m\<lparr>gm_tunnels := dict_set local_teid t (gm_tunnels m),
                                gm_fds := dict_set fd local_teid (gm_fds m)\<rparr>))"

definition gtpu_shutdown :: "manager \<Rightarrow> manager" where
  "gtpu_shutdown m = fold destroy_tunnel (map fst (gm_tunnels m)) m"

fun default_flow :: "qos_flow list \<Rightarrow> pyval option" where
  \<comment> \<open>the flow of the first rule with the default flag\<close>
  "default_flow [] = None"
| "default_flow (r # rs) = (if fl_dqr r \<noteq> 0 then Some (fl_qfi r) else default_flow rs)"

definition update_qos_rules :: "int \<Rightarrow> qos_flow list \<Rightarrow> manager \<Rightarrow> manager" where
  "update_qos_rules teid rules m =
     (case dict_get (gm_tunnels m) teid of
        None \<Rightarrow> m
      | Some t \<Rightarrow>
          let t = t\<lparr>tn_rules := rules\<rparr>;
              t = (case default_flow rules of None \<Rightarrow> t | Some q \<Rightarrow> t\<lparr>tn_default_qfi := q\<rparr>)
          in m\<lparr>gm_tunnels := dict_set teid t (gm_tunnels m)\<rparr>)"

definition get_tun_for_ip :: "string \<Rightarrow> manager \<Rightarrow> string option" where
  "get_tun_for_ip ip m = map_option tn_name (find (\<lambda>t. tn_ue_ip t = ip) (map snd (gm_tunnels m)))"

record tunnel_info =
  ti_imsi :: string
  ti_ue_ip :: string
  ti_local :: int
  ti_remote :: int
  ti_upf :: string
  ti_name :: string
  ti_tx :: "nat \<times> nat"
  ti_rx :: "nat \<times> nat"

definition get_tunnels :: "manager \<Rightarrow> tunnel_info list" where
  "get_tunnels m = map (\<lambda>(teid, t). \<lparr>ti_imsi = tn_imsi t, ti_ue_ip = tn_ue_ip t, ti_local = tn_local t,
     ti_remote = tn_remote t, ti_upf = tn_upf t, ti_name = tn_name t, ti_tx = tn_tx t, ti_rx = tn_rx t\<rparr>) (gm_tunnels m)"

definition count :: "nat \<Rightarrow> nat \<times> nat \<Rightarrow> nat \<times> nat" where
  "count n s = (fst s + 1, snd s + n)"

definition receive_datagram :: "bytes \<Rightarrow> bool \<Rightarrow> manager \<Rightarrow> (int \<times> bytes) option \<times> manager" where
  \<comment> \<open>one pass of \<open>_udp_receiver\<close>: what is written to which device, and the counters\<close>
  "receive_datagram data write_ok m =
     (if length data < GTPU_HDR_LEN then (None, m)
      else if unat (data ! 1) \<noteq> GTPU_MSG_TPDU then (None, m)
      else let teid = int (be_val (slice 4 8 data)) in
        case dict_get (gm_tunnels m) teid of
          None \<Rightarrow> (None, m)
        | Some t \<Rightarrow>
            (case rx_payload data of
               None \<Rightarrow> (None, m)
             | Some p \<Rightarrow>
                 if \<not> write_ok then (None, m)
                 else (Some (tn_fd t, p),
                       m\<lparr>gm_tunnels := dict_set teid (t\<lparr>tn_rx := count (length p) (tn_rx t)\<rparr>) (gm_tunnels m)\<rparr>)))"

definition read_packet :: "int \<Rightarrow> bytes \<Rightarrow> bool \<Rightarrow> manager \<Rightarrow> (bytes \<times> string) option res \<times> manager" where
  \<comment> \<open>one pass of \<open>_tun_reader\<close> for the tunnel: the datagram and its destination\<close>
  "read_packet teid p send_ok m =
     (case dict_get (gm_tunnels m) teid of
        None \<Rightarrow> (Inr None, m)
      | Some t \<Rightarrow>
          if p = [] then (Inr None, m)
          else if drop_bit 4 (unat (p ! 0)) \<noteq> 4 then (Inr None, m)
          else case classify_packet p (tn_rules t) (tn_default_qfi t) of
            Inl e \<Rightarrow> (Inl e, m)
          | Inr qfi \<Rightarrow>
              (case num_of qfi of
                 Inl e \<Rightarrow> (Inl e, m)
               | Inr q \<Rightarrow>
                   if q < 0 then
                     (Inr None, m\<lparr>gm_tunnels := dict_set teid (t\<lparr>tn_dropped := tn_dropped t + 1\<rparr>) (gm_tunnels m)\<rparr>)
                   else case build_gtpu_with_pdu_session_container (tn_remote t) p qfi True of
                     Inl e \<Rightarrow> (Inl e, m)
                   | Inr pkt \<Rightarrow>
                       if \<not> send_ok then (Inr None, m)
                       else (Inr (Some (pkt, tn_upf t)),
                             m\<lparr>gm_tunnels := dict_set teid (t\<lparr>tn_tx := count (length p) (tn_tx t)\<rparr>) (gm_tunnels m)\<rparr>)))"

section \<open>Encapsulated packets\<close>

definition container :: "int \<Rightarrow> bool \<Rightarrow> bytes" where
  \<comment> \<open>the PDU session container of TS 38.415: one unit, type, flow, no next header\<close>
  "container q ul = ext_chain [(0x85, [byte_of (if ul then 16 else 0), byte_of (nat (q mod 64))])]"

lemma container_octets:
  "container q ul = [1, byte_of (if ul then 16 else 0), byte_of (nat (q mod 64)), 0]"
  by (simp add: container_def byte_of_def)

lemma be_enc_one: "be_enc (Suc 0) n = [byte_of n]"
  by simp

lemma build_packet:
  assumes "0 \<le> teid" "teid < 2 ^ 32" "length payload + 8 < 65536" "num_of qfi = Inr q"
  shows "build_gtpu_with_pdu_session_container teid payload qfi ul =
     Inr (gtpu_packet 0x34 255 (length payload + 8) (nat teid) (be_enc 2 0 @ [0, 0x85] @ container q ul @ payload))"
proof -
  have q: "q AND 63 = q mod 64" using int_and_mask [of q 6] by simp
  have p1: "packs [(1, 1), (1, push_bit 4 (if ul then 1 else 0)), (1, q AND 63)] =
      Inr [1, byte_of (if ul then 16 else 0), byte_of (nat (q mod 64))]"
    unfolding q by (subst packs_Inr) (auto simp: byte_of_def push_bit_eq_mult be_enc_one)
  have p2: "packs [(2, 0), (1, 0), (1, int 133)] = Inr (be_enc 2 0 @ [0, 133])"
    by (subst packs_Inr) (auto simp: byte_of_def be_enc_one)
  have p3: "packs [(1, int 52), (1, int 255), (2, int (length payload + 8)), (4, teid)] =
      Inr ([byte_of 52, byte_of 255] @ be_enc 2 (length payload + 8) @ be_enc 4 (nat teid))"
    using assms by (subst packs_Inr) (simp_all add: be_enc_one del: be_enc.simps of_nat_add)
  have len: "length (be_enc 2 0 @ [0, 133]) + length ([a, b, c] @ [d]) + length payload = length payload + 8" for a b c d :: byte
    by simp
  show ?thesis
    unfolding build_gtpu_with_pdu_session_container_def Let_def assms(4) gtpu_numbers rbind.simps p1 p2 len p3
    by (simp add: gtpu_packet_def container_octets)
qed

lemma skip_chain_walk:
  "walk_ext data off t = Inr off' \<Longrightarrow> off \<le> length data \<Longrightarrow> skip_chain data t off = off'"
proof (induction data off t rule: walk_ext.induct)
  case (1 data off t)
  note step = "1.prems"(1) [unfolded walk_ext.simps [of data off t]]
  show ?case
  proof (cases "t = 0")
    case True
    then show ?thesis using step by (simp add: skip_chain.simps)
  next
    case False
    then have c: "off < length data" "unat (data ! off) \<noteq> 0" "off + unat (data ! off) * 4 \<le> length data"
      "walk_ext data (off + unat (data ! off) * 4) (unat (data ! (off + unat (data ! off) * 4 - 1))) = Inr off'"
      using step by (auto simp: Let_def split: if_splits)
    then have "skip_chain data (unat (data ! (off + unat (data ! off) * 4 - 1))) (off + unat (data ! off) * 4) = off'"
      using "1.IH" [OF False _ refl] by (simp add: not_less)
    then show ?thesis using False c by (subst skip_chain.simps) (simp add: Let_def)
  qed
qed

text \<open>
  C24: Every packet the strict codec accepts as a T-PDU with a non-empty body is handed to the device with
  exactly that body, as long as the octet of the next type is zero where the extension flag is not
  set: the forgiving loop of the receiver and the checking one of the codec agree on well-formed
  packets.\<close>

theorem receiver_agrees_with_codec:
  assumes "decode_gpdu data = Inr (h, body)" "body \<noteq> []"
    and "gh_has_ext h \<or> (\<not> gh_has_seq h \<and> \<not> gh_has_npdu h) \<or> gh_next_ext_type h = 0"
  shows "rx_payload data = Some body"
proof -
  define flags where "flags = unat (data ! 0)"
  obtain l t h0 off where e: "8 \<le> length data"
    "(if flags AND 7 \<noteq> 0 then decode_options data flags h0 else Inr (h0, 8)) = Inr (h, off)"
    "body = drop off data" "\<not> gh_has_ext h0" "\<not> gh_has_seq h0" "\<not> gh_has_npdu h0"
    using assms(1)
    by (auto simp: decode_gpdu_def decode_header_def Let_def HEADER_LEN_def res_simps flags_def flag_defs not_less
             split: if_splits)
  show ?thesis
  proof (cases "flags AND 7 = 0")
    case True
    then show ?thesis using e assms(2) by (simp add: rx_payload_def flags_def gtpu_numbers)
  next
    case False
    let ?n = "unat (data ! 11)"
    have opt: "\<not> length data < 12" "gh_has_ext h = (flags AND 4 \<noteq> 0)" "gh_next_ext_type h = ?n"
      "walk_ext data 12 (if gh_has_ext h then ?n else 0) = Inr off"
      using e(2) False
      by (auto simp: decode_options_def HEADER_LEN_def Let_def res_simps flag_defs split: if_splits)
    have flag: "gh_has_ext h \<or> gh_has_seq h \<or> gh_has_npdu h"
    proof -
      have "(7 :: nat) = 4 OR 2 OR 1" by simp
      then have "flags AND 7 = (flags AND 4) OR (flags AND 2) OR (flags AND 1)"
        by (simp only: bit_eq_iff bit_and_iff bit_or_iff) blast
      then have "flags AND 4 \<noteq> 0 \<or> flags AND 2 \<noteq> 0 \<or> flags AND 1 \<noteq> 0" using False by auto
      then show ?thesis
        using e(2) False by (auto simp: decode_options_def HEADER_LEN_def Let_def res_simps flag_defs split: if_splits)
    qed
    have "walk_ext data 12 ?n = Inr off"
      using opt(3,4) flag assms(3) by (cases "gh_has_ext h") auto
    then have "skip_chain data ?n 12 = off" using opt(1) by (intro skip_chain_walk) simp_all
    then show ?thesis
      using False opt(1) e(3) assms(2) by (simp add: rx_payload_def flags_def gtpu_numbers)
  qed
qed

theorem receiver_agrees_with_codec_witness:
  "rx_payload (gtpu_packet 48 255 (length [1 :: byte, 2, 3]) 9 [1, 2, 3]) = Some [1, 2, 3]"
proof -
  note decode_header_plain [of "[1, 2, 3]" 9 255]
  then have "decode_gpdu (gtpu_packet 48 255 (length [1 :: byte, 2, 3]) 9 [1, 2, 3]) =
     Inr (\<lparr>gh_version = 1, gh_protocol_type = 1, gh_type = 255, gh_length = length [1 :: byte, 2, 3],
          gh_teid = 9, gh_has_seq = False, gh_has_npdu = False, gh_has_ext = False,
          gh_seq = 0, gh_npdu = 0, gh_next_ext_type = 0\<rparr>, [1, 2, 3])"
    by (simp add: decode_gpdu_def MSG_GPDU_def)
  from receiver_agrees_with_codec [OF this] show ?thesis by simp
qed

lemma decode_ext_packet:
  assumes "list_all ext_ok exts" "teid < 2 ^ 32" "len = 4 + length (ext_chain exts) + length inner" "len < 65536"
    "exts \<noteq> []"
  shows "decode_gpdu (gtpu_packet 0x34 255 len teid (be_enc 2 0 @ [0, byte_of (next_ext exts)] @ ext_chain exts @ inner)) =
    Inr (\<lparr>gh_version = 1, gh_protocol_type = 1, gh_type = MSG_GPDU, gh_length = len,
          gh_teid = teid, gh_has_seq = False, gh_has_npdu = False, gh_has_ext = True,
          gh_seq = 0, gh_npdu = 0, gh_next_ext_type = next_ext exts\<rparr>, inner)"
proof -
  define rest where "rest = be_enc 2 0 @ [0, byte_of (next_ext exts)] @ ext_chain exts @ inner"
  define buf where "buf = gtpu_packet 0x34 255 len teid rest"
  have bits: "drop_bit 5 (52 :: nat) AND 7 = 1" "drop_bit 4 (52 :: nat) AND 1 = 1"
    "(52 :: nat) AND (FLAG_S OR FLAG_PN OR FLAG_E) \<noteq> 0"
    "(52 :: nat) AND FLAG_S = 0" "(52 :: nat) AND FLAG_PN = 0" "(52 :: nat) AND FLAG_E \<noteq> 0"
    by (simp_all add: drop_bit_eq_div mask_simps flag_defs)
  have un: "unpack_H (be_enc 2 len) = Inr len" "unpack_I (be_enc 4 teid) = Inr teid" "unpack_H (be_enc 2 0) = Inr 0"
    using assms by (intro unpack_be_enc; simp)+
  have len: "length rest = len" "length buf = 8 + len"
    using assms(3) by (simp_all add: rest_def buf_def gtpu_packet_fields)
  have opt: "slice 8 10 buf = be_enc 2 0" "buf ! 10 = 0" "buf ! 11 = byte_of (next_ext exts)"
    using gtpu_packet_fields(6) [of 0 2 52 255 len teid rest] gtpu_packet_fields(7) [of 52 255 len teid rest 2]
      gtpu_packet_fields(7) [of 52 255 len teid rest 3]
    by (simp_all add: buf_def rest_def nth_append)
  have "length buf = 12 + length (ext_chain exts) + length inner" using len assms(3) by simp
  then have drop: "drop (12 + length (ext_chain exts)) buf = inner"
    using gtpu_packet_fields(8) [of "4 + length (ext_chain exts)" 52 255 len teid rest]
    by (simp add: buf_def rest_def)
  define pre where "pre = [byte_of 52, byte_of 255] @ be_enc 2 len @ be_enc 4 teid @ be_enc 2 0 @ [0, byte_of (next_ext exts)]"
  have "buf = pre @ ext_chain exts @ inner" "length pre = 12"
    by (simp_all add: buf_def pre_def rest_def gtpu_packet_def)
  with walk_ext_chain [OF assms(1), of pre inner]
  have walk: "walk_ext buf 12 (next_ext exts) = Inr (12 + length (ext_chain exts))" by simp
  have f: "unat (buf ! 0) = 52" "unat (buf ! 1) = 255" "slice 2 4 buf = be_enc 2 len" "slice 4 8 buf = be_enc 4 teid"
    by (simp_all add: buf_def gtpu_packet_simps)
  have nb: "next_ext exts mod 256 = next_ext exts" using next_ext_bound [OF assms(1)] by simp
  have "decode_options buf 52 h = Inr (h\<lparr>gh_has_seq := False, gh_has_npdu := False, gh_has_ext := True,
      gh_seq := 0, gh_npdu := 0, gh_next_ext_type := next_ext exts\<rparr>, 12 + length (ext_chain exts))" for h
    using len assms(3) by (simp add: decode_options_def HEADER_LEN_def opt un bits Let_def nb walk)
  then have "decode_header buf = Inr (\<lparr>gh_version = 1, gh_protocol_type = 1, gh_type = 255, gh_length = len,
          gh_teid = teid, gh_has_seq = False, gh_has_npdu = False, gh_has_ext = True,
          gh_seq = 0, gh_npdu = 0, gh_next_ext_type = next_ext exts\<rparr>, inner)"
    using len by (simp add: decode_header_def HEADER_LEN_def Let_def f f(2) [unfolded One_nat_def] un bits drop)
  then show ?thesis by (simp add: decode_gpdu_def MSG_GPDU_def buf_def rest_def)
qed

lemma uplink_packet:
  assumes "0 \<le> teid" "teid < 2 ^ 32" "payload \<noteq> []" "length payload + 8 < 65536" "num_of qfi = Inr q"
  shows "\<exists>pkt h. build_gtpu_with_pdu_session_container teid payload qfi ul = Inr pkt \<and>
     decode_gpdu pkt = Inr (h, payload) \<and> gh_teid h = nat teid \<and> gh_next_ext_type h = GTPU_EXT_PDU_SESSION \<and>
     rx_payload pkt = Some payload \<and>
     slice 12 16 pkt = [1, byte_of (if ul then 16 else 0), byte_of (nat (q mod 64)), 0]"
proof -
  define ex where "ex = [(133 :: nat, [byte_of (if ul then 16 else 0), byte_of (nat (q mod 64))])]"
  have ex: "list_all ext_ok ex" "ex \<noteq> []" "ext_chain ex = container q ul" "next_ext ex = 133"
    "length (ext_chain ex) = 4"
    by (simp_all add: ex_def ext_ok_def container_def)
  define pkt where "pkt = gtpu_packet 0x34 255 (length payload + 8) (nat teid)
      (be_enc 2 0 @ [0, 0x85] @ container q ul @ payload)"
  have t: "nat teid < 2 ^ 32" using assms by (simp add: nat_less_iff)
  have b: "byte_of 133 = 0x85" by (simp add: byte_of_def)
  have dec: "decode_gpdu pkt = Inr (\<lparr>gh_version = 1, gh_protocol_type = 1, gh_type = MSG_GPDU,
      gh_length = length payload + 8, gh_teid = nat teid, gh_has_seq = False, gh_has_npdu = False, gh_has_ext = True,
      gh_seq = 0, gh_npdu = 0, gh_next_ext_type = 133\<rparr>, payload)"
    using decode_ext_packet [OF ex(1) t _ _ ex(2), of "length payload + 8" payload] assms(4) ex(4,5)
    by (simp add: pkt_def ex(3) b del: be_enc.simps)
  have rx: "rx_payload pkt = Some payload" by (rule receiver_agrees_with_codec [OF dec assms(3)]) simp
  have "slice 12 16 pkt = slice 4 8 (be_enc 2 0 @ [0, 0x85] @ container q ul @ payload)"
    using gtpu_packet_fields(6) [of 4 8] by (simp add: pkt_def)
  also have "\<dots> = [1, byte_of (if ul then 16 else 0), byte_of (nat (q mod 64)), 0]"
    by (simp add: slice_def container_octets)
  finally show ?thesis
    using build_packet [OF assms(1,2,4,5)] dec rx by (simp add: pkt_def gtpu_numbers)
qed

text \<open>
  C8: A packet built for the tunnel with any endpoint of 32 bits, any flow and any payload that fits is
  accepted by the strict codec with that endpoint, the container type and the payload, and the
  receiver of the peer extracts the same payload; the container carries the direction and the flow
  modulo 64.\<close>

theorem uplink_packet_roundtrip:
  assumes "0 \<le> teid" "teid < 2 ^ 32" "payload \<noteq> []" "length payload + 8 < 65536" "num_of qfi = Inr q"
  shows "\<exists>pkt h. build_gtpu_with_pdu_session_container teid payload qfi ul = Inr pkt \<and>
     decode_gpdu pkt = Inr (h, payload) \<and> gh_teid h = nat teid \<and> gh_next_ext_type h = GTPU_EXT_PDU_SESSION \<and>
     rx_payload pkt = Some payload \<and>
     slice 12 16 pkt = [1, byte_of (if ul then 16 else 0), byte_of (nat (q mod 64)), 0]"
  using assms by (rule uplink_packet)

theorem uplink_packet_roundtrip_witness:
  "\<exists>pkt. build_gtpu_with_pdu_session_container 0x10001 [69, 0] (PyInt 9) True = Inr pkt \<and>
     rx_payload pkt = Some [69, 0] \<and> slice 12 16 pkt = [1, 16, 9, 0]"
  using uplink_packet_roundtrip [of "0x10001" "[69, 0]" "PyInt 9" 9 True] by (auto simp: num_of_def byte_of_def)

text \<open>
  What the strict codec refuses, the receiver hands to the device: an extension header of length zero and
  everything behind it, and, where only the sequence number flag is set, a body cut by the octet that
  must not be interpreted then.\<close>

theorem malformed_chain_delivered:
  "decode_gpdu (gtpu_packet 0x34 255 8 9 [0, 0, 0, 0x85, 0, 1, 2, 3]) = Inl (ValueError ''gtpu: extension header length 0'') \<and>
   rx_payload (gtpu_packet 0x34 255 8 9 [0, 0, 0, 0x85, 0, 1, 2, 3]) = Some [0, 1, 2, 3] \<and>
   (\<exists>h. decode_gpdu (gtpu_packet 0x32 255 9 9 [0, 7, 0, 1, 1, 0, 0, 0, 69]) = Inr (h, [1, 0, 0, 0, 69])) \<and>
   rx_payload (gtpu_packet 0x32 255 9 9 [0, 7, 0, 1, 1, 0, 0, 0, 69]) = Some [69]"
proof (intro conjI)
  show "decode_gpdu (gtpu_packet 0x34 255 8 9 [0, 0, 0, 0x85, 0, 1, 2, 3]) = Inl (ValueError ''gtpu: extension header length 0'')"
    by code_simp
  show "rx_payload (gtpu_packet 0x34 255 8 9 [0, 0, 0, 0x85, 0, 1, 2, 3]) = Some [0, 1, 2, 3]"
    by code_simp
  have "map_sum id snd (decode_gpdu (gtpu_packet 0x32 255 9 9 [0, 7, 0, 1, 1, 0, 0, 0, 69])) = Inr [1, 0, 0, 0, 69]"
    by code_simp
  then show "\<exists>h. decode_gpdu (gtpu_packet 0x32 255 9 9 [0, 7, 0, 1, 1, 0, 0, 0, 69]) = Inr (h, [1, 0, 0, 0, 69])"
    by (cases "decode_gpdu (gtpu_packet 0x32 255 9 9 [0, 7, 0, 1, 1, 0, 0, 0, 69])") auto
  show "rx_payload (gtpu_packet 0x32 255 9 9 [0, 7, 0, 1, 1, 0, 0, 0, 69]) = Some [69]"
    by code_simp
qed

section \<open>Classification\<close>

definition rule_matches :: "packet_view \<Rightarrow> qos_flow \<Rightarrow> bool" where
  "rule_matches v r \<longleftrightarrow> any_filter v (fl_filters r) = Inr True"

definition decides :: "packet_view \<Rightarrow> qos_flow \<Rightarrow> bool" where
  \<comment> \<open>matching the rule's filters raises no exception\<close>
  "decides v r \<longleftrightarrow> (\<exists>b. any_filter v (fl_filters r) = Inr b)"

lemma first_rule_find:
  "\<forall>r \<in> set rs. decides v r \<Longrightarrow>
   first_rule v rs = Inr (case find (rule_matches v) rs of None \<Rightarrow> PyInt (-1) | Some r \<Rightarrow> fl_qfi r)"
  by (induction rs) (auto simp: decides_def rule_matches_def)

lemma find_filter: "find P xs = (case filter P xs of [] \<Rightarrow> None | x # _ \<Rightarrow> Some x)"
  by (induction xs) auto

definition foremost :: "('a \<Rightarrow> bool) \<Rightarrow> ('a \<Rightarrow> int) \<Rightarrow> 'a list \<Rightarrow> 'a \<Rightarrow> bool" where
  \<comment> \<open>the first of the elements with the property that have the least key\<close>
  "foremost P f xs x \<longleftrightarrow> P x \<and> (\<exists>as bs. xs = as @ x # bs \<and> (\<forall>y \<in> set as. P y \<longrightarrow> f x < f y) \<and>
     (\<forall>y \<in> set bs. P y \<longrightarrow> f x \<le> f y))"

lemma sorted_head_foremost:
  assumes "sort_key f (filter P xs) = x # ys"
  shows "foremost P f xs x"
proof -
  let ?s = "sort_key f (filter P xs)"
  have least: "f x \<le> f y" if "y \<in> set xs" "P y" for y
  proof -
    have "sorted (map f ?s)" by simp
    moreover have "y \<in> set ?s" using that by simp
    ultimately show ?thesis using assms by auto
  qed
  have x: "P x" "x \<in> set xs"
  proof -
    have "x \<in> set ?s" using assms by simp
    then show "P x" "x \<in> set xs" by simp_all
  qed
  have "filter (\<lambda>y. f y = f x) ?s = filter (\<lambda>y. f y = f x) (filter P xs)" by (rule sort_key_stable)
  then have "x # filter (\<lambda>y. f y = f x) ys = filter (\<lambda>y. P y \<and> f y = f x) xs"
    by (simp add: assms conj_commute)
  then obtain as bs where split: "xs = as @ x # bs" and none: "\<forall>y \<in> set as. \<not> (P y \<and> f y = f x)"
    by (metis (no_types, lifting) Cons_eq_filterD)
  have "f x < f y" if "y \<in> set as" "P y" for y
    using none least [of y] that split by force
  moreover have "f x \<le> f y" if "y \<in> set bs" "P y" for y using least that split by simp
  ultimately show ?thesis using x(1) split by (auto simp: foremost_def)
qed

lemma classify_sorted:
  assumes "20 \<le> length p" "drop_bit 4 (unat (p ! 0)) AND 15 = 4" "rules \<noteq> []" "\<forall>r \<in> set rules. decides (view_packet p) r"
  shows "classify_packet p rules d =
    Inr (case sort_key fl_precedence (filter (rule_matches (view_packet p)) rules) of [] \<Rightarrow> PyInt (-1) | r # _ \<Rightarrow> fl_qfi r)"
proof -
  have "classify_packet p rules d = first_rule (view_packet p) (sort_key fl_precedence rules)"
    using assms(1-3) by (simp add: classify_packet_def)
  also have "\<dots> = Inr (case find (rule_matches (view_packet p)) (sort_key fl_precedence rules) of
      None \<Rightarrow> PyInt (-1) | Some r \<Rightarrow> fl_qfi r)"
    using assms(4) by (intro first_rule_find) simp
  finally show ?thesis by (simp add: find_filter filter_sort split: list.splits)
qed


definition port_keys :: "string set" where
  "port_keys = {''local_port_min'', ''local_port_max'', ''remote_port_min'', ''remote_port_max''}"

definition ports_numeric :: "content \<Rightarrow> bool" where
  "ports_numeric c \<longleftrightarrow> (\<forall>k \<in> port_keys. \<forall>v. dict_get c k = Some v \<longrightarrow> (\<exists>n. v = PyInt n))"

lemma ports_numeric_set:
  "ports_numeric c \<Longrightarrow> k \<notin> port_keys \<or> (\<exists>n. v = PyInt n) \<Longrightarrow> ports_numeric (dict_set k v c)"
  by (auto simp: ports_numeric_def)

lemma ports_numeric_match:
  assumes "ports_numeric c"
  shows "\<exists>b. match_filter c pr s d sp dp = Inr b"
proof -
  have r: "\<exists>b. in_range c k1 k2 p = Inr b" if k: "k1 \<in> port_keys" "k2 \<in> port_keys" for k1 k2 p
  proof -
    have "dict_get c k = None \<or> (\<exists>n. dict_get c k = Some (PyInt n))" if "k \<in> port_keys" for k
      using assms that by (cases "dict_get c k") (auto simp: ports_numeric_def)
    from this [OF k(1)] this [OF k(2)] show ?thesis by (auto simp: in_range_def num_of_def)
  qed
  show ?thesis
    unfolding match_filter_def by (auto intro!: rbind_total r simp: port_keys_def)
qed

definition gives :: "('a \<Rightarrow> bool) \<Rightarrow> 'a res \<Rightarrow> bool" where
  \<comment> \<open>a result, if there is one, has the property\<close>
  "gives P m \<longleftrightarrow> (\<forall>x. m = Inr x \<longrightarrow> P x)"

lemma gives_intros:
  "gives P m \<Longrightarrow> (\<And>x. m = Inr x \<Longrightarrow> P x \<Longrightarrow> gives Q (f x)) \<Longrightarrow> gives Q (rbind m f)"
  "P x \<Longrightarrow> gives P (Inr x)" "gives (\<lambda>x. True) m"
  by (cases m) (auto simp: gives_def)

lemma gives_if: "(b \<Longrightarrow> gives P m) \<Longrightarrow> (\<not> b \<Longrightarrow> gives P m') \<Longrightarrow> gives P (if b then m else m')"
  by simp

lemma gives_bind: "(\<And>x. m = Inr x \<Longrightarrow> gives Q (f x)) \<Longrightarrow> gives Q (rbind m f)"
  by (cases m) (auto simp: gives_def)

lemma addr_mask_numeric:
  "ports_numeric i \<Longrightarrow> ka \<notin> port_keys \<Longrightarrow> km \<notin> port_keys \<Longrightarrow> gives ports_numeric (addr_mask ka km r i)"
  by (auto simp: addr_mask_def Let_def intro!: gives_bind gives_intros(2) ports_numeric_set)

lemma port_pair_numeric: "ports_numeric i \<Longrightarrow> gives ports_numeric (port_pair ka km r i)"
  by (auto simp: port_pair_def intro!: gives_bind gives_intros(2) ports_numeric_set)

lemma components_numeric: "ports_numeric i \<Longrightarrow> gives ports_numeric (parse_pf_components b i)"
proof (induction b arbitrary: i rule: measure_induct_rule [of length])
  case (less b)
  have key: "''match_all'' \<notin> port_keys" "''protocol'' \<notin> port_keys" "''remote_ip'' \<notin> port_keys" "''remote_mask'' \<notin> port_keys"
    "''local_ip'' \<notin> port_keys" "''local_mask'' \<notin> port_keys" "''local_port'' \<notin> port_keys" "''remote_port'' \<notin> port_keys"
    by (simp_all add: port_keys_def)
  show ?case
  proof (cases b)
    case Nil
    then show ?thesis using less(2) by (simp add: parse_pf_components.simps gives_intros)
  next
    case (Cons t r)
    have rec: "ports_numeric j \<Longrightarrow> gives ports_numeric (parse_pf_components (drop n r) j)" for n j
      by (rule less(1)) (simp_all add: Cons)
    have rec0: "ports_numeric j \<Longrightarrow> gives ports_numeric (parse_pf_components r j)" for j using rec [of j 0] by simp
    show ?thesis
      unfolding Cons
      apply (subst parse_pf_components.simps)
      apply (simp only: Let_def list.distinct if_False idx_Cons_0 rbind.simps drop_Suc_Cons drop0 One_nat_def)
      by (intro gives_if rec rec0 gives_bind ports_numeric_set less(2) gives_intros(2)
          gives_intros(1) [OF addr_mask_numeric] gives_intros(1) [OF port_pair_numeric]; (assumption | simp add: key)?)
  qed
qed

definition numeric_flow :: "qos_flow \<Rightarrow> bool" where
  "numeric_flow f \<longleftrightarrow> list_all (\<lambda>p. ports_numeric (qf_content p)) (fl_filters f)"

lemma ports_numeric_Nil [simp]: "ports_numeric []"
  by (simp add: ports_numeric_def)

lemma read_filters_numeric: "gives (\<lambda>(fs, r). list_all (\<lambda>p. ports_numeric (qf_content p)) fs) (read_filters n b)"
proof (induction n arbitrary: b)
  case 0
  show ?case by (simp add: gives_def)
next
  case (Suc n)
  have content: "parse_pf_components x [] = Inr d \<Longrightarrow> ports_numeric d" for x d
    using components_numeric [of "[]" x] by (simp add: gives_def)
  show ?case
  proof (cases "\<exists>d l r. b = d # l # r")
    case True
    then obtain d l r where b: "b = d # l # r" by blast
    show ?thesis
      unfolding b
      by (auto simp: Let_def content intro!: gives_bind gives_intros(1) [OF Suc] gives_intros(2))
  next
    case False
    then consider "b = []" | x where "b = [x]" by (cases b; cases "tl b") auto
    then show ?thesis by cases (simp_all add: gives_def)
  qed
qed

lemma decode_rule_numeric: "gives numeric_flow (decode_rule i d)"
  unfolding decode_rule_def Let_def
  by (auto simp: numeric_flow_def intro!: gives_bind gives_intros(1) [OF read_filters_numeric] gives_intros(2))

lemma decode_rules_numeric: "gives (list_all numeric_flow) (decode_qos_rule_bytes data)"
proof (induction data rule: measure_induct_rule [of length])
  case (less data)
  have rec: "3 \<le> length data \<Longrightarrow> gives (list_all numeric_flow) (decode_qos_rule_bytes (drop n (drop 3 data)))" for n
    by (rule less) simp
  show ?case
    by (subst decode_qos_rule_bytes.simps, simp only: Let_def)
      (intro gives_if rec gives_bind gives_intros(1) [OF decode_rule_numeric] gives_intros(1) [OF rec]
        gives_intros(2); simp)
qed

lemma numeric_decides: "numeric_flow f \<Longrightarrow> decides v f"
proof -
  have "list_all (\<lambda>p. ports_numeric (qf_content p)) fs \<Longrightarrow> \<exists>b. any_filter v fs = Inr b" for fs
    by (induction fs) (auto simp: filter_matches_def dest!: ports_numeric_match intro!: rbind_total)
  then show "numeric_flow f \<Longrightarrow> decides v f" by (simp add: numeric_flow_def decides_def)
qed


definition udp_packet :: bytes where
  \<comment> \<open>from 10.0.0.1 port 5060 to 10.0.0.2 port 80\<close>
  "udp_packet = [0x45, 0, 0, 28, 0, 0, 0, 0, 64, 17, 0, 0, 10, 0, 0, 1, 10, 0, 0, 2, 0x13, 0xC4, 0, 80, 0, 8, 0, 0]"

definition rule_for_port :: "nat \<Rightarrow> nat \<Rightarrow> nat \<Rightarrow> spec_rule" where
  "rule_for_port port prec qfi = \<lparr>sr_id = 2, sr_op = 1, sr_default = False,
     sr_filters = [\<lparr>sf_id = 1, sf_dir = 3, sf_comps = [LocalPort port]\<rparr>], sr_precedence = prec,
     sr_segregation = False, sr_qfi = qfi\<rparr>"

definition match_all_rule :: "nat \<Rightarrow> nat \<Rightarrow> spec_rule" where
  "match_all_rule prec qfi = \<lparr>sr_id = 1, sr_op = 1, sr_default = True,
     sr_filters = [\<lparr>sf_id = 1, sf_dir = 3, sf_comps = [MatchAll]\<rparr>], sr_precedence = prec,
     sr_segregation = False, sr_qfi = qfi\<rparr>"

lemma example_rules:
  "decode_qos_rule_bytes (concat (map rule_octets [match_all_rule 255 1, rule_for_port 5060 10 5])) =
     Inr (map read_rule [match_all_rule 255 1, rule_for_port 5060 10 5])"
  by (rule rules_read)
    (simp add: rule_ok_def match_all_rule_def rule_for_port_def filter_ok_def comps_octets_def)

lemma example_view: "view_packet udp_packet = \<lparr>pv_protocol = 17, pv_src_ip = ''10.0.0.1'', pv_dst_ip = ''10.0.0.2'',
    pv_src_port = 5060, pv_dst_port = 80\<rparr>"
proof -
  have ip: "ip_text [10, 0, 0, 1] = ''10.0.0.1''" "ip_text [10, 0, 0, 2] = ''10.0.0.2''"
    by code_simp+
  have s: "slice 12 16 udp_packet = [10, 0, 0, 1]" "slice 16 20 udp_packet = [10, 0, 0, 2]"
    by (simp_all add: udp_packet_def slice_def)
  have "port_at udp_packet 20 = 5060" "port_at udp_packet 22 = 80"
    by (simp_all add: udp_packet_def port_at_def)
  then show ?thesis
    unfolding view_packet_def s ip Let_def
    by (simp add: udp_packet_def mask_simps)
qed



section \<open>Address filters of the list form\<close>

text \<open>
  The list decoder drops address components: a filter for one remote address becomes a filter without
  any condition, which matches every packet, while the octet decoder keeps the condition.\<close>

theorem address_filter_lost:
  assumes "pv_dst_ip v \<noteq> ip_text a" "ip_text a \<noteq> ''0.0.0.0''"
  shows "rbind (parse_decoded_filter (filter_value \<lparr>sf_id = i, sf_dir = d, sf_comps = [RemoteAddr a m]\<rparr>)) (filter_matches v) = Inr True
    \<and> filter_matches v (read_filter \<lparr>sf_id = i, sf_dir = d, sf_comps = [RemoteAddr a m]\<rparr>) = Inr False"
  using assms
  by (simp add: filter_value_read filter_matches_def match_filter_def port_is_def addr_is_def in_range_def read_filter_def)

section \<open>The tunnel tables\<close>

definition new_manager :: "bool \<Rightarrow> manager" where
  "new_manager available = \<lparr>gm_available = available, gm_tunnels = [], gm_fds = []\<rparr>"

datatype tun_op =
    CreateTunnel tun_result tun_result string string int int string "qos_flow list"
  | DestroyTunnel int
  | UpdateRules int "qos_flow list"
  | Datagram bytes bool
  | DevicePacket int bytes bool
  | Shutdown

fun op_possible :: "tun_op \<Rightarrow> manager \<Rightarrow> bool" where
  \<comment> \<open>the operating system never hands out a descriptor that is still open\<close>
  "op_possible (CreateTunnel r1 r2 i ip l rm u q) m \<longleftrightarrow>
     (case obtain_fd r1 r2 of None \<Rightarrow> True | Some fd \<Rightarrow> dict_get (gm_fds m) fd = None)"
| "op_possible _ m \<longleftrightarrow> True"

fun man_apply :: "tun_op \<Rightarrow> manager \<Rightarrow> manager" where
  "man_apply (CreateTunnel r1 r2 i ip l rm u q) m = snd (create_tunnel r1 r2 i ip l rm u q m)"
| "man_apply (DestroyTunnel t) m = destroy_tunnel t m"
| "man_apply (UpdateRules t q) m = update_qos_rules t q m"
| "man_apply (Datagram d w) m = snd (receive_datagram d w m)"
| "man_apply (DevicePacket t p s) m = snd (read_packet t p s m)"
| "man_apply Shutdown m = gtpu_shutdown m"

definition man_step :: "manager \<Rightarrow> tun_op \<Rightarrow> manager" where
  "man_step m op = (if op_possible op m then man_apply op m else m)"

definition tunnels_ok :: "manager \<Rightarrow> bool" where
  "tunnels_ok m \<longleftrightarrow> dict_ok (gm_tunnels m) \<and> distinct (map (\<lambda>p. tn_imsi (snd p)) (gm_tunnels m)) \<and>
     (\<forall>teid t. dict_get (gm_tunnels m) teid = Some t \<longrightarrow> tn_local t = teid \<and> dict_get (gm_fds m) (tn_fd t) = Some teid)"

lemma imsi_unique:
  assumes "distinct (map (\<lambda>p. tn_imsi (snd p)) d)" "dict_get d a = Some t" "dict_get d b = Some u" "tn_imsi t = tn_imsi u"
  shows "a = b"
proof -
  have "(a, t) \<in> set d" "(b, u) \<in> set d" using assms(2,3) by (auto dest: map_of_SomeD)
  moreover have "inj_on (\<lambda>p. tn_imsi (snd p)) (set d)" using assms(1) by (simp add: distinct_map)
  ultimately have "(a, t) = (b, u)" using assms(4) by (intro inj_onD [of "\<lambda>p. tn_imsi (snd p)"]) simp_all
  then show ?thesis by simp
qed

lemma distinct_by_key:
  assumes "dict_ok d" "\<And>a b t u. dict_get d a = Some t \<Longrightarrow> dict_get d b = Some u \<Longrightarrow> f t = f u \<Longrightarrow> a = b"
  shows "distinct (map (\<lambda>p. f (snd p)) d)"
proof -
  have "inj_on (\<lambda>p. f (snd p)) (set d)"
  proof (rule inj_onI)
    fix p q assume p: "p \<in> set d" and q: "q \<in> set d" and e: "f (snd p) = f (snd q)"
    have "dict_get d (fst p) = Some (snd p)" "dict_get d (fst q) = Some (snd q)"
      using p q assms(1) by (simp_all add: dict_get_in_set)
    with assms(2) [OF this e] show "p = q" by (metis option.inject prod.collapse)
  qed
  moreover have "distinct d" using assms(1) by (simp add: dict_ok_def distinct_map)
  ultimately show ?thesis by (simp add: distinct_map)
qed

lemma tunnels_okI:
  assumes "dict_ok (gm_tunnels m)"
    and "\<And>a b t u. dict_get (gm_tunnels m) a = Some t \<Longrightarrow> dict_get (gm_tunnels m) b = Some u \<Longrightarrow> tn_imsi t = tn_imsi u \<Longrightarrow> a = b"
    and "\<And>a t. dict_get (gm_tunnels m) a = Some t \<Longrightarrow> tn_local t = a \<and> dict_get (gm_fds m) (tn_fd t) = Some a"
  shows "tunnels_ok m"
  using assms distinct_by_key [of "gm_tunnels m" tn_imsi] by (simp add: tunnels_ok_def)

lemma tunnels_okD:
  assumes "tunnels_ok m"
  shows "dict_ok (gm_tunnels m)"
    and "dict_get (gm_tunnels m) a = Some t \<Longrightarrow> tn_local t = a \<and> dict_get (gm_fds m) (tn_fd t) = Some a"
    and "dict_get (gm_tunnels m) a = Some t \<Longrightarrow> dict_get (gm_tunnels m) b = Some u \<Longrightarrow> tn_imsi t = tn_imsi u \<Longrightarrow> a = b"
proof -
  show "dict_ok (gm_tunnels m)" using assms by (simp add: tunnels_ok_def)
  show "dict_get (gm_tunnels m) a = Some t \<Longrightarrow> tn_local t = a \<and> dict_get (gm_fds m) (tn_fd t) = Some a"
    using assms unfolding tunnels_ok_def by blast
  show "dict_get (gm_tunnels m) a = Some t \<Longrightarrow> dict_get (gm_tunnels m) b = Some u \<Longrightarrow> tn_imsi t = tn_imsi u \<Longrightarrow> a = b"
    using imsi_unique [of "gm_tunnels m" a t b u] assms by (simp add: tunnels_ok_def)
qed

lemma destroy_get: "dict_get (gm_tunnels (destroy_tunnel teid m)) a = (if a = teid then None else dict_get (gm_tunnels m) a)"
  by (simp add: destroy_tunnel_def split: option.split)

lemma tunnels_ok_destroy: "tunnels_ok m \<Longrightarrow> tunnels_ok (destroy_tunnel teid m)"
proof -
  assume ok: "tunnels_ok m"
  note d = tunnels_okD [OF ok]
  show ?thesis
  proof (cases "dict_get (gm_tunnels m) teid")
    case None
    then show ?thesis using ok by (simp add: destroy_tunnel_def)
  next
    case (Some t)
    show ?thesis
    proof (rule tunnels_okI)
      show "dict_ok (gm_tunnels (destroy_tunnel teid m))" using d(1) Some by (simp add: destroy_tunnel_def)
      show "a = b" if "dict_get (gm_tunnels (destroy_tunnel teid m)) a = Some x"
        "dict_get (gm_tunnels (destroy_tunnel teid m)) b = Some y" "tn_imsi x = tn_imsi y" for a b x y
      proof -
        have "dict_get (gm_tunnels m) a = Some x" "dict_get (gm_tunnels m) b = Some y"
          using that(1,2) by (auto simp: destroy_get split: if_splits)
        from d(3) [OF this that(3)] show ?thesis .
      qed
      show "tn_local x = a \<and> dict_get (gm_fds (destroy_tunnel teid m)) (tn_fd x) = Some a"
        if "dict_get (gm_tunnels (destroy_tunnel teid m)) a = Some x" for a x
      proof -
        have x: "dict_get (gm_tunnels m) a = Some x" "a \<noteq> teid"
          using that by (auto simp: destroy_get split: if_splits)
        then have "tn_fd x \<noteq> tn_fd t" using d(2) [OF Some] d(2) [OF x(1)] by auto
        then show ?thesis using d(2) [OF x(1)] by (simp add: destroy_tunnel_def Some)
      qed
    qed
  qed
qed

lemma destroys_get:
  "dict_get (gm_tunnels (fold destroy_tunnel ts m)) a = (if a \<in> set ts then None else dict_get (gm_tunnels m) a)"
  by (induction ts arbitrary: m) (auto simp: destroy_get)

lemma destroys_ok: "tunnels_ok m \<Longrightarrow> tunnels_ok (fold destroy_tunnel ts m)"
  by (induction ts arbitrary: m) (auto intro: tunnels_ok_destroy)

lemma destroy_fds: "dict_get (gm_fds m) fd = None \<Longrightarrow> dict_get (gm_fds (destroy_tunnel teid m)) fd = None"
  by (simp add: destroy_tunnel_def split: option.split)

lemma destroys_fds: "dict_get (gm_fds m) fd = None \<Longrightarrow> dict_get (gm_fds (fold destroy_tunnel ts m)) fd = None"
  by (induction ts arbitrary: m) (simp_all add: destroy_fds)

lemma stale_gone:
  assumes "dict_ok (gm_tunnels m)" "dict_get (gm_tunnels (fold destroy_tunnel (stale_teids imsi m) m)) a = Some t"
  shows "tn_imsi t \<noteq> imsi"
proof
  assume "tn_imsi t = imsi"
  have "dict_get (gm_tunnels m) a = Some t" "a \<notin> set (stale_teids imsi m)"
    using assms(2) by (auto simp: destroys_get split: if_splits)
  then have "(a, t) \<in> set (gm_tunnels m)" by (auto dest: map_of_SomeD)
  then show False using \<open>tn_imsi t = imsi\<close> \<open>a \<notin> set (stale_teids imsi m)\<close>
    by (force simp: stale_teids_def image_iff)
qed

lemma tunnels_ok_put:
  assumes "tunnels_ok m" "tn_local t = teid" "dict_get (gm_fds m) (tn_fd t) = None"
    and "\<And>a u. dict_get (gm_tunnels m) a = Some u \<Longrightarrow> tn_imsi u \<noteq> tn_imsi t"
  shows "tunnels_ok (m\<lparr>gm_tunnels := dict_set teid t (gm_tunnels m), gm_fds := dict_set (tn_fd t) teid (gm_fds m)\<rparr>)"
proof (rule tunnels_okI)
  note d = tunnels_okD [OF assms(1)]
  let ?m = "m\<lparr>gm_tunnels := dict_set teid t (gm_tunnels m), gm_fds := dict_set (tn_fd t) teid (gm_fds m)\<rparr>"
  have get: "(a = teid \<and> x = t) \<or> (a \<noteq> teid \<and> dict_get (gm_tunnels m) a = Some x)"
    if "dict_get (gm_tunnels ?m) a = Some x" for a x
    using that by (auto split: if_splits)
  show "dict_ok (gm_tunnels ?m)" using d(1) by simp
  show "a = b" if "dict_get (gm_tunnels ?m) a = Some x" "dict_get (gm_tunnels ?m) b = Some y" "tn_imsi x = tn_imsi y" for a b x y
    using get [OF that(1)] get [OF that(2)] that(3) assms(4) [of a x] assms(4) [of b y] d(3) [of a x b y] by auto
  show "tn_local x = a \<and> dict_get (gm_fds ?m) (tn_fd x) = Some a" if "dict_get (gm_tunnels ?m) a = Some x" for a x
    using get [OF that] assms(2,3) d(2) [of a x] by auto
qed

lemma tunnels_ok_same:
  assumes "tunnels_ok m" "dict_get (gm_tunnels m) teid = Some t" "tn_local t' = tn_local t" "tn_fd t' = tn_fd t" "tn_imsi t' = tn_imsi t"
  shows "tunnels_ok (m\<lparr>gm_tunnels := dict_set teid t' (gm_tunnels m)\<rparr>)"
proof (rule tunnels_okI)
  note d = tunnels_okD [OF assms(1)]
  let ?m = "m\<lparr>gm_tunnels := dict_set teid t' (gm_tunnels m)\<rparr>"
  have get: "\<exists>y. dict_get (gm_tunnels m) a = Some y \<and> tn_imsi y = tn_imsi x \<and> tn_local y = tn_local x \<and> tn_fd y = tn_fd x"
    if "dict_get (gm_tunnels ?m) a = Some x" for a x
    using that assms(2-5) by (auto split: if_splits)
  show "dict_ok (gm_tunnels ?m)" using d(1) by simp
  show "a = b" if "dict_get (gm_tunnels ?m) a = Some x" "dict_get (gm_tunnels ?m) b = Some y" "tn_imsi x = tn_imsi y" for a b x y
    using get [OF that(1)] get [OF that(2)] that(3) d(3) by metis
  show "tn_local x = a \<and> dict_get (gm_fds ?m) (tn_fd x) = Some a" if "dict_get (gm_tunnels ?m) a = Some x" for a x
    using get [OF that] d(2) by (metis manager.ext_inject manager.surjective manager.update_convs(2))
qed

lemma create_ok:
  assumes "tunnels_ok m" "op_possible (CreateTunnel r1 r2 imsi ip l rm u q) m"
  shows "tunnels_ok (snd (create_tunnel r1 r2 imsi ip l rm u q m))"
proof (cases "gm_available m")
  case True
  define m1 where "m1 = fold destroy_tunnel (stale_teids imsi m) m"
  have ok: "tunnels_ok m1" unfolding m1_def by (rule destroys_ok [OF assms(1)])
  have other: "tn_imsi t \<noteq> imsi" if "dict_get (gm_tunnels m1) a = Some t" for a t
    using stale_gone [OF tunnels_okD(1) [OF assms(1)]] that unfolding m1_def by blast
  show ?thesis
  proof (cases "obtain_fd r1 r2")
    case None
    then show ?thesis using True ok by (simp add: create_tunnel_def Let_def m1_def)
  next
    case (Some fd)
    have "dict_get (gm_fds m1) fd = None"
      using assms(2) Some unfolding m1_def by (intro destroys_fds) simp
    with tunnels_ok_put [OF ok, of
        "\<lparr>tn_imsi = imsi, tn_ue_ip = ip, tn_local = l, tn_remote = rm, tn_upf = u, tn_rules = q, tn_default_qfi = PyInt 1,
          tn_name = tun_name_of imsi, tn_fd = fd, tn_tx = (0, 0), tn_rx = (0, 0), tn_dropped = 0\<rparr>" l] other
    show ?thesis using True Some by (simp add: create_tunnel_def Let_def m1_def)
  qed
qed (use assms(1) in \<open>simp add: create_tunnel_def\<close>)

lemma update_ok: "tunnels_ok m \<Longrightarrow> tunnels_ok (update_qos_rules teid rules m)"
  by (auto simp: update_qos_rules_def Let_def split: option.split intro!: tunnels_ok_same)

lemma receive_ok: "tunnels_ok m \<Longrightarrow> tunnels_ok (snd (receive_datagram d w m))"
  by (auto simp: receive_datagram_def Let_def split: option.split intro!: tunnels_ok_same)

lemma read_ok: "tunnels_ok m \<Longrightarrow> tunnels_ok (snd (read_packet teid p s m))"
  by (auto simp: read_packet_def Let_def split: option.split sum.split intro!: tunnels_ok_same)

interpretation tunnels: step_system man_step tunnels_ok
proof unfold_locales
  show "tunnels_ok m \<Longrightarrow> tunnels_ok (man_step m op)" for m op
    by (cases op) (auto simp: man_step_def gtpu_shutdown_def simp del: op_possible.simps(1)
        intro: create_ok update_ok receive_ok read_ok tunnels_ok_destroy destroys_ok)
qed

lemma new_manager_ok [simp]: "tunnels_ok (new_manager a)"
  by (simp add: tunnels_ok_def new_manager_def)

lemma create_replaces:
  assumes ok: "tunnels_ok m"
  shows "case create_tunnel r1 r2 imsi ip l rm u q m of
         (None, m') \<Rightarrow> \<forall>t \<in> set (map snd (gm_tunnels m')). gm_available m \<longrightarrow> tn_imsi t \<noteq> imsi
       | (Some name, m') \<Rightarrow>
           name = tun_name_of imsi \<and> stale_teids imsi m' = [l] \<and>
           (\<forall>teid t. dict_get (gm_tunnels m) teid = Some t \<and> tn_imsi t \<noteq> imsi \<and> teid \<noteq> l \<longrightarrow>
              dict_get (gm_tunnels m') teid = Some t)"
proof -
  define m1 where "m1 = fold destroy_tunnel (stale_teids imsi m) m"
  have gone: "tn_imsi t \<noteq> imsi" if "dict_get (gm_tunnels m1) x = Some t" for x t
    using stale_gone [OF tunnels_okD(1) [OF ok]] that unfolding m1_def by blast
  have ok1: "tunnels_ok m1" unfolding m1_def by (rule destroys_ok [OF ok])
  note d1 = tunnels_okD(1) [OF ok1]
  have mem: "tn_imsi t \<noteq> imsi" if "(x, t) \<in> set (gm_tunnels m1)" for x t
    using gone that d1 by (simp add: dict_get_in_set)
  obtain r m' where c: "create_tunnel r1 r2 imsi ip l rm u q m = (r, m')" by fastforce
  show ?thesis
  proof (cases r)
    case None
    then have "gm_available m \<longrightarrow> m' = m1" using c by (auto simp: create_tunnel_def Let_def m1_def split: option.splits if_splits)
    then show ?thesis using c None by (auto dest: mem)
  next
    case (Some name)
    then have av: "gm_available m" "obtain_fd r1 r2 \<noteq> None"
      using c by (auto simp: create_tunnel_def Let_def split: option.splits if_splits)
    then obtain fd where fd: "obtain_fd r1 r2 = Some fd" by auto
    define t where "t = \<lparr>tn_imsi = imsi, tn_ue_ip = ip, tn_local = l, tn_remote = rm, tn_upf = u, tn_rules = q,
      tn_default_qfi = PyInt 1, tn_name = tun_name_of imsi, tn_fd = fd, tn_tx = (0, 0), tn_rx = (0, 0), tn_dropped = 0\<rparr>"
    have t: "name = tun_name_of imsi" "tn_imsi t = imsi" "gm_tunnels m' = dict_set l t (gm_tunnels m1)"
      using c Some av(1) fd by (auto simp: create_tunnel_def Let_def m1_def t_def)
    have "map fst (filter (\<lambda>(x, s). tn_imsi s = imsi) (dict_set l t d)) = [l]"
      if "\<forall>(x, s) \<in> set d. tn_imsi s \<noteq> imsi" "dict_ok d" for d
      using that
    proof (induction d)
      case (Cons p d)
      have "filter (\<lambda>(x, s). tn_imsi s = imsi) d = []" using Cons.prems(1) by (auto simp: filter_empty_conv)
      with Cons t(2) show ?case by (cases p) (auto simp: dict_set_def dict_ok_def)
    qed (use t(2) in \<open>simp add: dict_set_def\<close>)
    then have one: "stale_teids imsi m' = [l]" using mem d1 by (auto simp: stale_teids_def t(3))
    have keep: "dict_get (gm_tunnels m') teid = Some s"
      if "dict_get (gm_tunnels m) teid = Some s" "tn_imsi s \<noteq> imsi" "teid \<noteq> l" for teid s
    proof -
      have "teid \<notin> set (stale_teids imsi m)"
        using that(1,2) tunnels_okD(1) [OF ok] by (auto simp: stale_teids_def dict_get_in_set [symmetric])
      then show ?thesis using that by (simp add: t(3) m1_def destroys_get)
    qed
    show ?thesis using c Some t(1) one keep by auto
  qed
qed


definition example_create :: "string \<Rightarrow> int \<Rightarrow> int \<Rightarrow> tun_op" where
  "example_create imsi teid fd = CreateTunnel (TunFd fd) (TunFd fd) imsi ''10.45.0.2'' teid 77 ''10.0.0.9'' []"


text \<open>
  C20: What the receiver writes for a datagram goes to the device of the tunnel the header names and of no
  other tunnel, is counted there and nowhere else, and for a packet a peer built for that endpoint it is
  the peer's payload.\<close>

theorem downlink_to_owner:
  fixes ops :: "tun_op list" and available :: bool
  defines "m \<equiv> foldl man_step (new_manager available) ops"
  assumes "receive_datagram data True m = (Some (fd, p), m')"
  shows "\<exists>teid t. peek_teid data = Inr teid \<and> dict_get (gm_tunnels m) (int teid) = Some t \<and> tn_fd t = fd \<and>
     (\<forall>b u. dict_get (gm_tunnels m) b = Some u \<and> tn_fd u = fd \<longrightarrow> b = int teid) \<and>
     gm_tunnels m' = dict_set (int teid) (t\<lparr>tn_rx := (fst (tn_rx t) + 1, snd (tn_rx t) + length p)\<rparr>) (gm_tunnels m) \<and>
     (\<forall>payload q. payload \<noteq> [] \<and> length payload + 8 < 65536 \<and>
        build_gtpu_with_pdu_session_container (int teid) payload (PyInt q) True = Inr data \<longrightarrow> p = payload)"
proof -
  have ok: "tunnels_ok m" unfolding m_def by (rule tunnels.run_inv) simp
  define teid where "teid = be_val (slice 4 8 data)"
  from assms(2) obtain t where t: "8 \<le> length data" "dict_get (gm_tunnels m) (int teid) = Some t" "rx_payload data = Some p"
    "fd = tn_fd t" "m' = m\<lparr>gm_tunnels := dict_set (int teid) (t\<lparr>tn_rx := count (length p) (tn_rx t)\<rparr>) (gm_tunnels m)\<rparr>"
    by (auto simp: receive_datagram_def Let_def gtpu_numbers teid_def split: if_splits option.splits)
  have peek: "peek_teid data = Inr teid"
    using t(1) by (simp add: peek_teid_def HEADER_LEN_def unpack_be_def length_slice teid_def)
  have only: "b = int teid" if "dict_get (gm_tunnels m) b = Some u" "tn_fd u = fd" for b u
    using tunnels_okD(2) [OF ok that(1)] tunnels_okD(2) [OF ok t(2)] that(2) t(4) by simp
  have same: "p = payload"
    if w: "payload \<noteq> []" "length payload + 8 < 65536"
      "build_gtpu_with_pdu_session_container (int teid) payload (PyInt q) True = Inr data" for payload q
  proof -
    have "teid < 2 ^ 32"
      using be_val_bound [of "slice 4 8 data"] t(1) by (simp add: teid_def length_slice)
    then have "int teid < int (2 ^ 32)" by (simp only: of_nat_less_iff)
    then have "int teid < 2 ^ 32" by simp
    then obtain pk h where "build_gtpu_with_pdu_session_container (int teid) payload (PyInt q) True = Inr pk"
      "rx_payload pk = Some payload"
      using uplink_packet [of "int teid" payload "PyInt q" q True] w(1,2) by (auto simp: num_of_def)
    then show ?thesis using w(3) t(3) by simp
  qed
  have put: "gm_tunnels m' = dict_set (int teid) (t\<lparr>tn_rx := (fst (tn_rx t) + 1, snd (tn_rx t) + length p)\<rparr>) (gm_tunnels m)"
    using t(5) by (simp add: count_def)
  show ?thesis
    by (rule exI [of _ teid], rule exI [of _ t], intro conjI allI impI)
      (use peek t(2,4) put only same in blast)+
qed

theorem downlink_to_owner_witness:
  "\<exists>t. dict_get (gm_tunnels (foldl man_step (new_manager True) [example_create ''001010000000001'' 9 5])) 9 = Some t \<and> tn_fd t = 5"
proof -
  let ?m = "foldl man_step (new_manager True) [example_create ''001010000000001'' 9 5]"
  let ?d = "gtpu_packet 48 255 3 9 [1, 2, 3]"
  have f: "unat (?d ! 1) = 255" "length ?d = 11" "be_val (slice 4 8 ?d) = 9"
    using gtpu_packet_fields(3,5) [of 48 255 3 9 "[1, 2, 3]"] by (simp_all add: gtpu_packet_fields(1) be_val_be_enc)
  obtain t where t: "dict_get (gm_tunnels ?m) 9 = Some t" "tn_fd t = 5"
    by (simp add: example_create_def man_step_def new_manager_def create_tunnel_def Let_def obtain_fd_def stale_teids_def)
  have rx: "rx_payload ?d = Some [1, 2, 3]" by code_simp
  obtain m' where r: "receive_datagram ?d True ?m = (Some (5, [1, 2, 3]), m')"
    using f t rx by (simp add: receive_datagram_def gtpu_numbers Let_def del: foldl.simps)
  from downlink_to_owner [OF r] show ?thesis using t by blast
qed

section \<open>Where sessions lose their tunnel\<close>

text \<open>
  The manager serves all base stations and all sessions, but knows tunnels by subscriber and local
  endpoint.  A second session of a subscriber removes the tunnel of the first one, and a tunnel created
  under an endpoint already in use, as two base stations that count from the same start do, takes the
  place of the other subscriber's.\<close>

theorem second_session_drops_first:
  assumes "tunnels_ok m" "gm_available m" "dict_get (gm_tunnels m) teid = Some t" "tn_imsi t = imsi" "teid \<noteq> l"
  shows "\<exists>m'. create_tunnel (TunFd fd) r imsi ip l rm u q m = (Some (tun_name_of imsi), m') \<and>
     dict_get (gm_tunnels m') teid = None"
proof -
  have "teid \<in> set (stale_teids imsi m)"
    using assms(3,4) by (force simp: stale_teids_def dest: map_of_SomeD)
  then show ?thesis
    using assms(2,5) by (simp add: create_tunnel_def Let_def obtain_fd_def destroys_get)
qed

theorem endpoint_collision:
  assumes "gm_available m" "dict_get (gm_tunnels m) teid = Some t" "tn_imsi t \<noteq> imsi"
  shows "\<exists>m' s. create_tunnel (TunFd fd) r imsi ip teid rm u q m = (Some (tun_name_of imsi), m') \<and>
     dict_get (gm_tunnels m') teid = Some s \<and> tn_imsi s = imsi \<and> tn_fd s = fd"
  using assms by (simp add: create_tunnel_def Let_def obtain_fd_def)

end
