(* ===== verification/Effects.thy ===== *)
theory Effects
  imports Prelude
begin

text \<open>
  Statements with effects and exceptions: a function from the state to a result and the state after it,
  so that what was done before an exception stays done, as in Python.  The frame interface collects
  the rules by which a reflexive and transitive relation between the states before and after a
  statement is carried through sequences, branches, loops and handlers; components interpret it on
  their own relations.
\<close>

section \<open>Statements\<close>

type_synonym ('s, 'a) eff = "'s \<Rightarrow> 'a res \<times> 's"

definition eret :: "'a \<Rightarrow> ('s, 'a) eff" where
  "eret x s = (Inr x, s)"

definition eraise :: "py_error \<Rightarrow> ('s, 'a) eff" where
  "eraise e s = (Inl e, s)"

definition elift :: "'a res \<Rightarrow> ('s, 'a) eff" where
  "elift r s = (r, s)"

definition eupd :: "('s \<Rightarrow> 's) \<Rightarrow> ('s, unit) eff" where
  "eupd f s = (Inr (), f s)"

definition ewith :: "('s \<Rightarrow> 'b) \<Rightarrow> ('b \<Rightarrow> ('s, 'a) eff) \<Rightarrow> ('s, 'a) eff" where
  \<comment> \<open>read the state\<close>
  "ewith g f s = f (g s) s"

definition ebind :: "('s, 'a) eff \<Rightarrow> ('a \<Rightarrow> ('s, 'b) eff) \<Rightarrow> ('s, 'b) eff" where
  "ebind m f s = (case m s of (Inl e, s') \<Rightarrow> (Inl e, s') | (Inr x, s') \<Rightarrow> f x s')"

definition eseq :: "('s, 'a) eff \<Rightarrow> ('s, 'b) eff \<Rightarrow> ('s, 'b) eff" where
  "eseq m n = ebind m (\<lambda>_. n)"

definition ecatch :: "('s, 'a) eff \<Rightarrow> (py_error \<Rightarrow> ('s, 'a) eff) \<Rightarrow> ('s, 'a) eff" where
  \<comment> \<open>\<open>try\<close> ... \<open>except\<close>\<close>
  "ecatch m h s = (case m s of (Inl e, s') \<Rightarrow> h e s' | (Inr x, s') \<Rightarrow> (Inr x, s'))"

definition eskip :: "('s, unit) eff" where
  "eskip = eret ()"

fun efor :: "'b list \<Rightarrow> ('b \<Rightarrow> ('s, unit) eff) \<Rightarrow> ('s, unit) eff" where
  \<comment> \<open>a \<open>for\<close> loop over a list\<close>
  "efor [] f = eskip"
| "efor (x # xs) f = eseq (f x) (efor xs f)"

named_theorems eff_simps \<open>running a statement\<close>

lemmas [eff_simps] = eret_def eraise_def elift_def eupd_def ewith_def eskip_def

lemma ebind_simps [eff_simps]:
  "m s = (Inr x, s') \<Longrightarrow> ebind m f s = f x s'"
  "m s = (Inl e, s') \<Longrightarrow> ebind m f s = (Inl e, s')"
  by (simp_all add: ebind_def)

lemma eseq_simps [eff_simps]:
  "m s = (Inr x, s') \<Longrightarrow> eseq m n s = n s'"
  "m s = (Inl e, s') \<Longrightarrow> eseq m n s = (Inl e, s')"
  by (simp_all add: eseq_def ebind_simps)

lemma eseq_upd [eff_simps]: "eseq (eupd f) n s = n (f s)"
  by (simp add: eseq_def ebind_def eupd_def)

lemma eseq_case: "eseq m n s = (case m s of (Inl e, s') \<Rightarrow> (Inl e, s') | (Inr x, s') \<Rightarrow> n s')"
  by (simp add: eseq_def ebind_def)

lemma ecatch_simps [eff_simps]:
  "m s = (Inr x, s') \<Longrightarrow> ecatch m h s = (Inr x, s')"
  "m s = (Inl e, s') \<Longrightarrow> ecatch m h s = h e s'"
  by (simp_all add: ecatch_def)

lemma eseq_assoc: "eseq (eseq a b) c = eseq a (eseq b c)"
  by (rule ext) (simp add: eseq_def ebind_def split: prod.split sum.split)

lemma eseq_skip [simp]: "eseq eskip m = m"
  by (rule ext) (simp add: eseq_def ebind_def eskip_def eret_def)

lemma efor_append: "efor (xs @ ys) f = eseq (efor xs f) (efor ys f)"
  by (induction xs) (simp_all add: eseq_assoc)

section \<open>Frames\<close>

locale frame =
  fixes R :: "'s \<Rightarrow> 's \<Rightarrow> bool"
  assumes frame_refl: "R s s"
    and frame_trans: "R s t \<Longrightarrow> R t u \<Longrightarrow> R s u"
begin

definition moves :: "('s, 'a) eff \<Rightarrow> bool" where
  "moves m \<longleftrightarrow> (\<forall>s. R s (snd (m s)))"

lemma movesI: "(\<And>s. R s (snd (m s))) \<Longrightarrow> moves m"
  by (simp add: moves_def)

lemma movesD: "moves m \<Longrightarrow> m s = (r, s') \<Longrightarrow> R s s'"
  by (metis moves_def snd_conv)

lemma moves_basic: "moves (eret x)" "moves (eraise e)" "moves (elift r)" "moves eskip"
  by (simp_all add: moves_def eff_simps frame_refl)

lemma moves_upd: "(\<And>s. R s (f s)) \<Longrightarrow> moves (eupd f)"
  by (simp add: moves_def eff_simps)

lemma moves_with: "(\<And>s. R s (snd (f (g s) s))) \<Longrightarrow> moves (ewith g f)"
  by (simp add: moves_def ewith_def)

lemma moves_withI: "(\<And>b. moves (f b)) \<Longrightarrow> moves (ewith g f)"
  by (simp add: moves_def ewith_def)

lemma moves_bind:
  assumes "moves m" "\<And>x. moves (f x)"
  shows "moves (ebind m f)"
proof (rule movesI)
  fix s
  obtain r s' where m: "m s = (r, s')" by fastforce
  then have "R s s'" by (rule movesD [OF assms(1)])
  moreover have "R s' (snd (f x s'))" for x using assms(2) by (simp add: moves_def)
  ultimately show "R s (snd (ebind m f s))" using m by (cases r) (auto simp: ebind_def intro: frame_trans)
qed

lemma moves_seq: "moves m \<Longrightarrow> moves n \<Longrightarrow> moves (eseq m n)"
  by (simp add: eseq_def moves_bind)

lemma moves_catch:
  assumes "moves m" "\<And>e. moves (h e)"
  shows "moves (ecatch m h)"
proof (rule movesI)
  fix s
  obtain r s' where m: "m s = (r, s')" by fastforce
  then have "R s s'" by (rule movesD [OF assms(1)])
  moreover have "R s' (snd (h e s'))" for e using assms(2) by (simp add: moves_def)
  ultimately show "R s (snd (ecatch m h s))" using m by (cases r) (auto simp: ecatch_def intro: frame_trans)
qed

lemma moves_for: "(\<And>x. moves (f x)) \<Longrightarrow> moves (efor xs f)"
  by (induction xs) (simp_all add: moves_basic moves_seq)

lemma moves_if: "(b \<Longrightarrow> moves m) \<Longrightarrow> (\<not> b \<Longrightarrow> moves n) \<Longrightarrow> moves (if b then m else n)"
  by simp

lemma moves_option: "(x = None \<Longrightarrow> moves m) \<Longrightarrow> (\<And>y. x = Some y \<Longrightarrow> moves (f y)) \<Longrightarrow>
    moves (case x of None \<Rightarrow> m | Some y \<Rightarrow> f y)"
  by (cases x) simp_all

lemma moves_sum: "(\<And>e. x = Inl e \<Longrightarrow> moves (f e)) \<Longrightarrow> (\<And>y. x = Inr y \<Longrightarrow> moves (g y)) \<Longrightarrow>
    moves (case x of Inl e \<Rightarrow> f e | Inr y \<Rightarrow> g y)"
  by (cases x) simp_all

lemma moves_prod: "(\<And>a b. moves (f a b)) \<Longrightarrow> moves (case p of (a, b) \<Rightarrow> f a b)"
  by (cases p) simp

lemmas moves_intros = moves_basic moves_bind moves_seq moves_catch moves_for moves_if moves_option
  moves_sum moves_prod

end

text \<open>An invariant is carried by the frame of its preservation.\<close>

definition preserves :: "('s \<Rightarrow> bool) \<Rightarrow> 's \<Rightarrow> 's \<Rightarrow> bool" where
  "preserves I s t \<longleftrightarrow> (I s \<longrightarrow> I t)"

interpretation preserved: frame "preserves I" for I
  by unfold_locales (auto simp: preserves_def)

end
