(* ===== verification/GnbLink.thy ===== *)
theory GnbLink
  imports Effects UserPlane Dstt Aka
begin

text \<open>
  The state of the emulated base stations and subscribers (\<open>statemachine/gnb_fsm.py\<close>,
  \<open>statemachine/ue_fsm.py\<close>) and what a subscriber calls on its base station: the protocol trace, the
  choice of the stream, sending over the association (\<open>protocol/sctp.py\<close>), attaching, the uplink
  messages, and the answer to a session setup, which waits for the tunnel.

  Base stations and subscribers point at each other, so both live in a store, the record \<open>world\<close>, and
  are named by references; the tunnel manager and its queue of setup jobs are shared by all base
  stations.  Builders and decoders of NAS and NGAP messages, clocks and the outcome of creating a
  device are arguments, collected in \<open>fsm_env\<close>.  Messages are recorded with the arguments of their
  builder.  Threads are interleaved operations; locks, log entries and waiting are left out.
\<close>

section \<open>Messages\<close>

record cell =
  ce_id :: int
  ce_name :: string
  ce_mcc :: string
  ce_mnc :: string
  ce_tac :: string

datatype ngap_out =
    NgSetupRequest cell
  | InitialContextSetupResponse int int
  | SessionSetupResponse "int option" "int option" int int string \<comment> \<open>AMF id, RAN id, session, endpoint, address\<close>
  | SessionSetupFailed "int option" "int option" int string
  | SessionModifyResponse "int option" "int option" int
  | TscFeedback "int option" "int option" int int "int option" "int option"
  | HandoverFailure "int option" string
  | HandoverRequestAck "int option" int "int list" string "(int, int) dict"
  | HandoverRequired int "int option" int int cell "int list"
  | HandoverNotify "int option" int cell
  | UplinkRanStatusTransfer int int int int int
  | HandoverCancel int int string
  | UeContextReleaseRequest int "int option" string string
  | ErrorIndication "int option" "int option" string string
  | RrcInactiveTransitionReport int "int option" string cell
  | InitialUeMessage "int option" bytes cell
  | UplinkNasTransport int "int option" bytes cell
  | UeContextReleaseComplete int int

datatype direction = TX | RX

record trace_entry =
  te_dir :: direction
  te_time :: int
  te_proc :: int
  te_type :: string
  te_category :: "string option"
  te_size :: nat
  te_head :: bytes \<comment> \<open>the first 64 octets\<close>

type_synonym tscai = "(int, content) dict" \<comment> \<open>per flow, the directions \<open>ul\<close> and \<open>dl\<close>\<close>

record setup_item =
  it_psi :: "int option"
  it_transfer :: "pyval option"
  it_nas :: "bytes option"

record modify_item =
  mi_psi :: "int option"
  mi_transfer :: "pyval option"
  mi_nas :: "bytes option" \<comment> \<open>under one of the three keys the code tries\<close>
  mi_rest :: "pyval list" \<comment> \<open>the values under all other keys but identifier, transfer and slice\<close>

record ies = \<comment> \<open>the information elements the handlers read\<close>
  ie_amf :: "int option"
  ie_ran :: "int option"
  ie_nas :: "bytes option"
  ie_setup :: "setup_item list"
  ie_modify :: "modify_item list"
  ie_handover :: "setup_item list"
  ie_cause :: "string option"
  ie_container :: "bytes option"
  ie_id_pair :: "(int option \<times> int option) option"
  ie_paging :: "bytes option"
  ie_tais :: "pyval list"

section \<open>State\<close>

datatype gnb_state = IDLE | NG_SETUP_SENT | READY | GNB_ERROR

datatype worker = NoWorker | AtTop | Waiting \<comment> \<open>the handler thread: none, before the check of \<open>_stop\<close>, in \<open>get\<close>\<close>

datatype ue_state =
    DEREGISTERED | REG_INITIATED | AUTH_PENDING | SEC_MODE_PENDING | REGISTERED | CONNECTED | DEREGISTERING

record pending =
  pd_amf :: "int option"
  pd_ran :: "int option"
  pd_local :: int
  pd_remote :: "int option"
  pd_upf :: "string option"

record ho_context =
  hc_amf :: "int option"
  hc_ran :: int
  hc_sessions :: "int list"
  hc_teids :: "(int, int) dict"

record gnb =
  gn_cell :: cell
  gn_ip :: "string option"
  gn_state :: gnb_state
  gn_stop :: bool
  gn_link :: "string option" \<comment> \<open>why sending fails, if it does\<close>
  gn_streams :: int
  gn_ues :: "(int, nat) dict"
  gn_ran_counter :: int
  gn_teid_counter :: int
  gn_gtpu :: bool \<comment> \<open>whether it has the tunnel manager\<close>
  gn_pending :: "(int, pending) dict"
  gn_tscai :: "(int, tscai) dict"
  gn_ho_context :: "ho_context option"
  gn_ho_command :: "bool option" \<comment> \<open>an event and whether it is set\<close>
  gn_ho_failure :: "string option"
  gn_ho_cancel :: "bool option"
  gn_path_switch :: "bool option"
  gn_path_failed :: bool
  gn_dl_status :: "bytes option"
  gn_force_failure :: "string option"
  gn_paging :: "bool option"
  gn_last_paging :: "(bytes option \<times> pyval list) option"
  gn_setup_ies :: "ies option"
  gn_setup_failure :: "ies option"
  gn_tracing :: bool
  gn_trace :: "trace_entry list"
  gn_sent :: "(ngap_out \<times> int) list" \<comment> \<open>with the stream, oldest first\<close>
  gn_worker :: worker
  gn_queue :: "ies option list" \<comment> \<open>\<open>None\<close> tells the handler thread to end\<close>

record session =
  se_ip :: "string option"
  se_flows :: "qos_flow list"
  se_options :: "(string, string) dict"
  se_ethernet :: "string option" \<comment> \<open>the address of the translator, for an Ethernet session\<close>
  se_tun :: "string option"
  se_teid :: "int option"

record nas_ctx =
  nc_kamf :: "bytes option"
  nc_kseaf :: "bytes option"
  nc_enc :: "bytes option"
  nc_int :: "bytes option"
  nc_kgnb :: "bytes option"
  nc_eea :: nat
  nc_eia :: nat
  nc_ul :: nat
  nc_dl :: nat
  nc_abba :: bytes
  nc_ksi :: "(int \<times> int) option"

record guti =
  gu_plmn :: bytes
  gu_region :: int
  gu_set :: int
  gu_pointer :: int
  gu_tmsi :: int

record fsm_ue =
  fu_sim :: sim
  fu_gnb :: "nat option"
  fu_state :: ue_state
  fu_ran :: "int option"
  fu_amf :: "int option"
  fu_ctx :: nas_ctx
  fu_sessions :: "(int, session) dict"
  fu_dstts :: "(int, dstt) dict"
  fu_pti :: int
  fu_reg_request :: "bytes option"
  fu_guti :: "guti option"
  fu_reject :: "(int \<times> string) option"

record setup_ctx = \<comment> \<open>what the two closures of \<open>_on_pdu_session_accepted\<close> capture\<close>
  sx_psi :: int
  sx_amf :: "int option"
  sx_ran :: "int option"
  sx_local :: int
  sx_ip :: string

datatype job = \<comment> \<open>the callables handed to the tunnel manager\<close>
    FailJob nat setup_ctx string
  | TunnelJob nat nat setup_ctx int string "string option" "qos_flow list"

record world =
  w_ue :: "nat \<Rightarrow> fsm_ue"
  w_gnb :: "nat \<Rightarrow> gnb"
  w_man :: manager
  w_jobs :: "job list"
  w_udp :: "(bytes \<times> string) list"
  w_now :: int

type_synonym 'a fsm = "(world, 'a) eff"

section \<open>Environment\<close>

datatype fsm_nas = \<comment> \<open>the calls of the NAS message builder\<close>
    RegistrationRequest string string string "bytes option" pyval int int string "string option" int
  | AuthenticationFailure int "bytes option"
  | AuthenticationResponse bytes
  | SecurityModeComplete "bytes option"
  | RegistrationComplete
  | DeregistrationRequest bool bool int
  | ServiceRequest int
  | UlSession int int string int "int option" int "bytes option" "int option" "bytes option"
  | UlRaw int bytes

datatype payload = RawPayload bytes | ListPayload "pyval list" | OtherPayload

record nas_msg = \<comment> \<open>what the handlers read of a parsed message; \<open>None\<close> where reading raises\<close>
  nm_type :: "int option"
  nm_rand :: "(bytes \<times> bytes) option"
  nm_ksi :: "(int \<times> int) option"
  nm_abba :: "bytes option"
  nm_algo :: "bytes option"
  nm_guti :: "guti option"
  nm_cause :: "int option"
  nm_payload :: "payload option"

record gsm_msg =
  gm_type :: int
  gm_psi :: int
  gm_addr :: "bytes option"
  gm_pco :: "pyval option"
  gm_qos :: "pyval option"
  gm_pmic :: "bytes option"

datatype 'm parsed = Plain nas_msg | Secured 'm

record 'm fsm_env =
  fe_lib :: "'m nas_lib"
  fe_bytes :: "'m \<Rightarrow> bytes"
  fe_parse :: "bytes \<Rightarrow> 'm parsed option"
  fe_inner :: "bytes \<Rightarrow> nas_msg"
  fe_gsm :: "bytes \<Rightarrow> gsm_msg option"
  fe_build :: "fsm_nas \<Rightarrow> bytes"
  fe_aes :: "bytes \<Rightarrow> bytes \<Rightarrow> bytes"
  fe_hmac :: mac_fun
  fe_ngap :: "ngap_out \<Rightarrow> bytes"
  fe_decode :: "bytes \<Rightarrow> (string \<times> int \<times> ies) res"
  fe_tun :: "int \<Rightarrow> tun_result \<times> tun_result" \<comment> \<open>by local endpoint\<close>
  fe_upf :: "bytes \<Rightarrow> (string \<times> int) option"
  fe_tscai :: "bytes \<Rightarrow> tscai res"
  fe_tscai_modify :: "pyval \<Rightarrow> tscai res"
  fe_pmic :: "pyval \<Rightarrow> bytes option"

section \<open>Store access\<close>

definition on_gnb :: "nat \<Rightarrow> (gnb \<Rightarrow> gnb) \<Rightarrow> unit fsm" where
  "on_gnb g f = eupd (\<lambda>w. w\<lparr>w_gnb := (w_gnb w)(g := f (w_gnb w g))\<rparr>)"

definition on_ue :: "nat \<Rightarrow> (fsm_ue \<Rightarrow> fsm_ue) \<Rightarrow> unit fsm" where
  "on_ue u f = eupd (\<lambda>w. w\<lparr>w_ue := (w_ue w)(u := f (w_ue w u))\<rparr>)"

definition on_man :: "(manager \<Rightarrow> manager) \<Rightarrow> unit fsm" where
  "on_man f = eupd (\<lambda>w. w\<lparr>w_man := f (w_man w)\<rparr>)"

definition with_gnb :: "nat \<Rightarrow> (gnb \<Rightarrow> 'a fsm) \<Rightarrow> 'a fsm" where
  "with_gnb g f = ewith (\<lambda>w. w_gnb w g) f"

definition with_ue :: "nat \<Rightarrow> (fsm_ue \<Rightarrow> 'a fsm) \<Rightarrow> 'a fsm" where
  "with_ue u f = ewith (\<lambda>w. w_ue w u) f"

section \<open>Trace and association\<close>

definition ring_append :: "nat \<Rightarrow> nat \<Rightarrow> 'a \<Rightarrow> 'a list \<Rightarrow> 'a list" where
  \<comment> \<open>append, and cut to the newest \<open>keep\<close> where there are more than \<open>cap\<close>\<close>
  "ring_append cap keep x xs =
     (let ys = xs @ [x] in if length ys > cap then drop (length ys - keep) ys else ys)"

definition trace_tx :: "'m fsm_env \<Rightarrow> nat \<Rightarrow> ngap_out \<Rightarrow> string \<Rightarrow> int \<Rightarrow> unit fsm" where
  "trace_tx E g m name proc =
     ewith w_now (\<lambda>now. on_gnb g (\<lambda>b.
       if \<not> gn_tracing b then b
       else let data = fe_ngap E m in
         b\<lparr>gn_trace := ring_append 200 150 \<lparr>te_dir = TX, te_time = now, te_proc = proc, te_type = name,
            te_category = None, te_size = length data, te_head = take 64 data\<rparr> (gn_trace b)\<rparr>))"

definition trace_rx :: "nat \<Rightarrow> bytes \<Rightarrow> string \<Rightarrow> int \<Rightarrow> string \<Rightarrow> unit fsm" where
  "trace_rx g data category proc name =
     ewith w_now (\<lambda>now. on_gnb g (\<lambda>b.
       if \<not> gn_tracing b then b
       else b\<lparr>gn_trace := ring_append 200 150 \<lparr>te_dir = RX, te_time = now, te_proc = proc, te_type = name,
            te_category = Some category, te_size = length data, te_head = take 64 data\<rparr> (gn_trace b)\<rparr>))"

definition get_trace :: "int \<Rightarrow> gnb \<Rightarrow> trace_entry list" where
  "get_trace after b = (if after \<noteq> 0 then filter (\<lambda>e. te_time e > after) (gn_trace b) else gn_trace b)"

definition clear_trace :: "nat \<Rightarrow> unit fsm" where
  "clear_trace g = on_gnb g (\<lambda>b. b\<lparr>gn_trace := []\<rparr>)"

definition stream_for_ue :: "int option \<Rightarrow> gnb \<Rightarrow> int" where
  "stream_for_ue ran_id b =
     (case ran_id of
        None \<Rightarrow> 0
      | Some r \<Rightarrow> let usable = max (gn_streams b - 1) 1 in r mod usable + 1)"

definition sctp_send :: "nat \<Rightarrow> ngap_out \<Rightarrow> int \<Rightarrow> unit fsm" where
  \<comment> \<open>\<open>SctpClient.send\<close>: a stream that was not negotiated becomes stream 0\<close>
  "sctp_send g m stream =
     with_gnb g (\<lambda>b. case gn_link b of
        Some why \<Rightarrow> eraise (Raised ''ConnectionError'' why)
      | None \<Rightarrow> on_gnb g (\<lambda>b. b\<lparr>gn_sent := gn_sent b @ [(m, if stream \<ge> gn_streams b then 0 else stream)]\<rparr>))"

definition emit :: "'m fsm_env \<Rightarrow> nat \<Rightarrow> ngap_out \<Rightarrow> string \<Rightarrow> int \<Rightarrow> int option \<Rightarrow> unit fsm" where
  \<comment> \<open>the two statements that follow every builder call: trace, then send on the stream of the UE\<close>
  "emit E g m name proc ran_id =
     eseq (trace_tx E g m name proc) (with_gnb g (\<lambda>b. sctp_send g m (stream_for_ue ran_id b)))"

definition set_gnb_state :: "nat \<Rightarrow> gnb_state \<Rightarrow> unit fsm" where
  "set_gnb_state g s = on_gnb g (\<lambda>b. b\<lparr>gn_state := s\<rparr>)"

definition on_sctp_send_failed :: "nat \<Rightarrow> unit fsm" where
  "on_sctp_send_failed g =
     with_gnb g (\<lambda>b. if gn_state b \<in> {IDLE, GNB_ERROR} then eskip
       else eseq (set_gnb_state g GNB_ERROR) (on_gnb g (\<lambda>b. b\<lparr>gn_stop := True\<rparr>)))"

section \<open>Subscribers\<close>

definition attach_ue :: "nat \<Rightarrow> nat \<Rightarrow> unit fsm" where
  "attach_ue g u =
     eseq (on_gnb g (\<lambda>b. b\<lparr>gn_ran_counter := gn_ran_counter b + 1\<rparr>))
       (with_gnb g (\<lambda>b. eseq (on_ue u (\<lambda>x. x\<lparr>fu_ran := Some (gn_ran_counter b), fu_gnb := Some g\<rparr>))
          (on_gnb g (\<lambda>b. b\<lparr>gn_ues := dict_set (gn_ran_counter b) u (gn_ues b)\<rparr>))))"

definition drop_ran :: "nat \<Rightarrow> int option \<Rightarrow> unit fsm" where
  \<comment> \<open>\<open>ue_map.pop(ran_id, None)\<close>\<close>
  "drop_ran g r = on_gnb g (\<lambda>b. case r of None \<Rightarrow> b | Some i \<Rightarrow> b\<lparr>gn_ues := dict_del i (gn_ues b)\<rparr>)"

definition detach_ue :: "nat \<Rightarrow> nat \<Rightarrow> unit fsm" where
  "detach_ue g u = with_ue u (\<lambda>x. drop_ran g (fu_ran x))"

definition attach_if_new :: "nat \<Rightarrow> nat \<Rightarrow> unit fsm" where
  "attach_if_new g u = with_ue u (\<lambda>x. if fu_ran x = None then attach_ue g u else eskip)"

definition send_initial_as :: "string \<Rightarrow> 'm fsm_env \<Rightarrow> nat \<Rightarrow> nat \<Rightarrow> bytes \<Rightarrow> unit fsm" where
  "send_initial_as name E g u nas =
     eseq (attach_if_new g u) (with_ue u (\<lambda>x. with_gnb g (\<lambda>b.
       emit E g (InitialUeMessage (fu_ran x) nas (gn_cell b)) name 15 (fu_ran x))))"

definition send_initial_ue_message :: "'m fsm_env \<Rightarrow> nat \<Rightarrow> nat \<Rightarrow> bytes \<Rightarrow> unit fsm" where
  "send_initial_ue_message = send_initial_as ''InitialUEMessage''"

definition send_service_request :: "'m fsm_env \<Rightarrow> nat \<Rightarrow> nat \<Rightarrow> int \<Rightarrow> unit fsm" where
  "send_service_request E g u service_type =
     send_initial_as ''InitialUEMessage(ServiceRequest)'' E g u (fe_build E (ServiceRequest service_type))"

definition send_uplink_nas_transport :: "'m fsm_env \<Rightarrow> nat \<Rightarrow> nat \<Rightarrow> bytes \<Rightarrow> unit fsm" where
  "send_uplink_nas_transport E g u nas =
     with_ue u (\<lambda>x. case fu_amf x of
        None \<Rightarrow> eskip
      | Some a \<Rightarrow> with_gnb g (\<lambda>b. emit E g (UplinkNasTransport a (fu_ran x) nas (gn_cell b)) ''UplinkNASTransport'' 46 (fu_ran x)))"

section \<open>Answering a session setup\<close>

definition if_connected :: "nat \<Rightarrow> unit fsm \<Rightarrow> unit fsm" where
  "if_connected g m = with_gnb g (\<lambda>b. if gn_state b \<in> {IDLE, GNB_ERROR} then eskip else m)"

definition quietly :: "unit fsm \<Rightarrow> unit fsm" where
  \<comment> \<open>an exception is logged\<close>
  "quietly m = ecatch m (\<lambda>e. eskip)"

definition send_failure :: "'m fsm_env \<Rightarrow> nat \<Rightarrow> setup_ctx \<Rightarrow> string \<Rightarrow> unit fsm" where
  "send_failure E g c cause =
     if_connected g (quietly (emit E g (SessionSetupFailed (sx_amf c) (sx_ran c) (sx_psi c) cause)
       ''PDUSessionResourceSetupResponse(failed)'' 29 (sx_ran c)))"

definition send_success :: "'m fsm_env \<Rightarrow> nat \<Rightarrow> setup_ctx \<Rightarrow> unit fsm" where
  "send_success E g c =
     if_connected g (quietly (emit E g (SessionSetupResponse (sx_amf c) (sx_ran c) (sx_psi c) (sx_local c) (sx_ip c))
       ''PDUSessionResourceSetupResponse'' 29 (sx_ran c)))"

definition UNAVAILABLE :: string where
  "UNAVAILABLE = ''transport-resource-unavailable''"

definition update_session :: "nat \<Rightarrow> int \<Rightarrow> (session \<Rightarrow> session) \<Rightarrow> unit fsm" where
  \<comment> \<open>a change to the entry of a session, if there is one\<close>
  "update_session u psi f = on_ue u (\<lambda>x. case dict_get (fu_sessions x) psi of
     None \<Rightarrow> x | Some s \<Rightarrow> x\<lparr>fu_sessions := dict_set psi (f s) (fu_sessions x)\<rparr>)"

definition build_tunnel_then_respond ::
  "'m fsm_env \<Rightarrow> nat \<Rightarrow> nat \<Rightarrow> setup_ctx \<Rightarrow> int \<Rightarrow> string \<Rightarrow> string option \<Rightarrow> qos_flow list \<Rightarrow> unit fsm" where
  "build_tunnel_then_respond E g u c remote upf ue_ip rules =
     if_connected g (with_ue u (\<lambda>x. ewith w_man (\<lambda>m.
       let (r1, r2) = fe_tun E (sx_local c);
           (name, m') = create_tunnel r1 r2 (sim_imsi (fu_sim x)) (case ue_ip of None \<Rightarrow> ''None'' | Some i \<Rightarrow> i)
                          (sx_local c) remote upf rules m
       in eseq (on_man (\<lambda>_. m'))
            (case name of
               None \<Rightarrow> send_failure E g c UNAVAILABLE
             | Some tun \<Rightarrow> eseq (update_session u (sx_psi c) (\<lambda>s. s\<lparr>se_tun := Some tun, se_teid := Some (sx_local c)\<rparr>))
                             (send_success E g c)))))"

definition run_job :: "'m fsm_env \<Rightarrow> job \<Rightarrow> unit fsm" where
  \<comment> \<open>the worker of the manager calls the job and logs an exception\<close>
  "run_job E j = quietly (case j of
      FailJob g c cause \<Rightarrow> send_failure E g c cause
    | TunnelJob g u c remote upf ue_ip rules \<Rightarrow> build_tunnel_then_respond E g u c remote upf ue_ip rules)"

definition run_next_job :: "'m fsm_env \<Rightarrow> unit fsm" where
  "run_next_job E = ewith w_jobs (\<lambda>js. case js of
      [] \<Rightarrow> eskip
    | j # rest \<Rightarrow> eseq (eupd (\<lambda>w. w\<lparr>w_jobs := rest\<rparr>)) (run_job E j))"

definition submit_setup :: "job \<Rightarrow> unit fsm" where
  "submit_setup j = eupd (\<lambda>w. w\<lparr>w_jobs := w_jobs w @ [j]\<rparr>)"

definition submit_failure :: "'m fsm_env \<Rightarrow> nat \<Rightarrow> setup_ctx \<Rightarrow> unit fsm" where
  \<comment> \<open>on the worker where there is a manager, inline otherwise\<close>
  "submit_failure E g c = with_gnb g (\<lambda>b.
     if gn_gtpu b then submit_setup (FailJob g c UNAVAILABLE) else send_failure E g c UNAVAILABLE)"

definition on_pdu_session_accepted :: "'m fsm_env \<Rightarrow> nat \<Rightarrow> nat \<Rightarrow> int \<Rightarrow> string option \<Rightarrow> unit fsm" where
  "on_pdu_session_accepted E g u psi ue_ip =
     with_gnb g (\<lambda>b. case dict_get (gn_pending b) psi of
        None \<Rightarrow> eskip
      | Some p \<Rightarrow>
          eseq (on_gnb g (\<lambda>b. b\<lparr>gn_pending := dict_del psi (gn_pending b)\<rparr>))
          (let c = \<lparr>sx_psi = psi, sx_amf = pd_amf p, sx_ran = pd_ran p, sx_local = pd_local p,
                    sx_ip = (case gn_ip b of None \<Rightarrow> ''127.0.0.1'' | Some i \<Rightarrow> if i = [] then ''127.0.0.1'' else i)\<rparr> in
           with_ue u (\<lambda>x. ewith w_man (\<lambda>m.
             let s = dict_get (fu_sessions x) psi in
             if (case s of None \<Rightarrow> False | Some s \<Rightarrow> se_ethernet s \<noteq> None) then send_success E g c
             else case (pd_upf p, pd_remote p) of
                (Some upf, Some remote) \<Rightarrow>
                  if upf = [] \<or> remote = 0 \<or> \<not> (gn_gtpu b \<and> gm_available m) then submit_failure E g c
                  else submit_setup (TunnelJob g u c remote upf ue_ip (case s of None \<Rightarrow> [] | Some s \<Rightarrow> se_flows s))
              | _ \<Rightarrow> submit_failure E g c))))"

end
