(* ===== verification/UeFsm.thy ===== *)
theory UeFsm
  imports GnbLink
begin

text \<open>
  The subscriber's NAS state machine (\<open>statemachine/ue_fsm.py\<close>): registration, session establishment and
  deregistration as the test cases call them, and the handlers of downlink messages.  Messages of the
  session management layer arrive parsed, as octets or as the nested list of the vendored codec.
\<close>

section \<open>State changes\<close>

definition set_ue_state :: "nat \<Rightarrow> ue_state \<Rightarrow> unit fsm" where
  "set_ue_state u s = on_ue u (\<lambda>x. x\<lparr>fu_state := s\<rparr>)"

definition on_ctx :: "nat \<Rightarrow> (nas_ctx \<Rightarrow> nas_ctx) \<Rightarrow> unit fsm" where
  "on_ctx u f = on_ue u (\<lambda>x. x\<lparr>fu_ctx := f (fu_ctx x)\<rparr>)"

definition new_nas_ctx :: nas_ctx where
  "new_nas_ctx = \<lparr>nc_kamf = None, nc_kseaf = None, nc_enc = None, nc_int = None, nc_kgnb = None, nc_eea = 0,
     nc_eia = 0, nc_ul = 0, nc_dl = 0, nc_abba = zeros 2, nc_ksi = None\<rparr>"

definition new_fsm_ue :: "sim \<Rightarrow> nat option \<Rightarrow> fsm_ue" where
  "new_fsm_ue s g = \<lparr>fu_sim = s, fu_gnb = g, fu_state = DEREGISTERED, fu_ran = None, fu_amf = None,
     fu_ctx = new_nas_ctx, fu_sessions = [], fu_dstts = [], fu_pti = 1, fu_reg_request = None,
     fu_guti = None, fu_reject = None\<rparr>"

definition fu_mcc :: "fsm_ue \<Rightarrow> string" where "fu_mcc x = slice 0 3 (sim_imsi (fu_sim x))"
definition fu_mnc :: "fsm_ue \<Rightarrow> string" where "fu_mnc x = slice 3 5 (sim_imsi (fu_sim x))"

definition NoneType :: py_error where
  \<comment> \<open>a method called on \<open>None\<close>\<close>
  "NoneType = Raised ''AttributeError'' ''NoneType''"

definition via_gnb :: "nat \<Rightarrow> (nat \<Rightarrow> unit fsm) \<Rightarrow> unit fsm" where
  "via_gnb u f = with_ue u (\<lambda>x. case fu_gnb x of None \<Rightarrow> eraise NoneType | Some g \<Rightarrow> f g)"

definition send_nas :: "'m fsm_env \<Rightarrow> nat \<Rightarrow> fsm_nas \<Rightarrow> unit fsm" where
  \<comment> \<open>\<open>self.gnb.send_uplink_nas_transport\<close> of an unprotected message\<close>
  "send_nas E u m = via_gnb u (\<lambda>g. send_uplink_nas_transport E g u (fe_build E m))"

definition send_secured :: "'m fsm_env \<Rightarrow> nat \<Rightarrow> bytes \<Rightarrow> nat \<Rightarrow> unit fsm" where
  "send_secured E u plain sec_hdr =
     with_ue u (\<lambda>x. let c = fu_ctx x;
         (m, n) = wrap_nas_security (fe_lib E) plain (nc_enc c) (nc_int c) (nc_eea c) (nc_eia c) (nc_ul c) 0 1 sec_hdr
       in eseq (on_ctx u (\<lambda>c. c\<lparr>nc_ul := n\<rparr>))
               (via_gnb u (\<lambda>g. send_uplink_nas_transport E g u (fe_bytes E m))))"

section \<open>Actions of the test cases\<close>

record reg_args =
  ra_type :: int
  ra_ksi :: int
  ra_nssai :: pyval \<comment> \<open>explicit, or derived from the baseline of the subscriber\<close>
  ra_caps :: "bytes option"
  ra_msin :: "string option"
  ra_scheme :: int
  ra_routing :: string

definition register :: "'m fsm_env \<Rightarrow> nat \<Rightarrow> reg_args \<Rightarrow> bool fsm" where
  "register E u a =
     with_ue u (\<lambda>x. case fu_gnb x of
        None \<Rightarrow> eret False
      | Some g \<Rightarrow>
          eseq (on_ue u (\<lambda>x. x\<lparr>fu_reject := None\<rparr>))
          (eseq (set_ue_state u REG_INITIATED)
          (let nas = fe_build E (RegistrationRequest (sim_imsi (fu_sim x)) (fu_mcc x) (fu_mnc x) (ra_caps a) (ra_nssai a)
                       (ra_type a) (ra_ksi a) (ra_routing a) (ra_msin a) (ra_scheme a))
           in eseq (on_ue u (\<lambda>x. x\<lparr>fu_reg_request := Some nas\<rparr>))
             (eseq (send_initial_ue_message E g u nas) (eret True)))))"

definition next_pti :: "int \<Rightarrow> int" where
  "next_pti n = n mod 254 + 1"

definition imsi_mac :: "string \<Rightarrow> bytes res" where
  \<comment> \<open>a locally administered address from the last eight digits\<close>
  "imsi_mac imsi =
     (case py_int_str (drop (length imsi - 8) imsi) of
        None \<Rightarrow> Inl (ValueError ''int'')
      | Some n \<Rightarrow> Inr ([0x02, 0x00] @ be_enc 4 (nat (n AND 0xFFFFFFFF))))"

definition establish_pdu_session ::
  "'m fsm_env \<Rightarrow> nat \<Rightarrow> string \<Rightarrow> int \<Rightarrow> int option \<Rightarrow> int \<Rightarrow> int \<Rightarrow> bytes option \<Rightarrow> int option \<Rightarrow> bool fsm" where
  "establish_pdu_session E u dnn sst sd psi type dstt_mac residence =
     with_ue u (\<lambda>x. if fu_state x \<notin> {REGISTERED, CONNECTED} then eret False
       else eseq (on_ue u (\<lambda>x. x\<lparr>fu_pti := next_pti (fu_pti x)\<rparr>))
         (let request = (\<lambda>mac res pmic.
            eseq (send_secured E u (fe_build E (UlSession psi (fu_pti x) dnn sst sd type mac res pmic)) 2) (eret True))
          in if type \<noteq> 5 then request dstt_mac residence None
             else ebind (elift (case dstt_mac of Some m \<Rightarrow> Inr m | None \<Rightarrow> imsi_mac (sim_imsi (fu_sim x)))) (\<lambda>mac.
                  let res = (case residence of Some r \<Rightarrow> r | None \<Rightarrow> 100000) in
                  ebind (elift (new_dstt mac)) (\<lambda>d.
                  eseq (on_ue u (\<lambda>x. x\<lparr>fu_dstts := dict_set psi d (fu_dstts x)\<rparr>))
                  (ebind (elift capability_report) (\<lambda>pmic. request (Some mac) (Some res) (Some pmic)))))))"

definition deregister :: "'m fsm_env \<Rightarrow> nat \<Rightarrow> bool \<Rightarrow> bool \<Rightarrow> int \<Rightarrow> bool fsm" where
  "deregister E u switch_off re_reg access =
     with_ue u (\<lambda>x. if fu_state x = DEREGISTERED then eret False
       else eseq (set_ue_state u DEREGISTERING)
         (let plain = fe_build E (DeregistrationRequest switch_off re_reg access) in
          eseq (if usable (nc_int (fu_ctx x)) \<noteq> None then send_secured E u plain 2
                else via_gnb u (\<lambda>g. send_initial_ue_message E g u plain))
               (eret True)))"

section \<open>Mobility management handlers\<close>

definition handle_auth_request :: "'m fsm_env \<Rightarrow> nat \<Rightarrow> nas_msg \<Rightarrow> unit fsm" where
  "handle_auth_request E u v =
     eseq (set_ue_state u AUTH_PENDING)
     (case nm_rand v of
        None \<Rightarrow> eraise KeyError
      | Some (rnd, autn) \<Rightarrow>
          eseq (case nm_ksi v of None \<Rightarrow> eskip
                | Some (k, t) \<Rightarrow> on_ctx u (\<lambda>c. c\<lparr>nc_ksi := Some (k AND 7, t AND 1)\<rparr>))
          (eseq (case nm_abba v of None \<Rightarrow> eskip
                 | Some a \<Rightarrow> if a = [] then eskip else on_ctx u (\<lambda>c. c\<lparr>nc_abba := a\<rparr>))
          (with_ue u (\<lambda>x.
             ebind (elift (ue_authenticate (fe_aes E) (fe_hmac E) (fu_sim x) rnd autn (get_snn (fu_mcc x) (fu_mnc x)))) (\<lambda>r.
             case r of
               NoAuth \<Rightarrow> send_nas E u (AuthenticationFailure 20 None)
             | SyncFailure auts \<Rightarrow> send_nas E u (AuthenticationFailure 21 (Some auts))
             | AuthOk rs kausf kseaf ck ik \<Rightarrow>
                 eseq (on_ctx u (\<lambda>c. c\<lparr>nc_kseaf := Some kseaf\<rparr>))
                 (ebind (elift (derive_kamf (fe_hmac E) kseaf (sim_imsi (fu_sim x)))) (\<lambda>kamf.
                  eseq (on_ctx u (\<lambda>c. c\<lparr>nc_kamf := Some kamf\<rparr>))
                       (send_nas E u (AuthenticationResponse rs)))))))))"

definition key_or_raise :: "bytes option \<Rightarrow> (bytes \<Rightarrow> 'a res) \<Rightarrow> 'a res" where
  \<comment> \<open>a derivation from a key that may still be \<open>None\<close>\<close>
  "key_or_raise k f = (case k of None \<Rightarrow> Inl TypeError | Some b \<Rightarrow> f b)"

definition handle_security_mode_command :: "'m fsm_env \<Rightarrow> nat \<Rightarrow> nas_msg \<Rightarrow> unit fsm" where
  "handle_security_mode_command E u v =
     eseq (set_ue_state u SEC_MODE_PENDING)
     (case nm_algo v of
        None \<Rightarrow> eraise KeyError
      | Some algo \<Rightarrow>
          ebind (elift (idx algo 0)) (\<lambda>b.
          let eea = drop_bit 4 (unat b) AND 0x0F; eia = unat b AND 0x0F in
          eseq (on_ctx u (\<lambda>c. c\<lparr>nc_eea := eea, nc_eia := eia\<rparr>))
          (with_ue u (\<lambda>x.
             ebind (elift (key_or_raise (nc_kamf (fu_ctx x)) (\<lambda>k. derive_nas_keys (fe_hmac E) k (int eea) (int eia))))
               (\<lambda>(kenc, kint).
               eseq (on_ctx u (\<lambda>c. c\<lparr>nc_enc := Some kenc, nc_int := Some kint, nc_ul := 0, nc_dl := 0\<rparr>))
               (eseq (send_secured E u (fe_build E (SecurityModeComplete (fu_reg_request x))) 4)
               (with_ue u (\<lambda>x.
                  ebind (elift (key_or_raise (nc_kamf (fu_ctx x))
                    (\<lambda>k. derive_kgnb (fe_hmac E) k ((int (nc_ul (fu_ctx x)) - 1) AND 0xFFFFFFFF)))) (\<lambda>kgnb.
                  on_ctx u (\<lambda>c. c\<lparr>nc_kgnb := Some kgnb\<rparr>))))))))))"

definition handle_registration_accept :: "'m fsm_env \<Rightarrow> nat \<Rightarrow> nas_msg \<Rightarrow> unit fsm" where
  "handle_registration_accept E u v =
     eseq (case nm_guti v of None \<Rightarrow> eskip | Some t \<Rightarrow> on_ue u (\<lambda>x. x\<lparr>fu_guti := Some t\<rparr>))
     (eseq (send_secured E u (fe_build E RegistrationComplete) 2) (set_ue_state u REGISTERED))"

definition handle_registration_reject :: "nat \<Rightarrow> nas_msg \<Rightarrow> unit fsm" where
  "handle_registration_reject u v =
     eseq (on_ue u (\<lambda>x. x\<lparr>fu_reject := Some (case nm_cause v of None \<Rightarrow> -1 | Some c \<Rightarrow> c, ''registration'')\<rparr>))
       (set_ue_state u DEREGISTERED)"

definition handle_auth_reject :: "nat \<Rightarrow> unit fsm" where
  "handle_auth_reject u =
     eseq (on_ue u (\<lambda>x. x\<lparr>fu_reject := Some (3, ''authentication'')\<rparr>)) (set_ue_state u DEREGISTERED)"

definition handle_deregistration_accept :: "nat \<Rightarrow> unit fsm" where
  "handle_deregistration_accept u = set_ue_state u DEREGISTERED"

definition handle_config_update :: "unit fsm" where
  "handle_config_update = eskip"

section \<open>Session management\<close>

definition send_modification_complete :: "'m fsm_env \<Rightarrow> nat \<Rightarrow> int \<Rightarrow> bytes option \<Rightarrow> unit fsm" where
  "send_modification_complete E u psi pmic =
     ebind (elift (py_bytes [0x2E, psi, 0x00, 0xCC])) (\<lambda>h.
     ebind (elift (case pmic of
         None \<Rightarrow> Inr h
       | Some p \<Rightarrow> if p = [] then Inr h
                 else if length p < 65536 then Inr (h @ [0x74] @ be_enc 2 (length p) @ p) else Inl OverflowError)) (\<lambda>gsm.
     send_secured E u (fe_build E (UlRaw psi gsm)) 2))"

definition dstt_terminate :: "nat \<Rightarrow> int \<Rightarrow> dstt \<Rightarrow> bytes \<Rightarrow> bytes option fsm" where
  "dstt_terminate u psi d pmic =
     (let (r, d') = handle_pmic pmic d in
      eseq (on_ue u (\<lambda>x. x\<lparr>fu_dstts := dict_set psi d' (fu_dstts x)\<rparr>))
        (eret (case r of Inl e \<Rightarrow> None | Inr reply \<Rightarrow> reply)))"

definition handle_dstt_pmic :: "nat \<Rightarrow> int \<Rightarrow> bytes option \<Rightarrow> bytes option fsm" where
  "handle_dstt_pmic u psi pmic =
     with_ue u (\<lambda>x. case dict_get (fu_dstts x) psi of
        None \<Rightarrow> eret None
      | Some d \<Rightarrow> (case pmic of
            None \<Rightarrow> eret None
          | Some p \<Rightarrow> if p = [] then eret None else dstt_terminate u psi d p))"

fun pmic_of_list :: "'m fsm_env \<Rightarrow> pyval list \<Rightarrow> bytes option" where
  \<comment> \<open>the first container that yields octets\<close>
  "pmic_of_list E [] = None"
| "pmic_of_list E (ie # ies) =
     (case as_list ie of
        Some (t # v # rest) \<Rightarrow>
          (if as_int t = Some 0x74 then
             (let val = (case rest of [] \<Rightarrow> v | w # _ \<Rightarrow> w);
                  pmic = (case val of
                     PyBytes b \<Rightarrow> Some b
                   | PyList (n # _) \<Rightarrow> (if as_int n \<noteq> None then fe_pmic E val else None)
                   | _ \<Rightarrow> None)
              in (case pmic of
                    None \<Rightarrow> pmic_of_list E ies
                  | Some p \<Rightarrow> if p = [] then pmic_of_list E ies else Some p))
           else pmic_of_list E ies)
      | _ \<Rightarrow> pmic_of_list E ies)"

definition handle_dstt_pmic_from_list :: "'m fsm_env \<Rightarrow> nat \<Rightarrow> int \<Rightarrow> pyval list \<Rightarrow> bytes option fsm" where
  "handle_dstt_pmic_from_list E u psi raw =
     with_ue u (\<lambda>x. case dict_get (fu_dstts x) psi of
        None \<Rightarrow> eret None
      | Some d \<Rightarrow> (case pmic_of_list E (tl raw) of None \<Rightarrow> eret None | Some p \<Rightarrow> dstt_terminate u psi d p))"

definition hex2 :: "byte \<Rightarrow> string" where
  "hex2 b = (let h = (\<lambda>n. if n < 10 then digit_char n else char_of (n + 87)) in [h (unat b div 16), h (unat b mod 16)])"

definition mac_str :: "dstt \<Rightarrow> string" where
  \<comment> \<open>\<open>DSTT.mac_str\<close>\<close>
  "mac_str d = (case map hex2 (ds_mac d) of [] \<Rightarrow> [] | p # ps \<Rightarrow> p @ concat (map (\<lambda>q. CHR ''-'' # q) ps))"

definition open_session :: "'m fsm_env \<Rightarrow> nat \<Rightarrow> int \<Rightarrow> string \<Rightarrow> (string, string) dict \<Rightarrow> qos_flow list \<Rightarrow> unit fsm" where
  \<comment> \<open>an accepted establishment, in both decoded forms\<close>
  "open_session E u psi ip pco flows =
     eseq (on_ue u (\<lambda>x. x\<lparr>fu_sessions := dict_set psi
         \<lparr>se_ip = Some ip, se_flows = flows, se_options = pco,
          se_ethernet = map_option mac_str (dict_get (fu_dstts x) psi), se_tun = None, se_teid = None\<rparr> (fu_sessions x)\<rparr>))
     (with_ue u (\<lambda>x. case fu_gnb x of None \<Rightarrow> eskip | Some g \<Rightarrow> on_pdu_session_accepted E g u psi (Some ip)))"

definition add_flows :: "nat \<Rightarrow> int \<Rightarrow> qos_flow list \<Rightarrow> unit fsm" where
  "add_flows u psi flows = update_session u psi (\<lambda>s. s\<lparr>se_flows := se_flows s @ flows\<rparr>)"

definition close_session :: "nat \<Rightarrow> int \<Rightarrow> unit fsm" where
  "close_session u psi = on_ue u (\<lambda>x. x\<lparr>fu_sessions := dict_del psi (fu_sessions x)\<rparr>)"

definition addr_text :: "bytes option \<Rightarrow> string" where
  "addr_text a = (case a of Some b \<Rightarrow> (if 5 \<le> length b then ip_text (slice 1 5 b) else ''unknown'') | None \<Rightarrow> ''unknown'')"

definition pco_of :: "pyval option \<Rightarrow> (string, string) dict" where
  "pco_of v = (case v of
     Some (PyBytes b) \<Rightarrow> (case parse_pco_bytes b of Inl e \<Rightarrow> [] | Inr d \<Rightarrow> d)
   | Some (PyList l) \<Rightarrow> parse_pco_list (PyList [PyInt 0x7B, PyList l])
   | _ \<Rightarrow> [])"

definition process_gsm :: "'m fsm_env \<Rightarrow> nat \<Rightarrow> gsm_msg \<Rightarrow> unit fsm" where
  "process_gsm E u m =
     (let psi = gm_psi m in
      if gm_type m \<in> {0xC1, 0xC2} then
        open_session E u psi (addr_text (gm_addr m)) (pco_of (gm_pco m)) (parse_qos_rules (gm_qos m))
      else if gm_type m = 0xCB then
        eseq (add_flows u psi (parse_qos_rules (gm_qos m)))
        (ebind (handle_dstt_pmic u psi (gm_pmic m)) (send_modification_complete E u psi))
      else if gm_type m = 0xC6 then close_session u psi
      else eskip)"

definition process_gsm_decoded ::
  "'m fsm_env \<Rightarrow> nat \<Rightarrow> int \<Rightarrow> int \<Rightarrow> string \<Rightarrow> (string, string) dict \<Rightarrow> pyval list \<Rightarrow> unit fsm" where
  "process_gsm_decoded E u type psi ip pco raw =
     (let flows = parse_qos_rules_from_list (PyList raw) in
      if type \<in> {0xC1, 0xC2} then open_session E u psi ip pco flows
      else if type = 0xCB then
        eseq (add_flows u psi flows)
        (ebind (handle_dstt_pmic_from_list E u psi raw) (send_modification_complete E u psi))
      else if type = 0xC6 then close_session u psi
      else eskip)"

fun ip_of_ies :: "pyval list \<Rightarrow> string \<Rightarrow> string" where
  \<comment> \<open>the address of the last usable address element\<close>
  "ip_of_ies [] ip = ip"
| "ip_of_ies (ie # ies) ip = ip_of_ies ies
     (case as_list ie of
        Some (t # l # v # zs) \<Rightarrow>
          (if as_int t = Some 41 then
             (case as_list v of
                Some (a # b # c # PyBytes p # ys) \<Rightarrow> if 4 \<le> length p then ip_text (take 4 p) else ip
              | _ \<Rightarrow> ip)
           else ip)
      | _ \<Rightarrow> ip)"

fun pco_of_ies :: "pyval list \<Rightarrow> (string, string) dict \<Rightarrow> (string, string) dict" where
  "pco_of_ies [] pco = pco"
| "pco_of_ies (ie # ies) pco = pco_of_ies ies
     (case as_list ie of
        Some (t # v # zs) \<Rightarrow> if as_int t = Some 0x7B then parse_pco_list ie else pco
      | _ \<Rightarrow> pco)"

definition handle_dl_nas_transport :: "'m fsm_env \<Rightarrow> nat \<Rightarrow> nas_msg \<Rightarrow> unit fsm" where
  \<comment> \<open>any exception is logged\<close>
  "handle_dl_nas_transport E u v = quietly
     (case nm_payload v of
        Some (RawPayload b) \<Rightarrow> (case fe_gsm E b of None \<Rightarrow> eskip | Some m \<Rightarrow> process_gsm E u m)
      | Some (ListPayload (first # rest)) \<Rightarrow>
          let raw = first # rest; hdr = (case as_list first of Some h \<Rightarrow> h | None \<Rightarrow> raw) in
          if length hdr < 4 then eskip
          else (case (as_int (hdr ! 3), as_int (hdr ! 1)) of
                  (Some type, Some psi) \<Rightarrow>
                    process_gsm_decoded E u type psi (ip_of_ies rest ''unknown'') (pco_of_ies rest []) raw
                | _ \<Rightarrow> eskip)
      | _ \<Rightarrow> eskip)"

section \<open>Entry point\<close>

definition dispatch_nas :: "'m fsm_env \<Rightarrow> nat \<Rightarrow> nas_msg \<Rightarrow> unit fsm" where
  "dispatch_nas E u v =
     (case nm_type v of
        None \<Rightarrow> eskip
      | Some t \<Rightarrow>
          if t = 86 then handle_auth_request E u v
          else if t = 93 then handle_security_mode_command E u v
          else if t = 66 then handle_registration_accept E u v
          else if t = 68 then handle_registration_reject u v
          else if t = 70 then handle_deregistration_accept u
          else if t = 88 then handle_auth_reject u
          else if t = 84 then handle_config_update
          else if t = 104 then handle_dl_nas_transport E u v
          else eskip)"

definition on_nas_pdu :: "'m fsm_env \<Rightarrow> nat \<Rightarrow> bytes \<Rightarrow> unit fsm" where
  "on_nas_pdu E u nas =
     (case fe_parse E nas of
        None \<Rightarrow> eskip
      | Some (Plain v) \<Rightarrow> dispatch_nas E u v
      | Some (Secured m) \<Rightarrow>
          with_ue u (\<lambda>x. let c = fu_ctx x;
              (inner, dl, mac_ok) = unwrap_nas_security (fe_lib E) m (nc_enc c) (nc_int c) (nc_eea c) (nc_eia c) (nc_dl c) 1 1
            in eseq (on_ctx u (\<lambda>c. c\<lparr>nc_dl := dl\<rparr>)) (dispatch_nas E u (fe_inner E inner))))"

end
