(* ===== verification/GnbFsm.thy ===== *)
theory GnbFsm
  imports UeFsm
begin

text \<open>
  The base station state machine (\<open>statemachine/gnb_fsm.py\<close>): connection life cycle, dispatch of received
  messages, session setup and modification, handover, paging and context release, with the subscribers
  of \<open>UeFsm\<close> reached through the store.  The receive thread, the handler thread and the worker of the
  tunnel manager are operations that may be interleaved in any order.
\<close>

section \<open>Decoded transfers\<close>

fun unwrap :: "pyval \<Rightarrow> pyval" where
  \<comment> \<open>\<open>while isinstance(v, tuple) and len(v) == 2: v = v[1]\<close>\<close>
  "unwrap (PyTuple [a, b]) = unwrap b"
| "unwrap v = v"

fun ip_of_int :: "pyval \<Rightarrow> string res" where
  \<comment> \<open>\<open>inet_ntoa(n.to_bytes(4, 'big'))\<close>\<close>
  "ip_of_int v = (case as_int v of
     None \<Rightarrow> Inl (Raised ''AttributeError'' ''to_bytes'')
   | Some n \<Rightarrow> if 0 \<le> n \<and> n < 2 ^ 32 then Inr (ip_text (be_enc 4 (nat n))) else Inl OverflowError)"

fun teid_of :: "pyval \<Rightarrow> int res" where
  "teid_of (PyBytes b) = rbind (unpack_I b) (\<lambda>n. Inr (int n))"
| "teid_of v = py_int v"

definition tunnel_of_ie :: "pyval \<Rightarrow> (string \<times> int) option res" where
  \<comment> \<open>one pass of the loop of \<open>_parse_transfer_ies\<close>\<close>
  "tunnel_of_ie ie =
     (case ie of
        PyDict d \<Rightarrow>
          (if (case dict_get d ''id'' of None \<Rightarrow> False | Some v \<Rightarrow> as_int v = Some 139) then
             (case dict_get d ''value'' of
                None \<Rightarrow> Inr None
              | Some v \<Rightarrow> (case unwrap v of
                    PyDict t \<Rightarrow> (case (dict_get t ''transportLayerAddress'', dict_get t ''gTP-TEID'') of
                        (Some a, Some b) \<Rightarrow>
                          if a = PyNone \<or> b = PyNone then Inr None
                          else rbind (ip_of_int (case a of PyTuple (x # zs) \<Rightarrow> x | _ \<Rightarrow> a)) (\<lambda>ip.
                               rbind (teid_of b) (\<lambda>teid. Inr (Some (ip, teid))))
                      | _ \<Rightarrow> Inr None)
                  | _ \<Rightarrow> Inr None))
           else Inr None)
      | _ \<Rightarrow> Inl (Raised ''AttributeError'' ''get''))"

fun parse_transfer_ies :: "pyval list \<Rightarrow> (string \<times> int) option res" where
  "parse_transfer_ies [] = Inr None"
| "parse_transfer_ies (ie # ies) =
     rbind (tunnel_of_ie ie) (\<lambda>r. case r of None \<Rightarrow> parse_transfer_ies ies | Some t \<Rightarrow> Inr (Some t))"

definition protocol_ies :: "(string \<times> pyval) list \<Rightarrow> (string \<times> int) option res" where
  "protocol_ies d = (case dict_get d ''protocolIEs'' of
     None \<Rightarrow> Inr None | Some v \<Rightarrow> rbind (py_iter v) parse_transfer_ies)"

definition extract_upf_tunnel :: "'m fsm_env \<Rightarrow> pyval \<Rightarrow> (string \<times> int) option res" where
  "extract_upf_tunnel E v =
     (case v of
        PyTuple [x, PyDict d] \<Rightarrow> protocol_ies d
      | PyDict d \<Rightarrow> protocol_ies d
      | PyBytes b \<Rightarrow> Inr (fe_upf E b)
      | _ \<Rightarrow> Inr None)"

section \<open>Finding the subscriber\<close>

definition find_ue :: "nat \<Rightarrow> ies \<Rightarrow> nat option fsm" where
  "find_ue g i =
     with_gnb g (\<lambda>b. case (case ie_ran i of None \<Rightarrow> None | Some r \<Rightarrow> dict_get (gn_ues b) r) of
        None \<Rightarrow> eret None
      | Some u \<Rightarrow>
          eseq (case ie_amf i of None \<Rightarrow> eskip | Some a \<Rightarrow> on_ue u (\<lambda>x. x\<lparr>fu_amf := Some a\<rparr>)) (eret (Some u)))"

definition forward_nas :: "'m fsm_env \<Rightarrow> nat option \<Rightarrow> bytes option \<Rightarrow> unit fsm" where
  \<comment> \<open>\<open>if ue and nas_pdu: ue.on_nas_pdu(nas_pdu)\<close>\<close>
  "forward_nas E ue nas = (case (ue, nas) of
     (Some u, Some n) \<Rightarrow> if n = [] then eskip else on_nas_pdu E u n | _ \<Rightarrow> eskip)"

definition handle_dl_nas :: "'m fsm_env \<Rightarrow> nat \<Rightarrow> ies \<Rightarrow> unit fsm" where
  "handle_dl_nas E g i = ebind (find_ue g i) (\<lambda>u. forward_nas E u (ie_nas i))"

definition handle_initial_context_setup :: "'m fsm_env \<Rightarrow> nat \<Rightarrow> ies \<Rightarrow> unit fsm" where
  "handle_initial_context_setup E g i =
     ebind (find_ue g i) (\<lambda>u.
     eseq (case (ie_amf i, ie_ran i) of
             (Some a, Some r) \<Rightarrow> emit E g (InitialContextSetupResponse a r) ''InitialContextSetupResponse'' 14 (Some r)
           | _ \<Rightarrow> eskip)
       (forward_nas E u (ie_nas i)))"

section \<open>Session setup\<close>

definition next_teid :: "nat \<Rightarrow> int fsm" where
  "next_teid g = eseq (on_gnb g (\<lambda>b. b\<lparr>gn_teid_counter := gn_teid_counter b + 1\<rparr>))
     (with_gnb g (\<lambda>b. eret (gn_teid_counter b)))"

definition store_tscai :: "'m fsm_env \<Rightarrow> nat \<Rightarrow> int \<Rightarrow> pyval option \<Rightarrow> unit fsm" where
  \<comment> \<open>octets only; an exception is logged\<close>
  "store_tscai E g psi transfer = (case transfer of
     Some (PyBytes b) \<Rightarrow> (case fe_tscai E b of
         Inl e \<Rightarrow> eskip
       | Inr t \<Rightarrow> if t = [] then eskip else on_gnb g (\<lambda>b. b\<lparr>gn_tscai := dict_set psi t (gn_tscai b)\<rparr>))
   | _ \<Rightarrow> eskip)"

definition psi_of :: "int option \<Rightarrow> int" where
  "psi_of p = (case p of None \<Rightarrow> 1 | Some n \<Rightarrow> n)"

definition setup_one :: "'m fsm_env \<Rightarrow> nat \<Rightarrow> ies \<Rightarrow> nat option \<Rightarrow> setup_item \<Rightarrow> unit fsm" where
  \<comment> \<open>one pass of the loop of \<open>_handle_pdu_session_setup\<close>\<close>
  "setup_one E g i ue item =
     (let psi = psi_of (it_psi item) in
      ebind (next_teid g) (\<lambda>local_teid.
      ebind (with_gnb g (\<lambda>b. case it_transfer item of
               None \<Rightarrow> eret None
             | Some t \<Rightarrow> if gn_gtpu b then elift (extract_upf_tunnel E t) else eret None)) (\<lambda>upf.
      eseq (store_tscai E g psi (it_transfer item))
      (eseq (on_gnb g (\<lambda>b. b\<lparr>gn_pending := dict_set psi
          \<lparr>pd_amf = ie_amf i, pd_ran = ie_ran i, pd_local = local_teid,
           pd_remote = map_option snd upf, pd_upf = map_option fst upf\<rparr> (gn_pending b)\<rparr>))
      (case ue of
         None \<Rightarrow> eskip
       | Some u \<Rightarrow> (case it_nas item of
             Some n \<Rightarrow> if n = [] then eskip else on_nas_pdu E u n
           | None \<Rightarrow> with_ue u (\<lambda>x. on_pdu_session_accepted E g u psi
               (case dict_get (fu_sessions x) psi of None \<Rightarrow> None | Some s \<Rightarrow> se_ip s))))))))"

definition handle_pdu_session_setup :: "'m fsm_env \<Rightarrow> nat \<Rightarrow> ies \<Rightarrow> unit fsm" where
  "handle_pdu_session_setup E g i =
     ebind (find_ue g i) (\<lambda>ue. efor (ie_setup i) (setup_one E g i ue))"

section \<open>Session modification\<close>

definition dict_update :: "('k, 'v) dict \<Rightarrow> ('k, 'v) dict \<Rightarrow> ('k, 'v) dict" where
  \<comment> \<open>\<open>d.update(new)\<close>\<close>
  "dict_update d new = foldl (\<lambda>d (k, v). dict_set k v d) d new"

definition tsc_feedback :: "'m fsm_env \<Rightarrow> nat \<Rightarrow> ies \<Rightarrow> int \<Rightarrow> int \<times> content \<Rightarrow> unit fsm" where
  "tsc_feedback E g i psi = (\<lambda>(qfi, dirs). quietly (emit E g
     (TscFeedback (ie_amf i) (ie_ran i) psi qfi
        (if dict_get dirs ''dl'' = None then None else Some 250)
        (if dict_get dirs ''ul'' = None then None else Some 250))
     ''PDUSessionResourceNotify(TSC-feedback)'' 30 (ie_ran i)))"

fun rest_nas :: "pyval list \<Rightarrow> bytes option" where
  \<comment> \<open>the first other value that looks like a NAS message\<close>
  "rest_nas [] = None"
| "rest_nas (v # vs) =
     (case v of
        PyBytes b \<Rightarrow> if 2 < length b then Some b else rest_nas vs
      | PyList l \<Rightarrow>
          (if l = [] then rest_nas vs
           else case rmap (\<lambda>x. case as_int x of None \<Rightarrow> Inl TypeError | Some n \<Rightarrow> py_byte n) l of
                  Inl e \<Rightarrow> rest_nas vs | Inr b \<Rightarrow> Some b)
      | _ \<Rightarrow> rest_nas vs)"

definition nas_of_modify :: "ies \<Rightarrow> modify_item \<Rightarrow> bytes option" where
  "nas_of_modify i item =
     (case mi_nas item of
        Some n \<Rightarrow> Some n
      | None \<Rightarrow> (case ie_nas i of Some n \<Rightarrow> Some n | None \<Rightarrow> rest_nas (mi_rest item)))"

definition refresh_tunnel_rules :: "nat \<Rightarrow> nat \<Rightarrow> int \<Rightarrow> unit fsm" where
  "refresh_tunnel_rules g u psi =
     with_gnb g (\<lambda>b. with_ue u (\<lambda>x. case dict_get (fu_sessions x) psi of
        None \<Rightarrow> eskip
      | Some s \<Rightarrow> (case se_teid s of
            None \<Rightarrow> eskip
          | Some t \<Rightarrow> if gn_gtpu b \<and> t \<noteq> 0 \<and> se_flows s \<noteq> [] then on_man (update_qos_rules t (se_flows s)) else eskip)))"

definition modify_one :: "'m fsm_env \<Rightarrow> nat \<Rightarrow> ies \<Rightarrow> nat option \<Rightarrow> modify_item \<Rightarrow> unit fsm" where
  "modify_one E g i ue item =
     (let psi = psi_of (mi_psi item) in
      ebind (elift (case mi_transfer item of
               None \<Rightarrow> Inr [] | Some v \<Rightarrow> if v = PyBytes [] then Inr [] else fe_tscai_modify E v)) (\<lambda>t.
      eseq (if t = [] then eskip
            else eseq (on_gnb g (\<lambda>b. b\<lparr>gn_tscai := dict_set psi
                   (dict_update (case dict_get (gn_tscai b) psi of None \<Rightarrow> [] | Some old \<Rightarrow> old) t) (gn_tscai b)\<rparr>))
                 (efor t (tsc_feedback E g i psi)))
      (eseq (emit E g (SessionModifyResponse (ie_amf i) (ie_ran i) psi) ''PDUSessionResourceModifyResponse'' 26 (ie_ran i))
      (case (ue, nas_of_modify i item) of
         (Some u, Some n) \<Rightarrow> if n = [] then eskip else eseq (on_nas_pdu E u n) (refresh_tunnel_rules g u psi)
       | _ \<Rightarrow> eskip))))"

definition handle_pdu_session_modify :: "'m fsm_env \<Rightarrow> nat \<Rightarrow> ies \<Rightarrow> unit fsm" where
  "handle_pdu_session_modify E g i =
     ebind (find_ue g i) (\<lambda>ue. efor (ie_modify i) (modify_one E g i ue))"

section \<open>Handover, target side\<close>

definition ho_item :: "'m fsm_env \<Rightarrow> nat \<Rightarrow> setup_item \<Rightarrow> (int \<times> int) fsm" where
  \<comment> \<open>one session of a HANDOVER REQUEST: its number and the endpoint reserved for it\<close>
  "ho_item E g item =
     (let psi = psi_of (it_psi item) in
      ebind (next_teid g) (\<lambda>teid.
      ebind (with_gnb g (\<lambda>b. case it_transfer item of
               None \<Rightarrow> eret None
             | Some t \<Rightarrow> if truthy t \<and> gn_gtpu b then elift (extract_upf_tunnel E t) else eret None)) (\<lambda>upf.
      eseq (case upf of
              Some (ip, remote) \<Rightarrow>
                if ip = [] \<or> remote = 0 then eskip
                else on_gnb g (\<lambda>b. b\<lparr>gn_pending := dict_set psi
                  \<lparr>pd_amf = None, pd_ran = None, pd_local = teid, pd_remote = Some remote, pd_upf = Some ip\<rparr> (gn_pending b)\<rparr>)
            | None \<Rightarrow> eskip)
        (eret (psi, teid)))))"

fun ho_items :: "'m fsm_env \<Rightarrow> nat \<Rightarrow> setup_item list \<Rightarrow> (int \<times> int) list fsm" where
  "ho_items E g [] = eret []"
| "ho_items E g (i # is) = ebind (ho_item E g i) (\<lambda>p. ebind (ho_items E g is) (\<lambda>ps. eret (p # ps)))"

definition own_ip :: "gnb \<Rightarrow> string" where
  "own_ip b = (case gn_ip b of None \<Rightarrow> ''127.0.0.1'' | Some i \<Rightarrow> if i = [] then ''127.0.0.1'' else i)"

definition next_ran :: "nat \<Rightarrow> int fsm" where
  "next_ran g = eseq (on_gnb g (\<lambda>b. b\<lparr>gn_ran_counter := gn_ran_counter b + 1\<rparr>))
     (with_gnb g (\<lambda>b. eret (gn_ran_counter b)))"

definition handle_handover_request :: "'m fsm_env \<Rightarrow> nat \<Rightarrow> ies \<Rightarrow> unit fsm" where
  "handle_handover_request E g i =
     ebind (next_ran g) (\<lambda>ran.
     ebind (ho_items E g (ie_handover i)) (\<lambda>ps0.
     ebind (if ps0 = [] then ebind (next_teid g) (\<lambda>t. eret [(1, t)]) else eret ps0) (\<lambda>ps.
     let teids = dict_update [] ps in
     with_gnb g (\<lambda>b. case gn_force_failure b of
        Some cause \<Rightarrow>
          if cause \<noteq> [] then
            eseq (emit E g (HandoverFailure (ie_amf i) cause) ''HandoverFailure'' 13 (Some ran))
                 (on_gnb g (\<lambda>b. b\<lparr>gn_ho_context := None\<rparr>))
          else eseq (on_gnb g (\<lambda>b. b\<lparr>gn_ho_context := Some \<lparr>hc_amf = ie_amf i, hc_ran = ran, hc_sessions = map fst ps, hc_teids = teids\<rparr>\<rparr>))
                 (emit E g (HandoverRequestAck (ie_amf i) ran (map fst ps) (own_ip b) teids) ''HandoverRequestAcknowledge'' 13 (Some ran))
      | None \<Rightarrow>
          eseq (on_gnb g (\<lambda>b. b\<lparr>gn_ho_context := Some \<lparr>hc_amf = ie_amf i, hc_ran = ran, hc_sessions = map fst ps, hc_teids = teids\<rparr>\<rparr>))
               (emit E g (HandoverRequestAck (ie_amf i) ran (map fst ps) (own_ip b) teids) ''HandoverRequestAcknowledge'' 13 (Some ran))))))"

definition session_teids :: "fsm_ue \<Rightarrow> int list" where
  \<comment> \<open>the endpoints of the sessions that have one\<close>
  "session_teids x = concat (map (\<lambda>(psi, s). case se_teid s of Some t \<Rightarrow> if t = 0 then [] else [t] | None \<Rightarrow> []) (fu_sessions x))"

definition destroy_session_tunnels :: "nat \<Rightarrow> nat \<Rightarrow> unit fsm" where
  "destroy_session_tunnels g u = with_gnb g (\<lambda>b. if \<not> gn_gtpu b then eskip
     else with_ue u (\<lambda>x. on_man (fold destroy_tunnel (session_teids x))))"

definition move_session :: "'m fsm_env \<Rightarrow> nat \<Rightarrow> nat \<Rightarrow> int \<Rightarrow> unit fsm" where
  \<comment> \<open>the new tunnel of one session on the target\<close>
  "move_session E g u psi =
     with_gnb g (\<lambda>b. ewith w_man (\<lambda>m. with_ue u (\<lambda>x. case dict_get (gn_pending b) psi of
        None \<Rightarrow> eskip
      | Some p \<Rightarrow>
          eseq (on_gnb g (\<lambda>b. b\<lparr>gn_pending := dict_del psi (gn_pending b)\<rparr>))
          (if \<not> (gn_gtpu b \<and> gm_available m) then eskip
           else let s = dict_get (fu_sessions x) psi; (r1, r2) = fe_tun E (pd_local p);
                    (name, m') = create_tunnel r1 r2 (sim_imsi (fu_sim x))
                      (case s of None \<Rightarrow> ''unknown'' | Some s \<Rightarrow> (case se_ip s of None \<Rightarrow> ''None'' | Some i \<Rightarrow> i))
                      (pd_local p) (case pd_remote p of None \<Rightarrow> 0 | Some r \<Rightarrow> r) (case pd_upf p of None \<Rightarrow> [] | Some a \<Rightarrow> a)
                      (case s of None \<Rightarrow> [] | Some s \<Rightarrow> se_flows s) m
             in eseq (on_man (\<lambda>_. m'))
                (case name of
                   None \<Rightarrow> eskip
                 | Some tun \<Rightarrow> if s = None then eraise KeyError
                     else update_session u psi (\<lambda>s. s\<lparr>se_tun := Some tun, se_teid := Some (pd_local p)\<rparr>))))))"

definition complete_handover :: "'m fsm_env \<Rightarrow> nat \<Rightarrow> nat \<Rightarrow> nat \<Rightarrow> bool fsm" where
  \<comment> \<open>called on the target \<open>g\<close> with the subscriber and the source\<close>
  "complete_handover E g u src =
     with_gnb g (\<lambda>b. case gn_ho_context b of
        None \<Rightarrow> eret False
      | Some hc \<Rightarrow>
          eseq (detach_ue src u)
          (eseq (on_ue u (\<lambda>x. x\<lparr>fu_ran := Some (hc_ran hc), fu_gnb := Some g\<rparr>))
          (eseq (on_gnb g (\<lambda>b. b\<lparr>gn_ues := dict_set (hc_ran hc) u (gn_ues b)\<rparr>))
          (eseq (destroy_session_tunnels src u)
          (eseq (efor (hc_sessions hc) (move_session E g u))
          (eseq (emit E g (HandoverNotify (hc_amf hc) (hc_ran hc) (gn_cell b)) ''HandoverNotify'' 11 (Some (hc_ran hc)))
          (eseq (on_gnb g (\<lambda>b. b\<lparr>gn_ho_context := None\<rparr>)) (eret True))))))))"

definition handle_dl_ran_status_transfer :: "nat \<Rightarrow> ies \<Rightarrow> unit fsm" where
  "handle_dl_ran_status_transfer g i = on_gnb g (\<lambda>b. b\<lparr>gn_dl_status := ie_container i\<rparr>)"

section \<open>Handover, source side\<close>

definition set_event :: "(gnb \<Rightarrow> bool option) \<Rightarrow> (bool option \<Rightarrow> gnb \<Rightarrow> gnb) \<Rightarrow> nat \<Rightarrow> unit fsm" where
  \<comment> \<open>\<open>event.set()\<close>, which raises where there is no event yet\<close>
  "set_event get put g = with_gnb g (\<lambda>b. if get b = None then eraise NoneType else on_gnb g (put (Some True)))"

definition set_event_if :: "(gnb \<Rightarrow> bool option) \<Rightarrow> (bool option \<Rightarrow> gnb \<Rightarrow> gnb) \<Rightarrow> nat \<Rightarrow> unit fsm" where
  "set_event_if get put g = with_gnb g (\<lambda>b. if get b = None then eskip else on_gnb g (put (Some True)))"

definition put_command :: "bool option \<Rightarrow> gnb \<Rightarrow> gnb" where "put_command e b = b\<lparr>gn_ho_command := e\<rparr>"
definition put_cancel :: "bool option \<Rightarrow> gnb \<Rightarrow> gnb" where "put_cancel e b = b\<lparr>gn_ho_cancel := e\<rparr>"
definition put_switch :: "bool option \<Rightarrow> gnb \<Rightarrow> gnb" where "put_switch e b = b\<lparr>gn_path_switch := e\<rparr>"
definition put_paging :: "bool option \<Rightarrow> gnb \<Rightarrow> gnb" where "put_paging e b = b\<lparr>gn_paging := e\<rparr>"

definition handle_handover_command :: "nat \<Rightarrow> unit fsm" where
  "handle_handover_command = set_event gn_ho_command put_command"

definition handle_path_switch_ack :: "nat \<Rightarrow> unit fsm" where
  "handle_path_switch_ack = set_event gn_path_switch put_switch"

definition handle_path_switch_failure :: "nat \<Rightarrow> unit fsm" where
  "handle_path_switch_failure g = eseq (on_gnb g (\<lambda>b. b\<lparr>gn_path_failed := True\<rparr>)) (set_event_if gn_path_switch put_switch g)"

definition cause_or :: "string \<Rightarrow> string option \<Rightarrow> string" where
  "cause_or d c = (case c of None \<Rightarrow> d | Some s \<Rightarrow> if s = [] then d else s)"

definition handle_handover_preparation_failure :: "nat \<Rightarrow> ies \<Rightarrow> unit fsm" where
  "handle_handover_preparation_failure g i =
     eseq (on_gnb g (\<lambda>b. b\<lparr>gn_ho_failure := Some (cause_or ''unspecified'' (ie_cause i))\<rparr>)) (set_event_if gn_ho_command put_command g)"

definition handle_handover_failure :: "nat \<Rightarrow> ies \<Rightarrow> unit fsm" where
  "handle_handover_failure g i =
     eseq (on_gnb g (\<lambda>b. b\<lparr>gn_ho_failure := Some (cause_or ''ho-target-not-allowed'' (ie_cause i))\<rparr>)) (set_event_if gn_ho_command put_command g)"

definition handle_handover_cancel_ack :: "nat \<Rightarrow> unit fsm" where
  "handle_handover_cancel_ack = set_event_if gn_ho_cancel put_cancel"

definition movable_sessions :: "fsm_ue \<Rightarrow> int list" where
  \<comment> \<open>sessions with an address\<close>
  "movable_sessions x = map fst (filter (\<lambda>(psi, s). se_ip s \<notin> {None, Some [], Some ''unknown''}) (fu_sessions x))"

definition initiate_handover :: "'m fsm_env \<Rightarrow> nat \<Rightarrow> nat \<Rightarrow> nat \<Rightarrow> bool fsm" where
  "initiate_handover E g u target =
     with_ue u (\<lambda>x. with_gnb g (\<lambda>b. with_gnb target (\<lambda>t. case fu_amf x of
        None \<Rightarrow> eret False
      | Some a \<Rightarrow>
          if movable_sessions x = [] then eret False
          else eseq (on_gnb g (\<lambda>b. b\<lparr>gn_ho_command := Some False, gn_ho_failure := None\<rparr>))
            (eseq (emit E g (HandoverRequired a (fu_ran x) (ce_id (gn_cell b)) (ce_id (gn_cell t)) (gn_cell b) (movable_sessions x))
                ''HandoverRequired'' 12 (fu_ran x)) (eret True)))))"

definition with_ids :: "nat \<Rightarrow> (int \<Rightarrow> int \<Rightarrow> unit fsm) \<Rightarrow> bool fsm" where
  \<comment> \<open>only for a subscriber that has both NGAP ids\<close>
  "with_ids u f = with_ue u (\<lambda>x. case (fu_amf x, fu_ran x) of
     (Some a, Some r) \<Rightarrow> eseq (f a r) (eret True) | _ \<Rightarrow> eret False)"

definition send_uplink_ran_status_transfer :: "'m fsm_env \<Rightarrow> nat \<Rightarrow> nat \<Rightarrow> int \<Rightarrow> int \<Rightarrow> int \<Rightarrow> bool fsm" where
  "send_uplink_ran_status_transfer E g u drb ul dl =
     with_ids u (\<lambda>a r. emit E g (UplinkRanStatusTransfer a r drb ul dl) ''UplinkRANStatusTransfer'' 49 (Some r))"

definition cancel_handover :: "'m fsm_env \<Rightarrow> nat \<Rightarrow> nat \<Rightarrow> string \<Rightarrow> bool fsm" where
  \<comment> \<open>up to waiting for the acknowledgement, which the event then tells\<close>
  "cancel_handover E g u cause =
     with_ids u (\<lambda>a r. eseq (on_gnb g (put_cancel (Some False)))
       (emit E g (HandoverCancel a r cause) ''HandoverCancel'' 10 (Some r)))"

definition end_marker :: "'m fsm_env \<Rightarrow> int \<Rightarrow> tunnel \<Rightarrow> unit fsm" where
  "end_marker E upf_teid t =
     ebind (elift (packs [(1, 0x30), (1, 0xFE), (2, 0), (4, upf_teid AND 0xFFFFFFFF)])) (\<lambda>pkt.
     eupd (\<lambda>w. w\<lparr>w_udp := w_udp w @ [(pkt, tn_upf t)]\<rparr>))"

definition send_end_markers :: "'m fsm_env \<Rightarrow> nat \<Rightarrow> nat \<Rightarrow> unit fsm" where
  \<comment> \<open>one marker for each session whose tunnel the manager knows\<close>
  "send_end_markers E g u =
     with_gnb g (\<lambda>b. if \<not> gn_gtpu b then eskip
       else with_ue u (\<lambda>x. ewith w_man (\<lambda>m. efor (session_teids x) (\<lambda>teid.
         case dict_get (gm_tunnels m) teid of
           None \<Rightarrow> eskip
         | Some t \<Rightarrow> if tn_upf t = [] \<or> tn_remote t = 0 then eskip else end_marker E (tn_remote t) t))))"

section \<open>Release and other requests\<close>

definition request_ue_context_release :: "'m fsm_env \<Rightarrow> nat \<Rightarrow> nat \<Rightarrow> string \<Rightarrow> string \<Rightarrow> bool fsm" where
  "request_ue_context_release E g u grp value =
     with_ue u (\<lambda>x. case fu_amf x of
        None \<Rightarrow> eret False
      | Some a \<Rightarrow> eseq (emit E g (UeContextReleaseRequest a (fu_ran x) grp value) ''UEContextReleaseRequest'' 42 (fu_ran x)) (eret True))"

definition send_error_indication :: "'m fsm_env \<Rightarrow> nat \<Rightarrow> nat option \<Rightarrow> string \<Rightarrow> string \<Rightarrow> unit fsm" where
  "send_error_indication E g ue grp value =
     (case ue of
        None \<Rightarrow> emit E g (ErrorIndication None None grp value) ''ErrorIndication'' 9 None
      | Some u \<Rightarrow> with_ue u (\<lambda>x. emit E g (ErrorIndication (fu_amf x) (fu_ran x) grp value) ''ErrorIndication'' 9 (fu_ran x)))"

definition report_rrc_inactive :: "'m fsm_env \<Rightarrow> nat \<Rightarrow> nat \<Rightarrow> string \<Rightarrow> unit fsm" where
  "report_rrc_inactive E g u rrc =
     with_ue u (\<lambda>x. case fu_amf x of
        None \<Rightarrow> eskip
      | Some a \<Rightarrow> with_gnb g (\<lambda>b. emit E g (RrcInactiveTransitionReport a (fu_ran x) rrc (gn_cell b))
          ''RRCInactiveTransitionReport'' 37 (fu_ran x)))"

definition handle_paging :: "nat \<Rightarrow> ies \<Rightarrow> unit fsm" where
  "handle_paging g i =
     eseq (set_event_if gn_paging put_paging g) (on_gnb g (\<lambda>b. b\<lparr>gn_last_paging := Some (ie_paging i, ie_tais i)\<rparr>))"

definition or_int :: "int option \<Rightarrow> int option \<Rightarrow> int option" where
  \<comment> \<open>\<open>a or b\<close>, where 0 counts as missing\<close>
  "or_int a b = (if a = None \<or> a = Some 0 then b else a)"

definition release_ids :: "ies \<Rightarrow> int option \<times> int option" where
  "release_ids i = (case ie_id_pair i of
     None \<Rightarrow> (ie_amf i, ie_ran i) | Some (a, r) \<Rightarrow> (or_int a (ie_amf i), or_int r (ie_ran i)))"

definition release_target :: "world \<Rightarrow> nat \<Rightarrow> int option \<Rightarrow> int option \<Rightarrow> nat option \<times> int option" where
  \<comment> \<open>the subscriber of the association, by RAN id or else by AMF id\<close>
  "release_target w g a r =
     (let ues = gn_ues (w_gnb w g) in
      case (case r of None \<Rightarrow> None | Some i \<Rightarrow> dict_get ues i) of
        Some u \<Rightarrow> (Some u, r)
      | None \<Rightarrow>
          if a = None \<or> a = Some 0 then (None, r)
          else case find (\<lambda>u. fu_amf (w_ue w u) = a) (map snd ues) of
            None \<Rightarrow> (None, r) | Some u \<Rightarrow> (Some u, fu_ran (w_ue w u)))"

definition handle_ue_context_release :: "'m fsm_env \<Rightarrow> nat \<Rightarrow> ies \<Rightarrow> unit fsm" where
  "handle_ue_context_release E g i =
     (let (a, r0) = release_ids i in
      ewith (\<lambda>w. release_target w g a r0) (\<lambda>(ue, r).
      eseq (case (a, r) of
              (Some a, Some r) \<Rightarrow> emit E g (UeContextReleaseComplete a r) ''UEContextReleaseComplete'' 41 (Some r)
            | _ \<Rightarrow> eskip)
      (case ue of
         None \<Rightarrow> eskip
       | Some u \<Rightarrow> with_ue u (\<lambda>x.
           if fu_ran x \<noteq> None \<and> fu_ran x \<noteq> r then drop_ran g r
           else eseq (destroy_session_tunnels g u)
             (eseq (set_ue_state u DEREGISTERED)
             (eseq (drop_ran g r) (on_ue u (\<lambda>x. x\<lparr>fu_ran := None, fu_amf := None\<rparr>))))))))"

section \<open>Receiving\<close>

definition proc_names :: "((int \<times> string) \<times> string) list" where
  "proc_names =
     [((21, ''successfulOutcome''), ''NGSetupResponse''), ((21, ''unsuccessfulOutcome''), ''NGSetupFailure''),
      ((21, ''initiatingMessage''), ''NGSetupRequest''), ((12, ''initiatingMessage''), ''HandoverRequired''),
      ((12, ''successfulOutcome''), ''HandoverCommand''), ((12, ''unsuccessfulOutcome''), ''HandoverPreparationFailure''),
      ((13, ''initiatingMessage''), ''HandoverRequest''), ((13, ''successfulOutcome''), ''HandoverRequestAcknowledge''),
      ((13, ''unsuccessfulOutcome''), ''HandoverFailure''), ((11, ''initiatingMessage''), ''HandoverNotify''),
      ((10, ''initiatingMessage''), ''HandoverCancel''), ((10, ''successfulOutcome''), ''HandoverCancelAcknowledge''),
      ((7, ''initiatingMessage''), ''DownlinkRANStatusTransfer''), ((49, ''initiatingMessage''), ''UplinkRANStatusTransfer''),
      ((24, ''initiatingMessage''), ''Paging''), ((25, ''initiatingMessage''), ''PathSwitchRequest''),
      ((25, ''successfulOutcome''), ''PathSwitchRequestAcknowledge''), ((25, ''unsuccessfulOutcome''), ''PathSwitchRequestFailure''),
      ((4, ''initiatingMessage''), ''DownlinkNASTransport''), ((14, ''initiatingMessage''), ''InitialContextSetupRequest''),
      ((15, ''initiatingMessage''), ''InitialUEMessage''), ((29, ''initiatingMessage''), ''PDUSessionResourceSetupRequest''),
      ((26, ''initiatingMessage''), ''PDUSessionModifyRequest''), ((41, ''initiatingMessage''), ''UEContextReleaseCommand''),
      ((46, ''initiatingMessage''), ''UplinkNASTransport'')]"

definition proc_name :: "int \<Rightarrow> string \<Rightarrow> string" where
  "proc_name code category = (case map_of proc_names (code, category) of
     Some n \<Rightarrow> n | None \<Rightarrow> ''proc_'' @ dec_str (nat code))"

definition QUEUE_SIZE :: nat where "QUEUE_SIZE = 4096"

definition enqueue_setup :: "nat \<Rightarrow> ies \<Rightarrow> unit fsm" where
  \<comment> \<open>hand over to the handler thread; a full queue drops the request\<close>
  "enqueue_setup g i = on_gnb g (\<lambda>b. if QUEUE_SIZE \<le> length (gn_queue b) then b else b\<lparr>gn_queue := gn_queue b @ [Some i]\<rparr>)"

definition dispatch_ngap :: "'m fsm_env \<Rightarrow> nat \<Rightarrow> string \<Rightarrow> int \<Rightarrow> ies \<Rightarrow> unit fsm" where
  "dispatch_ngap E g category code i =
     (if category = ''successfulOutcome'' then
        (if code = 21 then eseq (on_gnb g (\<lambda>b. b\<lparr>gn_setup_ies := Some i\<rparr>)) (set_gnb_state g READY)
         else if code = 12 then handle_handover_command g
         else if code = 25 then handle_path_switch_ack g
         else if code = 10 then handle_handover_cancel_ack g
         else eskip)
      else if category = ''unsuccessfulOutcome'' then
        (if code = 21 then eseq (on_gnb g (\<lambda>b. b\<lparr>gn_setup_failure := Some i\<rparr>)) (set_gnb_state g GNB_ERROR)
         else if code = 12 then handle_handover_preparation_failure g i
         else if code = 13 then handle_handover_failure g i
         else if code = 25 then handle_path_switch_failure g
         else eskip)
      else if category = ''initiatingMessage'' then
        (if code = 4 then handle_dl_nas E g i
         else if code = 14 then handle_initial_context_setup E g i
         else if code = 7 then handle_dl_ran_status_transfer g i
         else if code = 29 then enqueue_setup g i
         else if code = 41 then handle_ue_context_release E g i
         else if code = 26 then handle_pdu_session_modify E g i
         else if code = 13 then handle_handover_request E g i
         else if code = 24 then handle_paging g i
         else eskip)
      else eskip)"

fun is_connection_error :: "py_error \<Rightarrow> bool" where
  "is_connection_error (Raised c m) = (c \<in> {''ConnectionError'', ''ConnectionResetError'', ''BrokenPipeError''})"
| "is_connection_error e = False"

definition on_ngap_recv :: "'m fsm_env \<Rightarrow> nat \<Rightarrow> bytes \<Rightarrow> unit fsm" where
  "on_ngap_recv E g data = ecatch
     (ebind (elift (fe_decode E data)) (\<lambda>(category, code, i).
        eseq (trace_rx g data category code (proc_name code category)) (dispatch_ngap E g category code i)))
     (\<lambda>e. if is_connection_error e then on_sctp_send_failed g else eskip)"

definition set_worker :: "nat \<Rightarrow> worker \<Rightarrow> unit fsm" where
  "set_worker g k = on_gnb g (\<lambda>b. b\<lparr>gn_worker := k\<rparr>)"

definition handler_step :: "'m fsm_env \<Rightarrow> nat \<Rightarrow> unit fsm" where
  \<comment> \<open>one move of the thread in \<open>_handler_loop\<close>: the check, or one \<open>get\<close> with what follows it\<close>
  "handler_step E g = with_gnb g (\<lambda>b. case gn_worker b of
     NoWorker \<Rightarrow> eskip
   | AtTop \<Rightarrow> set_worker g (if gn_stop b then NoWorker else Waiting)
   | Waiting \<Rightarrow> (case gn_queue b of
         [] \<Rightarrow> set_worker g AtTop
       | None # rest \<Rightarrow> eseq (on_gnb g (\<lambda>b. b\<lparr>gn_queue := rest\<rparr>)) (set_worker g NoWorker)
       | Some i # rest \<Rightarrow> eseq (on_gnb g (\<lambda>b. b\<lparr>gn_queue := rest\<rparr>))
           (eseq (quietly (handle_pdu_session_setup E g i)) (set_worker g AtTop))))"

section \<open>Connection life cycle\<close>

definition connect_gnb :: "'m fsm_env \<Rightarrow> nat \<Rightarrow> (string \<times> int) option \<Rightarrow> bool fsm" where
  \<comment> \<open>the argument is the local address and the number of streams, or the failure to connect\<close>
  "connect_gnb E g r =
     with_gnb g (\<lambda>b. if gn_state b \<noteq> IDLE then eret False
       else case r of
          None \<Rightarrow> eseq (set_gnb_state g GNB_ERROR) (eret False)
        | Some (ip, streams) \<Rightarrow>
            eseq (on_gnb g (\<lambda>b. b\<lparr>gn_ip := Some ip, gn_streams := max streams 1, gn_link := None, gn_stop := False, gn_worker := AtTop\<rparr>))
            (eseq (set_gnb_state g NG_SETUP_SENT)
            (eseq (trace_tx E g (NgSetupRequest (gn_cell b)) ''NGSetupRequest'' 21)
            (eseq (sctp_send g (NgSetupRequest (gn_cell b)) 0) (eret True)))))"

definition cancel_pending_setups :: "unit fsm" where
  "cancel_pending_setups = eupd (\<lambda>w. w\<lparr>w_jobs := []\<rparr>)"

definition disconnect_gnb :: "nat \<Rightarrow> unit fsm" where
  "disconnect_gnb g =
     eseq (with_gnb g (\<lambda>b. if gn_state b \<in> {IDLE, GNB_ERROR} then eskip else set_gnb_state g IDLE))
     (eseq (on_gnb g (\<lambda>b. b\<lparr>gn_stop := True\<rparr>))
     (eseq (with_gnb g (\<lambda>b. if \<not> gn_gtpu b then eskip
        else eseq cancel_pending_setups (efor (map snd (gn_ues b)) (destroy_session_tunnels g))))
     (eseq (on_gnb g (\<lambda>b. if QUEUE_SIZE \<le> length (gn_queue b) then b else b\<lparr>gn_queue := gn_queue b @ [None]\<rparr>))
     (on_gnb g (\<lambda>b. b\<lparr>gn_link := Some ''SCTP not connected''\<rparr>)))))"

definition fresh_gnb :: "cell \<Rightarrow> bool \<Rightarrow> gnb" where
  "fresh_gnb c gtpu = \<lparr>gn_cell = c, gn_ip = None, gn_state = IDLE, gn_stop = False, gn_link = Some ''SCTP not connected'',
     gn_streams = 1, gn_ues = [], gn_ran_counter = 0, gn_teid_counter = 0x10000, gn_gtpu = gtpu, gn_pending = [],
     gn_tscai = [], gn_ho_context = None, gn_ho_command = None, gn_ho_failure = None, gn_ho_cancel = None,
     gn_path_switch = None, gn_path_failed = False, gn_dl_status = None, gn_force_failure = None, gn_paging = None,
     gn_last_paging = None, gn_setup_ies = None, gn_setup_failure = None, gn_tracing = True, gn_trace = [],
     gn_sent = [], gn_worker = NoWorker, gn_queue = []\<rparr>"

record gnb_view =
  gv_name :: string
  gv_id :: int
  gv_state :: gnb_state
  gv_ue_count :: nat
  gv_imsis :: "string list"

definition gnb_to_dict :: "world \<Rightarrow> nat \<Rightarrow> gnb_view" where
  "gnb_to_dict w g = (let b = w_gnb w g in
     \<lparr>gv_name = ce_name (gn_cell b), gv_id = ce_id (gn_cell b), gv_state = gn_state b,
      gv_ue_count = length (gn_ues b), gv_imsis = map (\<lambda>(r, u). sim_imsi (fu_sim (w_ue w u))) (gn_ues b)\<rparr>)"

end
