(* ===== verification/FsmFrame.thy ===== *)
theory FsmFrame
  imports GnbFsm
begin

text \<open>
  What every operation of the emulated base stations and subscribers respects: the locale
  \<open>store_frame\<close> relates the base stations, the subscribers and the tunnel manager before and after, names
  the few updates its relations must allow, and derives that every handler moves within them.  Its
  interpretations give the invariant of the store and the use of the streams.
\<close>

section \<open>The interface\<close>

definition related ::
  "(gnb \<Rightarrow> gnb \<Rightarrow> bool) \<Rightarrow> (fsm_ue \<Rightarrow> fsm_ue \<Rightarrow> bool) \<Rightarrow> (manager \<Rightarrow> manager \<Rightarrow> bool) \<Rightarrow> world \<Rightarrow> world \<Rightarrow> bool" where
  "related G U M w w' \<longleftrightarrow>
     (\<forall>g. G (w_gnb w g) (w_gnb w' g)) \<and> (\<forall>u. U (w_ue w u) (w_ue w' u)) \<and> M (w_man w) (w_man w')"

text \<open>The RAN id a message is about; a HANDOVER FAILURE carries none but is sent for one.\<close>

fun msg_ran :: "ngap_out \<Rightarrow> int option" where
  "msg_ran (NgSetupRequest c) = None"
| "msg_ran (InitialContextSetupResponse a r) = Some r"
| "msg_ran (SessionSetupResponse a r p l i) = r"
| "msg_ran (SessionSetupFailed a r p c) = r"
| "msg_ran (SessionModifyResponse a r p) = r"
| "msg_ran (TscFeedback a r p q d u) = r"
| "msg_ran (HandoverFailure a c) = None"
| "msg_ran (HandoverRequestAck a r s i t) = Some r"
| "msg_ran (HandoverRequired a r g t c s) = r"
| "msg_ran (HandoverNotify a r c) = Some r"
| "msg_ran (UplinkRanStatusTransfer a r d u l) = Some r"
| "msg_ran (HandoverCancel a r c) = Some r"
| "msg_ran (UeContextReleaseRequest a r g v) = r"
| "msg_ran (ErrorIndication a r g v) = r"
| "msg_ran (RrcInactiveTransitionReport a r s c) = r"
| "msg_ran (InitialUeMessage r n c) = r"
| "msg_ran (UplinkNasTransport a r n c) = r"
| "msg_ran (UeContextReleaseComplete a r) = Some r"

fun fits :: "ngap_out \<Rightarrow> int option \<Rightarrow> bool" where
  "fits (HandoverFailure a c) r = True"
| "fits m r = (msg_ran m = r)"

definition clamp_stream :: "int option \<Rightarrow> gnb \<Rightarrow> int" where
  \<comment> \<open>the stream a message for a RAN id ends up on\<close>
  "clamp_stream r b = (if stream_for_ue r b \<ge> gn_streams b then 0 else stream_for_ue r b)"

text \<open>The fields of a base station that the relations may look at.\<close>

definition gnb_core :: "gnb \<Rightarrow> _" where
  "gnb_core b = (gn_sent b, gn_streams b, gn_trace b, gn_ues b, gn_ran_counter b, gn_queue b, gn_ho_context b)"

locale store_frame =
  fixes G :: "gnb \<Rightarrow> gnb \<Rightarrow> bool" and U :: "fsm_ue \<Rightarrow> fsm_ue \<Rightarrow> bool" and M :: "manager \<Rightarrow> manager \<Rightarrow> bool"
  assumes G_trans: "G a b \<Longrightarrow> G b c \<Longrightarrow> G a c"
    and G_core: "gnb_core a = gnb_core b \<Longrightarrow> G a b"
    and G_counter: "G a b \<Longrightarrow> gn_ran_counter a \<le> gn_ran_counter b"
    and G_trace: "G b (b\<lparr>gn_trace := ring_append 200 150 e (gn_trace b)\<rparr>)"
    and G_clear: "G b (b\<lparr>gn_trace := []\<rparr>)"
    and G_sent: "fits m r \<Longrightarrow> G b (b\<lparr>gn_sent := gn_sent b @ [(m, clamp_stream r b)]\<rparr>)"
    and G_count: "G b (b\<lparr>gn_ran_counter := gn_ran_counter b + 1\<rparr>)"
    and G_attach: "G b (b\<lparr>gn_ran_counter := gn_ran_counter b + 1,
                         gn_ues := dict_set (gn_ran_counter b + 1) u (gn_ues b)\<rparr>)"
    and G_drop: "G b (b\<lparr>gn_ues := dict_del k (gn_ues b)\<rparr>)"
    and G_reserve: "hc_ran hc \<le> gn_ran_counter b \<Longrightarrow> G b (b\<lparr>gn_ho_context := Some hc\<rparr>)"
    and G_forget: "G b (b\<lparr>gn_ho_context := None\<rparr>)"
    and G_handover: "gn_ho_context b = Some hc \<Longrightarrow> G b (b\<lparr>gn_ues := dict_set (hc_ran hc) u (gn_ues b)\<rparr>)"
    and G_enqueue: "length (gn_queue b) < QUEUE_SIZE \<Longrightarrow> G b (b\<lparr>gn_queue := gn_queue b @ [j]\<rparr>)"
    and G_dequeue: "gn_queue b = j # js \<Longrightarrow> G b (b\<lparr>gn_queue := js\<rparr>)"
    and U_trans: "U x y \<Longrightarrow> U y z \<Longrightarrow> U x z"
    and U_core: "fu_pti x = fu_pti y \<Longrightarrow> fu_sessions x = fu_sessions y \<Longrightarrow> U x y"
    and U_pti: "U x (x\<lparr>fu_pti := next_pti (fu_pti x)\<rparr>)"
    and U_session: "U x (x\<lparr>fu_sessions := dict_set p s (fu_sessions x)\<rparr>)"
    and U_close: "U x (x\<lparr>fu_sessions := dict_del p (fu_sessions x)\<rparr>)"
    and M_refl: "M t t"
    and M_trans: "M t t1 \<Longrightarrow> M t1 t2 \<Longrightarrow> M t t2"
    and M_create: "M t (snd (create_tunnel r1 r2 imsi ip l rm up q t))"
    and M_destroy: "M t (destroy_tunnel l t)"
    and M_update: "M t (update_qos_rules l q t)"


sublocale store_frame \<subseteq> frame "related G U M"
proof unfold_locales
  show "related G U M w w" for w
    by (auto simp: related_def M_refl intro: G_core U_core)
  show "related G U M v w \<Longrightarrow> related G U M w x \<Longrightarrow> related G U M v x" for v w x
    unfolding related_def using G_trans U_trans M_trans by blast
qed

section \<open>Primitive statements\<close>

context store_frame
begin

lemma G_refl: "G b b" by (rule G_core) simp
lemma U_refl: "U x x" by (rule U_core) simp_all

lemmas refls = G_refl U_refl M_refl

lemma moves_gnb: "(\<And>b. G b (f b)) \<Longrightarrow> moves (on_gnb g f)"
  unfolding on_gnb_def by (rule moves_upd) (simp add: related_def refls)

lemma moves_ue: "(\<And>x. U x (f x)) \<Longrightarrow> moves (on_ue u f)"
  unfolding on_ue_def by (rule moves_upd) (simp add: related_def refls)

lemma moves_man: "(\<And>m. M m (f m)) \<Longrightarrow> moves (on_man f)"
  unfolding on_man_def by (rule moves_upd) (simp add: related_def refls)

lemma moves_with_gnb: "(\<And>b. moves (f b)) \<Longrightarrow> moves (with_gnb g f)"
  unfolding with_gnb_def by (rule moves_withI)

lemma moves_with_ue: "(\<And>x. moves (f x)) \<Longrightarrow> moves (with_ue u f)"
  unfolding with_ue_def by (rule moves_withI)

lemma moves_core: "(\<And>b. gnb_core b = gnb_core (f b)) \<Longrightarrow> moves (on_gnb g f)"
  by (rule moves_gnb) (rule G_core)

lemma moves_ue_core:
  "(\<And>x. fu_pti x = fu_pti (f x)) \<Longrightarrow> (\<And>x. fu_sessions x = fu_sessions (f x)) \<Longrightarrow> moves (on_ue u f)"
  by (rule moves_ue) (rule U_core)

lemma moves_quietly: "moves m \<Longrightarrow> moves (quietly m)"
  unfolding quietly_def by (intro moves_intros)

lemma moves_if_connected: "moves m \<Longrightarrow> moves (if_connected g m)"
  unfolding if_connected_def by (intro moves_with_gnb moves_intros)

lemma moves_let: "(\<And>x. moves (f x)) \<Longrightarrow> moves (Let a f)"
  by (simp add: Let_def)

lemmas moves_rules = moves_intros moves_with_gnb moves_with_ue moves_quietly moves_if_connected moves_let

text \<open>Statements that need what an earlier statement established about a counter.\<close>

definition moves_above :: "nat \<Rightarrow> int \<Rightarrow> 'a fsm \<Rightarrow> bool" where
  "moves_above g n m \<longleftrightarrow> (\<forall>w. n \<le> gn_ran_counter (w_gnb w g) \<longrightarrow> related G U M w (snd (m w)))"

lemma aboveI: "moves m \<Longrightarrow> moves_above g n m"
  by (simp add: moves_above_def moves_def)

lemma counter_mono: "related G U M w w' \<Longrightarrow> gn_ran_counter (w_gnb w g) \<le> gn_ran_counter (w_gnb w' g)"
  by (simp add: related_def G_counter)

lemma above_bind:
  assumes "moves_above g n m" "\<And>x. moves_above g n (f x)"
  shows "moves_above g n (ebind m f)"
  unfolding moves_above_def
proof (intro allI impI)
  fix w :: world
  assume n: "n \<le> gn_ran_counter (w_gnb w g)"
  obtain r w' where m: "m w = (r, w')" by fastforce
  with assms(1) n have r: "related G U M w w'" unfolding moves_above_def by fastforce
  then have "n \<le> gn_ran_counter (w_gnb w' g)" by (rule order_trans [OF n counter_mono])
  with assms(2) have "related G U M w' (snd (f x w'))" for x unfolding moves_above_def by blast
  with r m show "related G U M w (snd (ebind m f w))"
    by (cases r) (auto simp: ebind_def intro: frame_trans)
qed

lemma above_seq: "moves_above g n m \<Longrightarrow> moves_above g n k \<Longrightarrow> moves_above g n (eseq m k)"
  by (simp add: eseq_def above_bind)

lemma above_with_gnb: "(\<And>b. moves_above g n (f b)) \<Longrightarrow> moves_above g n (with_gnb h f)"
  by (simp add: moves_above_def with_gnb_def ewith_def)

end

section \<open>Links\<close>

context store_frame
begin

lemma moves_trace: "moves (trace_tx E g m name proc)" "moves (trace_rx g d c p n)"
  unfolding trace_tx_def trace_rx_def
  by (auto intro!: moves_withI moves_gnb G_trace G_refl simp: Let_def)

lemma moves_emit:
  assumes "fits m r"
  shows "moves (emit E g m name proc r)"
proof -
  have c: "gn_streams b \<le> stream_for_ue r b \<Longrightarrow> G b (b\<lparr>gn_sent := gn_sent b @ [(m, 0)]\<rparr>)"
      "\<not> gn_streams b \<le> stream_for_ue r b \<Longrightarrow> G b (b\<lparr>gn_sent := gn_sent b @ [(m, stream_for_ue r b)]\<rparr>)" for b
    using G_sent [OF assms, of b] by (simp_all add: clamp_stream_def)
  have "moves (with_gnb g (\<lambda>b. sctp_send g m (stream_for_ue r b)))"
    unfolding with_gnb_def sctp_send_def
    by (rule moves_with)
       (simp add: on_gnb_def eff_simps related_def refls c split: option.split)
  then show ?thesis unfolding emit_def by (intro moves_seq moves_trace)
qed

lemma moves_send0:
  assumes "msg_ran m = None"
  shows "moves (sctp_send g m 0)"
proof -
  have "fits m None" using assms by (cases m) simp_all
  moreover have "clamp_stream None b = 0" for b by (simp add: clamp_stream_def stream_for_ue_def)
  ultimately have "G b (b\<lparr>gn_sent := gn_sent b @ [(m, 0)]\<rparr>)" for b using G_sent [of m None b] by simp
  then show ?thesis
    unfolding sctp_send_def with_gnb_def
    by (intro moves_with) (simp add: on_gnb_def eff_simps related_def refls split: option.split)
qed

lemma moves_state: "moves (set_gnb_state g s)" "moves (set_ue_state u t)" "moves (on_ctx u f)"
  unfolding set_gnb_state_def set_ue_state_def on_ctx_def
  by (auto intro!: moves_core moves_ue_core simp: gnb_core_def)

lemma moves_send_failed: "moves (on_sctp_send_failed g)"
  unfolding on_sctp_send_failed_def by (intro moves_rules moves_state moves_core) (simp add: gnb_core_def)

lemma moves_attach: "moves (attach_ue g u)"
  by (rule movesI)
    (auto simp: attach_ue_def eseq_upd on_gnb_def on_ue_def with_gnb_def eff_simps related_def refls
      intro: G_attach U_core)

lemma moves_drop_ran: "moves (drop_ran g r)"
  unfolding drop_ran_def by (rule moves_gnb) (auto intro: G_drop G_refl split: option.split)

lemma moves_detach: "moves (detach_ue g u)"
  unfolding detach_ue_def by (intro moves_rules moves_drop_ran)

lemma moves_send_initial: "moves (send_initial_as name E g u nas)"
  unfolding send_initial_as_def attach_if_new_def by (intro moves_rules moves_attach moves_emit) simp_all

lemma moves_send_uplink: "moves (send_uplink_nas_transport E g u nas)"
  unfolding send_uplink_nas_transport_def by (intro moves_rules moves_emit) simp_all

lemma moves_answers: "moves (send_failure E g c cause)" "moves (send_success E g c)"
  unfolding send_failure_def send_success_def by (intro moves_rules moves_emit; simp)+

lemma moves_update_session: "moves (update_session u psi f)"
  unfolding update_session_def by (rule moves_ue) (auto intro: U_session U_refl split: option.split)

lemma moves_create:
  assumes "\<And>n. moves (h n)"
  shows "moves (ewith w_man (\<lambda>m. let (r1, r2) = f m; (name, m') = create_tunnel r1 r2 imsi ip l rm up q m
     in eseq (on_man (\<lambda>_. m')) (h name)))"
proof (rule moves_with)
  fix w :: world
  obtain r1 r2 where f: "f (w_man w) = (r1, r2)" by fastforce
  obtain name m' where c: "create_tunnel r1 r2 imsi ip l rm up q (w_man w) = (name, m')" by fastforce
  have "related G U M w (w\<lparr>w_man := m'\<rparr>)"
    using M_create [of "w_man w" r1 r2 imsi ip l rm up q] c by (simp add: related_def refls)
  moreover have "related G U M (w\<lparr>w_man := m'\<rparr>) (snd (h name (w\<lparr>w_man := m'\<rparr>)))"
    using assms by (simp add: moves_def)
  ultimately show "related G U M w (snd ((let (r1, r2) = f (w_man w);
      (name, m') = create_tunnel r1 r2 imsi ip l rm up q (w_man w) in eseq (on_man (\<lambda>_. m')) (h name)) w))"
    by (auto simp: f c on_man_def eseq_upd intro: frame_trans)
qed

lemma moves_build: "moves (build_tunnel_then_respond E g u c remote upf ip rules)"
  unfolding build_tunnel_then_respond_def
  by (intro moves_if_connected moves_with_ue moves_create moves_option moves_seq moves_answers moves_update_session)

lemma moves_run_job: "moves (run_job E j)"
  unfolding run_job_def by (cases j) (auto intro!: moves_quietly moves_answers moves_build)

lemma moves_jobs: "moves (eupd (\<lambda>w. w\<lparr>w_jobs := f w\<rparr>))" "moves (eupd (\<lambda>w. w\<lparr>w_udp := h w\<rparr>))"
  by (rule moves_upd, simp add: related_def refls)+

lemma moves_run_next: "moves (run_next_job E)"
  unfolding run_next_job_def
  by (intro moves_withI) (auto split: list.split intro!: moves_intros moves_jobs moves_run_job)

lemma moves_submit: "moves (submit_setup j)" "moves (submit_failure E g c)"
  unfolding submit_failure_def submit_setup_def by (intro moves_rules moves_jobs moves_answers)+

lemma moves_accepted: "moves (on_pdu_session_accepted E g u psi ip)"
  unfolding on_pdu_session_accepted_def
  by (intro moves_rules moves_core moves_withI moves_submit moves_answers) (auto simp: gnb_core_def intro!: moves_if moves_submit split: option.split)

end

section \<open>Subscriber handlers\<close>

context store_frame
begin

lemma moves_via: "(\<And>g. moves (f g)) \<Longrightarrow> moves (via_gnb u f)"
  unfolding via_gnb_def by (intro moves_rules)

lemma moves_send_nas: "moves (send_nas E u m)"
  unfolding send_nas_def by (intro moves_via moves_send_uplink)

lemma moves_send_secured: "moves (send_secured E u plain h)"
  unfolding send_secured_def by (intro moves_rules moves_state moves_via moves_send_uplink)

lemma moves_reg_data: "moves (on_ue u (\<lambda>x. x\<lparr>fu_reject := a\<rparr>))" "moves (on_ue u (\<lambda>x. x\<lparr>fu_reg_request := b\<rparr>))"
  "moves (on_ue u (\<lambda>x. x\<lparr>fu_guti := c\<rparr>))" "moves (on_ue u (\<lambda>x. x\<lparr>fu_dstts := dict_set p d (fu_dstts x)\<rparr>))"
  by (rule moves_ue_core; simp)+

lemma moves_register: "moves (register E u a)"
  unfolding register_def send_initial_ue_message_def
  by (intro moves_rules moves_reg_data moves_state moves_send_initial)

lemma moves_service_request: "moves (send_service_request E g u t)"
  unfolding send_service_request_def by (rule moves_send_initial)

lemma moves_pti: "moves (on_ue u (\<lambda>x. x\<lparr>fu_pti := next_pti (fu_pti x)\<rparr>))"
  by (rule moves_ue) (rule U_pti)

lemma moves_establish: "moves (establish_pdu_session E u dnn sst sd psi type mac res)"
  unfolding establish_pdu_session_def Let_def
  by (intro moves_rules moves_reg_data moves_pti moves_send_secured)

lemma moves_deregister: "moves (deregister E u off re acc)"
  unfolding deregister_def send_initial_ue_message_def
  by (intro moves_rules moves_state moves_send_secured moves_via moves_send_initial)

lemma moves_auth_result: "moves (case r of NoAuth \<Rightarrow> m | SyncFailure a \<Rightarrow> h a | AuthOk rs k1 k2 ck ik \<Rightarrow> f rs k1 k2 ck ik)"
  if "moves m" "\<And>a. moves (h a)" "\<And>rs k1 k2 ck ik. moves (f rs k1 k2 ck ik)"
  using that by (cases r) simp_all

lemma moves_mm_handlers:
  "moves (handle_auth_request E u v)" "moves (handle_security_mode_command E u v)"
  "moves (handle_registration_accept E u v)" "moves (handle_registration_reject u v)"
  "moves (handle_auth_reject u)" "moves (handle_deregistration_accept u)" "moves handle_config_update"
  unfolding handle_auth_request_def handle_security_mode_command_def handle_registration_accept_def
    handle_registration_reject_def handle_auth_reject_def handle_deregistration_accept_def handle_config_update_def
  by (intro moves_rules moves_auth_result moves_state moves_reg_data moves_send_nas moves_send_secured)+

lemma moves_pmic: "moves (handle_dstt_pmic u psi p)" "moves (handle_dstt_pmic_from_list E u psi raw)"
  unfolding handle_dstt_pmic_def handle_dstt_pmic_from_list_def dstt_terminate_def
  by (intro moves_rules moves_reg_data)+

lemma moves_complete: "moves (send_modification_complete E u psi p)"
  unfolding send_modification_complete_def by (intro moves_rules moves_send_secured)

lemma moves_open: "moves (open_session E u psi ip pco flows)"
  unfolding open_session_def by (intro moves_rules moves_accepted moves_ue U_session)

lemma moves_flows: "moves (add_flows u psi flows)" "moves (close_session u psi)"
  unfolding add_flows_def close_session_def by (intro moves_update_session moves_ue U_close)+

lemma moves_gsm: "moves (process_gsm E u m)" "moves (process_gsm_decoded E u type psi ip pco raw)"
  unfolding process_gsm_def process_gsm_decoded_def
  by (intro moves_rules moves_open moves_flows moves_pmic moves_complete)+

lemma moves_payload: "moves (handle_dl_nas_transport E u v)"
  unfolding handle_dl_nas_transport_def
  by (intro moves_quietly) (auto split: option.split payload.split list.split simp: Let_def intro!: moves_intros moves_gsm)

lemma moves_dispatch_nas: "moves (dispatch_nas E u v)"
  unfolding dispatch_nas_def by (intro moves_rules moves_mm_handlers moves_payload)

lemma moves_on_nas: "moves (on_nas_pdu E u n)"
  unfolding on_nas_pdu_def
  by (auto split: option.split parsed.split intro!: moves_rules moves_dispatch_nas moves_state)

end

section \<open>Base station handlers\<close>

context store_frame
begin

lemma moves_find_ue: "moves (find_ue g i)"
  unfolding find_ue_def by (intro moves_rules moves_ue_core) simp_all

lemma moves_forward: "moves (forward_nas E ue n)"
  unfolding forward_nas_def by (auto split: option.split intro!: moves_intros moves_on_nas)

lemma moves_dl_nas: "moves (handle_dl_nas E g i)"
  unfolding handle_dl_nas_def by (intro moves_rules moves_find_ue moves_forward)

lemma moves_initial_context: "moves (handle_initial_context_setup E g i)"
  unfolding handle_initial_context_setup_def
  by (intro moves_rules moves_find_ue moves_forward moves_emit) simp_all

lemma moves_next_teid: "moves (next_teid g)"
  unfolding next_teid_def by (intro moves_rules moves_core) (simp add: gnb_core_def)

lemma moves_tables: "moves (on_gnb g (\<lambda>b. b\<lparr>gn_pending := f b\<rparr>))" "moves (on_gnb g (\<lambda>b. b\<lparr>gn_tscai := h b\<rparr>))"
  by (rule moves_core; simp add: gnb_core_def)+

lemma moves_tscai: "moves (store_tscai E g psi t)"
  unfolding store_tscai_def
  by (auto split: option.split pyval.split sum.split intro!: moves_intros moves_tables)

lemma moves_setup_one: "moves (setup_one E g i ue item)"
  unfolding setup_one_def
  by (intro moves_rules moves_next_teid moves_tscai moves_tables moves_on_nas moves_accepted)

lemma moves_session_setup: "moves (handle_pdu_session_setup E g i)"
  unfolding handle_pdu_session_setup_def by (intro moves_rules moves_find_ue moves_setup_one)

lemma moves_feedback: "moves (tsc_feedback E g i psi x)"
  unfolding tsc_feedback_def by (intro moves_rules moves_emit) simp

lemma moves_refresh: "moves (refresh_tunnel_rules g u psi)"
  unfolding refresh_tunnel_rules_def by (intro moves_rules moves_man M_update)

lemma moves_modify_one: "moves (modify_one E g i ue item)"
  unfolding modify_one_def
  by (intro moves_rules moves_tables moves_feedback moves_emit moves_on_nas moves_refresh) simp

lemma moves_session_modify: "moves (handle_pdu_session_modify E g i)"
  unfolding handle_pdu_session_modify_def by (intro moves_rules moves_find_ue moves_modify_one)

lemma M_destroys: "M m (fold destroy_tunnel ts m)"
  by (induction ts arbitrary: m) (auto intro: M_refl M_trans M_destroy)

lemma moves_destroys: "moves (destroy_session_tunnels g u)"
  unfolding destroy_session_tunnels_def by (intro moves_rules moves_man M_destroys)

lemma moves_ho_items: "moves (ho_items E g js)"
  by (induction js)
     (auto simp: ho_item_def Let_def intro!: moves_rules moves_next_teid moves_tables split: option.split)

lemma moves_forget: "moves (on_gnb g (\<lambda>b. b\<lparr>gn_ho_context := None\<rparr>))"
  by (rule moves_gnb) (rule G_forget)

lemma above_reserve: "moves_above g (hc_ran hc) (on_gnb g (\<lambda>b. b\<lparr>gn_ho_context := Some hc\<rparr>))"
  by (simp add: moves_above_def on_gnb_def eff_simps related_def refls G_reserve)

lemma moves_next_ran:
  assumes "\<And>n. moves_above g n (f n)"
  shows "moves (ebind (next_ran g) f)"
proof (rule movesI)
  fix w :: world
  let ?b = "w_gnb w g"
  let ?w = "w\<lparr>w_gnb := (w_gnb w)(g := ?b\<lparr>gn_ran_counter := gn_ran_counter ?b + 1\<rparr>)\<rparr>"
  have run: "next_ran g w = (Inr (gn_ran_counter ?b + 1), ?w)"
    by (simp add: next_ran_def eff_simps on_gnb_def with_gnb_def)
  have "related G U M w ?w" by (simp add: related_def refls G_count)
  moreover have "related G U M ?w (snd (f (gn_ran_counter ?b + 1) ?w))"
    using assms [of "gn_ran_counter ?b + 1"] by (simp add: moves_above_def)
  moreover have "ebind (next_ran g) f w = f (gn_ran_counter ?b + 1) ?w" by (rule ebind_simps(1)) (rule run)
  ultimately show "related G U M w (snd (ebind (next_ran g) f w))" by (simp only:) (rule frame_trans)
qed

lemma moves_handover_request: "moves (handle_handover_request E g i)"
proof -
  show ?thesis
    unfolding handle_handover_request_def Let_def
  proof (intro moves_next_ran above_bind)
    show "moves_above g n (ho_items E g (ie_handover i))" for n by (intro aboveI moves_ho_items)
    show "moves_above g n (if p = [] then ebind (next_teid g) (\<lambda>t. eret [(1, t)]) else eret p)" for n p
      by (intro aboveI moves_rules moves_next_teid)
    have e: "moves (emit E g (HandoverRequestAck a r s p t) x 13 (Some r))" for a r s p t x by (rule moves_emit) simp
    have reserve: "moves_above g r (on_gnb g (\<lambda>b. b\<lparr>gn_ho_context := Some \<lparr>hc_amf = a, hc_ran = r, hc_sessions = s, hc_teids = t\<rparr>\<rparr>))"
      for a r s t using above_reserve [of g "\<lparr>hc_amf = a, hc_ran = r, hc_sessions = s, hc_teids = t\<rparr>"] by simp
    have fail: "moves (eseq (emit E g (HandoverFailure a c) x 13 r) (on_gnb g (\<lambda>b. b\<lparr>gn_ho_context := None\<rparr>)))" for a c x r
      by (intro moves_seq moves_emit moves_forget) simp
    show "moves_above g n (with_gnb g (\<lambda>b. case gn_force_failure b of
        Some cause \<Rightarrow>
          if cause \<noteq> [] then
            eseq (emit E g (HandoverFailure (ie_amf i) cause) ''HandoverFailure'' 13 (Some n))
                 (on_gnb g (\<lambda>b. b\<lparr>gn_ho_context := None\<rparr>))
          else eseq (on_gnb g (\<lambda>b. b\<lparr>gn_ho_context := Some \<lparr>hc_amf = ie_amf i, hc_ran = n, hc_sessions = map fst ps, hc_teids = dict_update [] ps\<rparr>\<rparr>))
                 (emit E g (HandoverRequestAck (ie_amf i) n (map fst ps) (own_ip b) (dict_update [] ps)) ''HandoverRequestAcknowledge'' 13 (Some n))
      | None \<Rightarrow>
          eseq (on_gnb g (\<lambda>b. b\<lparr>gn_ho_context := Some \<lparr>hc_amf = ie_amf i, hc_ran = n, hc_sessions = map fst ps, hc_teids = dict_update [] ps\<rparr>\<rparr>))
               (emit E g (HandoverRequestAck (ie_amf i) n (map fst ps) (own_ip b) (dict_update [] ps)) ''HandoverRequestAcknowledge'' 13 (Some n))))"
      for n ps
      by (intro above_with_gnb) (auto split: option.split intro!: above_seq reserve aboveI [OF fail] aboveI [OF e])
  qed
qed

lemma related_seq:
  "m w = (Inr x, w') \<Longrightarrow> related G U M w w' \<Longrightarrow> related G U M w' (snd (n w')) \<Longrightarrow> related G U M w (snd (eseq m n w))"
  by (simp add: eff_simps) (rule frame_trans)

lemma moves_move_session: "moves (move_session E g u psi)"
proof (rule movesI)
  fix w :: world
  let ?b = "w_gnb w g" and ?x = "w_ue w u"
  show "related G U M w (snd (move_session E g u psi w))"
  proof (cases "dict_get (gn_pending ?b) psi")
    case None
    then show ?thesis by (simp add: move_session_def with_gnb_def with_ue_def eff_simps frame_refl)
  next
    case (Some p)
    let ?w = "w\<lparr>w_gnb := (w_gnb w)(g := ?b\<lparr>gn_pending := dict_del psi (gn_pending ?b)\<rparr>)\<rparr>"
    let ?s = "dict_get (fu_sessions ?x) psi"
    obtain r1 r2 where t: "fe_tun E (pd_local p) = (r1, r2)" by fastforce
    obtain name m' where c: "create_tunnel r1 r2 (sim_imsi (fu_sim ?x))
        (case ?s of None \<Rightarrow> ''unknown'' | Some s \<Rightarrow> (case se_ip s of None \<Rightarrow> ''None'' | Some i \<Rightarrow> i))
        (pd_local p) (case pd_remote p of None \<Rightarrow> 0 | Some r \<Rightarrow> r) (case pd_upf p of None \<Rightarrow> [] | Some a \<Rightarrow> a)
        (case ?s of None \<Rightarrow> [] | Some s \<Rightarrow> se_flows s) (w_man w) = (name, m')" by fastforce
    have m': "M (w_man w) m'" using M_create c by (metis snd_conv)
    have rest: "moves (case name of None \<Rightarrow> eskip | Some tun \<Rightarrow> if ?s = None then eraise KeyError
        else update_session u psi (\<lambda>s. s\<lparr>se_tun := Some tun, se_teid := Some (pd_local p)\<rparr>))"
      by (intro moves_rules moves_update_session)
    have "related G U M ?w (snd ((if \<not> (gn_gtpu ?b \<and> gm_available (w_man w)) then eskip
        else eseq (on_man (\<lambda>_. m')) (case name of None \<Rightarrow> eskip | Some tun \<Rightarrow> if ?s = None then eraise KeyError
           else update_session u psi (\<lambda>s. s\<lparr>se_tun := Some tun, se_teid := Some (pd_local p)\<rparr>))) ?w))"
    proof (cases "gn_gtpu ?b \<and> gm_available (w_man w)")
      case True
      have "related G U M ?w (snd (eseq (on_man (\<lambda>_. m')) n ?w))" if "moves n" for n :: "unit fsm"
      proof (rule related_seq)
        show "on_man (\<lambda>_. m') ?w = (Inr (), ?w\<lparr>w_man := m'\<rparr>)" by (simp add: on_man_def eff_simps)
        show "related G U M ?w (?w\<lparr>w_man := m'\<rparr>)" using m' by (simp add: related_def refls)
        show "related G U M (?w\<lparr>w_man := m'\<rparr>) (snd (n (?w\<lparr>w_man := m'\<rparr>)))" using that by (simp add: moves_def)
      qed
      from this [OF rest] True show ?thesis by simp
    qed (auto simp: frame_refl eff_simps)
    with frame_trans [of w ?w] have "related G U M w (snd ((if \<not> (gn_gtpu ?b \<and> gm_available (w_man w)) then eskip
        else eseq (on_man (\<lambda>_. m')) (case name of None \<Rightarrow> eskip | Some tun \<Rightarrow> if ?s = None then eraise KeyError
           else update_session u psi (\<lambda>s. s\<lparr>se_tun := Some tun, se_teid := Some (pd_local p)\<rparr>))) ?w))"
      by (simp add: related_def refls G_core gnb_core_def)
    then show ?thesis
      using Some t c
      by (simp add: move_session_def with_gnb_def with_ue_def ewith_def Let_def on_gnb_def eseq_upd cong: if_cong split del: if_split)
  qed
qed

lemma moves_complete_handover: "moves (complete_handover E g u src)"
proof (rule movesI)
  fix w :: world
  show "related G U M w (snd (complete_handover E g u src w))"
  proof (cases "gn_ho_context (w_gnb w g)")
    case None
    then show ?thesis by (simp add: complete_handover_def with_gnb_def eff_simps frame_refl)
  next
    case (Some hc)
    define w1 where "w1 = snd (detach_ue src u w)"
    define w2 where "w2 = w1\<lparr>w_ue := (w_ue w1)(u := (w_ue w1 u)\<lparr>fu_ran := Some (hc_ran hc), fu_gnb := Some g\<rparr>)\<rparr>"
    define w3 where "w3 = w2\<lparr>w_gnb := (w_gnb w2)(g := (w_gnb w2 g)\<lparr>gn_ues := dict_set (hc_ran hc) u (gn_ues (w_gnb w2 g))\<rparr>)\<rparr>"
    have d: "detach_ue src u w = (Inr (), w1)"
      by (simp add: w1_def detach_ue_def with_ue_def drop_ran_def on_gnb_def eff_simps)
    have ctx: "gn_ho_context (w_gnb w2 g) = Some hc"
      using Some by (auto simp: w2_def w1_def detach_ue_def with_ue_def drop_ran_def on_gnb_def eff_simps split: option.split)
    have r1: "related G U M w w1" by (rule movesD [OF moves_detach d])
    have r2: "related G U M w1 w2" by (simp add: w2_def related_def refls U_core)
    have r3: "related G U M w2 w3" by (simp add: w3_def related_def refls G_handover ctx)
    have rest: "moves (eseq (destroy_session_tunnels src u)
          (eseq (efor (hc_sessions hc) (move_session E g u))
          (eseq (emit E g (HandoverNotify (hc_amf hc) (hc_ran hc) (gn_cell (w_gnb w g))) ''HandoverNotify'' 11 (Some (hc_ran hc)))
          (eseq (on_gnb g (\<lambda>b. b\<lparr>gn_ho_context := None\<rparr>)) (eret True)))))"
      by (intro moves_rules moves_destroys moves_move_session moves_emit moves_forget) simp
    have "related G U M w (snd (eseq (detach_ue src u)
          (eseq (on_ue u (\<lambda>x. x\<lparr>fu_ran := Some (hc_ran hc), fu_gnb := Some g\<rparr>))
          (eseq (on_gnb g (\<lambda>b. b\<lparr>gn_ues := dict_set (hc_ran hc) u (gn_ues b)\<rparr>)) n)) w))" if "moves n" for n :: "bool fsm"
    proof (rule related_seq)
      show "detach_ue src u w = (Inr (), w1)" "related G U M w w1" by (rule d, rule r1)
      show "related G U M w1 (snd (eseq (on_ue u (\<lambda>x. x\<lparr>fu_ran := Some (hc_ran hc), fu_gnb := Some g\<rparr>))
          (eseq (on_gnb g (\<lambda>b. b\<lparr>gn_ues := dict_set (hc_ran hc) u (gn_ues b)\<rparr>)) n) w1))"
      proof (rule related_seq)
        show "on_ue u (\<lambda>x. x\<lparr>fu_ran := Some (hc_ran hc), fu_gnb := Some g\<rparr>) w1 = (Inr (), w2)"
          by (simp add: on_ue_def eff_simps w2_def)
        show "related G U M w1 w2" by (rule r2)
        show "related G U M w2 (snd (eseq (on_gnb g (\<lambda>b. b\<lparr>gn_ues := dict_set (hc_ran hc) u (gn_ues b)\<rparr>)) n w2))"
        proof (rule related_seq)
          show "on_gnb g (\<lambda>b. b\<lparr>gn_ues := dict_set (hc_ran hc) u (gn_ues b)\<rparr>) w2 = (Inr (), w3)"
            by (simp add: on_gnb_def eff_simps w3_def)
          show "related G U M w2 w3" by (rule r3)
          show "related G U M w3 (snd (n w3))" using that by (simp add: moves_def)
        qed
      qed
    qed
    from this [OF rest] show ?thesis
      using Some by (simp add: complete_handover_def with_gnb_def ewith_def)
  qed
qed

end

section \<open>Everything a base station receives or is asked\<close>

context store_frame
begin

lemma moves_events:
  "moves (set_event gn_ho_command put_command g)" "moves (set_event gn_path_switch put_switch g)"
  "moves (set_event_if gn_ho_command put_command g)" "moves (set_event_if gn_path_switch put_switch g)"
  "moves (set_event_if gn_ho_cancel put_cancel g)" "moves (set_event_if gn_paging put_paging g)"
  unfolding set_event_def set_event_if_def
  by (intro moves_rules moves_core; simp add: gnb_core_def put_command_def put_switch_def put_cancel_def put_paging_def)+

lemma moves_handover_events:
  "moves (handle_handover_command g)" "moves (handle_path_switch_ack g)" "moves (handle_path_switch_failure g)"
  "moves (handle_handover_preparation_failure g i)" "moves (handle_handover_failure g i)"
  "moves (handle_handover_cancel_ack g)" "moves (handle_paging g i)" "moves (handle_dl_ran_status_transfer g i)"
  unfolding handle_handover_command_def handle_path_switch_ack_def handle_path_switch_failure_def
    handle_handover_preparation_failure_def handle_handover_failure_def handle_handover_cancel_ack_def
    handle_paging_def handle_dl_ran_status_transfer_def
  by (intro moves_rules moves_events moves_core; simp add: gnb_core_def)+

lemma moves_initiate: "moves (initiate_handover E g u t)"
  unfolding initiate_handover_def
  by (intro moves_rules moves_emit moves_core) (simp_all add: gnb_core_def)

lemma moves_with_ids: "(\<And>a r. moves (f a r)) \<Longrightarrow> moves (with_ids u f)"
  unfolding with_ids_def by (auto split: option.split intro!: moves_rules)

lemma moves_requests:
  "moves (send_uplink_ran_status_transfer E g u drb ul dl)" "moves (cancel_handover E g u cause)"
  "moves (request_ue_context_release E g u gr v)" "moves (send_error_indication E g ue gr v)"
  "moves (report_rrc_inactive E g u rrc)"
  unfolding send_uplink_ran_status_transfer_def cancel_handover_def request_ue_context_release_def
    send_error_indication_def report_rrc_inactive_def
  by (intro moves_rules moves_with_ids moves_emit moves_core; simp add: gnb_core_def put_cancel_def)+

lemma moves_end_markers: "moves (send_end_markers E g u)"
  unfolding send_end_markers_def end_marker_def
  by (intro moves_rules moves_withI moves_jobs)

lemma moves_release: "moves (handle_ue_context_release E g i)"
proof -
  have e: "moves (case (a, r) of (Some a, Some r) \<Rightarrow> emit E g (UeContextReleaseComplete a r) n p (Some r) | _ \<Rightarrow> eskip)"
    for a r n p by (auto split: option.split intro!: moves_intros moves_emit)
  show ?thesis
    unfolding handle_ue_context_release_def
    by (intro moves_rules moves_withI e moves_drop_ran moves_destroys moves_state moves_ue_core) simp_all
qed

lemma moves_enqueue: "moves (enqueue_setup g i)"
  unfolding enqueue_setup_def by (rule moves_gnb) (auto intro: G_refl G_enqueue)

lemma moves_dispatch: "moves (dispatch_ngap E g category code i)"
  unfolding dispatch_ngap_def
  by (intro moves_rules moves_handover_events moves_dl_nas moves_initial_context moves_enqueue moves_release
      moves_session_modify moves_handover_request moves_state moves_core) (simp_all add: gnb_core_def)

lemma moves_recv: "moves (on_ngap_recv E g data)"
  unfolding on_ngap_recv_def by (intro moves_rules moves_trace moves_dispatch moves_send_failed)

lemma moves_worker: "moves (set_worker g k)"
  unfolding set_worker_def by (rule moves_core) (simp add: gnb_core_def)

lemma moves_handler_step: "moves (handler_step E g)"
  unfolding handler_step_def with_gnb_def
proof (rule moves_with)
  fix w :: world
  have take: "related G U M w (snd (eseq (on_gnb g (\<lambda>b. b\<lparr>gn_queue := rest\<rparr>)) n w))"
    if q: "gn_queue (w_gnb w g) = j # rest" and n: "moves n" for j rest and n :: "unit fsm"
  proof (rule related_seq)
    show "on_gnb g (\<lambda>b. b\<lparr>gn_queue := rest\<rparr>) w = (Inr (), w\<lparr>w_gnb := (w_gnb w)(g := (w_gnb w g)\<lparr>gn_queue := rest\<rparr>)\<rparr>)"
      by (simp add: on_gnb_def eff_simps)
    show "related G U M w (w\<lparr>w_gnb := (w_gnb w)(g := (w_gnb w g)\<lparr>gn_queue := rest\<rparr>)\<rparr>)"
      by (simp add: related_def refls G_dequeue [OF q])
  qed (rule movesD [OF n surjective_pairing])
  have run: "moves (eseq (quietly (handle_pdu_session_setup E g i)) (set_worker g AtTop))" for i
    by (intro moves_seq moves_quietly moves_session_setup moves_worker)
  show "related G U M w (snd ((case gn_worker (w_gnb w g) of
     NoWorker \<Rightarrow> eskip
   | AtTop \<Rightarrow> set_worker g (if gn_stop (w_gnb w g) then NoWorker else Waiting)
   | Waiting \<Rightarrow> (case gn_queue (w_gnb w g) of
         [] \<Rightarrow> set_worker g AtTop
       | None # rest \<Rightarrow> eseq (on_gnb g (\<lambda>b. b\<lparr>gn_queue := rest\<rparr>)) (set_worker g NoWorker)
       | Some i # rest \<Rightarrow> eseq (on_gnb g (\<lambda>b. b\<lparr>gn_queue := rest\<rparr>))
           (eseq (quietly (handle_pdu_session_setup E g i)) (set_worker g AtTop)))) w))"
    by (auto split: worker.split list.split option.split
        intro: take run moves_worker movesD [OF moves_worker surjective_pairing] movesD [OF moves_basic(4) surjective_pairing])
qed

lemma moves_sentinel: "moves (on_gnb g (\<lambda>b. if QUEUE_SIZE \<le> length (gn_queue b) then b else b\<lparr>gn_queue := gn_queue b @ [j]\<rparr>))"
  by (rule moves_gnb) (auto intro: G_refl G_enqueue)

lemma moves_disconnect: "moves (disconnect_gnb g)"
  unfolding disconnect_gnb_def cancel_pending_setups_def
  by (intro moves_rules moves_state moves_destroys moves_jobs moves_core moves_sentinel) (simp_all add: gnb_core_def)

lemma moves_clear: "moves (clear_trace g)"
  unfolding clear_trace_def by (rule moves_gnb) (rule G_clear)

end

section \<open>Operations\<close>

text \<open>
  What the threads and the test cases call: the receive thread of an association, the handler thread,
  the worker of the tunnel manager, and the actions on subscribers and base stations.
\<close>

datatype fsm_op =
    Receive nat bytes
  | Handle nat
  | Work
  | SendFailed nat
  | Register nat reg_args
  | Establish nat string int "int option" int int "bytes option" "int option"
  | Deregister nat bool bool int
  | Service nat nat int
  | Attach nat nat
  | Detach nat nat
  | HandoverStart nat nat nat
  | HandoverFinish nat nat nat
  | HandoverAbort nat nat string
  | StatusTransfer nat nat int int int
  | EndMarkers nat nat
  | ReleaseRequest nat nat string string
  | ReportError nat "nat option" string string
  | ReportInactive nat nat string
  | ClearTrace nat
  | Connect nat "(string \<times> int) option"
  | Disconnect nat
  | Clock int

fun exec :: "'m fsm_env \<Rightarrow> world \<Rightarrow> fsm_op \<Rightarrow> world" where
  "exec E w (Receive g d) = snd (on_ngap_recv E g d w)"
| "exec E w (Handle g) = snd (handler_step E g w)"
| "exec E w Work = snd (run_next_job E w)"
| "exec E w (SendFailed g) = snd (on_sctp_send_failed g w)"
| "exec E w (Register u a) = snd (register E u a w)"
| "exec E w (Establish u dnn sst sd psi type mac res) = snd (establish_pdu_session E u dnn sst sd psi type mac res w)"
| "exec E w (Deregister u off re acc) = snd (deregister E u off re acc w)"
| "exec E w (Service g u t) = snd (send_service_request E g u t w)"
| "exec E w (Attach g u) = snd (attach_ue g u w)"
| "exec E w (Detach g u) = snd (detach_ue g u w)"
| "exec E w (HandoverStart g u t) = snd (initiate_handover E g u t w)"
| "exec E w (HandoverFinish g u s) = snd (complete_handover E g u s w)"
| "exec E w (HandoverAbort g u c) = snd (cancel_handover E g u c w)"
| "exec E w (StatusTransfer g u drb ul dl) = snd (send_uplink_ran_status_transfer E g u drb ul dl w)"
| "exec E w (EndMarkers g u) = snd (send_end_markers E g u w)"
| "exec E w (ReleaseRequest g u gr v) = snd (request_ue_context_release E g u gr v w)"
| "exec E w (ReportError g ue gr v) = snd (send_error_indication E g ue gr v w)"
| "exec E w (ReportInactive g u rrc) = snd (report_rrc_inactive E g u rrc w)"
| "exec E w (ClearTrace g) = snd (clear_trace g w)"
| "exec E w (Connect g r) = snd (connect_gnb E g r w)"
| "exec E w (Disconnect g) = snd (disconnect_gnb g w)"
| "exec E w (Clock t) = w\<lparr>w_now := t\<rparr>"

fun reconnects :: "fsm_op \<Rightarrow> bool" where
  "reconnects (Connect g r) = True"
| "reconnects _ = False"

context store_frame
begin

lemma exec_moves:
  assumes "\<not> reconnects op"
  shows "related G U M w (exec E w op)"
proof (cases op)
  case (Connect g r)
  then show ?thesis using assms by simp
next
  case (Clock t)
  then show ?thesis by (simp add: related_def refls)
qed (simp_all add: moves_recv moves_handler_step moves_run_next moves_send_failed moves_register moves_establish
      moves_deregister moves_service_request moves_attach moves_detach moves_initiate moves_complete_handover
      moves_requests moves_end_markers moves_clear moves_disconnect moves_def [symmetric]
      movesD [OF _ surjective_pairing])

lemma run_moves:
  assumes "\<forall>op \<in> set ops. \<not> reconnects op"
  shows "related G U M w (foldl (exec E) w ops)"
  using assms
proof (induction ops arbitrary: w)
  case (Cons op ops)
  from Cons.prems have "related G U M w (exec E w op)" by (simp add: exec_moves)
  moreover have "related G U M (exec E w op) (foldl (exec E) (exec E w op) ops)" using Cons by simp
  ultimately show ?case by (simp, rule frame_trans)
qed (simp add: frame_refl)

end

end
