(* ===== verification/FsmProps.thy ===== *)
theory FsmProps
  imports FsmFrame
begin

text \<open>
  Properties of the emulated base stations and subscribers: the invariant of the store over every
  interleaving of their threads and actions, the use of the streams of an association, the answer to a
  session setup, context release and handover.  The first two are interpretations of \<open>store_frame\<close>.
\<close>

section \<open>Invariant\<close>

definition gnb_ok :: "gnb \<Rightarrow> bool" where
  "gnb_ok b \<longleftrightarrow> dict_ok (gn_ues b) \<and> (\<forall>p \<in> set (gn_ues b). fst p \<le> gn_ran_counter b) \<and>
     (\<forall>hc. gn_ho_context b = Some hc \<longrightarrow> hc_ran hc \<le> gn_ran_counter b) \<and>
     length (gn_trace b) \<le> 200 \<and> length (gn_queue b) \<le> QUEUE_SIZE"

definition ue_ok :: "fsm_ue \<Rightarrow> bool" where
  "ue_ok x \<longleftrightarrow> 1 \<le> fu_pti x \<and> fu_pti x \<le> 254 \<and> dict_ok (fu_sessions x)"

definition tunnels_keyed :: "manager \<Rightarrow> bool" where
  "tunnels_keyed m \<longleftrightarrow> dict_ok (gm_tunnels m) \<and> (\<forall>a t. dict_get (gm_tunnels m) a = Some t \<longrightarrow> tn_local t = a) \<and>
     (\<forall>a b t t'. dict_get (gm_tunnels m) a = Some t \<longrightarrow> dict_get (gm_tunnels m) b = Some t' \<longrightarrow>
        tn_imsi t = tn_imsi t' \<longrightarrow> a = b)"

lemma keyed_destroy: "tunnels_keyed m \<Longrightarrow> tunnels_keyed (destroy_tunnel teid m)"
proof -
  assume k: "tunnels_keyed m"
  have "dict_ok (gm_tunnels (destroy_tunnel teid m))"
    using k by (auto simp: tunnels_keyed_def destroy_tunnel_def split: option.split)
  with k show ?thesis unfolding tunnels_keyed_def destroy_get by (metis option.distinct(1))
qed

lemma keyed_destroys: "tunnels_keyed m \<Longrightarrow> tunnels_keyed (fold destroy_tunnel ts m)"
  by (induction ts arbitrary: m) (auto intro: keyed_destroy)

lemma keyed_put:
  assumes "tunnels_keyed m" "tn_local t = l" "\<And>a t'. dict_get (gm_tunnels m) a = Some t' \<Longrightarrow> a \<noteq> l \<Longrightarrow> tn_imsi t' \<noteq> tn_imsi t"
  shows "tunnels_keyed (m\<lparr>gm_tunnels := dict_set l t (gm_tunnels m), gm_fds := f\<rparr>)"
  using assms unfolding tunnels_keyed_def by (auto split: if_splits) (metis)+

lemma keyed_create: "tunnels_keyed m \<Longrightarrow> tunnels_keyed (snd (create_tunnel r1 r2 imsi ip l rm up q m))"
proof (cases "gm_available m")
  case True
  assume k: "tunnels_keyed m"
  define m1 where "m1 = fold destroy_tunnel (stale_teids imsi m) m"
  have k1: "tunnels_keyed m1" unfolding m1_def by (rule keyed_destroys [OF k])
  have "dict_ok (gm_tunnels m)" using k by (simp add: tunnels_keyed_def)
  then have other: "tn_imsi t \<noteq> imsi" if "dict_get (gm_tunnels m1) a = Some t" for a t
    using stale_gone that unfolding m1_def by blast
  show ?thesis
    using True k1 keyed_put [OF k1] other
    by (auto simp: create_tunnel_def Let_def m1_def [symmetric] split: option.split)
qed (simp add: create_tunnel_def)

lemma keyed_update: "tunnels_keyed m \<Longrightarrow> tunnels_keyed (update_qos_rules teid q m)"
proof -
  assume k: "tunnels_keyed m"
  show ?thesis
  proof (cases "dict_get (gm_tunnels m) teid")
    case (Some t)
    define t' where "t' = (let t = t\<lparr>tn_rules := q\<rparr> in case default_flow q of None \<Rightarrow> t | Some d \<Rightarrow> t\<lparr>tn_default_qfi := d\<rparr>)"
    have t': "tn_local t' = teid" "tn_imsi t' = tn_imsi t"
      using k Some by (auto simp: t'_def tunnels_keyed_def Let_def split: option.split)
    have "tunnels_keyed (m\<lparr>gm_tunnels := dict_set teid t' (gm_tunnels m), gm_fds := gm_fds m\<rparr>)"
      using k Some t' by (intro keyed_put) (auto simp: tunnels_keyed_def)
    then show ?thesis using Some by (simp add: update_qos_rules_def t'_def Let_def)
  qed (use k in \<open>simp add: update_qos_rules_def\<close>)
qed

lemma next_pti_range: "1 \<le> next_pti n \<and> next_pti n \<le> 254"
proof -
  have "0 \<le> n mod 254 \<and> n mod 254 < 254" by simp
  then show ?thesis by (simp add: next_pti_def)
qed

lemma ring_length: "length xs \<le> 200 \<Longrightarrow> length (ring_append 200 150 x xs) \<le> 200"
  by (auto simp: ring_append_def Let_def)

lemma in_dict_set: "p \<in> set (dict_set k v d) \<Longrightarrow> p = (k, v) \<or> p \<in> set d"
  by (rule dict_set_mem)

lemma gnb_ok_core: "gnb_core a = gnb_core b \<Longrightarrow> gnb_ok a = gnb_ok b"
  by (simp add: gnb_core_def gnb_ok_def)

definition gnb_keeps :: "gnb \<Rightarrow> gnb \<Rightarrow> bool" where
  "gnb_keeps a b \<longleftrightarrow> (gnb_ok a \<longrightarrow> gnb_ok b) \<and> gn_ran_counter a \<le> gn_ran_counter b"

interpretation consistent: store_frame gnb_keeps "preserves ue_ok" "preserves tunnels_keyed"
proof unfold_locales
  show "gnb_core a = gnb_core b \<Longrightarrow> gnb_keeps a b" for a b
    using gnb_ok_core [of a b] by (simp add: gnb_keeps_def gnb_core_def)
  show "gnb_keeps b (b\<lparr>gn_ran_counter := gn_ran_counter b + 1, gn_ues := dict_set (gn_ran_counter b + 1) u (gn_ues b)\<rparr>)" for b u
    by (fastforce simp: gnb_keeps_def gnb_ok_def dest: in_dict_set)
  show "gn_ho_context b = Some hc \<Longrightarrow> gnb_keeps b (b\<lparr>gn_ues := dict_set (hc_ran hc) u (gn_ues b)\<rparr>)" for b hc u
    by (fastforce simp: gnb_keeps_def gnb_ok_def dest: in_dict_set)
qed (auto simp: gnb_keeps_def gnb_ok_def preserves_def ue_ok_def next_pti_range ring_length
    intro: keyed_create keyed_destroy keyed_update)

lemma connect_moves: "consistent.moves (connect_gnb E g r)"
  unfolding connect_gnb_def
  by (intro consistent.moves_rules consistent.moves_state consistent.moves_trace consistent.moves_send0
      consistent.moves_gnb) (auto simp: gnb_keeps_def gnb_ok_def)

lemma exec_keeps: "related gnb_keeps (preserves ue_ok) (preserves tunnels_keyed) w (exec E w op)"
proof (cases "reconnects op")
  case True
  then obtain g r where "op = Connect g r" by (cases op) simp_all
  then show ?thesis by (simp add: consistent.movesD [OF connect_moves surjective_pairing])
qed (rule consistent.exec_moves)

definition fsm_ok :: "world \<Rightarrow> bool" where
  "fsm_ok w \<longleftrightarrow> (\<forall>g. gnb_ok (w_gnb w g)) \<and> (\<forall>u. ue_ok (w_ue w u)) \<and> tunnels_keyed (w_man w)"

interpretation fsm_run: step_system "exec E" fsm_ok for E
proof unfold_locales
  show "fsm_ok w \<Longrightarrow> fsm_ok (exec E w op)" for w op
    using exec_keeps [of w E op] by (auto simp: fsm_ok_def related_def gnb_keeps_def preserves_def)
qed

definition fsm_start :: "(nat \<Rightarrow> cell) \<Rightarrow> (nat \<Rightarrow> sim) \<Rightarrow> (nat \<Rightarrow> nat option) \<Rightarrow> bool \<Rightarrow> bool \<Rightarrow> world" where
  "fsm_start cells sims homes gtpu available =
     \<lparr>w_ue = \<lambda>u. new_fsm_ue (sims u) (homes u), w_gnb = \<lambda>g. fresh_gnb (cells g) gtpu,
      w_man = new_manager available, w_jobs = [], w_udp = [], w_now = 0\<rparr>"

lemma start_ok: "fsm_ok (fsm_start cells sims homes gtpu available)"
  by (simp add: fsm_ok_def fsm_start_def gnb_ok_def fresh_gnb_def ue_ok_def new_fsm_ue_def tunnels_keyed_def new_manager_def)



section \<open>Streams\<close>

definition gnb_sends :: "gnb \<Rightarrow> gnb \<Rightarrow> bool" where
  \<comment> \<open>what is sent follows the rule of \<open>_stream_for_ue\<close> and the clamp of the association\<close>
  "gnb_sends a b \<longleftrightarrow> gn_streams b = gn_streams a \<and> gn_ran_counter a \<le> gn_ran_counter b \<and>
     (\<exists>ms. gn_sent b = gn_sent a @ ms \<and> (\<forall>(m, s) \<in> set ms. \<exists>r. fits m r \<and> s = clamp_stream r a))"

lemma clamp_same: "gn_streams a = gn_streams b \<Longrightarrow> clamp_stream r a = clamp_stream r b"
  by (simp add: clamp_stream_def stream_for_ue_def split: option.split)

lemma sends_quiet: "gn_streams b = gn_streams a \<Longrightarrow> gn_ran_counter a \<le> gn_ran_counter b \<Longrightarrow> gn_sent b = gn_sent a \<Longrightarrow> gnb_sends a b"
  by (simp add: gnb_sends_def)

interpretation streams: store_frame gnb_sends "\<lambda>x y. True" "\<lambda>m n. True"
proof unfold_locales
  show "gnb_sends a b \<Longrightarrow> gnb_sends b c \<Longrightarrow> gnb_sends a c" for a b c
  proof -
    assume a: "gnb_sends a b" and b: "gnb_sends b c"
    obtain ms where ms: "gn_sent b = gn_sent a @ ms" "\<forall>(m, s) \<in> set ms. \<exists>r. fits m r \<and> s = clamp_stream r a"
      using a by (auto simp: gnb_sends_def)
    obtain ns where ns: "gn_sent c = gn_sent b @ ns" "\<forall>(m, s) \<in> set ns. \<exists>r. fits m r \<and> s = clamp_stream r b"
      using b by (auto simp: gnb_sends_def)
    have "clamp_stream r b = clamp_stream r a" for r using a by (intro clamp_same) (simp add: gnb_sends_def)
    with ms ns have "gn_sent c = gn_sent a @ (ms @ ns)" "\<forall>(m, s) \<in> set (ms @ ns). \<exists>r. fits m r \<and> s = clamp_stream r a"
      by auto
    then show "gnb_sends a c" using a b unfolding gnb_sends_def by (intro conjI exI [of _ "ms @ ns"]) auto
  qed
  show "fits m r \<Longrightarrow> gnb_sends b (b\<lparr>gn_sent := gn_sent b @ [(m, clamp_stream r b)]\<rparr>)" for m r b
    by (auto simp: gnb_sends_def)
qed (auto simp: gnb_core_def gnb_sends_def intro!: sends_quiet)

lemma clamp_bounds:
  assumes "2 \<le> gn_streams b"
  shows "clamp_stream r b = (case r of None \<Rightarrow> 0 | Some i \<Rightarrow> i mod (gn_streams b - 1) + 1)"
    and "0 \<le> clamp_stream r b \<and> clamp_stream r b < gn_streams b"
proof -
  have m: "0 \<le> i mod (gn_streams b - 1) \<and> i mod (gn_streams b - 1) < gn_streams b - 1" for i
    using assms by (auto intro: pos_mod_sign pos_mod_bound)
  have "\<not> gn_streams b \<le> i mod (gn_streams b - 1) + 1" for i using m [of i] by linarith
  then show c: "clamp_stream r b = (case r of None \<Rightarrow> 0 | Some i \<Rightarrow> i mod (gn_streams b - 1) + 1)"
    using assms by (auto simp: clamp_stream_def stream_for_ue_def max_def split: option.split)
  show "0 \<le> clamp_stream r b \<and> clamp_stream r b < gn_streams b"
  proof (cases r)
    case None
    then show ?thesis unfolding c using assms by simp
  next
    case (Some i)
    then show ?thesis unfolding c using m [of i] by simp
  qed
qed

fun is_handover_failure :: "ngap_out \<Rightarrow> bool" where
  "is_handover_failure (HandoverFailure a c) = True"
| "is_handover_failure _ = False"


section \<open>Running the common statements\<close>

lemma store_simps [eff_simps]:
  "on_gnb g f w = (Inr (), w\<lparr>w_gnb := (w_gnb w)(g := f (w_gnb w g))\<rparr>)"
  "on_ue u h w = (Inr (), w\<lparr>w_ue := (w_ue w)(u := h (w_ue w u))\<rparr>)"
  "on_man k w = (Inr (), w\<lparr>w_man := k (w_man w)\<rparr>)"
  "with_gnb g fg w = fg (w_gnb w g) w"
  "with_ue u fu w = fu (w_ue w u) w"
  by (simp_all add: on_gnb_def on_ue_def on_man_def with_gnb_def with_ue_def eff_simps)

lemma eseq_gnb [eff_simps]:
  "eseq (on_gnb g f) n w = n (w\<lparr>w_gnb := (w_gnb w)(g := f (w_gnb w g))\<rparr>)"
  "eseq (on_ue u h) n w = n (w\<lparr>w_ue := (w_ue w)(u := h (w_ue w u))\<rparr>)"
  "eseq (on_man k) n w = n (w\<lparr>w_man := k (w_man w)\<rparr>)"
  by (simp_all add: eseq_case store_simps)

definition traced :: "'m fsm_env \<Rightarrow> ngap_out \<Rightarrow> string \<Rightarrow> int \<Rightarrow> int \<Rightarrow> gnb \<Rightarrow> gnb" where
  \<comment> \<open>what \<open>trace_tx\<close> does to the base station\<close>
  "traced E m name proc now b = (if \<not> gn_tracing b then b
     else b\<lparr>gn_trace := ring_append 200 150 \<lparr>te_dir = TX, te_time = now, te_proc = proc, te_type = name,
            te_category = None, te_size = length (fe_ngap E m), te_head = take 64 (fe_ngap E m)\<rparr> (gn_trace b)\<rparr>)"

definition sent_with :: "'m fsm_env \<Rightarrow> ngap_out \<Rightarrow> string \<Rightarrow> int \<Rightarrow> int option \<Rightarrow> int \<Rightarrow> gnb \<Rightarrow> gnb" where
  "sent_with E m name proc r now b = (traced E m name proc now b)\<lparr>gn_sent := gn_sent b @ [(m, clamp_stream r b)]\<rparr>"

lemma traced_simps [simp]:
  "gn_sent (traced E m n p t b) = gn_sent b" "gn_link (traced E m n p t b) = gn_link b"
  "gn_streams (traced E m n p t b) = gn_streams b" "gn_state (traced E m n p t b) = gn_state b"
  "gn_ues (traced E m n p t b) = gn_ues b" "gn_pending (traced E m n p t b) = gn_pending b"
  "gn_ho_context (traced E m n p t b) = gn_ho_context b" "gn_gtpu (traced E m n p t b) = gn_gtpu b"
  "gn_ran_counter (traced E m n p t b) = gn_ran_counter b"
  by (simp_all add: traced_def Let_def)

lemma traced_stream [simp]: "stream_for_ue r (traced E m n p t b) = stream_for_ue r b"
  by (simp add: stream_for_ue_def Let_def split: option.split)

lemma trace_run [eff_simps]:
  "trace_tx E g m n p w = (Inr (), w\<lparr>w_gnb := (w_gnb w)(g := traced E m n p (w_now w) (w_gnb w g))\<rparr>)"
  by (simp add: trace_tx_def eff_simps traced_def Let_def)

lemma sent_with_simps [simp]:
  "gn_sent (sent_with E m n p r t b) = gn_sent b @ [(m, clamp_stream r b)]" "gn_link (sent_with E m n p r t b) = gn_link b"
  "gn_state (sent_with E m n p r t b) = gn_state b" "gn_ues (sent_with E m n p r t b) = gn_ues b"
  "gn_pending (sent_with E m n p r t b) = gn_pending b" "gn_ho_context (sent_with E m n p r t b) = gn_ho_context b"
  "gn_gtpu (sent_with E m n p r t b) = gn_gtpu b" "gn_ran_counter (sent_with E m n p r t b) = gn_ran_counter b"
  by (simp_all add: sent_with_def)

lemma emit_up:
  "gn_link (w_gnb w g) = None \<Longrightarrow>
   emit E g m n p r w = (Inr (), w\<lparr>w_gnb := (w_gnb w)(g := sent_with E m n p r (w_now w) (w_gnb w g))\<rparr>)"
  by (simp add: emit_def sctp_send_def eff_simps eseq_case sent_with_def clamp_stream_def)

lemma emit_down:
  "gn_link (w_gnb w g) = Some why \<Longrightarrow>
   emit E g m n p r w = (Inl (Raised ''ConnectionError'' why), w\<lparr>w_gnb := (w_gnb w)(g := traced E m n p (w_now w) (w_gnb w g))\<rparr>)"
  by (simp add: emit_def sctp_send_def eff_simps eseq_case)

section \<open>The answer to a session setup\<close>

text \<open>Whether a base station can still answer.\<close>

definition up :: "gnb \<Rightarrow> bool" where
  "up b \<longleftrightarrow> gn_state b \<noteq> IDLE \<and> gn_state b \<noteq> GNB_ERROR \<and> gn_link b = None"

definition answer_world :: "'m fsm_env \<Rightarrow> nat \<Rightarrow> ngap_out \<Rightarrow> string \<Rightarrow> int option \<Rightarrow> world \<Rightarrow> world" where
  "answer_world E g m n r w = w\<lparr>w_gnb := (w_gnb w)(g := sent_with E m n 29 r (w_now w) (w_gnb w g))\<rparr>"

lemma success_up: "up (w_gnb w g) \<Longrightarrow> send_success E g c w =
    (Inr (), answer_world E g (SessionSetupResponse (sx_amf c) (sx_ran c) (sx_psi c) (sx_local c) (sx_ip c))
       ''PDUSessionResourceSetupResponse'' (sx_ran c) w)"
  by (simp add: send_success_def if_connected_def quietly_def eff_simps up_def emit_up answer_world_def)

lemma failure_up: "up (w_gnb w g) \<Longrightarrow> send_failure E g c cause w =
    (Inr (), answer_world E g (SessionSetupFailed (sx_amf c) (sx_ran c) (sx_psi c) cause)
       ''PDUSessionResourceSetupResponse(failed)'' (sx_ran c) w)"
  by (simp add: send_failure_def if_connected_def quietly_def eff_simps up_def emit_up answer_world_def)

lemma answer_sent [simp]:
  "gn_sent (w_gnb (answer_world E g m n r w) g) = gn_sent (w_gnb w g) @ [(m, clamp_stream r (w_gnb w g))]"
  "h \<noteq> g \<Longrightarrow> w_gnb (answer_world E g m n r w) h = w_gnb w h" "w_man (answer_world E g m n r w) = w_man w"
  "w_ue (answer_world E g m n r w) = w_ue w" "w_jobs (answer_world E g m n r w) = w_jobs w"
  by (simp_all add: answer_world_def)

lemma run_tunnel_job:
  assumes "up (w_gnb w g)" "fe_tun E (sx_local c) = (r1, r2)"
    and "create_tunnel r1 r2 (sim_imsi (fu_sim (w_ue w u))) (case ip of None \<Rightarrow> ''None'' | Some i \<Rightarrow> i)
           (sx_local c) remote upf rules (w_man w) = (name, m')"
  shows "run_job E (TunnelJob g u c remote upf ip rules) w = (Inr (), case name of
     None \<Rightarrow> answer_world E g (SessionSetupFailed (sx_amf c) (sx_ran c) (sx_psi c) UNAVAILABLE)
        ''PDUSessionResourceSetupResponse(failed)'' (sx_ran c) (w\<lparr>w_man := m'\<rparr>)
   | Some tun \<Rightarrow> answer_world E g (SessionSetupResponse (sx_amf c) (sx_ran c) (sx_psi c) (sx_local c) (sx_ip c))
        ''PDUSessionResourceSetupResponse'' (sx_ran c)
        (snd (update_session u (sx_psi c) (\<lambda>s. s\<lparr>se_tun := Some tun, se_teid := Some (sx_local c)\<rparr>) (w\<lparr>w_man := m'\<rparr>))))"
proof -
  have s: "gn_state (w_gnb w g) \<notin> {IDLE, GNB_ERROR}" using assms(1) by (auto simp: up_def)
  show ?thesis
    using assms s
    by (cases name) (simp_all add: run_job_def quietly_def build_tunnel_then_respond_def if_connected_def eff_simps eseq_case
        update_session_def failure_up success_up)
qed

lemma create_result:
  assumes "create_tunnel r1 r2 imsi ip l rm peer q m = (name, m')"
  shows "if gm_available m \<and> obtain_fd r1 r2 \<noteq> None
     then name = Some (tun_name_of imsi) \<and> (\<exists>t. dict_get (gm_tunnels m') l = Some t \<and> tn_imsi t = imsi \<and> tn_remote t = rm \<and>
       tn_upf t = peer \<and> tn_rules t = q \<and> tn_name t = tun_name_of imsi)
     else name = None \<and> (gm_available m \<and> dict_ok (gm_tunnels m) \<longrightarrow> imsi \<notin> tn_imsi ` ran (dict_get (gm_tunnels m')))"
  using assms stale_gone [of m imsi]
  by (auto simp: create_tunnel_def Let_def ran_def split: if_splits option.splits)

definition same_answer :: "setup_ctx \<Rightarrow> ngap_out \<Rightarrow> bool" where
  \<comment> \<open>an answer, positive or negative, for the identifiers of the request\<close>
  "same_answer c m \<longleftrightarrow> m = SessionSetupResponse (sx_amf c) (sx_ran c) (sx_psi c) (sx_local c) (sx_ip c) \<or>
     (\<exists>cause. m = SessionSetupFailed (sx_amf c) (sx_ran c) (sx_psi c) cause)"

text \<open>
  C2: the worker of the tunnel manager answers a session setup according to what it built.  If the
  base station is down, the job leaves nothing behind.  Otherwise, with a working association, exactly
  one message is sent, with the identifiers of the request: the positive answer if and only if the
  manager is available and the device was obtained, and then the tunnel to the given user plane
  function is in the table under the announced endpoint and the session records it; the negative
  answer otherwise, and then the subscriber has no tunnel left.\<close>

theorem session_setup_answered:
  assumes "w_jobs w = TunnelJob g u c remote upf ip rules # js" "gn_link (w_gnb w g) = None" "dict_ok (gm_tunnels (w_man w))"
  shows "let w' = snd (run_next_job E w); imsi = sim_imsi (fu_sim (w_ue w u)); b = w_gnb w g in
     if gn_state b \<in> {IDLE, GNB_ERROR} then w' = w\<lparr>w_jobs := js\<rparr>
     else w_jobs w' = js \<and> (\<forall>h. h \<noteq> g \<longrightarrow> w_gnb w' h = w_gnb w h) \<and>
       (if gm_available (w_man w) \<and> obtain_fd (fst (fe_tun E (sx_local c))) (snd (fe_tun E (sx_local c))) \<noteq> None
        then gn_sent (w_gnb w' g) = gn_sent b @ [(SessionSetupResponse (sx_amf c) (sx_ran c) (sx_psi c) (sx_local c) (sx_ip c), clamp_stream (sx_ran c) b)] \<and>
          (\<exists>t. dict_get (gm_tunnels (w_man w')) (sx_local c) = Some t \<and> tn_imsi t = imsi \<and> tn_remote t = remote \<and> tn_upf t = upf \<and> tn_rules t = rules) \<and>
          (\<forall>s. dict_get (fu_sessions (w_ue w u)) (sx_psi c) = Some s \<longrightarrow>
             dict_get (fu_sessions (w_ue w' u)) (sx_psi c) = Some (s\<lparr>se_tun := Some (tun_name_of imsi), se_teid := Some (sx_local c)\<rparr>))
        else gn_sent (w_gnb w' g) = gn_sent b @ [(SessionSetupFailed (sx_amf c) (sx_ran c) (sx_psi c) UNAVAILABLE, clamp_stream (sx_ran c) b)] \<and>
          w_ue w' = w_ue w \<and> (gm_available (w_man w) \<longrightarrow> imsi \<notin> tn_imsi ` ran (dict_get (gm_tunnels (w_man w')))))"
proof (cases "gn_state (w_gnb w g) \<in> {IDLE, GNB_ERROR}")
  case True
  then show ?thesis
    using assms(1) by (simp add: run_next_job_def run_job_def quietly_def build_tunnel_then_respond_def if_connected_def eff_simps)
next
  case False
  define w1 where "w1 = w\<lparr>w_jobs := js\<rparr>"
  have up1: "up (w_gnb w1 g)" using False assms(2) by (simp add: up_def w1_def)
  obtain r1 r2 where f: "fe_tun E (sx_local c) = (r1, r2)" by fastforce
  obtain name m' where cr: "create_tunnel r1 r2 (sim_imsi (fu_sim (w_ue w1 u))) (case ip of None \<Rightarrow> ''None'' | Some i \<Rightarrow> i)
           (sx_local c) remote upf rules (w_man w1) = (name, m')" by fastforce
  have run: "run_next_job E w = run_job E (TunnelJob g u c remote upf ip rules) w1"
    using assms(1) by (simp add: run_next_job_def eff_simps w1_def)
  note r = create_result [OF cr]
  show ?thesis
  proof (cases "gm_available (w_man w) \<and> obtain_fd r1 r2 \<noteq> None")
    case True
    with r have n: "name = Some (tun_name_of (sim_imsi (fu_sim (w_ue w u))))" by (simp add: w1_def)
    show ?thesis
      using False True r f run run_tunnel_job [OF up1 f cr]
      by (auto simp: n w1_def Let_def update_session_def eff_simps split: option.split)
  next
    case no: False
    with r have n: "name = None" by (auto simp: w1_def)
    show ?thesis
      using False no r f run run_tunnel_job [OF up1 f cr] assms(3)
      by (auto simp: n w1_def Let_def)
  qed
qed

fun job_ctx :: "job \<Rightarrow> nat \<times> setup_ctx" where
  "job_ctx (FailJob g c cause) = (g, c)"
| "job_ctx (TunnelJob g u c remote upf ip rules) = (g, c)"

definition ctx_of :: "int \<Rightarrow> pending \<Rightarrow> gnb \<Rightarrow> setup_ctx" where
  "ctx_of psi p b = \<lparr>sx_psi = psi, sx_amf = pd_amf p, sx_ran = pd_ran p, sx_local = pd_local p, sx_ip = own_ip b\<rparr>"

lemma accept_none: "dict_get (gn_pending (w_gnb w g)) psi = None \<Longrightarrow> on_pdu_session_accepted E g u psi ip w = (Inr (), w)"
  by (simp add: on_pdu_session_accepted_def eff_simps)

definition taken :: "nat \<Rightarrow> int \<Rightarrow> world \<Rightarrow> world" where
  "taken g psi w = w\<lparr>w_gnb := (w_gnb w)(g := (w_gnb w g)\<lparr>gn_pending := dict_del psi (gn_pending (w_gnb w g))\<rparr>)\<rparr>"

definition accept_answers :: "nat \<Rightarrow> setup_ctx \<Rightarrow> world \<Rightarrow> world \<Rightarrow> bool" where
  \<comment> \<open>one answer is sent or will be given by one job, and nothing else happens\<close>
  "accept_answers g c w w' \<longleftrightarrow> w_ue w' = w_ue w \<and> w_man w' = w_man w \<and> (\<forall>h. h \<noteq> g \<longrightarrow> w_gnb w' h = w_gnb w h) \<and>
     gn_pending (w_gnb w' g) = gn_pending (w_gnb w g) \<and>
     ((\<exists>j. w_jobs w' = w_jobs w @ [j] \<and> job_ctx j = (g, c) \<and> gn_sent (w_gnb w' g) = gn_sent (w_gnb w g)) \<or>
      (\<exists>m s. w_jobs w' = w_jobs w \<and> same_answer c m \<and> gn_sent (w_gnb w' g) = gn_sent (w_gnb w g) @ [(m, s)]))"

lemma submit_answers: "job_ctx j = (g, c) \<Longrightarrow> accept_answers g c w (snd (submit_setup j w))"
  by (auto simp: accept_answers_def submit_setup_def eff_simps)

lemma success_answers: "up (w_gnb w g) \<Longrightarrow> accept_answers g c w (snd (send_success E g c w))"
  by (auto simp: success_up accept_answers_def same_answer_def) (simp add: answer_world_def)

lemma failure_answers: "up (w_gnb w g) \<Longrightarrow> accept_answers g c w (snd (submit_failure E g c w))"
  by (auto simp: submit_failure_def with_gnb_def ewith_def submit_answers)
     (auto simp: failure_up accept_answers_def same_answer_def answer_world_def)

lemma accept_run:
  assumes "dict_get (gn_pending (w_gnb w g)) psi = Some p" "up (w_gnb w g)"
  shows "accept_answers g (ctx_of psi p (w_gnb w g)) (taken g psi w) (snd (on_pdu_session_accepted E g u psi ip w))"
proof -
  let ?c = "ctx_of psi p (w_gnb w g)" and ?w = "taken g psi w"
  have u: "up (w_gnb ?w g)" using assms(2) by (simp add: up_def taken_def)
  note facts = success_answers [OF u, of ?c E] failure_answers [OF u, of ?c E]
    submit_answers [of "TunnelJob g u ?c r n ip f" g ?c ?w for r n f, simplified]
  have m: "w_man w = w_man ?w" by (simp add: taken_def)
  show ?thesis
    using assms(1) facts
    by (auto simp: on_pdu_session_accepted_def with_gnb_def with_ue_def ewith_def on_gnb_def eseq_upd taken_def [symmetric] Let_def
        ctx_of_def [symmetric] own_ip_def [symmetric] split: option.split)
qed

text \<open>
  C16: an accepted session is answered exactly once.  The pending entry is taken out, and either one
  answer with the identifiers of the request is sent or one job that will give it is queued, never
  both; nothing else changes, and a second acceptance of the same session, as after a retransmission,
  does nothing at all.\<close>

theorem accepted_session_answered_once:
  assumes "dict_get (gn_pending (w_gnb w g)) psi = Some p" "up (w_gnb w g)"
  shows "let w' = snd (on_pdu_session_accepted E g u psi ip w); c = ctx_of psi p (w_gnb w g) in
     dict_get (gn_pending (w_gnb w' g)) = (dict_get (gn_pending (w_gnb w g)))(psi := None) \<and>
     w_ue w' = w_ue w \<and> w_man w' = w_man w \<and> (\<forall>h. h \<noteq> g \<longrightarrow> w_gnb w' h = w_gnb w h) \<and>
     ((\<exists>j. w_jobs w' = w_jobs w @ [j] \<and> job_ctx j = (g, c) \<and> gn_sent (w_gnb w' g) = gn_sent (w_gnb w g)) \<or>
      (\<exists>m s. w_jobs w' = w_jobs w \<and> same_answer c m \<and> gn_sent (w_gnb w' g) = gn_sent (w_gnb w g) @ [(m, s)])) \<and>
     on_pdu_session_accepted E g u psi ip' w' = (Inr (), w')"
proof -
  have "dict_get (gn_pending (w_gnb (snd (on_pdu_session_accepted E g u psi ip w)) g)) psi = None"
    using accept_run [OF assms, of E u ip] by (auto simp: accept_answers_def taken_def)
  note again = accept_none [OF this, of E u ip']
  show ?thesis
    using accept_run [OF assms, of E u ip] again by (simp add: Let_def accept_answers_def taken_def)
qed

section \<open>Context release\<close>



section \<open>Handover\<close>

definition calm :: "nat \<Rightarrow> world \<Rightarrow> world \<Rightarrow> bool" where
  \<comment> \<open>what moving a session leaves as it is\<close>
  "calm u w w' \<longleftrightarrow> (\<forall>g. (gn_sent (w_gnb w' g), gn_link (w_gnb w' g), gn_ues (w_gnb w' g), gn_ho_context (w_gnb w' g), gn_cell (w_gnb w' g), gn_streams (w_gnb w' g))
        = (gn_sent (w_gnb w g), gn_link (w_gnb w g), gn_ues (w_gnb w g), gn_ho_context (w_gnb w g), gn_cell (w_gnb w g), gn_streams (w_gnb w g))) \<and>
     (\<forall>g q. dict_get (gn_pending (w_gnb w g)) q = None \<longrightarrow> dict_get (gn_pending (w_gnb w' g)) q = None) \<and>
     (fu_ran (w_ue w' u), fu_amf (w_ue w' u), fu_gnb (w_ue w' u), fu_state (w_ue w' u))
       = (fu_ran (w_ue w u), fu_amf (w_ue w u), fu_gnb (w_ue w u), fu_state (w_ue w u)) \<and>
     dom (dict_get (fu_sessions (w_ue w' u))) = dom (dict_get (fu_sessions (w_ue w u)))"

lemma calm_trans: "calm u a b \<Longrightarrow> calm u b c \<Longrightarrow> calm u a c"
  by (simp add: calm_def)

lemma move_session_run:
  assumes "psi \<in> dom (dict_get (fu_sessions (w_ue w u)))"
  shows "\<exists>w'. move_session E g u psi w = (Inr (), w') \<and> calm u w w' \<and> dict_get (gn_pending (w_gnb w' g)) psi = None"
proof (cases "dict_get (gn_pending (w_gnb w g)) psi")
  case None
  then show ?thesis by (simp add: move_session_def eff_simps calm_def)
next
  case (Some p)
  obtain s where s: "dict_get (fu_sessions (w_ue w u)) psi = Some s" using assms by blast
  obtain r1 r2 where f: "fe_tun E (pd_local p) = (r1, r2)" by fastforce
  obtain name m' where c: "create_tunnel r1 r2 (sim_imsi (fu_sim (w_ue w u))) (case se_ip s of None \<Rightarrow> ''None'' | Some i \<Rightarrow> i)
      (pd_local p) (case pd_remote p of None \<Rightarrow> 0 | Some r \<Rightarrow> r) (case pd_upf p of None \<Rightarrow> [] | Some a \<Rightarrow> a)
      (se_flows s) (w_man w) = (name, m')" by fastforce
  show ?thesis
    using Some s f c
    by (cases name) (auto simp: move_session_def eff_simps update_session_def calm_def)
qed

lemma move_sessions_run:
  assumes "set psis \<subseteq> dom (dict_get (fu_sessions (w_ue w u)))"
  shows "\<exists>w'. efor psis (move_session E g u) w = (Inr (), w') \<and> calm u w w' \<and> (\<forall>psi \<in> set psis. dict_get (gn_pending (w_gnb w' g)) psi = None)"
  using assms
proof (induction psis arbitrary: w)
  case (Cons p psis)
  obtain w1 where m: "move_session E g u p w = (Inr (), w1)" "calm u w w1" "dict_get (gn_pending (w_gnb w1 g)) p = None"
    using move_session_run [of p w u E g] Cons.prems by auto
  have "set psis \<subseteq> dom (dict_get (fu_sessions (w_ue w1 u)))" using Cons.prems m(2) by (simp add: calm_def)
  from Cons.IH [OF this] obtain w2 where w2: "efor psis (move_session E g u) w1 = (Inr (), w2)" "calm u w1 w2"
    "\<forall>psi \<in> set psis. dict_get (gn_pending (w_gnb w2 g)) psi = None" by blast
  have "dict_get (gn_pending (w_gnb w2 g)) p = None" using m(3) w2(2) by (simp add: calm_def)
  with m w2 calm_trans [OF m(2) w2(2)] show ?case by (simp add: eff_simps)
qed (simp add: eff_simps calm_def)

lemma destroys_run: "\<exists>w'. destroy_session_tunnels g u w = (Inr (), w') \<and> calm u w w'"
  by (cases "gn_gtpu (w_gnb w g)") (simp_all add: destroy_session_tunnels_def eff_simps calm_def)


section \<open>Examples\<close>

definition example_env :: "plain_msg fsm_env" where
  "example_env = \<lparr>fe_lib = null_lib, fe_bytes = pm_inner, fe_parse = \<lambda>b. None,
     fe_inner = \<lambda>b. \<lparr>nm_type = None, nm_rand = None, nm_ksi = None, nm_abba = None, nm_algo = None, nm_guti = None,
       nm_cause = None, nm_payload = None\<rparr>,
     fe_gsm = \<lambda>b. None, fe_build = \<lambda>m. [1], fe_aes = \<lambda>k b. b, fe_hmac = \<lambda>k b. b, fe_ngap = \<lambda>m. [0],
     fe_decode = \<lambda>b. Inl KeyError, fe_tun = \<lambda>n. (TunFd n, TunOsError), fe_upf = \<lambda>b. None, fe_tscai = \<lambda>b. Inr [],
     fe_tscai_modify = \<lambda>v. Inr [], fe_pmic = \<lambda>v. None\<rparr>"

definition example_cell :: cell where
  "example_cell = \<lparr>ce_id = 1, ce_name = ''gNB-01'', ce_mcc = ''001'', ce_mnc = ''01'', ce_tac = ''000001''\<rparr>"

definition example_sim :: sim where
  "example_sim = \<lparr>sim_imsi = ''001010000000001'', sim_k = zeros 16, sim_opc = zeros 16, sim_op_type = ''OPC'', sim_sqn = SqnInt 0\<rparr>"

definition example_gnb :: gnb where
  "example_gnb = (fresh_gnb example_cell True)\<lparr>gn_state := READY, gn_link := None, gn_streams := 4,
     gn_ues := [(3, 0)], gn_ran_counter := 3, gn_tracing := False\<rparr>"

definition example_world :: world where
  "example_world = (fsm_start (\<lambda>g. example_cell) (\<lambda>u. example_sim) (\<lambda>u. Some 0) True True)\<lparr>w_gnb := \<lambda>g. example_gnb,
     w_ue := (\<lambda>u. (new_fsm_ue example_sim (Some 0))\<lparr>fu_ran := Some 3, fu_amf := Some 5\<rparr>)\<rparr>"

definition example_ctx :: setup_ctx where
  "example_ctx = \<lparr>sx_psi = 1, sx_amf = Some 5, sx_ran = Some 3, sx_local = 65537, sx_ip = ''127.0.0.1''\<rparr>"

definition example_pending :: pending where
  "example_pending = \<lparr>pd_amf = Some 5, pd_ran = Some 3, pd_local = 65537, pd_remote = Some 7, pd_upf = Some ''10.0.0.9''\<rparr>"

lemmas example_defs = example_env_def example_cell_def example_gnb_def example_world_def example_ctx_def example_pending_def
  fresh_gnb_def fsm_start_def new_fsm_ue_def new_manager_def


theorem session_setup_answered_witness:
  "let w = example_world\<lparr>w_jobs := [TunnelJob 0 0 example_ctx 7 ''10.0.0.9'' (Some ''10.1.0.2'') []]\<rparr>;
       w' = snd (run_next_job example_env w)
   in gn_sent (w_gnb w' 0) = [(SessionSetupResponse (Some 5) (Some 3) 1 65537 ''127.0.0.1'', 1)] \<and>
      (\<exists>t. dict_get (gm_tunnels (w_man w')) 65537 = Some t \<and> tn_remote t = 7)"
  using session_setup_answered [of "example_world\<lparr>w_jobs := [TunnelJob 0 0 example_ctx 7 ''10.0.0.9'' (Some ''10.1.0.2'') []]\<rparr>"
      0 0 example_ctx 7 "''10.0.0.9''" "Some ''10.1.0.2''" "[]" "[]" example_env]
  by (auto simp: example_defs obtain_fd_def clamp_stream_def stream_for_ue_def Let_def)

theorem accepted_session_answered_once_witness:
  "let w = example_world\<lparr>w_gnb := \<lambda>g. example_gnb\<lparr>gn_pending := [(1, example_pending)]\<rparr>\<rparr>;
       w' = snd (on_pdu_session_accepted example_env 0 0 1 (Some ''10.1.0.2'') w)
   in on_pdu_session_accepted example_env 0 0 1 (Some ''10.1.0.2'') w' = (Inr (), w') \<and> dict_get (gn_pending (w_gnb w' 0)) 1 = None"
  using accepted_session_answered_once [of "example_world\<lparr>w_gnb := \<lambda>g. example_gnb\<lparr>gn_pending := [(1, example_pending)]\<rparr>\<rparr>" 0 1
      example_pending example_env 0 "Some ''10.1.0.2''" "Some ''10.1.0.2''"]
  by (simp add: Let_def up_def) (simp add: example_defs)

definition example_ies :: ies where
  "example_ies = \<lparr>ie_amf = Some 5, ie_ran = Some 3, ie_nas = None, ie_setup = [], ie_modify = [], ie_handover = [], ie_cause = None,
     ie_container = None, ie_id_pair = None, ie_paging = None, ie_tais = []\<rparr>"



section \<open>Observed behaviour\<close>

text \<open>
  Disconnecting one base station drops the queued session setups of all of them: afterwards the queue
  is empty, the other base station has sent nothing, and its worker has nothing left to answer.\<close>

theorem disconnect_cancels_others:
  assumes "gn_gtpu (w_gnb w g)" "h \<noteq> g" "job_ctx j = (h, c)" "w_jobs w = [j]"
  shows "let w' = snd (disconnect_gnb g w) in w_gnb w' h = w_gnb w h \<and> run_next_job E w' = (Inr (), w')"
proof -
  have e: "\<exists>w'. efor us (destroy_session_tunnels g) w = (Inr (), w') \<and> w_gnb w' = w_gnb w \<and> w_jobs w' = w_jobs w" for us w
  proof (induction us arbitrary: w)
    case (Cons u us)
    have "\<exists>w1. destroy_session_tunnels g u w = (Inr (), w1) \<and> w_gnb w1 = w_gnb w \<and> w_jobs w1 = w_jobs w"
      by (cases "gn_gtpu (w_gnb w g)") (simp_all add: destroy_session_tunnels_def eff_simps)
    then obtain w1 where "destroy_session_tunnels g u w = (Inr (), w1)" "w_gnb w1 = w_gnb w" "w_jobs w1 = w_jobs w" by blast
    with Cons.IH [of w1] show ?case by (simp add: eff_simps)
  qed (simp add: eff_simps)
  let ?down = "with_gnb g (\<lambda>b. if gn_state b \<in> {IDLE, GNB_ERROR} then eskip else set_gnb_state g IDLE)"
  have "\<exists>wa. ?down w = (Inr (), wa) \<and> w_gnb wa h = w_gnb w h \<and> gn_gtpu (w_gnb wa g)"
    using assms(1,2) by (cases "gn_state (w_gnb w g) \<in> {IDLE, GNB_ERROR}") (simp_all add: eff_simps set_gnb_state_def)
  then obtain wa where wa: "?down w = (Inr (), wa)" "w_gnb wa h = w_gnb w h" "gn_gtpu (w_gnb wa g)" by blast
  define w0 where "w0 = wa\<lparr>w_gnb := (w_gnb wa)(g := (w_gnb wa g)\<lparr>gn_stop := True\<rparr>)\<rparr>"
  have w0: "w_gnb w0 h = w_gnb w h" "gn_gtpu (w_gnb w0 g)" using wa assms(2) by (simp_all add: w0_def)
  obtain w1 where w1: "efor (map snd (gn_ues (w_gnb w0 g))) (destroy_session_tunnels g) (w0\<lparr>w_jobs := []\<rparr>) = (Inr (), w1)"
      "w_gnb w1 = w_gnb w0" "w_jobs w1 = []" using e [of "map snd (gn_ues (w_gnb w0 g))" "w0\<lparr>w_jobs := []\<rparr>"] by auto
  have "disconnect_gnb g w = eseq (with_gnb g (\<lambda>b. if \<not> gn_gtpu b then eskip
        else eseq cancel_pending_setups (efor (map snd (gn_ues b)) (destroy_session_tunnels g))))
     (eseq (on_gnb g (\<lambda>b. if QUEUE_SIZE \<le> length (gn_queue b) then b else b\<lparr>gn_queue := gn_queue b @ [None]\<rparr>))
     (on_gnb g (\<lambda>b. b\<lparr>gn_link := Some ''SCTP not connected''\<rparr>))) w0"
    unfolding disconnect_gnb_def eseq_simps(1) [of ?down, OF wa(1)] by (simp only: eseq_gnb(1) w0_def)
  then show ?thesis
    using w0 w1 assms(2) by (simp add: eff_simps eseq_case cancel_pending_setups_def run_next_job_def Let_def)
qed

lemma disconnect_run:
  assumes "gn_state (w_gnb w g) = READY" "\<not> gn_gtpu (w_gnb w g)" "gn_queue (w_gnb w g) = []"
  shows "disconnect_gnb g w = (Inr (), w\<lparr>w_gnb := (w_gnb w)(g := (w_gnb w g)\<lparr>gn_state := IDLE, gn_stop := True,
     gn_queue := [None], gn_link := Some ''SCTP not connected''\<rparr>)\<rparr>)"
  using assms by (simp add: disconnect_gnb_def set_gnb_state_def eff_simps eseq_case QUEUE_SIZE_def)

lemma handler_runs:
  "gn_worker (w_gnb w g) = AtTop \<Longrightarrow> handler_step E g w =
     (Inr (), w\<lparr>w_gnb := (w_gnb w)(g := (w_gnb w g)\<lparr>gn_worker := if gn_stop (w_gnb w g) then NoWorker else Waiting\<rparr>)\<rparr>)"
  "gn_worker (w_gnb w g) = Waiting \<Longrightarrow> gn_queue (w_gnb w g) = None # q \<Longrightarrow> handler_step E g w =
     (Inr (), w\<lparr>w_gnb := (w_gnb w)(g := (w_gnb w g)\<lparr>gn_queue := q, gn_worker := NoWorker\<rparr>)\<rparr>)"
  "gn_worker (w_gnb w g) = NoWorker \<Longrightarrow> handler_step E g w = (Inr (), w)"
  by (simp_all add: handler_step_def set_worker_def eff_simps)

lemma connect_run:
  assumes "gn_state (w_gnb w g) = IDLE"
  shows "\<exists>b. connect_gnb E g (Some (ip, n)) w = (Inr True, w\<lparr>w_gnb := (w_gnb w)(g := b)\<rparr>) \<and> gn_state b = NG_SETUP_SENT \<and>
     gn_link b = None \<and> \<not> gn_stop b \<and> gn_worker b = AtTop \<and> gn_queue b = gn_queue (w_gnb w g)"
proof -
  define b where "b = traced E (NgSetupRequest (gn_cell (w_gnb w g))) ''NGSetupRequest'' 21 (w_now w)
    ((w_gnb w g)\<lparr>gn_ip := Some ip, gn_streams := max n 1, gn_link := None, gn_stop := False, gn_worker := AtTop, gn_state := NG_SETUP_SENT\<rparr>)"
  have "gn_stop b = False" "gn_worker b = AtTop" "gn_queue b = gn_queue (w_gnb w g)" by (simp_all add: b_def traced_def)
  with assms show ?thesis
    by (intro exI [of _ "b\<lparr>gn_sent := gn_sent (w_gnb w g) @ [(NgSetupRequest (gn_cell (w_gnb w g)), 0)]\<rparr>"])
       (simp add: connect_gnb_def set_gnb_state_def sctp_send_def eff_simps eseq_case b_def)
qed

text \<open>
  A base station that is disconnected while its handler thread is at work and connected again: the
  thread ends at the check and leaves its end mark in the queue, the new thread takes the mark and ends
  too, and from then on no session setup is handled.\<close>

theorem stale_end_mark:
  assumes "gn_worker (w_gnb w g) = AtTop" "gn_queue (w_gnb w g) = []" "gn_state (w_gnb w g) = READY" "\<not> gn_gtpu (w_gnb w g)"
  shows "let w' = foldl (exec E) w [Disconnect g, Handle g, Connect g (Some (ip, n)), Handle g, Handle g] in
     gn_worker (w_gnb w' g) = NoWorker \<and> gn_state (w_gnb w' g) = NG_SETUP_SENT \<and> gn_link (w_gnb w' g) = None \<and>
     exec E w' (Handle g) = w'"
proof -
  define b0 where "b0 = (w_gnb w g)\<lparr>gn_state := IDLE, gn_stop := True, gn_queue := [None],
     gn_link := Some ''SCTP not connected'', gn_worker := NoWorker\<rparr>"
  define w2 where "w2 = w\<lparr>w_gnb := (w_gnb w)(g := b0)\<rparr>"
  have w2: "exec E (exec E w (Disconnect g)) (Handle g) = w2"
    using assms by (simp add: disconnect_run handler_runs(1) w2_def b0_def)
  obtain b where b: "connect_gnb E g (Some (ip, n)) w2 = (Inr True, w2\<lparr>w_gnb := (w_gnb w2)(g := b)\<rparr>)"
    "gn_state b = NG_SETUP_SENT" "gn_link b = None" "\<not> gn_stop b" "gn_worker b = AtTop" "gn_queue b = [None]"
    using connect_run [of w2 g E ip n] by (auto simp: w2_def b0_def)
  have "exec E (exec E (exec E w2 (Connect g (Some (ip, n)))) (Handle g)) (Handle g) =
      w2\<lparr>w_gnb := (w_gnb w2)(g := b\<lparr>gn_queue := [], gn_worker := NoWorker\<rparr>)\<rparr>"
    using b by (simp add: handler_runs)
  with w2 b show ?thesis by (simp add: Let_def handler_runs(3))
qed

text \<open>
  A base station prepares for one handover at a time: a second HANDOVER REQUEST that arrives before the
  first subscriber does replaces its context, although both were acknowledged.\<close>

theorem second_handover_replaces:
  assumes "gn_link (w_gnb w g) = None" "gn_force_failure (w_gnb w g) = None" "ie_handover i = []" "ie_handover j = []"
    and "\<not> gn_tracing (w_gnb w g)"
  shows "let w1 = snd (handle_handover_request E g i w); w2 = snd (handle_handover_request E g j w1) in
     map fst (drop (length (gn_sent (w_gnb w g))) (gn_sent (w_gnb w2 g))) =
       [HandoverRequestAck (ie_amf i) (gn_ran_counter (w_gnb w g) + 1) [1] (own_ip (w_gnb w g)) [(1, gn_teid_counter (w_gnb w g) + 1)],
        HandoverRequestAck (ie_amf j) (gn_ran_counter (w_gnb w g) + 2) [1] (own_ip (w_gnb w g)) [(1, gn_teid_counter (w_gnb w g) + 2)]] \<and>
     map_option hc_ran (gn_ho_context (w_gnb w2 g)) = Some (gn_ran_counter (w_gnb w g) + 2)"
proof -
  have run: "handle_handover_request E g k v = (Inr (), v\<lparr>w_gnb := (w_gnb v)(g := (w_gnb v g)\<lparr>
       gn_ran_counter := gn_ran_counter (w_gnb v g) + 1, gn_teid_counter := gn_teid_counter (w_gnb v g) + 1,
       gn_ho_context := Some \<lparr>hc_amf = ie_amf k, hc_ran = gn_ran_counter (w_gnb v g) + 1, hc_sessions = [1],
           hc_teids = [(1, gn_teid_counter (w_gnb v g) + 1)]\<rparr>,
       gn_sent := gn_sent (w_gnb v g) @ [(HandoverRequestAck (ie_amf k) (gn_ran_counter (w_gnb v g) + 1) [1] (own_ip (w_gnb v g))
           [(1, gn_teid_counter (w_gnb v g) + 1)], clamp_stream (Some (gn_ran_counter (w_gnb v g) + 1)) (w_gnb v g))]\<rparr>)\<rparr>)"
    if "gn_link (w_gnb v g) = None" "gn_force_failure (w_gnb v g) = None" "ie_handover k = []" "\<not> gn_tracing (w_gnb v g)" for k v
    using that
    by (simp add: handle_handover_request_def next_ran_def next_teid_def ebind_def eff_simps eseq_case emit_up sent_with_def
        traced_def dict_update_def dict_set_def own_ip_def clamp_stream_def stream_for_ue_def Let_def)
  show ?thesis using assms by (simp add: run Let_def own_ip_def)
qed

text \<open>
  A HANDOVER COMMAND, or the acknowledgement of a path switch, that arrives when nobody waits for it
  ends in an exception: the guard asks whether the attribute exists, which it always does, not whether
  it holds an event.\<close>

theorem command_without_event:
  "gn_ho_command (w_gnb w g) = None \<Longrightarrow> handle_handover_command g w = (Inl NoneType, w)"
  "gn_path_switch (w_gnb w g) = None \<Longrightarrow> handle_path_switch_ack g w = (Inl NoneType, w)"
  by (simp_all add: handle_handover_command_def handle_path_switch_ack_def set_event_def eff_simps)

text \<open>The anti-bidding-down parameter of the network is stored but the key is derived with the default one.\<close>

theorem kamf_ignores_abba:
  assumes "nm_rand v = Some (rnd, autn)" "nm_ksi v = None" "nm_abba v = Some a" "a \<noteq> []"
    and "ue_authenticate (fe_aes E) (fe_hmac E) (fu_sim (w_ue w u)) rnd autn (get_snn (fu_mcc (w_ue w u)) (fu_mnc (w_ue w u))) =
       Inr (AuthOk rs kausf kseaf ck ik)"
    and "derive_kamf (fe_hmac E) kseaf (sim_imsi (fu_sim (w_ue w u))) = Inr kamf" "fu_amf (w_ue w u) = None" "fu_gnb (w_ue w u) = Some g"
  shows "nc_abba (fu_ctx (w_ue (snd (handle_auth_request E u v w)) u)) = a \<and>
     nc_kamf (fu_ctx (w_ue (snd (handle_auth_request E u v w)) u)) = Some kamf"
  using assms
  by (simp add: handle_auth_request_def set_ue_state_def on_ctx_def eff_simps eseq_case ebind_def send_nas_def via_gnb_def
      send_uplink_nas_transport_def fu_mcc_def fu_mnc_def)

text \<open>
  A session released by the network leaves its tunnel behind: the record that names the endpoint is
  gone, so neither the context release nor the disconnection finds it.\<close>

theorem released_session_keeps_tunnel:
  assumes "gm_type m = 0xC6" "gm_psi m = psi" "fu_sessions (w_ue w u) = [(psi, s)]" "se_teid s = Some t"
    and "dict_get (gm_tunnels (w_man w)) t = Some tun"
    and "gn_link (w_gnb w g) = None" "ie_id_pair i = None" "ie_amf i = Some a" "ie_ran i = Some r"
    and "dict_get (gn_ues (w_gnb w g)) r = Some u"
  shows "let w' = snd (process_gsm E u m w); w'' = snd (handle_ue_context_release E g i w') in
     dict_get (fu_sessions (w_ue w' u)) psi = None \<and> dict_get (gm_tunnels (w_man w'')) t = Some tun"
proof -
  define w' where "w' = snd (process_gsm E u m w)"
  have w': "w' = w\<lparr>w_ue := (w_ue w)(u := (w_ue w u)\<lparr>fu_sessions := dict_del psi (fu_sessions (w_ue w u))\<rparr>)\<rparr>"
    using assms(1,2) by (simp add: w'_def process_gsm_def close_session_def eff_simps)
  have e: "fu_sessions (w_ue w' u) = []" using assms(3) by (simp add: w' dict_del_def)
  have "gn_link (w_gnb w' g) = None" "dict_get (gn_ues (w_gnb w' g)) r = Some u" using assms(6,10) by (simp_all add: w')
  then have "w_man (snd (handle_ue_context_release E g i w')) = w_man w'"
    using assms(7-9) e
    by (auto simp: handle_ue_context_release_def release_ids_def release_target_def eff_simps emit_up eseq_case
        destroy_session_tunnels_def set_ue_state_def drop_ran_def session_teids_def)
  then show ?thesis using assms(5) e by (simp add: w'_def [symmetric] Let_def) (simp add: w')
qed

section \<open>Threads\<close>

lemma send_failed_runs: "fst (on_sctp_send_failed g w) = Inr ()"
  by (simp add: on_sctp_send_failed_def set_gnb_state_def eff_simps)

lemma quietly_runs: "fst (quietly m w) = Inr ()"
  by (cases "m w"; cases "fst (m w)") (auto simp: quietly_def ecatch_def eskip_def eret_def)


definition example_start :: world where
  "example_start = fsm_start (\<lambda>g. example_cell) (\<lambda>u. example_sim) (\<lambda>u. Some 0) True True"

lemma attach_ues: "gn_ues (w_gnb (exec E w (Attach g u)) g) = dict_set (gn_ran_counter (w_gnb w g) + 1) u (gn_ues (w_gnb w g))"
  "gn_ran_counter (w_gnb (exec E w (Attach g u)) g) = gn_ran_counter (w_gnb w g) + 1"
  by (simp_all add: attach_ue_def eff_simps)



end
