(* ===== verification/Spec2Isabelle.thy ===== *)
theory Spec2Isabelle
  imports Prelude Sms McxFloor Frmcs Gtpu Esp TtMgmt Dstt Eap5g Ss Security Safety AccessMobility Dpi SaCrypto Aka
    Dispatcher UeActor Ikev2 QosRules UserPlane FsmProps
begin

text \<open>
  \<^bold>\<open>What is verified.\<close>  The repository is a 5G/6G studio: a network core in Go (\<open>core/\<close>), a packet
  generator in Rust, and a tester in Python (\<open>tester/src/\<close>) that plays subscribers and base
  stations against the core.  This development models the tester's own logic: the protocol library
  \<open>tester/src/protocol/\<close>, the state machines of \<open>tester/src/statemachine/\<close>, the actors of
  \<open>tester/src/control/\<close> and the cipher toolkit \<open>tester/libs/sa_crypto/\<close>.  Paths below
  are relative to \<open>tester/src/\<close> unless they start with \<open>tester/\<close>.

  \<^bold>\<open>How the parts interact.\<close>  There are two emulators of the radio side.  In the threaded one, base
  stations and subscribers point at each other and share one tunnel manager.  The receive thread of a
  base station decodes a message and calls its handlers; a session setup is queued for the handler
  thread, which remembers the endpoints and passes the NAS message to the subscriber; the subscriber
  reads flows and options out of the accept and calls back; the tunnel is built by the worker of the
  manager, which then sends the answer.  \<open>GnbLink\<close>, \<open>UeFsm\<close> and \<open>GnbFsm\<close> put both into one store and
  make each thread an operation that may run at any time.  The manager moves the packets: uplink
  through the classifier and the encapsulation, downlink through the receiver.
  In the asynchronous emulator, a PDU from the network enters the gNB actor, whose dispatcher classifies
  it and puts it into the mailbox of the UE actor that owns its identifiers.  The UE actor parses the
  NAS message, opens its protection with the keys of the subscriber side of 5G-AKA, and answers
  through the gNB.  AKA and NAS security rest on the cipher toolkit.  The codecs (SMS, supplementary
  services, GTP-U, ESP, EAP-5G, port management) and the operator stores (floor control, railway
  services, public warning, application detection, lawful interception, access and mobility) are
  used by test cases and HTTP routes and do not depend on each other, except that the device-side
  translator runs on the port management codec.

  \<^bold>\<open>Theories.\<close>

  \<^item> \<open>Prelude\<close>: errors as values of a sum, octets, words read big-endian, dictionaries with their
    insertion order, strings and decimal numbers, and three interfaces as locales: a codec with its
    round-trip law, a machine whose operations keep an invariant, a keyed store.
  \<^item> \<open>Sms\<close> (\<open>protocol/sms_codec.py\<close>): CP, RP and TP layers, addresses, the 7-bit alphabet.
  \<^item> \<open>Ss\<close> (\<open>protocol/ss_codec.py\<close>): MMI strings and the Invoke component.
  \<^item> \<open>Gtpu\<close> (\<open>protocol/gtpu_codec.py\<close>): user-plane header and extension chain.
  \<^item> \<open>Esp\<close> (\<open>protocol/esp.py\<close>): security associations, anti-replay window, tunnel packets.
  \<^item> \<open>Eap5g\<close> (\<open>protocol/eap5g.py\<close>): EAP-5G builders and parser.
  \<^item> \<open>TtMgmt\<close> (\<open>protocol/ttmgmt.py\<close>) and \<open>Dstt\<close> (\<open>statemachine/dstt.py\<close>): the port management messages
    and the translator that executes them.
  \<^item> \<open>McxFloor\<close> (\<open>protocol/mcx_floor.py\<close>): floor and transmission control.  The participant objects are
    shared by holder, queue and dictionary, so they live in a store and the others hold references.
  \<^item> \<open>Frmcs\<close> (\<open>protocol/frmcs.py\<close>): railway emergency calls and shunting groups.
  \<^item> \<open>Safety\<close> (\<open>protocol/safety.py\<close>): public warnings, isolated operation, disaster roaming, barring.
  \<^item> \<open>Security\<close> (\<open>protocol/security.py\<close>): rule checks, rate limiter, warrants and interception.
  \<^item> \<open>AccessMobility\<close> (\<open>protocol/access_mobility.py\<close>): network sharing, interworking contexts,
    roaming, WLAN, satellite links.
  \<^item> \<open>Dpi\<close> (\<open>protocol/dpi.py\<close>): application detection rules, classifiers, detection log and usage.
  \<^item> \<open>SaCrypto\<close> (\<open>tester/libs/sa_crypto/\<close>): MILENAGE, key derivations, CMAC, EEA2/EIA2, ECIES.
  \<^item> \<open>Aka\<close> (\<open>protocol/crypto.py\<close>, \<open>protocol/nas_security.py\<close>): subscriber authentication, NAS keys,
    the security envelope with its counters.
  \<^item> \<open>Dispatcher\<close> (\<open>control/ngap/dispatcher.py\<close>, \<open>control/fsm/gnb_actor.py\<close>): routing tables, bounded
    mailboxes, the life cycle of the association.
  \<^item> \<open>UeActor\<close> (\<open>control/fsm/ue_actor.py\<close>): the registration state machine.
  \<^item> \<open>Ikev2\<close> (\<open>protocol/ikev2.py\<close>): payload chain and bodies, the encrypted payload, key derivation,
    Diffie-Hellman.
  \<^item> \<open>QosRules\<close> (\<open>statemachine/ue_fsm.py\<close>, the parsing functions): QoS rules and configuration options
    from octets and from the nested lists of the vendored codec.
  \<^item> \<open>UserPlane\<close> (\<open>protocol/gtpu.py\<close>): packet filters and classification, encapsulation, the forgiving
    receiver, the tunnel manager.
  \<^item> \<open>Effects\<close>: statements that change a state and may raise, and the frame interface.  \<open>GnbLink\<close>
    (\<open>statemachine/gnb_fsm.py\<close>, \<open>protocol/sctp.py\<close>): the store, trace, streams, sending, the answer to
    a session setup.  \<open>UeFsm\<close> (\<open>statemachine/ue_fsm.py\<close>) and \<open>GnbFsm\<close> (\<open>statemachine/gnb_fsm.py\<close>): the
    handlers and actions.  \<open>FsmFrame\<close>: what every one of them respects.  \<open>FsmProps\<close>: their properties.

  \<^bold>\<open>Correspondence.\<close>  A class is a record, its methods are functions from the record to the result and
  the record after the call; a dictionary is a list of pairs in insertion order with Python's update;
  a raise is the left value of a sum whose type names the Python exception, so a failing call keeps
  the effects it had before where the code keeps them.  Octets are 8-bit words, Python integers are
  \<open>int\<close> or \<open>nat\<close> with masks and \<open>struct.pack\<close> ranges written out.  Clocks, random draws, generated
  identifiers and encoded library messages are arguments.

  \<^bold>\<open>Lemma groups.\<close>  Each theory states its operations, then the law of each operation, then an
  invariant with its preservation by every operation (an interpretation of the step-system
  interface), then the properties.  Codecs interpret the codec interface on their own encoder
  and decoder.  \<open>Esp\<close> refines an unbounded replay specification, \<open>Frmcs\<close> an abstract call machine,
  \<open>FsmFrame\<close> proves once, for any relations that allow a short list of updates, that every handler,
  thread and action stays within them; the invariant of the store and the use of the streams are two
  interpretations.  \<open>SaCrypto\<close> relates the code's CMAC loop to the recursive definition of NIST SP 800-38B, and \<open>UeActor\<close>
  composes dispatcher messages, authentication, key derivation and the NAS envelope into one
  complete registration.

  \<^bold>\<open>Termination and fuel.\<close>  No definition uses fuel: loops over buffers recurse on the remaining octets
  with a measure, loops over collections are structural.  The key expansion of \<open>Ikev2\<close> ends because its
  block number is an octet and raises at 256; the receiver's walk over the extension chain ends
  because an extension of length zero leaves it.  The endless loops of threads are single steps.

  \<^bold>\<open>Parameters.\<close>  AES and AES-CBC, HMAC-SHA-256, the X9.63 derivation, the elliptic curves, the ASN.1 decoder, the
  NAS and NGAP message builders and parser, and what the kernel answers when a device is created are
  arguments (the record \<open>fsm_env\<close> for the state machines); their documented laws (block length, digest
  length, a computed code verifies, deciphering undoes ciphering, both sides of a key agreement get
  the same secret) are named hypotheses, each met by a concrete instance in a witness.

  \<^bold>\<open>Not modelled.\<close>  Floating-point orbit and ranging arithmetic, HTTP routes and clients, SQL, sockets,
  timing and locks of threads, log entries, test cases, the language-model engine, the core in Go and the generator in Rust, and
  the vendored libraries.  The manifest lists each part with its reason.
\<close>

end
